(* ===== verification/Prelude.thy ===== *)
theory Prelude
  imports Main "HOL-Library.Word" "HOL-Library.AList" "HOL-Library.List_Lexorder"
    "HOL-Library.Char_ord" "HOL-Library.Sublist"
begin

text \<open>
  Shared vocabulary of the development: results of fallible Go functions as sums, sequencing
  of results, association lists as Go maps, and the fact collections the component theories
  extend.

  A Go \<open>string\<close> or \<open>[]byte\<close> is a sequence of bytes, which is exactly an Isabelle
  \<open>string\<close> (a list of 8-bit characters). A Go map is an association list with distinct
  keys; the order of the list stands for the (unspecified) iteration order.
\<close>

named_theorems res_simps \<open>rewriting of sequenced results\<close>
named_theorems literals \<open>evaluation of predicates on literal strings\<close>
named_theorems inv_intros \<open>preservation of state invariants\<close>

type_synonym ('e, 'a) res = "'e + 'a"
type_synonym ('k, 'v) gomap = "('k \<times> 'v) list"

section \<open>Results\<close>

fun and_then :: "('e, 'a) res \<Rightarrow> ('a \<Rightarrow> ('e, 'b) res) \<Rightarrow> ('e, 'b) res" where
  "and_then (Inl e) f = Inl e"
| "and_then (Inr x) f = f x"

fun map_res :: "('a \<Rightarrow> 'b) \<Rightarrow> ('e, 'a) res \<Rightarrow> ('e, 'b) res" where
  "map_res f (Inl e) = Inl e"
| "map_res f (Inr x) = Inr (f x)"

fun map_err :: "('e \<Rightarrow> 'f) \<Rightarrow> ('e, 'a) res \<Rightarrow> ('f, 'a) res" where
  "map_err f (Inl e) = Inl (f e)"
| "map_err f (Inr x) = Inr x"

fun seq_res :: "('e, 'a) res list \<Rightarrow> ('e, 'a list) res" where
  "seq_res [] = Inr []"
| "seq_res (Inl e # rs) = Inl e"
| "seq_res (Inr x # rs) = map_res ((#) x) (seq_res rs)"

fun of_option :: "'e \<Rightarrow> 'a option \<Rightarrow> ('e, 'a) res" where
  "of_option e None = Inl e"
| "of_option e (Some x) = Inr x"

definition ensure :: "bool \<Rightarrow> 'e \<Rightarrow> ('e, unit) res" where
  "ensure b e = (if b then Inr () else Inl e)"

fun is_ok :: "('e, 'a) res \<Rightarrow> bool" where
  "is_ok (Inl e) = False"
| "is_ok (Inr x) = True"

lemma and_then_Inr_iff [res_simps]: "and_then r f = Inr y \<longleftrightarrow> (\<exists>x. r = Inr x \<and> f x = Inr y)"
  by (cases r) auto

lemma and_then_Inl_iff [res_simps]:
  "and_then r f = Inl e \<longleftrightarrow> r = Inl e \<or> (\<exists>x. r = Inr x \<and> f x = Inl e)"
  by (cases r) auto

lemma map_res_Inr_iff [res_simps]: "map_res f r = Inr y \<longleftrightarrow> (\<exists>x. r = Inr x \<and> y = f x)"
  by (cases r) auto

lemma map_res_Inl_iff [res_simps]: "map_res f r = Inl e \<longleftrightarrow> r = Inl e"
  by (cases r) auto

lemma map_err_Inr_iff [res_simps]: "map_err f r = Inr y \<longleftrightarrow> r = Inr y"
  by (cases r) auto

lemma of_option_Inr_iff [res_simps]: "of_option e r = Inr y \<longleftrightarrow> r = Some y"
  by (cases r) auto

lemma of_option_Inl_iff [res_simps]: "of_option e r = Inl e' \<longleftrightarrow> r = None \<and> e' = e"
  by (cases r) auto

lemma ensure_Inr_iff [res_simps]: "ensure b e = Inr u \<longleftrightarrow> b"
  by (simp add: ensure_def)

lemma ensure_Inl_iff [res_simps]: "ensure b e = Inl e' \<longleftrightarrow> \<not> b \<and> e' = e"
  by (auto simp: ensure_def)

lemma ensure_True [simp]: "ensure True e = Inr ()"
  by (simp add: ensure_def)

lemma ensure_False [simp]: "ensure False e = Inl e"
  by (simp add: ensure_def)

lemma is_ok_iff: "is_ok r \<longleftrightarrow> (\<exists>x. r = Inr x)"
  by (cases r) auto

lemma is_ok_map_res [simp]: "is_ok (map_res f r) \<longleftrightarrow> is_ok r"
  by (cases r) auto

lemma map_res_id [simp]: "map_res (\<lambda>x. x) r = r"
  by (cases r) auto

lemma map_res_comp: "map_res f (map_res g r) = map_res (\<lambda>x. f (g x)) r"
  by (cases r) auto

lemma map_res_cong [fundef_cong]:
  "r = r' \<Longrightarrow> (\<And>x. r' = Inr x \<Longrightarrow> f x = g x) \<Longrightarrow> map_res f r = map_res g r'"
  by (cases r') auto

lemma and_then_cong [fundef_cong]:
  "r = r' \<Longrightarrow> (\<And>x. r' = Inr x \<Longrightarrow> f x = g x) \<Longrightarrow> and_then r f = and_then r' g"
  by (cases r') auto

lemma seq_res_Inr_iff: "seq_res rs = Inr ys \<longleftrightarrow> rs = map Inr ys"
proof (induction rs arbitrary: ys rule: seq_res.induct)
  case (3 x rs)
  then show ?case by (cases ys) (auto simp: res_simps)
qed auto

lemma seq_res_map_Inr [simp]: "seq_res (map (\<lambda>x. Inr (f x)) xs) = Inr (map f xs)"
  by (induction xs) auto

lemma seq_res_Inl_ex: "seq_res rs = Inl e \<Longrightarrow> Inl e \<in> set rs"
  by (induction rs rule: seq_res.induct) (auto simp: res_simps)

lemma seq_res_ok_iff: "is_ok (seq_res rs) \<longleftrightarrow> (\<forall>r\<in>set rs. is_ok r)"
  by (induction rs rule: seq_res.induct) (auto simp: is_ok_iff res_simps)

lemma seq_res_map_eq_Inr:
  "seq_res (map f xs) = Inr ys \<Longrightarrow> length ys = length xs \<and> (\<forall>i<length xs. f (xs ! i) = Inr (ys ! i))"
  unfolding seq_res_Inr_iff
  by (metis length_map nth_map)

lemma seq_res_map_total:
  assumes "\<And>x. x \<in> set xs \<Longrightarrow> \<exists>y. f x = Inr y"
  shows "\<exists>ys. seq_res (map f xs) = Inr ys"
proof -
  have "\<forall>r\<in>set (map f xs). is_ok r"
    using assms by (auto simp: is_ok_iff)
  then have "is_ok (seq_res (map f xs))"
    by (simp only: seq_res_ok_iff)
  then show ?thesis by (simp add: is_ok_iff)
qed

lemma seq_res_map_all:
  assumes "seq_res (map f xs) = Inr ys" and "\<And>x y. x \<in> set xs \<Longrightarrow> f x = Inr y \<Longrightarrow> P y" and "y \<in> set ys"
  shows "P y"
proof -
  have "Inr y \<in> set (map f xs)"
    using assms(1,3) by (simp add: seq_res_Inr_iff)
  then obtain x where "x \<in> set xs" and "f x = Inr y" by auto
  then show ?thesis by (rule assms(2))
qed

lemma seq_res_map_len: "seq_res (map f xs) = Inr ys \<Longrightarrow> length ys = length xs"
  unfolding seq_res_Inr_iff by (metis length_map)

section \<open>Go maps as association lists\<close>

abbreviation keys :: "('k, 'v) gomap \<Rightarrow> 'k list" where
  "keys m \<equiv> map fst m"

definition wf_map :: "('k, 'v) gomap \<Rightarrow> bool" where
  "wf_map m \<longleftrightarrow> distinct (keys m)"

lemma wf_map_update: "wf_map m \<Longrightarrow> wf_map (AList.update k v m)"
  unfolding wf_map_def by (rule distinct_update)

lemma wf_map_filter: "wf_map m \<Longrightarrow> wf_map (filter P m)"
  unfolding wf_map_def by (induction m) auto

lemma map_of_filter_key:
  "map_of (filter (\<lambda>(k, _). P k) m) k = (if P k then map_of m k else None)"
  by (induction m) auto

lemma map_of_filter_in: "P k \<Longrightarrow> map_of (filter (\<lambda>(k, _). P k) m) k = map_of m k"
  by (simp add: map_of_filter_key)

lemma keys_update_mem [simp]: "k \<in> set (keys m) \<Longrightarrow> keys (AList.update k v m) = keys m"
  by (induction m) auto

lemma map_of_Some_key: "map_of m k = Some v \<Longrightarrow> k \<in> set (keys m)"
  by (metis domI dom_map_of_conv_image_fst image_set)

lemma wf_map_lookup: "wf_map m \<Longrightarrow> (k, v) \<in> set m \<Longrightarrow> map_of m k = Some v"
  unfolding wf_map_def by (rule map_of_is_SomeI)

lemma update_map_present:
  assumes "wf_map m" and "k \<in> set (keys m)"
  shows "AList.update k v m = map (\<lambda>(k', v'). (k', if k' = k then v else v')) m"
  using assms
proof (induction m)
  case (Cons a m)
  then show ?case
  proof (cases "fst a = k")
    case True
    with Cons.prems have "k \<notin> set (keys m)" by (auto simp: wf_map_def)
    then have "map (\<lambda>(k', v'). (k', if k' = k then v else v')) m = m"
      by (intro map_idI) (auto simp: image_iff)
    with True show ?thesis by (cases a) auto
  next
    case False
    with Cons show ?thesis by (cases a) (auto simp: wf_map_def)
  qed
qed simp

section \<open>Lists\<close>

fun intercalate :: "string \<Rightarrow> string list \<Rightarrow> string" where
  "intercalate sep [] = []"
| "intercalate sep [x] = x"
| "intercalate sep (x # y # xs) = x @ sep @ intercalate sep (y # xs)"

lemma intercalate_Cons: "xs \<noteq> [] \<Longrightarrow> intercalate sep (x # xs) = x @ sep @ intercalate sep xs"
  by (cases xs) auto

fun find_first :: "('a \<Rightarrow> bool) \<Rightarrow> 'a list \<Rightarrow> 'a option" where
  "find_first P [] = None"
| "find_first P (x # xs) = (if P x then Some x else find_first P xs)"

lemma find_first_SomeD: "find_first P xs = Some x \<Longrightarrow> x \<in> set xs \<and> P x"
  by (induction xs) (auto split: if_splits)

lemma find_first_None_iff: "find_first P xs = None \<longleftrightarrow> (\<forall>x\<in>set xs. \<not> P x)"
  by (induction xs) auto

lemma find_first_split:
  "find_first P xs = Some x \<Longrightarrow> \<exists>us vs. xs = us @ x # vs \<and> P x \<and> (\<forall>u\<in>set us. \<not> P u)"
proof (induction xs)
  case (Cons a xs)
  show ?case
  proof (cases "P a")
    case True
    with Cons.prems have "a # xs = [] @ x # xs" and "P x" by simp_all
    then show ?thesis by (metis empty_iff empty_set)
  next
    case False
    with Cons obtain us vs where "xs = us @ x # vs" and "P x" and "\<forall>u\<in>set us. \<not> P u"
      by auto
    with False have "a # xs = (a # us) @ x # vs" and "P x" and "\<forall>u\<in>set (a # us). \<not> P u"
      by simp_all
    then show ?thesis by blast
  qed
qed simp

lemma sort_key_fst_mem [simp]: "set (sort_key f xs) = set xs"
  by (rule set_sort)

end
