(* ===== verification/Utf8.thy ===== *)
theory Utf8
  imports GoStd
begin

text \<open>
  Go's \<open>unicode/utf8\<close>: decoding the runes of a byte string, as \<open>for _, r := range s\<close>
  does, and encoding a rune, as \<open>bytes.Buffer.WriteRune\<close> does. A byte that does not start
  a valid encoding decodes to U+FFFD with width 1, so ranging over a string and writing the runes
  back replaces malformed input.
\<close>

definition rune_error :: nat where
  "rune_error = 65533"

definition cont :: "nat \<Rightarrow> nat \<Rightarrow> char \<Rightarrow> bool" where
  "cont lo hi c \<longleftrightarrow> lo \<le> (of_char c :: nat) \<and> (of_char c :: nat) \<le> hi"

definition snd_lo :: "nat \<Rightarrow> nat" where
  "snd_lo b0 = (if b0 = 224 then 160 else if b0 = 240 then 144 else 128)"

definition snd_hi :: "nat \<Rightarrow> nat" where
  "snd_hi b0 = (if b0 = 237 then 159 else if b0 = 244 then 143 else 191)"

definition low6 :: "char \<Rightarrow> nat" where
  "low6 c = of_char c - 128"

fun decode_rune :: "string \<Rightarrow> nat \<times> nat" where
  "decode_rune [] = (rune_error, 0)"
| "decode_rune (c # cs) = (let b0 = of_char c :: nat in
     if b0 < 128 then (b0, 1)
     else if 194 \<le> b0 \<and> b0 \<le> 223 then
       (case cs of
          c1 # _ \<Rightarrow> if cont 128 191 c1 then ((b0 - 192) * 64 + low6 c1, 2) else (rune_error, 1)
        | _ \<Rightarrow> (rune_error, 1))
     else if 224 \<le> b0 \<and> b0 \<le> 239 then
       (case cs of
          c1 # c2 # _ \<Rightarrow>
            if cont (snd_lo b0) (snd_hi b0) c1 \<and> cont 128 191 c2
            then ((b0 - 224) * 4096 + low6 c1 * 64 + low6 c2, 3) else (rune_error, 1)
        | _ \<Rightarrow> (rune_error, 1))
     else if 240 \<le> b0 \<and> b0 \<le> 244 then
       (case cs of
          c1 # c2 # c3 # _ \<Rightarrow>
            if cont (snd_lo b0) (snd_hi b0) c1 \<and> cont 128 191 c2 \<and> cont 128 191 c3
            then ((b0 - 240) * 262144 + low6 c1 * 4096 + low6 c2 * 64 + low6 c3, 4) else (rune_error, 1)
        | _ \<Rightarrow> (rune_error, 1))
     else (rune_error, 1))"

definition scalar :: "nat \<Rightarrow> bool" where
  "scalar r \<longleftrightarrow> r < 55296 \<or> (57344 \<le> r \<and> r < 1114112)"

definition encode_rune :: "nat \<Rightarrow> string" where
  "encode_rune r =
     (if r < 128 then [char_of r]
      else if r < 2048 then [char_of (192 + r div 64), char_of (128 + r mod 64)]
      else if \<not> scalar r then [CHR 0xEF, CHR 0xBF, CHR 0xBD]
      else if r < 65536 then
        [char_of (224 + r div 4096), char_of (128 + r div 64 mod 64), char_of (128 + r mod 64)]
      else
        [char_of (240 + r div 262144), char_of (128 + r div 4096 mod 64),
         char_of (128 + r div 64 mod 64), char_of (128 + r mod 64)])"

lemma decode_rune_width_pos: "s \<noteq> [] \<Longrightarrow> 0 < snd (decode_rune s)"
  by (cases s) (auto simp: Let_def split: list.splits)

function runes :: "string \<Rightarrow> nat list" where
  "runes [] = []"
| "runes (c # cs) = fst (decode_rune (c # cs)) # runes (drop (snd (decode_rune (c # cs))) (c # cs))"
  by pat_completeness auto
termination
proof (relation "measure length")
  fix c cs
  have "0 < snd (decode_rune (c # cs))" by (rule decode_rune_width_pos) simp
  then show "(drop (snd (decode_rune (c # cs))) (c # cs), c # cs) \<in> measure length"
    by simp
qed simp

definition encode_runes :: "nat list \<Rightarrow> string" where
  "encode_runes rs = concat (map encode_rune rs)"

text \<open>What ranging over a string and writing its runes back gives.\<close>

definition sanitize :: "string \<Rightarrow> string" where
  "sanitize s = encode_runes (runes s)"

definition valid_utf8 :: "string \<Rightarrow> bool" where
  "valid_utf8 s \<longleftrightarrow> sanitize s = s"

definition ascii :: "string \<Rightarrow> bool" where
  "ascii s \<longleftrightarrow> (\<forall>c\<in>set s. (of_char c :: nat) < 128)"

section \<open>Decoding an encoded rune\<close>

lemma scalar_rune_error [simp]: "scalar rune_error"
  by (simp add: scalar_def rune_error_def)

lemma low6_bound: "cont lo 191 c \<Longrightarrow> 128 \<le> lo \<Longrightarrow> low6 c < 64"
  unfolding cont_def low6_def by linarith

lemma scalar_3:
  assumes "224 \<le> b0" "b0 \<le> 239" "cont (snd_lo b0) (snd_hi b0) c1" "cont 128 191 c2"
  shows "scalar ((b0 - 224) * 4096 + low6 c1 * 64 + low6 c2)"
proof -
  define a x y where "a = b0 - 224" and "x = low6 c1" and "y = low6 c2"
  have "a < 16" and y: "y < 64" using assms low6_bound by (auto simp: a_def y_def)
  have "snd_hi b0 \<le> 191" by (simp add: snd_hi_def)
  then have x: "x < 64" using assms(3) unfolding x_def cont_def low6_def by linarith
  have "x < 32" if "a = 13"
    using that assms(1,3) by (auto simp: a_def x_def cont_def low6_def snd_hi_def snd_lo_def split: if_splits)
  then consider "a < 13" | "a = 13" "x < 32" | "13 < a" "a < 16" using \<open>a < 16\<close> by linarith
  then have "scalar (a * 4096 + x * 64 + y)"
    using x y by cases (auto simp: scalar_def)
  then show ?thesis by (simp add: a_def x_def y_def)
qed

lemma scalar_4:
  assumes "240 \<le> b0" "b0 \<le> 244" "cont (snd_lo b0) (snd_hi b0) c1" "cont 128 191 c2" "cont 128 191 c3"
  shows "scalar ((b0 - 240) * 262144 + low6 c1 * 4096 + low6 c2 * 64 + low6 c3)"
proof -
  define a x y z where "a = b0 - 240" and "x = low6 c1" and "y = low6 c2" and "z = low6 c3"
  have "a < 5" and yz: "y < 64" "z < 64" using assms low6_bound by (auto simp: a_def y_def z_def)
  have "snd_hi b0 \<le> 191" by (simp add: snd_hi_def)
  then have x: "x < 64" using assms(3) unfolding x_def cont_def low6_def by linarith
  have "16 \<le> x" if "a = 0"
    using that assms(1,3) by (auto simp: a_def x_def cont_def low6_def snd_lo_def split: if_splits)
  moreover have "x < 16" if "a = 4"
    using that assms(1,3) by (auto simp: a_def x_def cont_def low6_def snd_hi_def snd_lo_def split: if_splits)
  ultimately consider "a = 0" "16 \<le> x" | "0 < a" "a < 4" | "a = 4" "x < 16" using \<open>a < 5\<close> by linarith
  then have "scalar (a * 262144 + x * 4096 + y * 64 + z)"
    using x yz by cases (auto simp: scalar_def)
  then show ?thesis by (simp add: a_def x_def y_def z_def)
qed

lemma scalar_2: "(b0 :: nat) \<le> 223 \<Longrightarrow> cont 128 191 c1 \<Longrightarrow> scalar ((b0 - 192) * 64 + low6 c1)"
  using low6_bound [of 128 c1] unfolding scalar_def by linarith

lemma scalar_small: "r < 128 \<Longrightarrow> scalar r"
  by (simp add: scalar_def)

lemma decode_rune_scalar: "scalar (fst (decode_rune s))"
  by (cases s)
    (auto simp: Let_def intro: scalar_2 scalar_3 scalar_4 scalar_small split: list.split)

lemma runes_scalar: "r \<in> set (runes s) \<Longrightarrow> scalar r"
  by (induction s rule: runes.induct) (auto simp del: decode_rune.simps intro: decode_rune_scalar)

lemma decode_ascii [simp]: "(of_char c :: nat) < 128 \<Longrightarrow> decode_rune (c # cs) = (of_char c, 1)"
  by simp

lemma decode_2:
  "194 \<le> (of_char c :: nat) \<Longrightarrow> (of_char c :: nat) \<le> 223 \<Longrightarrow> cont 128 191 c1 \<Longrightarrow>
     decode_rune (c # c1 # cs) = ((of_char c - 192) * 64 + low6 c1, 2)"
  by (simp add: Let_def)

lemma decode_3:
  "224 \<le> (of_char c :: nat) \<Longrightarrow> (of_char c :: nat) \<le> 239 \<Longrightarrow>
     cont (snd_lo (of_char c)) (snd_hi (of_char c)) c1 \<Longrightarrow> cont 128 191 c2 \<Longrightarrow>
     decode_rune (c # c1 # c2 # cs) = ((of_char c - 224) * 4096 + low6 c1 * 64 + low6 c2, 3)"
  by (simp add: Let_def)

lemma decode_4:
  "240 \<le> (of_char c :: nat) \<Longrightarrow> (of_char c :: nat) \<le> 244 \<Longrightarrow>
     cont (snd_lo (of_char c)) (snd_hi (of_char c)) c1 \<Longrightarrow> cont 128 191 c2 \<Longrightarrow> cont 128 191 c3 \<Longrightarrow>
     decode_rune (c # c1 # c2 # c3 # cs) =
       ((of_char c - 240) * 262144 + low6 c1 * 4096 + low6 c2 * 64 + low6 c3, 4)"
  by (simp add: Let_def)

lemma of_char_byte [simp]: "n < 256 \<Longrightarrow> of_char (char_of n :: char) = (n :: nat)"
  by (simp add: of_char_of)

lemma base64_digits:
  fixes r :: nat
  shows "r = r div 64 * 64 + r mod 64"
    and "r = r div 4096 * 4096 + r div 64 mod 64 * 64 + r mod 64"
    and "r = r div 262144 * 262144 + r div 4096 mod 64 * 4096 + r div 64 mod 64 * 64 + r mod 64"
proof -
  have d: "r div 4096 = r div 64 div 64" "r div 262144 = r div 4096 div 64"
    by (simp_all flip: div_mult2_eq)
  have "r = r div 64 * 64 + r mod 64" and "r div 64 = r div 64 div 64 * 64 + r div 64 mod 64"
    and "r div 4096 = r div 4096 div 64 * 64 + r div 4096 mod 64"
    by simp_all
  then show "r = r div 64 * 64 + r mod 64"
    and "r = r div 4096 * 4096 + r div 64 mod 64 * 64 + r mod 64"
    and "r = r div 262144 * 262144 + r div 4096 mod 64 * 4096 + r div 64 mod 64 * 64 + r mod 64"
    unfolding d by linarith+
qed

lemma decode_encode_2:
  assumes "128 \<le> r" and "r < 2048"
  shows "decode_rune (encode_rune r @ rest) = (r, 2)"
proof -
  define a b where "a = r div 64" and "b = r mod 64"
  have r: "r = a * 64 + b" and b: "b < 64" unfolding a_def b_def by simp_all
  then have a: "2 \<le> a" "a < 32" using assms by linarith+
  have "encode_rune r = [char_of (192 + a), char_of (128 + b)]"
    using assms by (simp add: encode_rune_def a_def b_def)
  then show ?thesis using a b r
    by (simp add: decode_2 cont_def low6_def del: decode_rune.simps)
qed

lemma decode_encode_3:
  assumes "2048 \<le> r" and "r < 65536" and "scalar r"
  shows "decode_rune (encode_rune r @ rest) = (r, 3)"
proof -
  define a b c where "a = r div 4096" and "b = r div 64 mod 64" and "c = r mod 64"
  have r: "r = a * 4096 + b * 64 + c" and bc: "b < 64" "c < 64"
    unfolding a_def b_def c_def using base64_digits(2) [of r] by simp_all
  have a: "a < 16" and lo: "a = 0 \<Longrightarrow> 32 \<le> b" using r bc assms by linarith+
  have hi: "b \<le> 31" if "a = 13"
    using r bc that assms(3) by (cases "b \<le> 31") (auto simp: scalar_def)
  have enc: "encode_rune r = [char_of (224 + a), char_of (128 + b), char_of (128 + c)]"
    using assms by (simp add: encode_rune_def a_def b_def c_def)
  have "cont (snd_lo (224 + a)) (snd_hi (224 + a)) (char_of (128 + b))"
    using a bc lo hi by (simp add: cont_def snd_lo_def snd_hi_def)
  moreover have "cont 128 191 (char_of (128 + c))"
    using bc by (simp add: cont_def)
  ultimately show ?thesis
    using a bc r unfolding enc by (simp add: decode_3 low6_def del: decode_rune.simps)
qed

lemma decode_encode_4:
  assumes "65536 \<le> r" and "scalar r"
  shows "decode_rune (encode_rune r @ rest) = (r, 4)"
proof -
  define a b c d where "a = r div 262144" and "b = r div 4096 mod 64" and "c = r div 64 mod 64"
    and "d = r mod 64"
  have r: "r = a * 262144 + b * 4096 + c * 64 + d" and bcd: "b < 64" "c < 64" "d < 64"
    unfolding a_def b_def c_def d_def using base64_digits(3) [of r] by simp_all
  have "r < 1114112" using assms by (auto simp: scalar_def)
  then have a: "a < 5" and lo: "a = 0 \<Longrightarrow> 16 \<le> b" and hi: "a = 4 \<Longrightarrow> b \<le> 15"
    using r bcd assms by linarith+
  have enc: "encode_rune r = [char_of (240 + a), char_of (128 + b), char_of (128 + c), char_of (128 + d)]"
    using assms by (simp add: encode_rune_def a_def b_def c_def d_def)
  have "cont (snd_lo (240 + a)) (snd_hi (240 + a)) (char_of (128 + b))"
    using a bcd lo hi by (simp add: cont_def snd_lo_def snd_hi_def)
  moreover have "cont 128 191 (char_of (128 + c))" and "cont 128 191 (char_of (128 + d))"
    using bcd by (simp_all add: cont_def)
  ultimately show ?thesis
    using a bcd r unfolding enc by (simp add: decode_4 low6_def del: decode_rune.simps)
qed

lemma decode_encode:
  assumes "scalar r"
  shows "decode_rune (encode_rune r @ rest) = (r, length (encode_rune r))"
proof -
  consider "r < 128" | "128 \<le> r \<and> r < 2048" | "2048 \<le> r \<and> r < 65536" | "65536 \<le> r"
    by linarith
  then show ?thesis
  proof cases
    case 1
    then show ?thesis by (simp add: encode_rune_def of_char_of)
  next
    case 2
    then show ?thesis using decode_encode_2 by (simp add: encode_rune_def del: decode_rune.simps)
  next
    case 3
    then show ?thesis using decode_encode_3 assms by (simp add: encode_rune_def del: decode_rune.simps)
  next
    case 4
    then show ?thesis using decode_encode_4 assms by (simp add: encode_rune_def del: decode_rune.simps)
  qed
qed

lemma encode_rune_nonempty [simp]: "encode_rune r \<noteq> []"
  by (simp add: encode_rune_def)

lemma runes_unfold: "s \<noteq> [] \<Longrightarrow> runes s = fst (decode_rune s) # runes (drop (snd (decode_rune s)) s)"
  by (cases s) (simp_all del: decode_rune.simps)

lemma runes_encode_runes: "\<forall>r\<in>set rs. scalar r \<Longrightarrow> runes (encode_runes rs) = rs"
proof (induction rs)
  case Nil
  then show ?case by (simp add: encode_runes_def)
next
  case (Cons r rs)
  then have "decode_rune (encode_rune r @ encode_runes rs) = (r, length (encode_rune r))"
    by (intro decode_encode) simp
  then have "runes (encode_rune r @ encode_runes rs) = r # runes (encode_runes rs)"
    by (subst runes_unfold) simp_all
  with Cons show ?case by (simp add: encode_runes_def)
qed

lemma runes_sanitize [simp]: "runes (sanitize s) = runes s"
  unfolding sanitize_def by (rule runes_encode_runes) (blast intro: runes_scalar)

lemma sanitize_idem [simp]: "sanitize (sanitize s) = sanitize s"
  by (simp add: sanitize_def [of "sanitize s"]) (simp add: sanitize_def)

lemma valid_sanitize [simp]: "valid_utf8 (sanitize s)"
  by (simp add: valid_utf8_def)

lemma runes_ascii: "ascii s \<Longrightarrow> runes s = map of_char s"
  by (induction s) (auto simp: ascii_def)

lemma encode_ascii: "(of_char c :: nat) < 128 \<Longrightarrow> encode_rune (of_char c) = [c]"
  by (simp add: encode_rune_def)

lemma ascii_valid: "ascii s \<Longrightarrow> valid_utf8 s"
  unfolding valid_utf8_def sanitize_def
  by (simp add: runes_ascii encode_runes_def) (induction s, auto simp: ascii_def encode_ascii)

declare ascii_valid [literals] ascii_def [literals]

lemma ascii_append [simp]: "ascii (s @ t) \<longleftrightarrow> ascii s \<and> ascii t"
  by (auto simp: ascii_def)

lemma ascii_hex [simp]: "ascii (hex_encode bs)"
  using hex_encode_ascii by (auto simp: ascii_def)

section \<open>White space\<close>

text \<open>\<open>unicode.IsSpace\<close>, and the strings \<open>strings.TrimSpace\<close> turns into the empty one.\<close>

definition is_space_rune :: "nat \<Rightarrow> bool" where
  "is_space_rune r \<longleftrightarrow> (9 \<le> r \<and> r \<le> 13) \<or> r = 32 \<or> r = 133 \<or> r = 160 \<or> r = 5760
     \<or> (8192 \<le> r \<and> r \<le> 8202) \<or> r = 8232 \<or> r = 8233 \<or> r = 8239 \<or> r = 8287 \<or> r = 12288"

definition blank :: "string \<Rightarrow> bool" where
  "blank s \<longleftrightarrow> list_all is_space_rune (runes s)"

end
