(* ===== verification/Sha256.thy ===== *)
theory Sha256
  imports GoStd
begin

text \<open>
  Go's \<open>crypto/sha256\<close>: SHA-256 of FIPS 180-4 on byte strings, written on 32-bit words.
  Every hash of an evidence pack is the lowercase hexadecimal rendering of \<open>sha256\<close>.
\<close>

unbundle bit_operations_syntax

type_synonym w32 = "32 word"

definition sha_k :: "w32 list" where
  "sha_k =
    [1116352408, 1899447441, 3049323471, 3921009573,
     961987163, 1508970993, 2453635748, 2870763221,
     3624381080, 310598401, 607225278, 1426881987,
     1925078388, 2162078206, 2614888103, 3248222580,
     3835390401, 4022224774, 264347078, 604807628,
     770255983, 1249150122, 1555081692, 1996064986,
     2554220882, 2821834349, 2952996808, 3210313671,
     3336571891, 3584528711, 113926993, 338241895,
     666307205, 773529912, 1294757372, 1396182291,
     1695183700, 1986661051, 2177026350, 2456956037,
     2730485921, 2820302411, 3259730800, 3345764771,
     3516065817, 3600352804, 4094571909, 275423344,
     430227734, 506948616, 659060556, 883997877,
     958139571, 1322822218, 1537002063, 1747873779,
     1955562222, 2024104815, 2227730452, 2361852424,
     2428436474, 2756734187, 3204031479, 3329325298]"

definition sha_h0 :: "w32 list" where
  "sha_h0 =
    [1779033703, 3144134277, 1013904242, 2773480762,
     1359893119, 2600822924, 528734635, 1541459225]"

definition sha_ch :: "w32 \<Rightarrow> w32 \<Rightarrow> w32 \<Rightarrow> w32" where
  "sha_ch x y z = (x AND y) XOR (NOT x AND z)"

definition sha_maj :: "w32 \<Rightarrow> w32 \<Rightarrow> w32 \<Rightarrow> w32" where
  "sha_maj x y z = (x AND y) XOR (x AND z) XOR (y AND z)"

definition big_sigma0 :: "w32 \<Rightarrow> w32" where
  "big_sigma0 x = word_rotr 2 x XOR word_rotr 13 x XOR word_rotr 22 x"

definition big_sigma1 :: "w32 \<Rightarrow> w32" where
  "big_sigma1 x = word_rotr 6 x XOR word_rotr 11 x XOR word_rotr 25 x"

definition small_sigma0 :: "w32 \<Rightarrow> w32" where
  "small_sigma0 x = word_rotr 7 x XOR word_rotr 18 x XOR drop_bit 3 x"

definition small_sigma1 :: "w32 \<Rightarrow> w32" where
  "small_sigma1 x = word_rotr 17 x XOR word_rotr 19 x XOR drop_bit 10 x"

text \<open>Big-endian bytes of a word, and the word of four bytes.\<close>

definition word_bytes :: "w32 \<Rightarrow> string" where
  "word_bytes w = (let n = unat w in
     [char_of (n div 16777216), char_of (n div 65536), char_of (n div 256), char_of n])"

fun bytes_words :: "string \<Rightarrow> w32 list" where
  "bytes_words (a # b # c # d # cs) =
     of_nat (16777216 * of_char a + 65536 * of_char b + 256 * of_char c + of_char d) # bytes_words cs"
| "bytes_words _ = []"

text \<open>The message schedule, newest word first while it is built.\<close>

fun extend_schedule :: "nat \<Rightarrow> w32 list \<Rightarrow> w32 list" where
  "extend_schedule 0 w = w"
| "extend_schedule (Suc n) w =
     extend_schedule n ((small_sigma1 (w ! 1) + w ! 6 + small_sigma0 (w ! 14) + w ! 15) # w)"

definition schedule :: "string \<Rightarrow> w32 list" where
  "schedule block = rev (extend_schedule 48 (rev (bytes_words block)))"

fun sha_round :: "w32 \<times> w32 \<Rightarrow> w32 list \<Rightarrow> w32 list" where
  "sha_round (k, w) [a, b, c, d, e, f, g, h] =
     (let t1 = h + big_sigma1 e + sha_ch e f g + k + w;
          t2 = big_sigma0 a + sha_maj a b c
      in [t1 + t2, a, b, c, d + t1, e, f, g])"
| "sha_round kw v = v"

definition compress :: "w32 list \<Rightarrow> string \<Rightarrow> w32 list" where
  "compress h block = map2 (+) h (fold sha_round (zip sha_k (schedule block)) h)"

definition length_bytes :: "nat \<Rightarrow> string" where
  "length_bytes n = map (\<lambda>i. char_of (n div 256 ^ i)) [7, 6, 5, 4, 3, 2, 1, 0]"

definition sha_pad :: "string \<Rightarrow> string" where
  "sha_pad m = m @ CHR 0x80 # replicate ((119 - length m mod 64) mod 64) (CHR 0x00)
     @ length_bytes (8 * length m)"

function blocks64 :: "string \<Rightarrow> string list" where
  "blocks64 m = (if m = [] then [] else take 64 m # blocks64 (drop 64 m))"
  by pat_completeness auto
termination by (relation "measure length") auto

declare blocks64.simps [simp del]

definition sha256 :: "string \<Rightarrow> string" where
  "sha256 m = concat (map word_bytes (foldl compress sha_h0 (blocks64 (sha_pad m))))"

section \<open>Shape of the digest\<close>

lemma length_sha_round: "length (sha_round kw v) = length v"
  by (cases "(kw, v)" rule: sha_round.cases) (auto simp: Let_def)

lemma length_fold_rounds: "length (fold sha_round kws v) = length v"
  by (induction kws arbitrary: v) (auto simp: length_sha_round)

lemma length_compress: "length (compress h block) = length h"
  by (simp add: compress_def length_fold_rounds)

lemma length_compress_all: "length (foldl compress h bs) = length h"
  by (induction bs arbitrary: h) (auto simp: length_compress)

lemma length_word_bytes [simp]: "length (word_bytes w) = 4"
  by (simp add: word_bytes_def Let_def)

lemma length_concat_word_bytes: "length (concat (map word_bytes ws)) = 4 * length ws"
  by (induction ws) auto

lemma length_sha256 [simp]: "length (sha256 m) = 32"
  by (simp add: sha256_def length_concat_word_bytes length_compress_all) (simp add: sha_h0_def)

text \<open>Padding fills whole 64-byte blocks, so every block the compression reads is full.\<close>

lemma length_sha_pad: "length (sha_pad m) mod 64 = 0"
proof -
  define r q where "r = length m mod 64" and "q = length m div 64"
  have len: "length m = 64 * q + r" and r: "r < 64"
    unfolding r_def q_def by simp_all
  have z: "(119 - r) mod 64 = (if r \<le> 55 then 55 - r else 119 - r)"
    using r by (auto simp: mod_if)
  have "length (sha_pad m) = 64 * q + r + 1 + (119 - r) mod 64 + 8"
    using len r by (simp add: sha_pad_def length_bytes_def)
  also have "\<dots> = 64 * (q + (if r \<le> 55 then 1 else 2))"
    using r unfolding z by auto
  finally show ?thesis by simp
qed

section \<open>Hexadecimal digests\<close>

text \<open>\<open>SHA\<close> of evidence/canon.go: the lowercase hexadecimal SHA-256.\<close>

definition SHA :: "string \<Rightarrow> string" where
  "SHA b = hex_encode (sha256 b)"

lemma length_SHA [simp]: "length (SHA b) = 64"
  by (simp add: SHA_def)

lemma hex_decode_SHA [simp]: "hex_decode (SHA b) = Some (sha256 b)"
  by (simp add: SHA_def)

lemma SHA_eq_iff: "SHA a = SHA b \<longleftrightarrow> sha256 a = sha256 b"
  unfolding SHA_def using hex_encode_inj by auto

end
