(* ===== verification/Json.thy ===== *)
theory Json
  imports Canon
begin

text \<open>
  Go's \<open>encoding/json\<close> decoder as the services use it (a \<open>Decoder\<close> with
  \<open>UseNumber\<close> into \<open>any\<close>): the first value of the input is read, numbers keep their
  literal text, a repeated object key keeps its last value, and malformed UTF-8 in a string is
  replaced. The decoder's nesting limit of 10000 is not modelled. The recursion is on fuel; the
  length of the input is enough.

  The main result is the round trip: decoding a canonical rendering gives the normal form of the
  value (integers as number literals, string slices as lists, keys sorted), so a rendering
  determines the value up to that normal form.
\<close>

section \<open>Lexical parts\<close>

definition is_ws :: "char \<Rightarrow> bool" where
  "is_ws c \<longleftrightarrow> c = CHR '' '' \<or> c = CHR 0x09 \<or> c = CHR 0x0A \<or> c = CHR 0x0D"

definition skip_ws :: "string \<Rightarrow> string" where
  "skip_ws s = dropWhile is_ws s"

fun hex4 :: "string \<Rightarrow> (nat \<times> string) option" where
  "hex4 (a # b # c # d # cs) =
     (case (hex_val a, hex_val b, hex_val c, hex_val d) of
        (Some w, Some x, Some y, Some z) \<Rightarrow> Some (4096 * w + 256 * x + 16 * y + z, cs)
      | _ \<Rightarrow> None)"
| "hex4 _ = None"

text \<open>\<open>getu4\<close>: a \<open>\u\<close> escape at the start of the input.\<close>

fun getu4 :: "string \<Rightarrow> (nat \<times> string) option" where
  "getu4 (a # b # cs) = (if a = backslash \<and> b = CHR ''u'' then hex4 cs else None)"
| "getu4 _ = None"

lemma hex4_length: "hex4 s = Some (r, t) \<Longrightarrow> length t < length s"
  by (cases s rule: hex4.cases) (auto split: option.splits)

lemma getu4_length: "getu4 s = Some (r, t) \<Longrightarrow> length t < length s"
  by (cases s rule: getu4.cases) (auto split: if_splits dest: hex4_length)

text \<open>The \<open>\u\<close> escape, a surrogate pair taking two; an unpaired surrogate is replaced.\<close>

definition unescape_u :: "string \<Rightarrow> (nat \<times> string) option" where
  "unescape_u s = (case hex4 s of
     None \<Rightarrow> None
   | Some (r, t) \<Rightarrow>
       if 55296 \<le> r \<and> r < 57344 then
         (case getu4 t of
            Some (r2, t2) \<Rightarrow>
              if r < 56320 \<and> 56320 \<le> r2 \<and> r2 < 57344
              then Some ((r - 55296) * 1024 + (r2 - 56320) + 65536, t2) else Some (rune_error, t)
          | None \<Rightarrow> Some (rune_error, t))
       else Some (r, t))"

lemma unescape_u_length: "unescape_u s = Some (r, t) \<Longrightarrow> length t < length s"
  by (auto simp: unescape_u_def split: option.splits if_splits dest!: hex4_length getu4_length)

definition unescape_simple :: "char \<Rightarrow> char option" where
  "unescape_simple c =
     (if c = quote \<or> c = backslash \<or> c = CHR ''/'' then Some c
      else if c = CHR ''b'' then Some (CHR 0x08)
      else if c = CHR ''f'' then Some (CHR 0x0C)
      else if c = CHR ''n'' then Some (CHR 0x0A)
      else if c = CHR ''r'' then Some (CHR 0x0D)
      else if c = CHR ''t'' then Some (CHR 0x09)
      else None)"

text \<open>The body of a string literal after its opening quote, up to and including the closing one.\<close>

function unquote :: "string \<Rightarrow> (string \<times> string) option" where
  "unquote [] = None"
| "unquote (c # cs) =
     (if c = quote then Some ([], cs)
      else if c = backslash then
        (case cs of
           [] \<Rightarrow> None
         | e # es \<Rightarrow>
             if e = CHR ''u'' then
               (case unescape_u es of
                  None \<Rightarrow> None
                | Some (r, rest) \<Rightarrow> map_option (apfst ((@) (encode_rune r))) (unquote rest))
             else
               (case unescape_simple e of
                  None \<Rightarrow> None
                | Some d \<Rightarrow> map_option (apfst ((#) d)) (unquote es)))
      else if (of_char c :: nat) < 32 then None
      else map_option (apfst ((@) (encode_rune (fst (decode_rune (c # cs))))))
             (unquote (drop (snd (decode_rune (c # cs))) (c # cs))))"
  by pat_completeness auto
termination
proof (relation "measure length")
  fix c cs
  have "0 < snd (decode_rune (c # cs))" by (rule decode_rune_width_pos) simp
  then show "(drop (snd (decode_rune (c # cs))) (c # cs), c # cs) \<in> measure length"
    by simp
qed (auto dest: unescape_u_length)

section \<open>Numbers\<close>

definition digits1 :: "string \<Rightarrow> (string \<times> string) option" where
  "digits1 s = (let d = takeWhile is_digit s in if d = [] then None else Some (d, drop (length d) s))"

definition parse_int_part :: "string \<Rightarrow> (string \<times> string) option" where
  "parse_int_part s = (case s of
     [] \<Rightarrow> None
   | c # cs \<Rightarrow> if c = CHR ''0'' then Some ([c], cs) else digits1 s)"

definition parse_frac :: "string \<Rightarrow> (string \<times> string) option" where
  "parse_frac s = (case s of
     [] \<Rightarrow> Some ([], [])
   | c # cs \<Rightarrow> if c = CHR ''.'' then map_option (apfst ((#) c)) (digits1 cs) else Some ([], s))"

definition parse_exp :: "string \<Rightarrow> (string \<times> string) option" where
  "parse_exp s = (case s of
     [] \<Rightarrow> Some ([], [])
   | c # cs \<Rightarrow>
       if c = CHR ''e'' \<or> c = CHR ''E'' then
         (case cs of
            [] \<Rightarrow> None
          | g # gs \<Rightarrow>
              if g = CHR ''+'' \<or> g = CHR ''-'' then map_option (apfst (\<lambda>d. c # g # d)) (digits1 gs)
              else map_option (apfst ((#) c)) (digits1 cs))
       else Some ([], s))"

definition parse_unsigned :: "string \<Rightarrow> (string \<times> string) option" where
  "parse_unsigned s = (case parse_int_part s of
     None \<Rightarrow> None
   | Some (i, s1) \<Rightarrow> (case parse_frac s1 of
       None \<Rightarrow> None
     | Some (f, s2) \<Rightarrow> (case parse_exp s2 of
         None \<Rightarrow> None
       | Some (e, s3) \<Rightarrow> Some (i @ f @ e, s3))))"

definition parse_number :: "string \<Rightarrow> (string \<times> string) option" where
  "parse_number s = (case s of
     [] \<Rightarrow> None
   | c # cs \<Rightarrow> if c = CHR ''-'' then map_option (apfst ((#) c)) (parse_unsigned cs) else parse_unsigned s)"

section \<open>Values\<close>

definition put_members :: "(string \<times> jval) list \<Rightarrow> (string \<times> jval) list" where
  "put_members kvs = foldl (\<lambda>m kv. AList.update (fst kv) (snd kv) m) [] kvs"

fun parse_value :: "nat \<Rightarrow> string \<Rightarrow> (jval \<times> string) option"
  and parse_elems :: "nat \<Rightarrow> string \<Rightarrow> (jval list \<times> string) option"
  and parse_members :: "nat \<Rightarrow> string \<Rightarrow> ((string \<times> jval) list \<times> string) option" where
  "parse_value 0 s = None"
| "parse_value (Suc n) s = (case skip_ws s of
     [] \<Rightarrow> None
   | c # cs \<Rightarrow>
       if c = CHR ''{'' then
         (case skip_ws cs of
            [] \<Rightarrow> None
          | d # ds \<Rightarrow> if d = CHR ''}'' then Some (JObj [], ds)
                     else map_option (apfst (\<lambda>m. JObj (put_members m))) (parse_members n cs))
       else if c = CHR ''['' then
         (case skip_ws cs of
            [] \<Rightarrow> None
          | d # ds \<Rightarrow> if d = CHR '']'' then Some (JList [], ds)
                     else map_option (apfst JList) (parse_elems n cs))
       else if c = quote then map_option (apfst JStr) (unquote cs)
       else if prefix ''null'' (c # cs) then Some (JNull, drop 4 (c # cs))
       else if prefix ''true'' (c # cs) then Some (JBool True, drop 4 (c # cs))
       else if prefix ''false'' (c # cs) then Some (JBool False, drop 5 (c # cs))
       else map_option (apfst JNumber) (parse_number (c # cs)))"
| "parse_elems 0 s = None"
| "parse_elems (Suc n) s = (case parse_value n s of
     None \<Rightarrow> None
   | Some (v, rest) \<Rightarrow> (case skip_ws rest of
       [] \<Rightarrow> None
     | d # ds \<Rightarrow> if d = CHR '','' then map_option (apfst ((#) v)) (parse_elems n ds)
                else if d = CHR '']'' then Some ([v], ds) else None))"
| "parse_members 0 s = None"
| "parse_members (Suc n) s = (case skip_ws s of
     [] \<Rightarrow> None
   | q # qs \<Rightarrow> if q \<noteq> quote then None else (case unquote qs of
       None \<Rightarrow> None
     | Some (k, rest) \<Rightarrow> (case skip_ws rest of
         [] \<Rightarrow> None
       | d # ds \<Rightarrow> if d \<noteq> CHR '':'' then None else (case parse_value n ds of
           None \<Rightarrow> None
         | Some (v, rest2) \<Rightarrow> (case skip_ws rest2 of
             [] \<Rightarrow> None
           | e # es \<Rightarrow> if e = CHR '','' then map_option (apfst ((#) (k, v))) (parse_members n es)
                      else if e = CHR ''}'' then Some ([(k, v)], es) else None)))))"

text \<open>\<open>Decode\<close> of evidence/canon.go into a variable of type \<open>any\<close>.\<close>

definition decode :: "string \<Rightarrow> jval option" where
  "decode s = map_option fst (parse_value (Suc (length s)) s)"

text \<open>\<open>Decode\<close> into a \<open>map[string]any\<close>: \<open>null\<close> leaves the map nil (empty).\<close>

definition decode_map :: "string \<Rightarrow> (string \<times> jval) list option" where
  "decode_map s = (case decode s of
     Some (JObj m) \<Rightarrow> Some m
   | Some JNull \<Rightarrow> Some []
   | _ \<Rightarrow> None)"


section \<open>Well-formed values and their normal form\<close>

fun wf_json :: "jval \<Rightarrow> bool" where
  "wf_json (JNumber s) = (number_ok s \<and> parse_number s = Some (s, []))"
| "wf_json (JList xs) = list_all wf_json xs"
| "wf_json (JObj kvs) = (wf_map kvs \<and> list_all (\<lambda>(k, v). valid_utf8 k \<and> wf_json v) kvs)"
| "wf_json (JOther t) = False"
| "wf_json _ = True"

fun normal :: "jval \<Rightarrow> jval" where
  "normal (JInt w) = JNumber (int_dec (sint w))"
| "normal (JInt64 w) = JNumber (int_dec (sint w))"
| "normal (JUint64 w) = JNumber (nat_dec (unat w))"
| "normal (JStr s) = JStr (sanitize s)"
| "normal (JStrList ss) = JList (map (\<lambda>s. JStr (sanitize s)) ss)"
| "normal (JList xs) = JList (map normal xs)"
| "normal (JObj kvs) = JObj (sort_key fst (map (\<lambda>(k, v). (k, normal v)) kvs))"
| "normal v = v"

lemma wf_json_renderable: "wf_json v \<Longrightarrow> renderable v"
  by (induction v) (auto simp: list_all_iff)

section \<open>Strings round trip\<close>

lemma hex4_digits:
  "r < 32 \<Longrightarrow> hex4 (CHR ''0'' # CHR ''0'' # hex_digit (r div 16) # hex_digit (r mod 16) # s) = Some (r, s)"
proof -
  assume r: "r < 32"
  have "hex_val (CHR ''0'') = Some 0" by (simp add: hex_val_def)
  moreover have "hex_val (hex_digit (r div 16)) = Some (r div 16)" using r by simp
  ultimately show ?thesis by simp
qed

lemma char_of_escapes:
  "char_of (34 :: nat) = CHR 0x22" "char_of (92 :: nat) = CHR 0x5C" "char_of (10 :: nat) = CHR 0x0A"
  "char_of (13 :: nat) = CHR 0x0D" "char_of (9 :: nat) = CHR 0x09" "char_of (8 :: nat) = CHR 0x08"
  "char_of (12 :: nat) = CHR 0x0C" "char_of (48 :: nat) = CHR ''0''"
  by (simp_all add: char_of_def bit_Suc_0_iff)

lemma append_single: "(@) [c] = (#) c"
  by (rule ext) simp

lemma unquote_plain:
  assumes "scalar r" "32 \<le> r" "r \<noteq> 34" "r \<noteq> 92"
  shows "unquote (encode_rune r @ t) = map_option (apfst ((@) (encode_rune r))) (unquote t)"
proof -
  obtain c cs where c: "encode_rune r = c # cs" by (cases "encode_rune r") auto
  have big: "32 \<le> (of_char c :: nat)" and nq: "(of_char c :: nat) \<noteq> 34" "(of_char c :: nat) \<noteq> 92"
    using c assms by (auto simp: encode_rune_def scalar_def split: if_splits)
  have "c \<noteq> quote" "c \<noteq> backslash"
    using nq by (auto simp: quote_def backslash_def)
  moreover have "decode_rune (c # cs @ t) = (r, length (encode_rune r))"
    using decode_encode [OF assms(1), of t] c by simp
  ultimately show ?thesis
    using big c by (simp del: decode_rune.simps)
qed

lemma unquote_escape:
  assumes "scalar r"
  shows "unquote (escape_rune r @ t) = map_option (apfst ((@) (encode_rune r))) (unquote t)"
proof -
  have ne: "backslash \<noteq> quote" by (simp add: backslash_def quote_def)
  consider "r = 34" | "r = 92" | "r = 10" | "r = 13" | "r = 9" | "r = 8" | "r = 12"
    | "r < 32" "r \<notin> {10, 13, 9, 8, 12}" | "32 \<le> r" "r \<noteq> 34" "r \<noteq> 92" by fastforce
  then show ?thesis
  proof cases
    case 8
    then have "escape_rune r = [backslash, CHR ''u'', CHR ''0'', CHR ''0'', hex_digit (r div 16), hex_digit (r mod 16)]"
      by (simp add: escape_rune_def)
    then show ?thesis using 8 ne hex4_digits [of r t] by (simp add: unescape_u_def)
  next
    case 9
    then have "escape_rune r = encode_rune r" by (simp add: escape_rune_def)
    with unquote_plain assms 9 show ?thesis by simp
  qed (use ne in \<open>simp_all add: escape_rune_def encode_rune_def unescape_simple_def quote_def backslash_def
        char_of_escapes append_single\<close>)
qed

lemma unquote_write:
  "\<forall>r\<in>set rs. scalar r \<Longrightarrow>
     unquote (concat (map escape_rune rs) @ quote # t) = Some (encode_runes rs, t)"
proof (induction rs)
  case (Cons r rs)
  then show ?case using unquote_escape [of r] by (simp add: encode_runes_def del: unquote.simps)
qed (simp add: encode_runes_def)

lemma unquote_write_string: "unquote (tl (write_string s) @ t) = Some (sanitize s, t)"
  using unquote_write [of "runes s" t] runes_scalar
  by (simp add: write_string_def sanitize_def del: unquote.simps)

lemma write_string_Cons: "write_string s = quote # tl (write_string s)"
  by (simp add: write_string_def)

section \<open>Numbers round trip\<close>

definition stops :: "string \<Rightarrow> bool" where
  "stops t \<longleftrightarrow> (case t of [] \<Rightarrow> True
     | c # _ \<Rightarrow> \<not> is_digit c \<and> c \<noteq> CHR ''.'' \<and> c \<noteq> CHR ''e'' \<and> c \<noteq> CHR ''E'')"

lemma takeWhile_stop: "stops t \<Longrightarrow> takeWhile is_digit t = []"
  by (cases t) (auto simp: stops_def)

lemma digits1_ext:
  assumes "digits1 s = Some (d, u)" and "stops t"
  shows "digits1 (s @ t) = Some (d, u @ t)"
proof (cases "\<forall>c\<in>set s. is_digit c")
  case True
  then have "takeWhile is_digit (s @ t) = s" using takeWhile_stop [OF assms(2)] by simp
  moreover have tw: "takeWhile is_digit s = s" using True by (simp add: takeWhile_eq_all_conv)
  ultimately show ?thesis using assms by (simp add: digits1_def tw split: if_splits)
next
  case False
  then have "takeWhile is_digit (s @ t) = takeWhile is_digit s"
    by (metis takeWhile_append1)
  moreover have "length (takeWhile is_digit s) \<le> length s" by (rule length_takeWhile_le)
  ultimately show ?thesis using assms by (auto simp: digits1_def Let_def split: if_splits)
qed

lemma parse_int_part_ext:
  "parse_int_part s = Some (d, u) \<Longrightarrow> stops t \<Longrightarrow> parse_int_part (s @ t) = Some (d, u @ t)"
  using digits1_ext [of s d u t]
  by (cases s) (auto simp: parse_int_part_def split: if_splits)

lemma parse_frac_ext:
  "parse_frac s = Some (d, u) \<Longrightarrow> stops t \<Longrightarrow> parse_frac (s @ t) = Some (d, u @ t)"
proof (cases s)
  case Nil
  assume "parse_frac s = Some (d, u)" "stops t"
  with Nil show ?thesis by (cases t) (auto simp: parse_frac_def stops_def)
next
  case (Cons c cs)
  assume "parse_frac s = Some (d, u)" "stops t"
  with Cons show ?thesis by (auto simp: parse_frac_def digits1_ext split: if_splits)
qed

lemma parse_exp_ext:
  "parse_exp s = Some (d, u) \<Longrightarrow> stops t \<Longrightarrow> parse_exp (s @ t) = Some (d, u @ t)"
proof (cases s)
  case Nil
  assume "parse_exp s = Some (d, u)" "stops t"
  with Nil show ?thesis by (cases t) (auto simp: parse_exp_def stops_def)
next
  case (Cons c cs)
  assume "parse_exp s = Some (d, u)" "stops t"
  with Cons show ?thesis
    using digits1_ext [of cs _ u t] digits1_ext [of "tl cs" _ u t]
    by (cases cs) (auto simp: parse_exp_def split: if_splits)
qed

lemma parse_unsigned_ext:
  assumes "parse_unsigned s = Some (d, u)" and t: "stops t"
  shows "parse_unsigned (s @ t) = Some (d, u @ t)"
proof -
  from assms(1) obtain i s1 f s2 e where p: "parse_int_part s = Some (i, s1)"
      "parse_frac s1 = Some (f, s2)" "parse_exp s2 = Some (e, u)" and d: "d = i @ f @ e"
    by (auto simp: parse_unsigned_def split: option.splits)
  show ?thesis
    using p(1) [THEN parse_int_part_ext [OF _ t]] p(2) [THEN parse_frac_ext [OF _ t]]
      p(3) [THEN parse_exp_ext [OF _ t]] d
    by (simp add: parse_unsigned_def)
qed

lemma parse_number_ext:
  "parse_number s = Some (d, u) \<Longrightarrow> stops t \<Longrightarrow> parse_number (s @ t) = Some (d, u @ t)"
  using parse_unsigned_ext [of s d u t]
  by (cases s) (auto simp: parse_number_def dest: parse_unsigned_ext split: if_splits)

lemma digits1_hd: "digits1 (c # cs) = Some r \<Longrightarrow> is_digit c"
  by (auto simp: digits1_def Let_def split: if_splits)

lemma parse_number_hd: "parse_number (c # cs) = Some r \<Longrightarrow> c = CHR ''-'' \<or> is_digit c"
  by (auto simp: parse_number_def parse_unsigned_def parse_int_part_def is_digit_def
      split: if_splits option.splits dest: digits1_hd)

lemma hd_nat_dec: "0 < n \<Longrightarrow> hd (nat_dec n) \<noteq> CHR ''0''"
proof (induction n rule: nat_dec.induct)
  case (1 n)
  show ?case
  proof (cases "n < 10")
    case True
    then have "(of_char (char_of (48 + n) :: char) :: nat) \<noteq> of_char (CHR ''0'')"
      using "1.prems" by simp
    then have "char_of (48 + n) \<noteq> CHR ''0''" by metis
    with True show ?thesis by (simp add: nat_dec.simps [of n])
  next
    case False
    with 1 show ?thesis by (simp add: nat_dec.simps [of n])
  qed
qed

lemma digits1_all: "s \<noteq> [] \<Longrightarrow> \<forall>c\<in>set s. is_digit c \<Longrightarrow> digits1 s = Some (s, [])"
  by (simp add: digits1_def takeWhile_eq_all_conv [THEN iffD2])

lemma parse_unsigned_nat_dec: "parse_unsigned (nat_dec n) = Some (nat_dec n, [])"
proof -
  have "parse_int_part (nat_dec n) = Some (nat_dec n, [])"
  proof (cases "n = 0")
    case True
    then show ?thesis by (simp add: nat_dec.simps [of 0] parse_int_part_def char_of_escapes)
  next
    case False
    then obtain c cs where c: "nat_dec n = c # cs" and "c \<noteq> CHR ''0''"
      using hd_nat_dec [of n] by (cases "nat_dec n") auto
    then show ?thesis using digits1_all [of "nat_dec n"] nat_dec_digits [of _ n]
      by (simp add: parse_int_part_def)
  qed
  then show ?thesis by (simp add: parse_unsigned_def parse_frac_def parse_exp_def)
qed

lemma parse_number_nat_dec: "parse_number (nat_dec n) = Some (nat_dec n, [])"
proof -
  obtain c cs where c: "nat_dec n = c # cs" by (cases "nat_dec n") auto
  then have "is_digit c" using nat_dec_digits [of c n] by simp
  then have "c \<noteq> CHR ''-''" using digit_not_special by blast
  with c parse_unsigned_nat_dec [of n] show ?thesis by (simp add: parse_number_def)
qed

lemma parse_number_int_dec: "parse_number (int_dec i) = Some (int_dec i, [])"
  using parse_number_nat_dec [of "nat i"] parse_unsigned_nat_dec [of "nat (- i)"]
  by (simp add: int_dec_def) (simp add: parse_number_def)

section \<open>The round trip\<close>

definition delim :: "string \<Rightarrow> bool" where
  "delim t \<longleftrightarrow> (case t of [] \<Rightarrow> True | c # _ \<Rightarrow> c = CHR '','' \<or> c = CHR '']'' \<or> c = CHR ''}'')"

text \<open>A rendering parses back: with enough fuel, whatever delimiter follows.\<close>

definition parses :: "string \<Rightarrow> jval \<Rightarrow> bool" where
  "parses s v \<longleftrightarrow> (\<forall>n t. length s \<le> n \<longrightarrow> delim t \<longrightarrow> parse_value (Suc n) (s @ t) = Some (v, t))"

lemma parsesD: "parses s v \<Longrightarrow> length s \<le> n \<Longrightarrow> delim t \<Longrightarrow> parse_value (Suc n) (s @ t) = Some (v, t)"
  by (simp add: parses_def)

lemma delim_stops: "delim t \<Longrightarrow> stops t"
  by (cases t) (auto simp: delim_def stops_def is_digit_def)

lemma skip_ws_Cons [simp]: "\<not> is_ws c \<Longrightarrow> skip_ws (c # cs) = c # cs"
  by (simp add: skip_ws_def)

lemma not_ws [simp]: "\<not> is_ws quote" "\<not> is_ws (CHR 0x22)" "\<not> is_ws (CHR '','')" "\<not> is_ws (CHR '']'')" "\<not> is_ws (CHR ''}'')"
  "\<not> is_ws (CHR ''{'')" "\<not> is_ws (CHR ''['')" "\<not> is_ws (CHR '':'')"
  "\<not> is_ws (CHR ''n'')" "\<not> is_ws (CHR ''t'')" "\<not> is_ws (CHR ''f'')"
  by (auto simp: is_ws_def quote_def)

lemma parses_string: "parses (write_string s) (JStr (sanitize s))"
proof -
  obtain u where u: "write_string s = quote # u" by (rule that) (rule write_string_Cons)
  have "unquote (u @ t) = Some (sanitize s, t)" for t
    using unquote_write_string [of s t] u by simp
  then have "parse_value (Suc n) (write_string s @ t) = Some (JStr (sanitize s), t)" for n t
    unfolding u by (simp add: quote_def del: unquote.simps)
  then show ?thesis by (simp add: parses_def del: parse_value.simps)
qed

lemma parses_number:
  assumes "parse_number s = Some (s, [])"
  shows "parses s (JNumber s)"
proof -
  obtain c cs where c: "s = c # cs" using assms by (cases s) (auto simp: parse_number_def)
  with assms parse_number_hd have h: "c = CHR ''-'' \<or> is_digit c" by blast
  then have "\<not> is_ws c" and "c \<noteq> CHR ''{''" "c \<noteq> CHR ''[''" "c \<noteq> quote" "c \<noteq> CHR ''n''" "c \<noteq> CHR ''t''" "c \<noteq> CHR ''f''"
    by (auto simp: is_digit_def is_ws_def quote_def)
  then have "parse_value (Suc n) (s @ t) = map_option (apfst JNumber) (parse_number (s @ t))" for n t
    using c by simp
  then show ?thesis
    using parse_number_ext [OF assms] delim_stops by (simp add: parses_def)
qed

lemma parses_literals: "parses ''null'' JNull" "parses ''true'' (JBool True)" "parses ''false'' (JBool False)"
  by (simp_all add: parses_def quote_def)

lemma parse_elems_ok:
  assumes "list_all2 parses ss vs" and "ss \<noteq> []" and "length (intercalate '','' ss) < n"
  shows "parse_elems (Suc n) (intercalate '','' ss @ CHR '']'' # t) = Some (vs, t)"
  using assms
proof (induction ss vs arbitrary: n rule: list_all2_induct)
  case (Cons s ss v vs)
  then obtain m where n: "n = Suc m" by (cases n) auto
  show ?case
  proof (cases "ss = []")
    case True
    with Cons.hyps have "vs = []" by simp
    with True n Cons.prems parsesD [OF Cons.hyps(1), of m "CHR '']'' # t"] show ?thesis
      by (simp add: delim_def del: parse_value.simps)
  next
    case False
    let ?r = "intercalate '','' ss @ CHR '']'' # t"
    have len: "length (intercalate '','' (s # ss)) = Suc (length s + length (intercalate '','' ss))"
      using False by (simp add: intercalate_Cons)
    have "parse_value (Suc m) (s @ CHR '','' # ?r) = Some (v, CHR '','' # ?r)"
      using Cons.hyps(1) Cons.prems(2) n len by (intro parsesD) (auto simp: delim_def)
    moreover have "parse_elems (Suc m) ?r = Some (vs, t)"
      using Cons.IH False Cons.prems(2) n len by simp
    ultimately show ?thesis using n False
      by (simp add: intercalate_Cons del: parse_value.simps)
  qed
qed simp

definition member_parses :: "string \<times> string \<Rightarrow> string \<times> jval \<Rightarrow> bool" where
  "member_parses ks kv \<longleftrightarrow> sanitize (fst ks) = fst kv \<and> parses (snd ks) (snd kv)"

lemma parse_members_ok:
  assumes "list_all2 member_parses ms kvs" and "ms \<noteq> []"
    and "length (intercalate '','' (map write_member ms)) < n"
  shows "parse_members (Suc n) (intercalate '','' (map write_member ms) @ CHR ''}'' # t) = Some (kvs, t)"
  using assms
proof (induction ms kvs arbitrary: n rule: list_all2_induct)
  case (Cons ks ms kv kvs)
  obtain k s where ks: "ks = (k, s)" by (cases ks)
  obtain k' v where kv: "kv = (k', v)" by (cases kv)
  from Cons.hyps(1) have k: "sanitize k = k'" and s: "parses s v"
    by (auto simp: member_parses_def ks kv)
  from Cons.prems obtain m where n: "n = Suc m" by (cases n) auto
  have shorter: "length s < length (write_member ks)" by (simp add: ks write_member_def)
  have w: "write_member ks @ r = quote # tl (write_string k) @ CHR '':'' # s @ r" for r
    using write_string_Cons [of k] by (metis append.assoc append_Cons fst_conv ks snd_conv write_member_def append_Nil)
  have head: "parse_members (Suc n) (write_member ks @ r) =
      (case parse_value n (s @ r) of None \<Rightarrow> None
       | Some (v, rest2) \<Rightarrow> (case skip_ws rest2 of [] \<Rightarrow> None
           | e # es \<Rightarrow> if e = CHR '','' then map_option (apfst ((#) (k', v))) (parse_members n es)
                      else if e = CHR ''}'' then Some ([(k', v)], es) else None))" for r
    unfolding w by (simp add: unquote_write_string k del: parse_value.simps unquote.simps)
  show ?case
  proof (cases "ms = []")
    case True
    with Cons.hyps have "kvs = []" by simp
    moreover have "parse_value (Suc m) (s @ CHR ''}'' # t) = Some (v, CHR ''}'' # t)"
      using s Cons.prems(2) n True shorter by (intro parsesD) (auto simp: delim_def)
    ultimately show ?thesis using True head [of "CHR ''}'' # t"] n kv
      by (simp del: parse_value.simps parse_members.simps)
  next
    case False
    let ?ws = "map write_member ms"
    let ?r = "intercalate '','' ?ws @ CHR ''}'' # t"
    have len: "length (intercalate '','' (map write_member (ks # ms)))
        = Suc (length (write_member ks) + length (intercalate '','' ?ws))"
      using False by (simp add: intercalate_Cons)
    have "parse_value (Suc m) (s @ CHR '','' # ?r) = Some (v, CHR '','' # ?r)"
      using s Cons.prems(2) n len shorter by (intro parsesD) (auto simp: delim_def)
    moreover have "parse_members (Suc m) ?r = Some (kvs, t)"
      using Cons.IH False Cons.prems(2) n len by simp
    ultimately show ?thesis using n False kv head [of "CHR '','' # ?r"]
      by (simp add: intercalate_Cons del: parse_value.simps parse_members.simps)
  qed
qed simp

lemma update_fresh: "k \<notin> set (keys m) \<Longrightarrow> AList.update k v m = m @ [(k, v)]"
  by (induction m) auto

lemma put_members_distinct: "distinct (keys kvs) \<Longrightarrow> put_members kvs = kvs"
proof -
  have "distinct (keys (m @ kvs)) \<Longrightarrow> foldl (\<lambda>m kv. AList.update (fst kv) (snd kv) m) m kvs = m @ kvs" for m
    by (induction kvs arbitrary: m) (auto simp: update_fresh)
  from this [of "[]"] show "distinct (keys kvs) \<Longrightarrow> put_members kvs = kvs"
    by (simp add: put_members_def)
qed

definition value_start :: "string \<Rightarrow> bool" where
  "value_start s \<longleftrightarrow> (\<exists>c cs. s = c # cs \<and> \<not> is_ws c \<and> c \<noteq> CHR '']'')"

lemma value_start_Cons: "value_start (c # cs) \<longleftrightarrow> \<not> is_ws c \<and> c \<noteq> CHR '']''"
  by (simp add: value_start_def)

lemma value_start_number: "parse_number s = Some (s, []) \<Longrightarrow> value_start s"
proof -
  assume p: "parse_number s = Some (s, [])"
  have "s \<noteq> []" using p by (auto simp: parse_number_def)
  then obtain c cs where c: "s = c # cs" by (cases s) auto
  with p parse_number_hd have "c = CHR ''-'' \<or> is_digit c" by blast
  with c show ?thesis by (auto simp: is_digit_def is_ws_def value_start_Cons)
qed

lemma value_start_string: "value_start (write_string s)"
  by (simp add: write_string_def value_start_Cons) (simp add: quote_def)

lemma value_start_brackets: "value_start (write_list ss)" "value_start (write_object ms)"
  by (simp_all add: write_list_def write_object_def value_start_Cons)

lemma value_start_literals: "value_start ''null''" "value_start ''true''" "value_start ''false''"
  by (simp_all add: value_start_Cons)

lemmas value_starts = value_start_number value_start_string value_start_brackets value_start_literals
  parse_number_int_dec parse_number_nat_dec

lemma render_hd:
  assumes "wf_json v" and "write_val v = Inr s"
  shows "value_start s"
  using assms by (cases v) (auto simp: map_res_Inr_iff intro: value_starts split: if_splits)

lemma insort_key_map:
  "insort_key fst (k, f v) (map (\<lambda>(k, v). (k, f v)) xs) = map (\<lambda>(k, v). (k, f v)) (insort_key fst (k, v) xs)"
  by (induction xs) auto

lemma sort_key_map:
  "sort_key fst (map (\<lambda>(k, v). (k, f v)) xs) = map (\<lambda>(k, v). (k, f v)) (sort_key fst xs)"
  by (induction xs) (auto simp: insort_key_map)

lemma seq_res_list_all2: "seq_res (map f xs) = Inr ys \<Longrightarrow> list_all2 (\<lambda>x y. f x = Inr y) xs ys"
  unfolding list_all2_conv_all_nth using seq_res_map_eq_Inr by metis

lemma parses_list:
  assumes "list_all2 parses ss vs" and "\<forall>s\<in>set ss. value_start s"
  shows "parses (write_list ss) (JList vs)"
proof (cases ss)
  case Nil
  with assms show ?thesis by (simp add: parses_def write_list_def quote_def)
next
  case (Cons s ss')
  then obtain c cs where s: "s = c # cs" "\<not> is_ws c" "c \<noteq> CHR '']''" using assms(2) by (auto simp: value_start_def)
  have hd: "\<exists>r. intercalate '','' ss = c # r"
    using s Cons by (cases ss') auto
  have "parse_value (Suc n) (write_list ss @ t) = Some (JList vs, t)" if "length (write_list ss) \<le> n" for n t
  proof -
    have "Suc (length (intercalate '','' ss)) < n" using that by (simp add: write_list_def)
    then obtain m where "n = Suc m" and "length (intercalate '','' ss) < m" by (cases n) auto
    then have "parse_elems n (intercalate '','' ss @ CHR '']'' # t) = Some (vs, t)"
      using parse_elems_ok [OF assms(1)] Cons by simp
    then show ?thesis using hd s by (auto simp: write_list_def)
  qed
  then show ?thesis by (simp add: parses_def)
qed

lemma parses_object:
  assumes "list_all2 member_parses ms kvs" and "distinct (keys kvs)"
  shows "parses (write_object ms) (JObj kvs)"
proof (cases ms)
  case Nil
  with assms show ?thesis by (simp add: parses_def write_object_def quote_def)
next
  case (Cons k ms')
  have hd: "\<exists>r. intercalate '','' (map write_member ms) = quote # r"
    using Cons by (cases ms') (auto simp: write_member_def write_string_def)
  have "parse_value (Suc n) (write_object ms @ t) = Some (JObj kvs, t)" if "length (write_object ms) \<le> n" for n t
  proof -
    have "Suc (length (intercalate '','' (map write_member ms))) < n" using that by (simp add: write_object_def)
    then obtain m where "n = Suc m" and "length (intercalate '','' (map write_member ms)) < m" by (cases n) auto
    then have "parse_members n (intercalate '','' (map write_member ms) @ CHR ''}'' # t) = Some (kvs, t)"
      using parse_members_ok [OF assms(1)] Cons by simp
    then show ?thesis using hd put_members_distinct [OF assms(2)]
      by (auto simp: write_object_def quote_def)
  qed
  then show ?thesis by (simp add: parses_def)
qed

lemma write_val_parses: "wf_json v \<Longrightarrow> write_val v = Inr s \<Longrightarrow> parses s (normal v)"
proof (induction v arbitrary: s rule: write_val.induct)
  case (8 xs)
  then obtain ss where ss: "seq_res (map write_val xs) = Inr ss" and s: "s = write_list ss"
    by (auto simp: res_simps)
  have all: "list_all2 (\<lambda>x y. write_val x = Inr y) xs ss" by (rule seq_res_list_all2 [OF ss])
  have wf: "\<forall>x\<in>set xs. wf_json x" using 8 by (simp add: list_all_iff)
  have "list_all2 parses ss (map normal xs)"
    using all 8 wf by (auto simp: list_all2_conv_all_nth)
  moreover have "\<forall>s\<in>set ss. value_start s"
  proof
    fix s assume "s \<in> set ss"
    then obtain i where "i < length ss" "s = ss ! i" by (auto simp: in_set_conv_nth)
    then have "write_val (xs ! i) = Inr s" and "wf_json (xs ! i)"
      using all wf by (auto simp: list_all2_conv_all_nth)
    then show "value_start s" using render_hd by blast
  qed
  ultimately show ?case unfolding s using parses_list by simp
next
  case (9 ss)
  have "list_all2 parses (map write_string ss) (map (\<lambda>s. JStr (sanitize s)) ss)"
    by (simp add: list_all2_conv_all_nth parses_string)
  moreover have "\<forall>s\<in>set (map write_string ss). value_start s"
    by (simp add: value_start_string)
  ultimately show ?case using 9 parses_list by auto
next
  case (10 kvs)
  let ?sk = "sort_key fst kvs"
  from 10(3) obtain ms where ms: "seq_res (map (\<lambda>(k, v). map_res (Pair k) (write_val v)) ?sk) = Inr ms"
      and s: "s = write_object ms"
    by (auto simp: res_simps)
  have wf: "\<And>k v. (k, v) \<in> set kvs \<Longrightarrow> valid_utf8 k \<and> wf_json v" and d: "distinct (keys kvs)"
    using 10(2) by (auto simp: list_all_iff wf_map_def)
  have IH: "parses t (normal v)" if "(k, v) \<in> set kvs" "write_val v = Inr t" for k v t
    using 10(1) [of "(k, v)" k v t] that wf by simp
  have all: "list_all2 (\<lambda>kv m. \<exists>k v t. kv = (k, v) \<and> m = (k, t) \<and> write_val v = Inr t) ?sk ms"
    using seq_res_list_all2 [OF ms] by (rule list_all2_mono) (auto simp: res_simps split: prod.splits)
  have "list_all2 member_parses ms (map (\<lambda>(k, v). (k, normal v)) ?sk)"
    unfolding list_all2_conv_all_nth
  proof (intro conjI allI impI)
    show "length ms = length (map (\<lambda>(k, v). (k, normal v)) ?sk)"
      using list_all2_lengthD [OF all] by simp
    fix i assume i: "i < length ms"
    then obtain k v t where e: "?sk ! i = (k, v)" "ms ! i = (k, t)" "write_val v = Inr t"
      using all by (auto simp: list_all2_conv_all_nth)
    have mem: "(k, v) \<in> set kvs"
    proof -
      have "i < length ?sk" using i list_all2_lengthD [OF all] by simp
      then show ?thesis using nth_mem [of i ?sk] e(1) by simp
    qed
    from e show "member_parses (ms ! i) (map (\<lambda>(k, v). (k, normal v)) ?sk ! i)"
      using i wf [OF mem] IH [OF mem e(3)] list_all2_lengthD [OF all]
      by (simp add: member_parses_def valid_utf8_def)
  qed
  moreover have "distinct (keys (map (\<lambda>(k, v). (k, normal v)) ?sk))"
  proof -
    have "keys (map (\<lambda>(k, v). (k, normal v)) ?sk) = map fst ?sk" by auto
    then show ?thesis using d by (metis distinct_map mset_eq_imp_distinct_iff mset_map mset_sort)
  qed
  ultimately show ?case unfolding s using parses_object by (simp add: sort_key_map)
qed (auto simp: parses_literals parses_string parse_number_int_dec parse_number_nat_dec
      intro!: parses_number split: if_splits)

theorem decode_canon:
  assumes "wf_json v"
  shows "\<exists>s. canon v = Inr s \<and> decode s = Some (normal v)"
proof -
  obtain s where s: "write_val v = Inr s"
    using canon_renders [OF wf_json_renderable [OF assms]] by (auto simp: canon_def)
  have "parse_value (Suc (length s)) (s @ []) = Some (normal v, [])"
    by (rule parsesD [OF write_val_parses [OF assms s]]) (simp_all add: delim_def)
  then show ?thesis using s by (simp add: canon_def decode_def del: parse_value.simps)
qed

lemma decode_canonD: "wf_json v \<Longrightarrow> canon v = Inr s \<Longrightarrow> decode s = Some (normal v)"
  using decode_canon [of v] by auto

lemma canon_inj: "wf_json v \<Longrightarrow> wf_json w \<Longrightarrow> canon v = Inr s \<Longrightarrow> canon w = Inr s \<Longrightarrow> normal v = normal w"
  using decode_canonD [of v s] decode_canonD [of w s] by simp

section \<open>Properties\<close>

text \<open>C25 Canonical JSON round trips: every well-formed value renders, and decoding the rendering gives
  its normal form (numbers as literals, malformed UTF-8 replaced, keys sorted).\<close>

theorem canon_round_trip: "wf_json v \<Longrightarrow> \<exists>s. canon v = Inr s \<and> decode s = Some (normal v)"
  using decode_canon [of v] by auto

theorem canon_round_trip_witness:
  "\<exists>s. canon (JObj [(''b'', JInt 2), (''a'', JStr ''x'')]) = Inr s
     \<and> decode s = Some (normal (JObj [(''b'', JInt 2), (''a'', JStr ''x'')]))"
proof (rule canon_round_trip)
  have "valid_utf8 ''a''" "valid_utf8 ''b''" by code_simp+
  then show "wf_json (JObj [(''b'', JInt 2), (''a'', JStr ''x'')])" by (simp add: wf_map_def)
qed

text \<open>The canonical form of an object does not depend on the iteration order of the Go map.\<close>

theorem canon_order_independent:
  "wf_map m \<Longrightarrow> mset m = mset m' \<Longrightarrow> canon (JObj m) = canon (JObj m')"
  by (rule canon_perm)

theorem canon_order_independent_witness:
  "canon (JObj [(''b'', JNull), (''a'', JBool True)]) = canon (JObj [(''a'', JBool True), (''b'', JNull)])"
  by (rule canon_order_independent) (simp_all add: wf_map_def)

end
