(* ===== verification/EvidenceTree.thy ===== *)
theory EvidenceTree
  imports Json
begin

text \<open>
  The salted hash tree of compliance-backend/internal/evidence/tree.go: \<open>node\<close> (a salted
  hash per leaf, the hash of the canonical child map or list above it), the master and evidence
  roots and \<open>Salt\<close>. A panic of the Go code is an error value; \<open>rand.Read\<close> is a
  parameter that gives the bytes drawn for a path (every path is drawn at most once per call).

  The lemmas describe the leaves a value has, say that a hash depends only on the salts of these
  leaves, and give the exact salt map after salting.
\<close>

type_synonym salts = "(string, string) gomap"

datatype tree_err = NoSalt string | BadSalt string | TreeCanon canon_err

section \<open>Definitions\<close>

definition EvidenceKeys :: "string list" where
  "EvidenceKeys = [''pack_id'', ''payment_ref'', ''onchain'', ''travel_rule'', ''wallet_ownership'',
     ''kyt'', ''sanctions'', ''structuring'', ''issuer'', ''rules'']"

definition join :: "string \<Rightarrow> string \<Rightarrow> string" where
  "join path k = (if path = [] then k else path @ ''.'' @ k)"

definition withheld_key :: string where
  "withheld_key = ''$withheld''"

fun is_withheld :: "jval \<Rightarrow> string option" where
  "is_withheld (JObj [(k, JStr w)]) = (if k = withheld_key then Some w else None)"
| "is_withheld _ = None"

definition leaf :: "jval \<Rightarrow> salts \<Rightarrow> string \<Rightarrow> (tree_err, string) res" where
  "leaf v salts path = (case map_of salts path of
     None \<Rightarrow> Inl (NoSalt path)
   | Some s \<Rightarrow> (case hex_decode s of
       None \<Rightarrow> Inl (BadSalt path)
     | Some salt \<Rightarrow> map_res (\<lambda>b. SHA (salt @ b)) (map_err TreeCanon (canon v))))"

text \<open>Indices and members of a container with their child paths.\<close>

definition indexed :: "'a list \<Rightarrow> (nat \<times> 'a) list" where
  "indexed xs = enumerate 0 xs"

lemma indexed_mem: "(i, x) \<in> set (indexed xs) \<Longrightarrow> x \<in> set xs"
  by (simp add: indexed_def in_set_enumerate_eq) (metis nth_mem)

lemma size_list_member: "x \<in> set xs \<Longrightarrow> size x < Suc (size_list size xs)"
  by (simp add: size_list_estimation' less_Suc_eq_le)

function node :: "jval \<Rightarrow> salts \<Rightarrow> string \<Rightarrow> (tree_err, string) res" where
  "node v salts path =
     (case is_withheld v of
        Some w \<Rightarrow> Inr w
      | None \<Rightarrow> (case v of
          JObj kvs \<Rightarrow>
            if kvs = [] then leaf v salts path
            else and_then (seq_res (map (\<lambda>(k, c). map_res (\<lambda>h. (k, JStr h)) (node c salts (join path k))) kvs))
                   (\<lambda>m. map_res SHA (map_err TreeCanon (canon (JObj m))))
        | JList xs \<Rightarrow>
            if xs = [] then leaf v salts path
            else and_then (seq_res (map (\<lambda>(i, c). map_res JStr (node c salts (join path (nat_dec i)))) (indexed xs)))
                   (\<lambda>l. map_res SHA (map_err TreeCanon (canon (JList l))))
        | _ \<Rightarrow> leaf v salts path))"
  by pat_completeness auto
termination
  by (relation "measure (\<lambda>(v, _, _). size v)")
    (auto intro: size_member size_list_member dest: indexed_mem)

declare node.simps [simp del]

definition NodeHash :: "jval \<Rightarrow> salts \<Rightarrow> string \<Rightarrow> (tree_err, string) res" where
  "NodeHash v salts path = node v salts path"

definition MasterRoot :: "(string \<times> jval) list \<Rightarrow> salts \<Rightarrow> (tree_err, string) res" where
  "MasterRoot data salts = NodeHash (JObj data) salts []"

text \<open>A missing key of a Go map reads as nil.\<close>

definition lookup_any :: "(string \<times> jval) list \<Rightarrow> string \<Rightarrow> jval" where
  "lookup_any m k = (case map_of m k of None \<Rightarrow> JNull | Some v \<Rightarrow> v)"

definition EvidenceRoot :: "(string \<times> jval) list \<Rightarrow> salts \<Rightarrow> (tree_err, string) res" where
  "EvidenceRoot data salts =
     and_then (seq_res (map (\<lambda>k. map_res (\<lambda>h. (k, JStr h)) (node (lookup_any data k) salts k)) EvidenceKeys))
       (\<lambda>ev. map_res SHA (map_err TreeCanon (canon (JObj ev))))"

text \<open>\<open>Salt\<close>: a fresh salt for every leaf path that has none yet.\<close>

definition salt_leaf :: "(string \<Rightarrow> string) \<Rightarrow> string \<Rightarrow> salts \<Rightarrow> salts" where
  "salt_leaf fresh path salts =
     (if map_of salts path = None then AList.update path (hex_encode (fresh path)) salts else salts)"

function Salt :: "(string \<Rightarrow> string) \<Rightarrow> jval \<Rightarrow> string \<Rightarrow> salts \<Rightarrow> salts" where
  "Salt fresh v path salts =
     (case is_withheld v of
        Some w \<Rightarrow> salts
      | None \<Rightarrow> (case v of
          JObj kvs \<Rightarrow>
            if kvs = [] then salt_leaf fresh path salts
            else fold (\<lambda>(k, c) s. Salt fresh c (join path k) s) kvs salts
        | JList xs \<Rightarrow>
            if xs = [] then salt_leaf fresh path salts
            else fold (\<lambda>(i, c) s. Salt fresh c (join path (nat_dec i)) s) (indexed xs) salts
        | _ \<Rightarrow> salt_leaf fresh path salts))"
  by pat_completeness auto
termination
  by (relation "measure (\<lambda>(_, v, _, _). size v)")
    (auto intro: size_member size_list_member dest: indexed_mem)

declare Salt.simps [simp del]

section \<open>Leaves\<close>

text \<open>The paths a value is salted at.\<close>

function leaf_paths :: "jval \<Rightarrow> string \<Rightarrow> string list" where
  "leaf_paths v path =
     (case is_withheld v of
        Some w \<Rightarrow> []
      | None \<Rightarrow> (case v of
          JObj kvs \<Rightarrow>
            if kvs = [] then [path] else concat (map (\<lambda>(k, c). leaf_paths c (join path k)) kvs)
        | JList xs \<Rightarrow>
            if xs = [] then [path]
            else concat (map (\<lambda>(i, c). leaf_paths c (join path (nat_dec i))) (indexed xs))
        | _ \<Rightarrow> [path]))"
  by pat_completeness auto
termination
  by (relation "measure (\<lambda>(v, _). size v)")
    (auto intro: size_member size_list_member dest: indexed_mem)

declare leaf_paths.simps [simp del]

text \<open>The shape of a value as the tree code sees it, and the matching induction.\<close>

definition is_leaf :: "jval \<Rightarrow> bool" where
  "is_leaf v \<longleftrightarrow> is_withheld v = None \<and>
     (case v of JObj kvs \<Rightarrow> kvs = [] | JList xs \<Rightarrow> xs = [] | _ \<Rightarrow> True)"

lemma value_shape:
  obtains (withheld) w where "is_withheld v = Some w"
  | (leaf) "is_leaf v"
  | (obj) kvs where "v = JObj kvs" "kvs \<noteq> []" "is_withheld v = None"
  | (list) xs where "v = JList xs" "xs \<noteq> []" "is_withheld v = None"
  using that by (cases "is_withheld v"; cases v) (auto simp: is_leaf_def)

lemma node_withheld: "is_withheld v = Some w \<Longrightarrow> node v salts path = Inr w"
  by (simp add: node.simps)

lemma node_leaf: "is_leaf v \<Longrightarrow> node v salts path = leaf v salts path"
  by (subst node.simps) (cases v; auto simp: is_leaf_def)

lemma node_obj:
  "kvs \<noteq> [] \<Longrightarrow> is_withheld (JObj kvs) = None \<Longrightarrow> node (JObj kvs) salts path =
     and_then (seq_res (map (\<lambda>(k, c). map_res (\<lambda>h. (k, JStr h)) (node c salts (join path k))) kvs))
       (\<lambda>m. map_res SHA (map_err TreeCanon (canon (JObj m))))"
  by (simp add: node.simps [of "JObj kvs"])

lemma node_list:
  "xs \<noteq> [] \<Longrightarrow> node (JList xs) salts path =
     and_then (seq_res (map (\<lambda>(i, c). map_res JStr (node c salts (join path (nat_dec i)))) (indexed xs)))
       (\<lambda>l. map_res SHA (map_err TreeCanon (canon (JList l))))"
  by (simp add: node.simps [of "JList xs"])

lemma leaf_paths_withheld: "is_withheld v = Some w \<Longrightarrow> leaf_paths v path = []"
  by (simp add: leaf_paths.simps)

lemma leaf_paths_leaf: "is_leaf v \<Longrightarrow> leaf_paths v path = [path]"
  by (subst leaf_paths.simps) (cases v; auto simp: is_leaf_def)

lemma leaf_paths_obj:
  "kvs \<noteq> [] \<Longrightarrow> is_withheld (JObj kvs) = None \<Longrightarrow>
     leaf_paths (JObj kvs) path = concat (map (\<lambda>(k, c). leaf_paths c (join path k)) kvs)"
  by (simp add: leaf_paths.simps [of "JObj kvs"])

lemma leaf_paths_list:
  "xs \<noteq> [] \<Longrightarrow>
     leaf_paths (JList xs) path = concat (map (\<lambda>(i, c). leaf_paths c (join path (nat_dec i))) (indexed xs))"
  by (simp add: leaf_paths.simps [of "JList xs"])

lemma Salt_withheld: "is_withheld v = Some w \<Longrightarrow> Salt fresh v path salts = salts"
  by (simp add: Salt.simps)

lemma Salt_leaf: "is_leaf v \<Longrightarrow> Salt fresh v path salts = salt_leaf fresh path salts"
  by (subst Salt.simps) (cases v; auto simp: is_leaf_def)

lemma Salt_obj:
  "kvs \<noteq> [] \<Longrightarrow> is_withheld (JObj kvs) = None \<Longrightarrow>
     Salt fresh (JObj kvs) path salts = fold (\<lambda>(k, c) s. Salt fresh c (join path k) s) kvs salts"
  by (simp add: Salt.simps [of _ "JObj kvs"])

lemma Salt_list:
  "xs \<noteq> [] \<Longrightarrow>
     Salt fresh (JList xs) path salts = fold (\<lambda>(i, c) s. Salt fresh c (join path (nat_dec i)) s) (indexed xs) salts"
  by (simp add: Salt.simps [of _ "JList xs"])

lemma leaf_paths_objI:
  "(k, c) \<in> set kvs \<Longrightarrow> is_withheld (JObj kvs) = None \<Longrightarrow> p \<in> set (leaf_paths c (join path k)) \<Longrightarrow>
     p \<in> set (leaf_paths (JObj kvs) path)"
  by (subst leaf_paths_obj) auto

lemma leaf_paths_listI:
  "(i, c) \<in> set (indexed xs) \<Longrightarrow> p \<in> set (leaf_paths c (join path (nat_dec i))) \<Longrightarrow>
     p \<in> set (leaf_paths (JList xs) path)"
  by (subst leaf_paths_list) (auto dest: indexed_mem)

lemmas tree_withheld = node_withheld leaf_paths_withheld Salt_withheld
lemmas tree_leaf = node_leaf leaf_paths_leaf Salt_leaf
lemmas tree_obj = node_obj leaf_paths_obj Salt_obj
lemmas tree_list = node_list leaf_paths_list Salt_list

lemma tree_induct [case_names withheld leaf obj list]:
  assumes "\<And>v path w. is_withheld v = Some w \<Longrightarrow> P v path"
    and "\<And>v path. is_leaf v \<Longrightarrow> P v path"
    and "\<And>kvs path. \<lbrakk>kvs \<noteq> []; is_withheld (JObj kvs) = None;
           \<And>k c. (k, c) \<in> set kvs \<Longrightarrow> P c (join path k)\<rbrakk> \<Longrightarrow> P (JObj kvs) path"
    and "\<And>xs path. \<lbrakk>xs \<noteq> []; \<And>i c. (i, c) \<in> set (indexed xs) \<Longrightarrow> P c (join path (nat_dec i))\<rbrakk>
           \<Longrightarrow> P (JList xs) path"
  shows "P v path"
proof (induction v path rule: leaf_paths.induct)
  case (1 v path)
  show ?case
  proof (cases v rule: value_shape)
    case (withheld w)
    then show ?thesis by (rule assms(1))
  next
    case leaf
    then show ?thesis by (rule assms(2))
  next
    case (obj kvs)
    then have "P c (join path k)" if "(k, c) \<in> set kvs" for k c
      using "1.IH"(2) [of kvs "(k, c)" k c] that by simp
    with obj show ?thesis by (simp add: assms(3))
  next
    case (list xs)
    then have "P c (join path (nat_dec i))" if "(i, c) \<in> set (indexed xs)" for i c
      using "1.IH"(1) [of xs "(i, c)" i c] that by simp
    with list show ?thesis by (simp add: assms(4))
  qed
qed

section \<open>A hash depends only on the salts of its leaves\<close>

lemma leaf_cong: "map_of salts path = map_of salts' path \<Longrightarrow> leaf v salts path = leaf v salts' path"
  by (simp add: leaf_def)

lemma node_cong:
  "(\<And>p. p \<in> set (leaf_paths v path) \<Longrightarrow> map_of salts p = map_of salts' p) \<Longrightarrow>
     node v salts path = node v salts' path"
proof (induction v path rule: tree_induct)
  case (obj kvs path)
  have "node c salts (join path k) = node c salts' (join path k)" if "(k, c) \<in> set kvs" for k c
    using obj(2,4) that by (intro obj(3)) (auto intro: leaf_paths_objI)
  then have "map (\<lambda>(k, c). map_res (\<lambda>h. (k, JStr h)) (node c salts (join path k))) kvs
      = map (\<lambda>(k, c). map_res (\<lambda>h. (k, JStr h)) (node c salts' (join path k))) kvs"
    by (intro map_cong) auto
  then show ?case by (simp only: node_obj [OF obj(1,2)])
next
  case (list xs path)
  have "node c salts (join path (nat_dec i)) = node c salts' (join path (nat_dec i))"
    if "(i, c) \<in> set (indexed xs)" for i c
    using list(3) that by (intro list(2)) (auto intro: leaf_paths_listI)
  then have "map (\<lambda>(i, c). map_res JStr (node c salts (join path (nat_dec i)))) (indexed xs)
      = map (\<lambda>(i, c). map_res JStr (node c salts' (join path (nat_dec i)))) (indexed xs)"
    by (intro map_cong) auto
  then show ?case by (simp only: node_list [OF list(1)])
qed (auto simp: tree_withheld tree_leaf intro: leaf_cong)

section \<open>When a tree hashes\<close>

definition salt_ok :: "salts \<Rightarrow> string \<Rightarrow> bool" where
  "salt_ok salts p \<longleftrightarrow> (\<exists>s b. map_of salts p = Some s \<and> hex_decode s = Some b)"

lemma and_then_total: "\<exists>x. r = Inr x \<Longrightarrow> (\<And>x. r = Inr x \<Longrightarrow> \<exists>y. f x = Inr y) \<Longrightarrow> \<exists>y. and_then r f = Inr y"
  by auto

lemma map_res_total: "\<exists>x. r = Inr x \<Longrightarrow> \<exists>y. map_res f r = Inr y"
  by auto

lemma map_err_total: "\<exists>x. r = Inr x \<Longrightarrow> \<exists>y. map_err f r = Inr y"
  by auto

lemma leaf_total:
  assumes "renderable v" and "salt_ok salts path"
  shows "\<exists>h. leaf v salts path = Inr h"
  using assms canon_renders [OF assms(1)] by (auto simp: leaf_def salt_ok_def)

text \<open>The canonical form of a container of child hashes always exists.\<close>

lemma hashed_container_total:
  "(\<And>x. x \<in> set m \<Longrightarrow> renderable (snd x)) \<Longrightarrow>
     \<exists>y. map_res SHA (map_err TreeCanon (canon (JObj m))) = Inr y"
  by (intro map_res_total map_err_total canon_renders) (auto simp: list_all_iff)

lemma hashed_list_total:
  "(\<And>x. x \<in> set l \<Longrightarrow> renderable x) \<Longrightarrow>
     \<exists>y. map_res SHA (map_err TreeCanon (canon (JList l))) = Inr y"
  by (intro map_res_total map_err_total canon_renders) (auto simp: list_all_iff)

lemma node_total:
  "renderable v \<Longrightarrow> (\<And>p. p \<in> set (leaf_paths v path) \<Longrightarrow> salt_ok salts p) \<Longrightarrow>
     \<exists>h. node v salts path = Inr h"
proof (induction v path rule: tree_induct)
  case (obj kvs path)
  let ?f = "\<lambda>(k, c). map_res (\<lambda>h. (k, JStr h)) (node c salts (join path k))"
  have "\<exists>h. node c salts (join path k) = Inr h" if "(k, c) \<in> set kvs" for k c
    using obj(2,4,5) that by (intro obj(3)) (auto simp: list_all_iff intro: leaf_paths_objI)
  then have "\<exists>m. seq_res (map ?f kvs) = Inr m"
    by (intro seq_res_map_total) (fastforce simp: map_res_Inr_iff)
  then show ?case
    unfolding node_obj [OF obj(1,2)]
  proof (rule and_then_total)
    fix m assume m: "seq_res (map ?f kvs) = Inr m"
    show "\<exists>y. map_res SHA (map_err TreeCanon (canon (JObj m))) = Inr y"
      by (rule hashed_container_total, erule seq_res_map_all [OF m, rotated])
        (auto simp: map_res_Inr_iff)
  qed
next
  case (list xs path)
  let ?f = "\<lambda>(i, c). map_res JStr (node c salts (join path (nat_dec i)))"
  have "\<exists>h. node c salts (join path (nat_dec i)) = Inr h" if "(i, c) \<in> set (indexed xs)" for i c
    using list(3,4) that indexed_mem [OF that]
    by (intro list(2)) (auto simp: list_all_iff intro: leaf_paths_listI)
  then have "\<exists>l. seq_res (map ?f (indexed xs)) = Inr l"
    by (intro seq_res_map_total) (fastforce simp: map_res_Inr_iff)
  then show ?case
    unfolding node_list [OF list(1)]
  proof (rule and_then_total)
    fix l assume l: "seq_res (map ?f (indexed xs)) = Inr l"
    show "\<exists>y. map_res SHA (map_err TreeCanon (canon (JList l))) = Inr y"
      by (rule hashed_list_total, erule seq_res_map_all [OF l, rotated])
        (auto simp: map_res_Inr_iff)
  qed
qed (auto simp: tree_withheld tree_leaf intro: leaf_total)


section \<open>What salting does to the salt map\<close>

definition salted :: "(string \<Rightarrow> string) \<Rightarrow> string set \<Rightarrow> (string \<Rightarrow> string option) \<Rightarrow> string \<Rightarrow> string option" where
  "salted fresh L m p = (case m p of
     Some s \<Rightarrow> Some s
   | None \<Rightarrow> if p \<in> L then Some (hex_encode (fresh p)) else None)"

lemma salted_salted: "salted fresh L (salted fresh K m) = salted fresh (K \<union> L) m"
  by (rule ext) (auto simp: salted_def split: option.splits)

lemma salted_empty [simp]: "salted fresh {} m = m"
  by (rule ext) (auto simp: salted_def split: option.splits)

lemma fold_salted:
  "(\<And>x s. x \<in> set xs \<Longrightarrow> map_of (g x s) = salted fresh (L x) (map_of s)) \<Longrightarrow>
     map_of (fold g xs s) = salted fresh (\<Union>x\<in>set xs. L x) (map_of s)"
  by (induction xs arbitrary: s) (auto simp: salted_salted)

lemma salt_leaf_salted: "map_of (salt_leaf fresh path s) = salted fresh {path} (map_of s)"
  by (rule ext) (auto simp: salt_leaf_def salted_def update_conv split: option.splits)

theorem Salt_salted:
  "map_of (Salt fresh v path s) = salted fresh (set (leaf_paths v path)) (map_of s)"
proof (induction v path arbitrary: s rule: tree_induct)
  case (obj kvs path)
  have "map_of (fold (\<lambda>(k, c) s. Salt fresh c (join path k) s) kvs s)
      = salted fresh (\<Union>x\<in>set kvs. set (leaf_paths (snd x) (join path (fst x)))) (map_of s)"
    using obj(3) by (intro fold_salted) auto
  then show ?case using obj(1,2) by (simp add: tree_obj case_prod_unfold)
next
  case (list xs path)
  have "map_of (fold (\<lambda>(i, c) s. Salt fresh c (join path (nat_dec i)) s) (indexed xs) s)
      = salted fresh (\<Union>x\<in>set (indexed xs). set (leaf_paths (snd x) (join path (nat_dec (fst x))))) (map_of s)"
    using list(2) by (intro fold_salted) auto
  then show ?case using list(1) by (simp add: tree_list case_prod_unfold)
qed (auto simp: tree_withheld tree_leaf salt_leaf_salted)

lemma Salt_keeps: "map_of s p = Some x \<Longrightarrow> map_of (Salt fresh v path s) p = Some x"
  by (simp add: Salt_salted salted_def)

lemma Salt_outside: "p \<notin> set (leaf_paths v path) \<Longrightarrow> map_of (Salt fresh v path s) p = map_of s p"
  by (simp add: Salt_salted salted_def split: option.splits)

lemma Salt_new:
  "p \<in> set (leaf_paths v path) \<Longrightarrow> map_of s p = None \<Longrightarrow>
     map_of (Salt fresh v path s) p = Some (hex_encode (fresh p))"
  by (simp add: Salt_salted salted_def)

definition salts_hex :: "salts \<Rightarrow> bool" where
  "salts_hex s \<longleftrightarrow> (\<forall>p x. map_of s p = Some x \<longrightarrow> hex_decode x \<noteq> None)"

lemma salts_hex_ok: "salts_hex s \<Longrightarrow> map_of s p = Some x \<Longrightarrow> salt_ok s p"
  by (auto simp: salts_hex_def salt_ok_def)

lemma Salt_hex: "salts_hex s \<Longrightarrow> salts_hex (Salt fresh v path s)"
  by (auto simp: salts_hex_def Salt_salted salted_def split: option.splits if_splits)

lemma Salt_covers: "salts_hex s \<Longrightarrow> p \<in> set (leaf_paths v path) \<Longrightarrow> salt_ok (Salt fresh v path s) p"
  by (cases "map_of s p")
    (blast intro: salts_hex_ok Salt_hex Salt_new Salt_keeps)+

section \<open>Path segments\<close>

lemma join_nonempty [simp]: "k \<noteq> [] \<Longrightarrow> join path k \<noteq> []"
  by (simp add: join_def)

lemma nat_dec_join [simp]: "join path (nat_dec i) \<noteq> []"
  by simp

definition below :: "string \<Rightarrow> string \<Rightarrow> bool" where
  "below path p \<longleftrightarrow> p = path \<or> prefix (path @ ''.'') p"

lemma below_refl [simp]: "below path path"
  by (simp add: below_def)

lemma below_join: "path \<noteq> [] \<Longrightarrow> below (join path k) p \<Longrightarrow> below path p"
  by (auto simp: below_def join_def prefix_def)

lemma leaf_paths_below:
  "path \<noteq> [] \<Longrightarrow> p \<in> set (leaf_paths v path) \<Longrightarrow> below path p"
proof (induction v path rule: tree_induct)
  case (obj kvs path)
  then obtain k c where "(k, c) \<in> set kvs" "p \<in> set (leaf_paths c (join path k))"
    by (auto simp: tree_obj)
  moreover have "join path k \<noteq> []" using obj(4) by (simp add: join_def)
  ultimately have "below (join path k) p" using obj(3) by blast
  then show ?case using obj(4) below_join by blast
next
  case (list xs path)
  then obtain i c where "(i, c) \<in> set (indexed xs)" "p \<in> set (leaf_paths c (join path (nat_dec i)))"
    by (auto simp: tree_list)
  then have "below (join path (nat_dec i)) p" by (intro list(2)) simp_all
  then show ?case using list(3) below_join by blast
qed (auto simp: tree_withheld tree_leaf)

lemma first_segment_below: "below k p \<Longrightarrow> first_segment p = first_segment k"
  by (auto simp: below_def prefix_def first_segment_def takeWhile_tail)

lemma first_segment_nodot: "CHR ''.'' \<notin> set k \<Longrightarrow> first_segment k = k"
  by (auto simp: first_segment_def takeWhile_eq_all_conv)

lemma below_rest:
  "path \<noteq> [] \<Longrightarrow> below (join path k) p \<Longrightarrow> \<exists>r. p = path @ ''.'' @ r \<and> below k r"
  by (auto simp: join_def below_def prefix_def)

lemma below_segments:
  "below (join path k) p \<Longrightarrow> below (join path k') p \<Longrightarrow> first_segment k = first_segment k'"
proof -
  assume b: "below (join path k) p" "below (join path k') p"
  show ?thesis
  proof (cases "path = []")
    case True
    with b first_segment_below [of k p] first_segment_below [of k' p] show ?thesis
      by (simp add: join_def)
  next
    case False
    then obtain r where r: "p = path @ ''.'' @ r" "below k r"
      using b(1) below_rest by blast
    from False obtain r' where r': "p = path @ ''.'' @ r'" "below k' r'"
      using b(2) below_rest by blast
    from r(1) r'(1) have "r = r'" by simp
    with r(2) r'(2) first_segment_below [of k r] first_segment_below [of k' r'] show ?thesis by simp
  qed
qed

text \<open>
  A value is path-unambiguous if the keys of every object are non-empty and differ in their first
  dotted segment: then no two leaves share a path and no path of one subtree lies below another.
\<close>

fun segmented :: "jval \<Rightarrow> bool" where
  "segmented (JObj kvs) = (distinct (map (\<lambda>(k, v). first_segment k) kvs)
     \<and> list_all (\<lambda>(k, v). k \<noteq> [] \<and> segmented v) kvs)"
| "segmented (JList xs) = list_all segmented xs"
| "segmented _ = True"

lemma segmented_keys: "segmented (JObj kvs) \<Longrightarrow> wf_map kvs"
  unfolding wf_map_def segmented.simps distinct_map inj_on_def by fastforce

lemma segmented_siblings:
  assumes "segmented (JObj kvs)" and "(k, v) \<in> set kvs" and "(k', v') \<in> set kvs" and "k \<noteq> k'"
  shows "first_segment k \<noteq> first_segment k'"
proof
  assume "first_segment k = first_segment k'"
  with assms(1-3) have "(k, v) = (k', v')"
    unfolding segmented.simps distinct_map inj_on_def by fastforce
  with assms(4) show False by simp
qed

lemma sibling_leaves_disjoint:
  assumes "segmented (JObj kvs)" and "(k, v) \<in> set kvs" and "(k', v') \<in> set kvs" and "k \<noteq> k'"
    and "p \<in> set (leaf_paths v (join path k))"
  shows "\<not> below (join path k') p"
proof
  assume b: "below (join path k') p"
  have "k \<noteq> []" using assms(1,2) by (auto simp: list_all_iff)
  then have "below (join path k) p" using assms(5) leaf_paths_below by simp
  with b segmented_siblings [OF assms(1-4)] below_segments show False by blast
qed

end
