(* ===== verification/Jws.thy ===== *)
theory Jws
  imports EvidenceTree
begin

text \<open>
  Detached JWS signatures: compliance-backend/internal/evidence/jws.go, with the unpadded URL-safe
  base64 of \<open>encoding/base64\<close> (line breaks skipped, trailing bits not checked, as Go's
  non-strict decoder does) and the big-endian integers of \<open>math/big\<close>.

  The private key is the function \<open>ecdsa_sign\<close> of the signer (digest to signature, or an
  error of the random source) and the public key the function \<open>ecdsa_verify\<close>; both are
  arguments. The lemmas: base64 and integer round trips, that what \<open>Sign\<close> returns
  verifies, and that the signing input determines header and payload.
\<close>

section \<open>Base64, URL alphabet without padding\<close>

definition b64_digit :: "nat \<Rightarrow> char" where
  "b64_digit d = char_of (if d < 26 then 65 + d else if d < 52 then 71 + d
     else if d < 62 then d - 4 else if d = 62 then 45 else (95 :: nat))"

definition b64_val :: "char \<Rightarrow> nat option" where
  "b64_val c = (let n = of_char c :: nat in
     if 65 \<le> n \<and> n \<le> 90 then Some (n - 65)
     else if 97 \<le> n \<and> n \<le> 122 then Some (n - 71)
     else if 48 \<le> n \<and> n \<le> 57 then Some (n + 4)
     else if n = 45 then Some 62
     else if n = 95 then Some 63
     else None)"

fun sextets :: "nat list \<Rightarrow> nat list" where
  "sextets [] = []"
| "sextets [a] = [a div 4, a mod 4 * 16]"
| "sextets [a, b] = [a div 4, a mod 4 * 16 + b div 16, b mod 16 * 4]"
| "sextets (a # b # c # r) = a div 4 # (a mod 4 * 16 + b div 16) # (b mod 16 * 4 + c div 64) # c mod 64 # sextets r"

fun octets :: "nat list \<Rightarrow> nat list option" where
  "octets [] = Some []"
| "octets [x] = None"
| "octets [x, y] = Some [x * 4 + y div 16]"
| "octets [x, y, z] = Some [x * 4 + y div 16, y mod 16 * 16 + z div 4]"
| "octets (x # y # z # w # r) =
     map_option (\<lambda>t. (x * 4 + y div 16) # (y mod 16 * 16 + z div 4) # (z mod 4 * 64 + w) # t) (octets r)"

definition b64_encode :: "string \<Rightarrow> string" where
  "b64_encode bs = map b64_digit (sextets (map of_char bs))"

definition b64_decode :: "string \<Rightarrow> string option" where
  "b64_decode s = Option.bind (those (map b64_val (filter (\<lambda>c. c \<noteq> CHR 0x0A \<and> c \<noteq> CHR 0x0D) s)))
     (\<lambda>ds. map_option (map char_of) (octets ds))"

lemma b64_digit_cases:
  assumes "d < 64"
  shows "b64_val (b64_digit d) = Some d" and "b64_digit d \<noteq> CHR ''.''"
    and "b64_digit d \<noteq> CHR 0x0A" and "b64_digit d \<noteq> CHR 0x0D"
proof -
  let ?n = "if d < 26 then 65 + d else if d < 52 then 71 + d
     else if d < 62 then d - 4 else if d = 62 then 45 else (95 :: nat)"
  have n: "of_char (b64_digit d) = ?n"
    unfolding b64_digit_def using assms by (intro of_char_byte) (auto split: if_splits)
  show "b64_val (b64_digit d) = Some d"
    unfolding b64_val_def n using assms by (auto simp: Let_def)
  have ne: "b64_digit d \<noteq> c" if "of_char c \<noteq> ?n" for c
    using that n by auto
  show "b64_digit d \<noteq> CHR ''.''" and "b64_digit d \<noteq> CHR 0x0A" and "b64_digit d \<noteq> CHR 0x0D"
    by (intro ne; auto)+
qed

lemma field_high: "(y :: nat) < m \<Longrightarrow> (x * m + y) div m = x"
  by simp

lemma field_low: "(y :: nat) < m \<Longrightarrow> (x * m + y) mod m = y"
  by simp

lemma sextet_bounds:
  assumes "a < 256" and "b < (256 :: nat)"
  shows "a div 4 < 64" and "a mod 4 * 16 + b div 16 < 64" and "a mod 16 * 4 + b div 64 < 64"
    and "a mod 4 * 16 < 64" and "a mod 16 * 4 < 64" and "a div 16 < 16" and "a div 64 < 4"
proof -
  have "a mod 4 < 4" "a mod 16 < 16" "b div 16 < 16" "b div 64 < 4" using assms by simp_all
  then show "a mod 4 * 16 + b div 16 < 64" "a mod 16 * 4 + b div 64 < 64"
    "a mod 4 * 16 < 64" "a mod 16 * 4 < 64" by linarith+
qed (use assms in simp_all)

lemma sextets_bound: "\<forall>b\<in>set bs. b < 256 \<Longrightarrow> d \<in> set (sextets bs) \<Longrightarrow> d < 64"
  by (induction bs rule: sextets.induct) (auto simp: sextet_bounds)

lemma octets_1: "a < 256 \<Longrightarrow> a div 4 * 4 + (a mod 4 * 16 + b div 16) div 16 = (a :: nat)"
  if "b < 256"
proof -
  have "(a mod 4 * 16 + b div 16) div 16 = a mod 4" using that by (intro field_high) simp
  then show ?thesis by simp
qed

lemma octets_2: "(a mod 4 * 16 + b div 16) mod 16 * 16 + (b mod 16 * 4 + c div 64) div 4 = (b :: nat)"
  if "b < 256" and "c < 256"
proof -
  have "(a mod 4 * 16 + b div 16) mod 16 = b div 16" using that by (intro field_low) simp
  moreover have "(b mod 16 * 4 + c div 64) div 4 = b mod 16" using that by (intro field_high) simp
  ultimately show ?thesis by simp
qed

lemma octets_3: "(b mod 16 * 4 + c div 64) mod 4 * 64 + c mod 64 = (c :: nat)"
  if "c < 256"
proof -
  have "(b mod 16 * 4 + c div 64) mod 4 = c div 64" using that by (intro field_low) simp
  then show ?thesis by simp
qed

lemma octets_sextets: "\<forall>b\<in>set bs. b < 256 \<Longrightarrow> octets (sextets bs) = Some bs"
proof (induction bs rule: sextets.induct)
  case (2 a)
  then show ?case using octets_1 [of 0 a] by simp
next
  case (3 a b)
  then show ?case using octets_1 [of b a] octets_2 [of b 0 a] by simp
next
  case (4 a b c r)
  then have b: "a < 256" "b < 256" "c < 256" and "octets (sextets r) = Some r" by simp_all
  then show ?case
    by (simp only: sextets.simps octets.simps octets_1 [OF b(2,1)] octets_2 [OF b(2,3)] octets_3 [OF b(3)]
      option.map)
qed simp

lemma those_map_Some: "(\<And>x. x \<in> set xs \<Longrightarrow> f x = Some (g x)) \<Longrightarrow> those (map f xs) = Some (map g xs)"
  by (induction xs) auto

lemma b64_encode_chars:
  "c \<in> set (b64_encode bs) \<Longrightarrow> c \<noteq> CHR ''.'' \<and> c \<noteq> CHR 0x0A \<and> c \<noteq> CHR 0x0D"
  unfolding b64_encode_def using sextets_bound [of "map of_char bs"] b64_digit_cases by auto

theorem b64_decode_encode: "b64_decode (b64_encode bs) = Some bs"
proof -
  let ?ds = "sextets (map of_char bs)"
  have "filter (\<lambda>c. c \<noteq> CHR 0x0A \<and> c \<noteq> CHR 0x0D) (b64_encode bs) = b64_encode bs"
    using b64_encode_chars by (intro filter_True) blast
  moreover have "those (map b64_val (b64_encode bs)) = Some ?ds"
  proof -
    have "b64_val (b64_digit d) = Some d" if "d \<in> set ?ds" for d
      using that sextets_bound [of "map of_char bs" d] b64_digit_cases(1) by simp
    then show ?thesis
      using those_map_Some [of ?ds "\<lambda>d. b64_val (b64_digit d)" "\<lambda>d. d"]
      by (simp add: b64_encode_def comp_def)
  qed
  ultimately show ?thesis
    by (simp add: b64_decode_def octets_sextets comp_def)
qed

lemma b64_encode_inj: "b64_encode a = b64_encode b \<Longrightarrow> a = b"
  by (metis b64_decode_encode option.inject)

section \<open>Big-endian integers\<close>

definition be_nat :: "string \<Rightarrow> nat" where
  "be_nat bs = foldl (\<lambda>a c. 256 * a + of_char c) 0 bs"

fun be_bytes :: "nat \<Rightarrow> nat \<Rightarrow> string" where
  "be_bytes 0 n = []"
| "be_bytes (Suc k) n = be_bytes k (n div 256) @ [char_of (n mod 256)]"

lemma length_be_bytes [simp]: "length (be_bytes k n) = k"
  by (induction k arbitrary: n) auto

lemma be_nat_snoc: "be_nat (bs @ [c]) = 256 * be_nat bs + of_char c"
  by (simp add: be_nat_def)

lemma be_nat_be_bytes: "n < 256 ^ k \<Longrightarrow> be_nat (be_bytes k n) = n"
proof (induction k arbitrary: n)
  case 0
  then show ?case by (simp add: be_nat_def)
next
  case (Suc k)
  have "n div 256 < 256 ^ k" using Suc.prems by (simp add: less_mult_imp_div_less mult.commute)
  with Suc.IH show ?case by (simp add: be_nat_snoc)
qed

section \<open>Signing and verifying\<close>

datatype jws_err = HeaderCanon canon_err | SignFailed | SigOverflow | NotDetached | BadSigEncoding | SigMismatch

record jws_signer =
  KID :: string
  ecdsa_sign :: "string \<Rightarrow> (nat \<times> nat) option"

type_synonym ecdsa_verify = "string \<Rightarrow> nat \<Rightarrow> nat \<Rightarrow> bool"

definition jws_header :: "string \<Rightarrow> (jws_err, string) res" where
  "jws_header kid = map_res b64_encode (map_err HeaderCanon
     (canon (JObj [(''alg'', JStr ''ES256''), (''kid'', JStr kid)])))"

definition signing_input :: "string \<Rightarrow> string \<Rightarrow> string" where
  "signing_input h payload = h @ ''.'' @ b64_encode payload"

definition Sign :: "jws_signer \<Rightarrow> string \<Rightarrow> (jws_err, string) res" where
  "Sign s payload = and_then (jws_header (KID s)) (\<lambda>h.
     case ecdsa_sign s (sha256 (signing_input h payload)) of
       None \<Rightarrow> Inl SignFailed
     | Some (r, ss) \<Rightarrow>
         if r < 256 ^ 32 \<and> ss < 256 ^ 32
         then Inr (h @ ''..'' @ b64_encode (be_bytes 32 r @ be_bytes 32 ss))
         else Inl SigOverflow)"

definition VerifyJWS :: "ecdsa_verify \<Rightarrow> string \<Rightarrow> string \<Rightarrow> (jws_err, unit) res" where
  "VerifyJWS verify jws payload = (case split_on CHR ''.'' jws of
     [h, [], sg] \<Rightarrow>
       (case b64_decode sg of
          None \<Rightarrow> Inl BadSigEncoding
        | Some sig \<Rightarrow>
            if length sig \<noteq> 64 then Inl BadSigEncoding
            else ensure (verify (sha256 (signing_input h payload)) (be_nat (take 32 sig)) (be_nat (drop 32 sig)))
                   SigMismatch)
   | _ \<Rightarrow> Inl NotDetached)"

section \<open>Correctness of signatures\<close>

lemma jws_header_ok: "\<exists>h. jws_header kid = Inr h \<and> CHR ''.'' \<notin> set h"
proof -
  obtain b where "canon (JObj [(''alg'', JStr ''ES256''), (''kid'', JStr kid)]) = Inr b"
    using canon_renders [of "JObj [(''alg'', JStr ''ES256''), (''kid'', JStr kid)]"] by auto
  then show ?thesis using b64_encode_chars by (auto simp: jws_header_def)
qed

lemma split_on_absent: "d \<notin> set s \<Longrightarrow> split_on d s = [s]"
  by (induction s) auto

lemma split_on_append: "d \<notin> set s \<Longrightarrow> split_on d (s @ d # t) = s # split_on d t"
  by (induction s) auto

lemma signing_input_inj:
  assumes "signing_input h p = signing_input h' p'" and "CHR ''.'' \<notin> set h" and "CHR ''.'' \<notin> set h'"
  shows "h = h' \<and> p = p'"
proof -
  have nodot: "CHR ''.'' \<notin> set (b64_encode x)" for x using b64_encode_chars by blast
  have "split_on CHR ''.'' (signing_input h p) = [h, b64_encode p]"
    "split_on CHR ''.'' (signing_input h' p') = [h', b64_encode p']"
    using assms(2,3) nodot by (simp_all add: signing_input_def split_on_append split_on_absent)
  with assms(1) show ?thesis using b64_encode_inj by simp
qed

lemma split_detached:
  assumes "CHR ''.'' \<notin> set h"
  shows "split_on CHR ''.'' (h @ ''..'' @ b64_encode sig) = [h, [], b64_encode sig]"
proof -
  have "CHR ''.'' \<notin> set (b64_encode sig)" using b64_encode_chars by blast
  with assms show ?thesis by (simp add: split_on_append split_on_absent)
qed

lemma Sign_parts:
  assumes "Sign s payload = Inr jws"
  obtains h r ss where "jws_header (KID s) = Inr h" and "CHR ''.'' \<notin> set h"
    and "ecdsa_sign s (sha256 (signing_input h payload)) = Some (r, ss)"
    and "r < 256 ^ 32" and "ss < 256 ^ 32"
    and "jws = h @ ''..'' @ b64_encode (be_bytes 32 r @ be_bytes 32 ss)"
  using assms jws_header_ok [of "KID s"] that
  by (auto simp: Sign_def split: option.splits if_splits)

lemma VerifyJWS_detached:
  assumes "CHR ''.'' \<notin> set h" and "r < 256 ^ 32" and "ss < 256 ^ 32"
  shows "VerifyJWS verify (h @ ''..'' @ b64_encode (be_bytes 32 r @ be_bytes 32 ss)) payload
    = ensure (verify (sha256 (signing_input h payload)) r ss) SigMismatch"
  unfolding VerifyJWS_def split_detached [OF assms(1)]
  using assms(2,3) by (simp add: b64_decode_encode be_nat_be_bytes)

lemma Sign_verifies:
  assumes "Sign s payload = Inr jws"
    and "\<And>d r ss. ecdsa_sign s d = Some (r, ss) \<Longrightarrow> verify d r ss"
  shows "VerifyJWS verify jws payload = Inr ()"
  using assms(1)
proof (rule Sign_parts)
  fix h r ss
  assume "jws_header (KID s) = Inr h" and "CHR ''.'' \<notin> set h"
    and "ecdsa_sign s (sha256 (signing_input h payload)) = Some (r, ss)"
    and "r < 256 ^ 32" and "ss < 256 ^ 32"
    and "jws = h @ ''..'' @ b64_encode (be_bytes 32 r @ be_bytes 32 ss)"
  then show ?thesis using assms(2) VerifyJWS_detached [of h r ss verify payload] by simp
qed

lemma Sign_total:
  assumes "\<And>d. \<exists>r ss. ecdsa_sign s d = Some (r, ss) \<and> r < 256 ^ 32 \<and> ss < 256 ^ 32"
  shows "\<exists>jws. Sign s payload = Inr jws"
proof -
  obtain h where h: "jws_header (KID s) = Inr h" using jws_header_ok by blast
  obtain r ss where "ecdsa_sign s (sha256 (signing_input h payload)) = Some (r, ss)" "r < 256 ^ 32" "ss < 256 ^ 32"
    using assms by blast
  then show ?thesis by (auto simp: Sign_def h)
qed

section \<open>Properties\<close>

text \<open>A detached JWS made by \<open>Sign\<close> verifies over the payload it was made for, whenever the
  ECDSA verifier accepts what the ECDSA signer produced.\<close>

theorem jws_round_trip:
  "Sign s payload = Inr jws \<Longrightarrow> (\<And>d r ss. ecdsa_sign s d = Some (r, ss) \<Longrightarrow> verify d r ss)
     \<Longrightarrow> VerifyJWS verify jws payload = Inr ()"
  by (rule Sign_verifies)

theorem jws_round_trip_witness:
  "\<exists>jws. VerifyJWS (\<lambda>d r ss. r = 5 \<and> ss = 7) jws ''hello'' = Inr ()"
proof -
  let ?s = "\<lparr> KID = ''k'', ecdsa_sign = (\<lambda>d. Some (5, 7)) \<rparr>"
  obtain jws where "Sign ?s ''hello'' = Inr jws" using Sign_total [of ?s] by auto
  then have "VerifyJWS (\<lambda>d r ss. r = 5 \<and> ss = 7) jws ''hello'' = Inr ()"
    by (rule jws_round_trip) simp
  then show ?thesis by blast
qed

end
