(* ===== verification/Builder.thy ===== *)
theory Builder
  imports Jws
begin

text \<open>
  Snapshots and pack versions: compliance-backend/internal/evidence/builder.go. The random source
  of \<open>Salt\<close> is the argument \<open>fresh\<close>; a Go map is iterated in the order of its
  association list.

  The lemmas describe the salt map of a pack exactly (evidence salts untouched, unchanged paths
  carried, decision paths always fresh), show that the check against a changed evidence root can
  not fire and that a pack is always built from well-formed input, and that the chained pack hash
  commits to the sequence of master roots.
\<close>

datatype build_err =
    SectionMissing string | ExtraSections | NormCanon canon_err | NormDecode | TreeFailed tree_err
  | EvidenceRootChanged string string | SignErr jws_err | BadPrevHash string | BadMasterRoot string

record snapshot =
  snap_data :: "(string \<times> jval) list"
  snap_salts :: salts
  snap_root :: string

record pack =
  PackID :: string
  Version :: int
  Data :: "(string \<times> jval) list"
  Salts :: salts
  PMasterRoot :: string
  PEvidenceRoot :: string
  JWS :: string
  PackKID :: string
  PrevPackHash :: string
  PPackHash :: string

section \<open>Definitions\<close>

definition SchemaVersion :: string where
  "SchemaVersion = ''deflow-evidence/1.0''"

definition ZeroHash :: string where
  "ZeroHash = hex_encode (replicate 32 (char_of (0 :: nat)))"

definition normalize :: "(string \<times> jval) list \<Rightarrow> (build_err, (string \<times> jval) list) res" where
  "normalize v = and_then (map_err NormCanon (canon (JObj v))) (\<lambda>b. of_option NormDecode (decode_map b))"

definition NewSnapshot :: "(string \<Rightarrow> string) \<Rightarrow> (string \<times> jval) list \<Rightarrow> (build_err, snapshot) res" where
  "NewSnapshot fresh sections =
     (case find_first (\<lambda>k. map_of sections k = None) EvidenceKeys of
        Some k \<Rightarrow> Inl (SectionMissing k)
      | None \<Rightarrow>
          if length sections \<noteq> length EvidenceKeys then Inl ExtraSections
          else and_then (normalize sections) (\<lambda>sec.
            let salts = fold (\<lambda>k s. Salt fresh (lookup_any sec k) k s) EvidenceKeys []
            in map_res (\<lambda>root. \<lparr> snap_data = sec, snap_salts = salts, snap_root = root \<rparr>)
                 (map_err TreeFailed (EvidenceRoot sec salts))))"

text \<open>\<open>carry\<close>: the previous salts of every leaf (or withheld) path under a value.\<close>

definition carry_leaf :: "salts \<Rightarrow> string \<Rightarrow> salts \<Rightarrow> salts" where
  "carry_leaf prev path out = (case map_of prev path of None \<Rightarrow> out | Some s \<Rightarrow> AList.update path s out)"

function carry :: "salts \<Rightarrow> jval \<Rightarrow> string \<Rightarrow> salts \<Rightarrow> salts" where
  "carry prev v path out =
     (case v of
        JObj kvs \<Rightarrow>
          if is_withheld v = None \<and> kvs \<noteq> []
          then fold (\<lambda>(k, c) s. carry prev c (join path k) s) kvs out
          else carry_leaf prev path out
      | JList xs \<Rightarrow>
          if xs \<noteq> [] then fold (\<lambda>(i, c) s. carry prev c (join path (nat_dec i)) s) (indexed xs) out
          else carry_leaf prev path out
      | _ \<Rightarrow> carry_leaf prev path out)"
  by pat_completeness auto
termination
  by (relation "measure (\<lambda>(_, v, _, _). size v)")
    (auto intro: size_member size_list_member dest: indexed_mem)

declare carry.simps [simp del]

definition PackHash :: "string \<Rightarrow> string \<Rightarrow> (build_err, string) res" where
  "PackHash prev master =
     (case hex_decode prev of
        None \<Rightarrow> Inl (BadPrevHash prev)
      | Some p \<Rightarrow> if length p \<noteq> 32 then Inl (BadPrevHash prev) else
          (case hex_decode master of
             None \<Rightarrow> Inl (BadMasterRoot master)
           | Some m \<Rightarrow> if length m \<noteq> 32 then Inl (BadMasterRoot master) else Inr (SHA (p @ m))))"

definition pack_data :: "snapshot \<Rightarrow> int \<Rightarrow> (string \<times> jval) list \<Rightarrow> (string \<times> jval) list" where
  "pack_data snap version rest =
     AList.update ''schema_version'' (JStr SchemaVersion)
       (AList.update ''pack_version'' (JStr (int_dec version)) (AList.merge rest (snap_data snap)))"

definition salt_section :: "(string \<Rightarrow> string) \<Rightarrow> snapshot \<Rightarrow> salts \<Rightarrow> string \<times> jval \<Rightarrow> salts \<Rightarrow> salts" where
  "salt_section fresh snap prev kv s =
     (if fst kv \<in> set (keys (snap_data snap)) then s
      else Salt fresh (snd kv) (fst kv) (if fst kv = ''decision'' then s else carry prev (snd kv) (fst kv) s))"

definition pack_salts :: "(string \<Rightarrow> string) \<Rightarrow> snapshot \<Rightarrow> salts \<Rightarrow> (string \<times> jval) list \<Rightarrow> salts" where
  "pack_salts fresh snap prev data = fold (salt_section fresh snap prev) data (snap_salts snap)"

definition pack_id_of :: "(string \<times> jval) list \<Rightarrow> string" where
  "pack_id_of data = (case map_of data ''pack_id'' of Some (JStr s) \<Rightarrow> s | _ \<Rightarrow> [])"

definition BuildPack ::
  "(string \<Rightarrow> string) \<Rightarrow> snapshot \<Rightarrow> int \<Rightarrow> (string \<times> jval) list \<Rightarrow> salts \<Rightarrow> string \<Rightarrow> jws_signer
     \<Rightarrow> (build_err, pack) res" where
  "BuildPack fresh snap version rest prevSalts prevPackHash signer =
     and_then (normalize rest) (\<lambda>rest.
     let data = pack_data snap version rest in
     and_then (map_err NormCanon (canon (JObj data))) (\<lambda>payload.
     let salts = pack_salts fresh snap prevSalts data in
     and_then (map_err TreeFailed (MasterRoot data salts)) (\<lambda>master.
     and_then (map_err TreeFailed (EvidenceRoot data salts)) (\<lambda>evidence.
     if evidence \<noteq> snap_root snap then Inl (EvidenceRootChanged evidence (snap_root snap))
     else and_then (map_err SignErr (Sign signer payload)) (\<lambda>jws.
     map_res (\<lambda>ph. \<lparr> PackID = pack_id_of (snap_data snap), Version = version, Data = data, Salts = salts,
         PMasterRoot = master, PEvidenceRoot = evidence, JWS = jws, PackKID = KID signer,
         PrevPackHash = prevPackHash, PPackHash = ph \<rparr>)
       (PackHash prevPackHash master))))))"

section \<open>Normalisation\<close>

lemma wf_put_members: "wf_map (put_members kvs)"
proof -
  have "wf_map (foldl (\<lambda>m kv. AList.update (fst kv) (snd kv) m) m kvs)" if "wf_map m" for m
    using that by (induction kvs arbitrary: m) (auto intro: wf_map_update)
  then show ?thesis by (simp add: put_members_def wf_map_def)
qed

lemma parse_value_obj: "parse_value n s = Some (JObj m, t) \<Longrightarrow> wf_map m"
  by (cases n) (auto simp: wf_put_members split: list.splits if_splits, simp add: wf_map_def)

lemma decode_map_wf: "decode_map s = Some m \<Longrightarrow> wf_map m"
  by (auto simp: decode_map_def decode_def wf_map_def [of "[]"] split: option.splits jval.splits
      dest: parse_value_obj simp del: parse_value.simps)

lemma normalize_wf: "normalize v = Inr m \<Longrightarrow> wf_map m"
  by (auto simp: normalize_def res_simps intro: decode_map_wf)

lemma number_ok_dec [simp]: "number_ok (nat_dec n)" "number_ok (int_dec i)"
  using nat_dec_digits digit_not_special by (auto simp: number_ok_def int_dec_def)

lemma renderable_normal: "renderable v \<Longrightarrow> renderable (normal v)"
  by (induction v) (auto simp: list_all_iff)

lemma map_of_sort_key: "wf_map m \<Longrightarrow> map_of (sort_key fst m) = map_of m"
proof -
  assume w: "wf_map m"
  have "mset (map fst (sort_key fst m)) = mset (map fst m)" by (simp only: mset_map mset_sort)
  then have "distinct (map fst (sort_key fst m))"
    using w unfolding wf_map_def by (metis mset_eq_imp_distinct_iff)
  then show ?thesis using w by (simp add: wf_map_def map_of_inject_set)
qed

lemma map_of_map_snd: "map_of (map (\<lambda>(k, v). (k, f v)) m) k = map_option f (map_of m k)"
  by (induction m) auto

lemma keys_map_snd: "keys (map (\<lambda>(k, v). (k, f v)) m) = keys m"
  by (induction m) auto

lemma normalize_ok:
  assumes "wf_json (JObj m)"
  shows "normalize m = Inr (sort_key fst (map (\<lambda>(k, v). (k, normal v)) m))"
  using decode_canon [OF assms] by (auto simp: normalize_def decode_map_def)

lemma normalize_lookup:
  assumes "wf_json (JObj m)" and "normalize m = Inr m'"
  shows "map_of m' k = map_option normal (map_of m k)"
proof -
  have "wf_map (map (\<lambda>(k, v). (k, normal v)) m)"
    using assms(1) unfolding wf_map_def keys_map_snd by (simp add: wf_map_def)
  moreover have "m' = sort_key fst (map (\<lambda>(k, v). (k, normal v)) m)"
    using assms by (simp add: normalize_ok)
  ultimately show ?thesis by (simp only: map_of_sort_key map_of_map_snd)
qed

lemma normalize_keys:
  assumes "wf_json (JObj m)" and "normalize m = Inr m'"
  shows "set (keys m') = set (keys m)" and "length m' = length m"
proof -
  have "m' = sort_key fst (map (\<lambda>(k, v). (k, normal v)) m)"
    using assms by (simp add: normalize_ok)
  then show "set (keys m') = set (keys m)" and "length m' = length m"
    by (force simp: split_beta)+
qed

lemma normalize_renderable:
  assumes "wf_json (JObj m)" and "normalize m = Inr m'"
  shows "renderable (JObj m')"
proof -
  have "renderable (normal (JObj m))"
    using assms(1) by (intro renderable_normal wf_json_renderable)
  moreover have "m' = sort_key fst (map (\<lambda>(k, v). (k, normal v)) m)"
    using assms by (simp add: normalize_ok)
  ultimately show ?thesis by simp
qed

section \<open>What carrying does to the salt map\<close>

function visit_paths :: "jval \<Rightarrow> string \<Rightarrow> string list" where
  "visit_paths v path =
     (case v of
        JObj kvs \<Rightarrow>
          if is_withheld v = None \<and> kvs \<noteq> [] then concat (map (\<lambda>(k, c). visit_paths c (join path k)) kvs)
          else [path]
      | JList xs \<Rightarrow>
          if xs \<noteq> [] then concat (map (\<lambda>(i, c). visit_paths c (join path (nat_dec i))) (indexed xs))
          else [path]
      | _ \<Rightarrow> [path])"
  by pat_completeness auto
termination
  by (relation "measure (\<lambda>(v, _). size v)")
    (auto intro: size_member size_list_member dest: indexed_mem)

declare visit_paths.simps [simp del]

lemma carry_withheld: "is_withheld v = Some w \<Longrightarrow> carry prev v path out = carry_leaf prev path out"
  by (subst carry.simps) (cases v; auto)

lemma carry_at_leaf: "is_leaf v \<Longrightarrow> carry prev v path out = carry_leaf prev path out"
  by (subst carry.simps) (cases v; auto simp: is_leaf_def)

lemma carry_obj:
  "kvs \<noteq> [] \<Longrightarrow> is_withheld (JObj kvs) = None \<Longrightarrow>
     carry prev (JObj kvs) path out = fold (\<lambda>(k, c) s. carry prev c (join path k) s) kvs out"
  by (simp add: carry.simps [of _ "JObj kvs"])

lemma carry_list:
  "xs \<noteq> [] \<Longrightarrow> carry prev (JList xs) path out
     = fold (\<lambda>(i, c) s. carry prev c (join path (nat_dec i)) s) (indexed xs) out"
  by (simp add: carry.simps [of _ "JList xs"])

lemma visit_withheld: "is_withheld v = Some w \<Longrightarrow> visit_paths v path = [path]"
  by (subst visit_paths.simps) (cases v; auto)

lemma visit_leaf: "is_leaf v \<Longrightarrow> visit_paths v path = [path]"
  by (subst visit_paths.simps) (cases v; auto simp: is_leaf_def)

lemma visit_obj:
  "kvs \<noteq> [] \<Longrightarrow> is_withheld (JObj kvs) = None \<Longrightarrow>
     visit_paths (JObj kvs) path = concat (map (\<lambda>(k, c). visit_paths c (join path k)) kvs)"
  by (simp add: visit_paths.simps [of "JObj kvs"])

lemma visit_list:
  "xs \<noteq> [] \<Longrightarrow>
     visit_paths (JList xs) path = concat (map (\<lambda>(i, c). visit_paths c (join path (nat_dec i))) (indexed xs))"
  by (simp add: visit_paths.simps [of "JList xs"])

lemmas carry_shapes = carry_withheld carry_at_leaf carry_obj carry_list
lemmas visit_shapes = visit_withheld visit_leaf visit_obj visit_list

definition carried :: "(string \<Rightarrow> string option) \<Rightarrow> string set \<Rightarrow> (string \<Rightarrow> string option) \<Rightarrow> string \<Rightarrow> string option" where
  "carried prev L m p = (if p \<in> L \<and> prev p \<noteq> None then prev p else m p)"

lemma carried_carried: "carried prev L (carried prev K m) = carried prev (K \<union> L) m"
  by (rule ext) (auto simp: carried_def)

lemma carried_empty [simp]: "carried prev {} m = m"
  by (rule ext) (auto simp: carried_def)

lemma fold_carried:
  "(\<And>x s. x \<in> set xs \<Longrightarrow> map_of (g x s) = carried prev (L x) (map_of s)) \<Longrightarrow>
     map_of (fold g xs s) = carried prev (\<Union>x\<in>set xs. L x) (map_of s)"
  by (induction xs arbitrary: s) (auto simp: carried_carried)

lemma carry_leaf_carried: "map_of (carry_leaf prev path s) = carried (map_of prev) {path} (map_of s)"
  by (rule ext) (auto simp: carry_leaf_def carried_def update_conv split: option.splits)

lemma carry_carried:
  "map_of (carry prev v path s) = carried (map_of prev) (set (visit_paths v path)) (map_of s)"
proof (induction v path arbitrary: s rule: tree_induct)
  case (obj kvs path)
  have "map_of (fold (\<lambda>(k, c) s. carry prev c (join path k) s) kvs s)
      = carried (map_of prev) (\<Union>x\<in>set kvs. set (visit_paths (snd x) (join path (fst x)))) (map_of s)"
    using obj(3) by (intro fold_carried) auto
  then show ?case using obj(1,2) by (simp add: carry_obj visit_obj case_prod_unfold)
next
  case (list xs path)
  have "map_of (fold (\<lambda>(i, c) s. carry prev c (join path (nat_dec i)) s) (indexed xs) s)
      = carried (map_of prev) (\<Union>x\<in>set (indexed xs). set (visit_paths (snd x) (join path (nat_dec (fst x))))) (map_of s)"
    using list(2) by (intro fold_carried) auto
  then show ?case using list(1) by (simp add: carry_list visit_list case_prod_unfold)
qed (auto simp: carry_shapes visit_shapes carry_leaf_carried)

lemma leaf_paths_visit: "set (leaf_paths v path) \<subseteq> set (visit_paths v path)"
proof (induction v path rule: tree_induct)
  case (obj kvs path)
  then show ?case by (fastforce simp: tree_obj visit_obj)
next
  case (list xs path)
  then show ?case by (fastforce simp: tree_list visit_list)
qed (auto simp: tree_withheld tree_leaf visit_leaf)

lemma visit_paths_below:
  "path \<noteq> [] \<Longrightarrow> p \<in> set (visit_paths v path) \<Longrightarrow> below path p"
proof (induction v path rule: tree_induct)
  case (obj kvs path)
  then obtain k c where "(k, c) \<in> set kvs" "p \<in> set (visit_paths c (join path k))"
    by (auto simp: visit_obj)
  moreover have "join path k \<noteq> []" using obj(4) by (simp add: join_def)
  ultimately have "below (join path k) p" using obj(3) by blast
  then show ?case using obj(4) below_join by blast
next
  case (list xs path)
  then obtain i c where "(i, c) \<in> set (indexed xs)" "p \<in> set (visit_paths c (join path (nat_dec i)))"
    by (auto simp: visit_list)
  then have "below (join path (nat_dec i)) p" by (intro list(2)) simp_all
  then show ?case using list(3) below_join by blast
qed (auto simp: visit_shapes)


section \<open>The salts of a pack\<close>

lemma EvidenceKeys_distinct: "distinct EvidenceKeys"
  by (simp add: EvidenceKeys_def)

lemma EvidenceKeys_plain: "k \<in> set EvidenceKeys \<Longrightarrow> k \<noteq> [] \<and> CHR ''.'' \<notin> set k"
  by (auto simp: EvidenceKeys_def)

lemma decision_not_evidence: "''decision'' \<notin> set EvidenceKeys"
  by (simp add: EvidenceKeys_def)

definition plain_keys :: "(string \<times> jval) list \<Rightarrow> bool" where
  "plain_keys m \<longleftrightarrow> (\<forall>k\<in>set (keys m). k \<noteq> [] \<and> CHR ''.'' \<notin> set k)"

lemma below_plain: "CHR ''.'' \<notin> set k \<Longrightarrow> below k p \<Longrightarrow> first_segment p = k"
  using first_segment_below first_segment_nodot by metis

lemma leaf_paths_first:
  "k \<noteq> [] \<Longrightarrow> CHR ''.'' \<notin> set k \<Longrightarrow> p \<in> set (leaf_paths v k) \<Longrightarrow> first_segment p = k"
  using leaf_paths_below below_plain by blast

lemma visit_paths_first:
  "k \<noteq> [] \<Longrightarrow> CHR ''.'' \<notin> set k \<Longrightarrow> p \<in> set (visit_paths v k) \<Longrightarrow> first_segment p = k"
  using visit_paths_below below_plain by blast

lemma salt_section_outside:
  assumes "k \<noteq> []" and "CHR ''.'' \<notin> set k"
    and "first_segment p \<noteq> k \<or> k \<in> set (keys (snap_data snap))"
  shows "map_of (salt_section fresh snap prev (k, v) s) p = map_of s p"
  using assms leaf_paths_first [of k p v] visit_paths_first [of k p v]
  by (auto simp: salt_section_def Salt_salted salted_def carry_carried carried_def split: option.splits)

lemma fold_salt_section_outside:
  assumes "plain_keys data" and "first_segment p \<notin> set (keys data) - set (keys (snap_data snap))"
  shows "map_of (fold (salt_section fresh snap prev) data s) p = map_of s p"
  using assms
proof (induction data arbitrary: s)
  case (Cons kv data)
  obtain k v where kv: "kv = (k, v)" by (cases kv)
  with Cons.prems have "plain_keys data" "k \<noteq> []" "CHR ''.'' \<notin> set k"
    "first_segment p \<notin> set (keys data) - set (keys (snap_data snap))"
    "first_segment p \<noteq> k \<or> k \<in> set (keys (snap_data snap))"
    by (auto simp: plain_keys_def)
  then show ?case using Cons.IH salt_section_outside kv by (metis fold_simps(2))
qed simp

lemma salt_section_at:
  assumes "p \<in> set (leaf_paths v k)" and "k \<notin> set (keys (snap_data snap))" and "k \<noteq> ''decision''"
    and "map_of prev p = Some x"
  shows "map_of (salt_section fresh snap prev (k, v) s) p = Some x"
  using assms leaf_paths_visit [of v k]
  by (auto simp: salt_section_def Salt_salted salted_def carry_carried carried_def)

lemma salt_section_keeps:
  assumes "map_of s p = Some x" and "map_of prev p = None \<or> map_of prev p = Some x"
  shows "map_of (salt_section fresh snap prev kv s) p = Some x"
  using assms by (auto simp: salt_section_def Salt_salted salted_def carry_carried carried_def)

lemma fold_salt_section_keeps:
  assumes "map_of s p = Some x" and "map_of prev p = None \<or> map_of prev p = Some x"
  shows "map_of (fold (salt_section fresh snap prev) data s) p = Some x"
  using assms(1)
proof (induction data arbitrary: s)
  case (Cons kv data)
  show ?case unfolding fold_simps(2)
    by (rule Cons.IH) (rule salt_section_keeps [OF Cons.prems assms(2)])
qed simp

text \<open>A leaf the previous version salted keeps its salt, unless it is under \<open>decision\<close>.\<close>

lemma pack_salts_carried:
  assumes "(k, v) \<in> set data" and "k \<notin> set (keys (snap_data snap))" and "k \<noteq> ''decision''"
    and "p \<in> set (leaf_paths v k)" and "map_of prev p = Some x"
  shows "map_of (pack_salts fresh snap prev data) p = Some x"
proof -
  obtain us vs where "data = us @ (k, v) # vs" using assms(1) by (meson split_list)
  then show ?thesis
    using salt_section_at [OF assms(4,2,3,5)] assms(5)
    by (auto simp: pack_salts_def intro!: fold_salt_section_keeps)
qed

lemma salt_section_hex:
  assumes "salts_hex s" and "salts_hex prev"
  shows "salts_hex (salt_section fresh snap prev kv s)"
  using assms unfolding salts_hex_def salt_section_def
  by (auto simp: Salt_salted salted_def carry_carried carried_def split: option.splits if_splits)

lemma fold_salt_section_hex:
  "salts_hex s \<Longrightarrow> salts_hex prev \<Longrightarrow> salts_hex (fold (salt_section fresh snap prev) data s)"
proof (induction data arbitrary: s)
  case (Cons kv data)
  then show ?case by (simp add: salt_section_hex)
qed simp

lemma Salt_present: "p \<in> set (leaf_paths v path) \<Longrightarrow> map_of (Salt fresh v path s) p \<noteq> None"
  by (auto simp: Salt_salted salted_def split: option.splits)

lemma Salt_monotone: "map_of s p \<noteq> None \<Longrightarrow> map_of (Salt fresh v path s) p \<noteq> None"
  by (cases "map_of s p") (auto simp: Salt_keeps)

lemma carry_monotone: "map_of s p \<noteq> None \<Longrightarrow> map_of (carry prev v path s) p \<noteq> None"
  by (simp add: carry_carried carried_def)

lemma salt_section_monotone:
  "map_of s p \<noteq> None \<Longrightarrow> map_of (salt_section fresh snap prev kv s) p \<noteq> None"
  unfolding salt_section_def using Salt_monotone carry_monotone by presburger

lemma fold_salt_section_monotone:
  "map_of s p \<noteq> None \<Longrightarrow> map_of (fold (salt_section fresh snap prev) data s) p \<noteq> None"
proof (induction data arbitrary: s)
  case (Cons kv data)
  then show ?case using salt_section_monotone by simp
qed simp

lemma pack_salts_present:
  assumes "(k, v) \<in> set data" and "k \<notin> set (keys (snap_data snap))" and "p \<in> set (leaf_paths v k)"
  shows "map_of (pack_salts fresh snap prev data) p \<noteq> None"
proof -
  obtain us vs where d: "data = us @ (k, v) # vs" using assms(1) by (meson split_list)
  have "map_of (salt_section fresh snap prev (k, v) s) p \<noteq> None" for s
    using assms(2,3) by (simp add: salt_section_def Salt_present)
  then show ?thesis
    using fold_salt_section_monotone by (simp add: pack_salts_def d)
qed

section \<open>Snapshots and packs are always built\<close>

definition snapshot_ok :: "snapshot \<Rightarrow> bool" where
  "snapshot_ok snap \<longleftrightarrow> wf_map (snap_data snap) \<and> set (keys (snap_data snap)) = set EvidenceKeys
     \<and> renderable (JObj (snap_data snap)) \<and> salts_hex (snap_salts snap)
     \<and> (\<forall>k v p. (k, v) \<in> set (snap_data snap) \<longrightarrow> p \<in> set (leaf_paths v k) \<longrightarrow> map_of (snap_salts snap) p \<noteq> None)
     \<and> (\<forall>p. map_of (snap_salts snap) p \<noteq> None \<longrightarrow> first_segment p \<in> set EvidenceKeys)
     \<and> EvidenceRoot (snap_data snap) (snap_salts snap) = Inr (snap_root snap)"

lemma EvidenceRoot_cong:
  assumes "\<And>k. k \<in> set EvidenceKeys \<Longrightarrow> lookup_any d k = lookup_any d' k"
    and "\<And>k p. k \<in> set EvidenceKeys \<Longrightarrow> p \<in> set (leaf_paths (lookup_any d k) k) \<Longrightarrow> map_of s p = map_of s' p"
  shows "EvidenceRoot d s = EvidenceRoot d' s'"
proof -
  have "node (lookup_any d k) s k = node (lookup_any d' k) s' k" if "k \<in> set EvidenceKeys" for k
    using assms that node_cong [of "lookup_any d k" k s s'] by simp
  then have "map (\<lambda>k. map_res (\<lambda>h. (k, JStr h)) (node (lookup_any d k) s k)) EvidenceKeys
      = map (\<lambda>k. map_res (\<lambda>h. (k, JStr h)) (node (lookup_any d' k) s' k)) EvidenceKeys"
    by (intro map_cong) auto
  then show ?thesis by (simp only: EvidenceRoot_def)
qed

lemma EvidenceRoot_total:
  assumes "\<And>k. k \<in> set EvidenceKeys \<Longrightarrow> renderable (lookup_any d k)"
    and "\<And>k p. k \<in> set EvidenceKeys \<Longrightarrow> p \<in> set (leaf_paths (lookup_any d k) k) \<Longrightarrow> salt_ok s p"
  shows "\<exists>r. EvidenceRoot d s = Inr r"
  unfolding EvidenceRoot_def
proof (rule and_then_total)
  let ?f = "\<lambda>k. map_res (\<lambda>h. (k, JStr h)) (node (lookup_any d k) s k)"
  show "\<exists>m. seq_res (map ?f EvidenceKeys) = Inr m"
    using assms node_total by (intro seq_res_map_total map_res_total) blast
  fix m assume m: "seq_res (map ?f EvidenceKeys) = Inr m"
  show "\<exists>y. map_res SHA (map_err TreeCanon (canon (JObj m))) = Inr y"
    by (rule hashed_container_total, erule seq_res_map_all [OF m, rotated]) (auto simp: map_res_Inr_iff)
qed

lemma fold_Salt_salted:
  "map_of (fold (\<lambda>k s. Salt fresh (f k) k s) ks s)
     = salted fresh (\<Union>k\<in>set ks. set (leaf_paths (f k) k)) (map_of s)"
  by (rule fold_salted) (rule Salt_salted)

lemma lookup_any_renderable: "renderable (JObj d) \<Longrightarrow> renderable (lookup_any d k)"
  by (auto simp: lookup_any_def list_all_iff split: option.splits dest!: map_of_SomeD)

lemma lookup_any_mem: "wf_map d \<Longrightarrow> (k, v) \<in> set d \<Longrightarrow> lookup_any d k = v"
  by (simp add: lookup_any_def wf_map_lookup)

text \<open>The sections \<open>NewSnapshot\<close> accepts: a Go map with exactly the evidence keys.\<close>

definition evidence_sections :: "(string \<times> jval) list \<Rightarrow> bool" where
  "evidence_sections m \<longleftrightarrow> wf_json (JObj m) \<and> set (keys m) = set EvidenceKeys"

lemma evidence_sections_length: "evidence_sections m \<Longrightarrow> length m = length EvidenceKeys"
  unfolding evidence_sections_def wf_json.simps wf_map_def
  by (metis EvidenceKeys_distinct distinct_card length_map)

lemma NewSnapshot_unfold:
  assumes "evidence_sections m" and "normalize m = Inr sec"
  shows "NewSnapshot fresh m = (let salts = fold (\<lambda>k s. Salt fresh (lookup_any sec k) k s) EvidenceKeys []
     in map_res (\<lambda>root. \<lparr> snap_data = sec, snap_salts = salts, snap_root = root \<rparr>)
          (map_err TreeFailed (EvidenceRoot sec salts)))"
proof -
  have "find_first (\<lambda>k. map_of m k = None) EvidenceKeys = None"
    using assms(1) by (simp add: find_first_None_iff evidence_sections_def map_of_eq_None_iff)
  then show ?thesis
    using assms evidence_sections_length by (simp add: NewSnapshot_def)
qed

lemma NewSnapshot_ok:
  assumes "evidence_sections m"
  shows "\<exists>snap. NewSnapshot fresh m = Inr snap \<and> snapshot_ok snap"
proof -
  have wf: "wf_json (JObj m)" and ks: "set (keys m) = set EvidenceKeys"
    using assms by (simp_all add: evidence_sections_def)
  obtain sec where sec: "normalize m = Inr sec" using normalize_ok [OF wf] by blast
  note sec_keys = normalize_keys(1) [OF wf sec] and sec_rend = normalize_renderable [OF wf sec]
    and sec_wf = normalize_wf [OF sec]
  define salts where "salts = fold (\<lambda>k s. Salt fresh (lookup_any sec k) k s) EvidenceKeys []"
  have sm: "map_of salts = salted fresh (\<Union>k\<in>set EvidenceKeys. set (leaf_paths (lookup_any sec k) k)) (\<lambda>_. None)"
    by (simp only: salts_def fold_Salt_salted map_of.simps)
  have hex: "salts_hex salts"
    by (simp add: salts_hex_def sm salted_def)
  have present: "map_of salts p \<noteq> None"
    if "k \<in> set EvidenceKeys" "p \<in> set (leaf_paths (lookup_any sec k) k)" for k p
    using that by (auto simp: sm salted_def)
  have "salt_ok salts p" if "k \<in> set EvidenceKeys" "p \<in> set (leaf_paths (lookup_any sec k) k)" for k p
    using present [OF that] salts_hex_ok [OF hex] by blast
  then obtain root where root: "EvidenceRoot sec salts = Inr root"
    using EvidenceRoot_total [of sec salts] lookup_any_renderable [OF sec_rend] by blast
  have "snapshot_ok \<lparr> snap_data = sec, snap_salts = salts, snap_root = root \<rparr>"
    unfolding snapshot_ok_def snapshot.simps
  proof (intro conjI allI impI)
    fix k v p assume kv: "(k, v) \<in> set sec" and p: "p \<in> set (leaf_paths v k)"
    have "k \<in> set (keys sec)" using kv by force
    then have "k \<in> set EvidenceKeys" by (simp only: sec_keys ks)
    then show "map_of salts p \<noteq> None" using present p lookup_any_mem [OF sec_wf kv] by simp
  next
    fix p assume "map_of salts p \<noteq> None"
    then obtain k where "k \<in> set EvidenceKeys" "p \<in> set (leaf_paths (lookup_any sec k) k)"
      by (auto simp: sm salted_def split: if_splits)
    then show "first_segment p \<in> set EvidenceKeys"
      using leaf_paths_first EvidenceKeys_plain by metis
  qed (use sec_keys ks sec_rend sec_wf hex root in simp_all)
  then show ?thesis
    using NewSnapshot_unfold [OF assms sec] root by (simp add: salts_def [symmetric])
qed

lemma pack_data_lookup:
  "map_of (pack_data snap version rest) k =
     (if k = ''schema_version'' then Some (JStr SchemaVersion)
      else if k = ''pack_version'' then Some (JStr (int_dec version))
      else (case map_of (snap_data snap) k of Some v \<Rightarrow> Some v | None \<Rightarrow> map_of rest k))"
  by (auto simp: pack_data_def update_conv merge_conv map_add_def split: option.splits)

lemma keys_iff: "k \<in> set (keys m) \<longleftrightarrow> map_of m k \<noteq> None"
  by (simp add: map_of_eq_None_iff)

lemma pack_data_keys:
  "set (keys (pack_data snap version rest))
     = set (keys rest) \<union> set (keys (snap_data snap)) \<union> {''pack_version'', ''schema_version''}"
proof (rule set_eqI)
  fix k
  show "k \<in> set (keys (pack_data snap version rest))
      \<longleftrightarrow> k \<in> set (keys rest) \<union> set (keys (snap_data snap)) \<union> {''pack_version'', ''schema_version''}"
    unfolding Un_iff keys_iff pack_data_lookup by (cases "map_of (snap_data snap) k") auto
qed

lemma pack_data_wf: "wf_map rest \<Longrightarrow> wf_map (pack_data snap version rest)"
  unfolding pack_data_def by (intro wf_map_update) (simp add: wf_map_def distinct_merge)

lemma pack_data_evidence:
  assumes "k \<in> set EvidenceKeys" and "snapshot_ok snap"
  shows "lookup_any (pack_data snap version rest) k = lookup_any (snap_data snap) k"
proof -
  have "k \<noteq> ''schema_version''" "k \<noteq> ''pack_version''"
    using assms(1) by (auto simp: EvidenceKeys_def)
  moreover have "k \<in> set (keys (snap_data snap))" using assms by (simp only: snapshot_ok_def)
  then obtain v where "map_of (snap_data snap) k = Some v"
    by (metis map_of_eq_None_iff not_None_eq set_map)
  ultimately show ?thesis by (simp add: lookup_any_def pack_data_lookup)
qed

lemma pack_data_mem:
  assumes "(k, v) \<in> set (pack_data snap version rest)" and "wf_map rest"
  shows "v = JStr SchemaVersion \<or> v = JStr (int_dec version) \<or> (k, v) \<in> set (snap_data snap) \<or> (k, v) \<in> set rest"
  using wf_map_lookup [OF pack_data_wf [OF assms(2)] assms(1)]
  by (auto simp: pack_data_lookup split: if_splits option.splits dest: map_of_SomeD)

lemma pack_data_renderable:
  assumes "renderable (JObj rest)" and "wf_map rest" and "snapshot_ok snap"
  shows "renderable (JObj (pack_data snap version rest))"
  unfolding renderable.simps list_all_iff
proof (clarify)
  fix k v assume "(k, v) \<in> set (pack_data snap version rest)"
  from pack_data_mem [OF this assms(2)] assms(1,3) show "renderable v"
    by (auto simp: snapshot_ok_def list_all_iff)
qed


lemma pack_data_not_withheld: "wf_map rest \<Longrightarrow> is_withheld (JObj (pack_data snap version rest)) = None"
proof (rule ccontr)
  assume "is_withheld (JObj (pack_data snap version rest)) \<noteq> None"
  then obtain w where "pack_data snap version rest = [(withheld_key, JStr w)]"
    by (auto elim: is_withheld.elims split: if_splits)
  then have "''pack_version'' \<notin> set (keys (pack_data snap version rest))" by (simp add: withheld_key_def)
  moreover have "''pack_version'' \<in> set (keys (pack_data snap version rest))"
    unfolding pack_data_keys by simp
  ultimately show False by blast
qed

lemma MasterRoot_total:
  assumes "renderable (JObj data)" and "data \<noteq> []" and "is_withheld (JObj data) = None"
    and "\<And>k v p. (k, v) \<in> set data \<Longrightarrow> p \<in> set (leaf_paths v k) \<Longrightarrow> salt_ok salts p"
  shows "\<exists>r. MasterRoot data salts = Inr r"
  unfolding MasterRoot_def NodeHash_def
  using assms by (intro node_total) (auto simp: leaf_paths_obj join_def)

lemma pack_salts_cover:
  assumes "snapshot_ok snap" and "salts_hex prev" and "wf_map rest"
    and "(k, v) \<in> set (pack_data snap version rest)" and "p \<in> set (leaf_paths v k)"
  shows "salt_ok (pack_salts fresh snap prev (pack_data snap version rest)) p"
proof -
  let ?d = "pack_data snap version rest"
  have hex: "salts_hex (pack_salts fresh snap prev ?d)"
    using assms(1,2) by (simp add: pack_salts_def snapshot_ok_def fold_salt_section_hex)
  have "map_of (pack_salts fresh snap prev ?d) p \<noteq> None"
  proof (cases "k \<in> set (keys (snap_data snap))")
    case True
    then have "k \<in> set EvidenceKeys" using assms(1) by (simp only: snapshot_ok_def)
    then have "v = lookup_any (snap_data snap) k"
      using pack_data_evidence [OF _ assms(1)] lookup_any_mem [OF pack_data_wf [OF assms(3)] assms(4)] by simp
    moreover obtain w where "map_of (snap_data snap) k = Some w" using True unfolding keys_iff by auto
    ultimately have "(k, v) \<in> set (snap_data snap)" by (simp add: lookup_any_def map_of_SomeD)
    then have "map_of (snap_salts snap) p \<noteq> None"
      using assms(1,5) by (auto simp: snapshot_ok_def)
    then show ?thesis using fold_salt_section_monotone by (simp add: pack_salts_def)
  next
    case False
    then show ?thesis using pack_salts_present assms(4,5) by blast
  qed
  then show ?thesis using salts_hex_ok [OF hex] by blast
qed

lemma pack_data_plain:
  assumes "snapshot_ok snap" and "plain_keys rest"
  shows "plain_keys (pack_data snap version rest)"
proof -
  have "k \<noteq> [] \<and> CHR ''.'' \<notin> set k" if "k \<in> set (keys (pack_data snap version rest))" for k
  proof -
    have "k \<in> set (keys rest) \<or> k \<in> set EvidenceKeys \<or> k = ''pack_version'' \<or> k = ''schema_version''"
      using that assms(1) unfolding pack_data_keys snapshot_ok_def by blast
    then show ?thesis
      using assms(2) EvidenceKeys_plain unfolding plain_keys_def by fastforce
  qed
  then show ?thesis unfolding plain_keys_def by blast
qed

lemma pack_evidence_root:
  assumes "snapshot_ok snap" and "plain_keys rest"
  shows "EvidenceRoot (pack_data snap version rest) (pack_salts fresh snap prev (pack_data snap version rest))
    = Inr (snap_root snap)"
proof -
  let ?d = "pack_data snap version rest"
  have pk: "plain_keys ?d" using assms by (rule pack_data_plain)
  have "EvidenceRoot ?d (pack_salts fresh snap prev ?d) = EvidenceRoot (snap_data snap) (snap_salts snap)"
  proof (rule EvidenceRoot_cong)
    show "lookup_any ?d k = lookup_any (snap_data snap) k" if "k \<in> set EvidenceKeys" for k
      using that assms(1) by (rule pack_data_evidence)
    fix k p assume k: "k \<in> set EvidenceKeys" and p: "p \<in> set (leaf_paths (lookup_any ?d k) k)"
    have "first_segment p = k" using k p leaf_paths_first EvidenceKeys_plain by blast
    then have "first_segment p \<notin> set (keys ?d) - set (keys (snap_data snap))"
      using k assms(1) by (auto simp only: snapshot_ok_def)
    then show "map_of (pack_salts fresh snap prev ?d) p = map_of (snap_salts snap) p"
      unfolding pack_salts_def by (rule fold_salt_section_outside [OF pk])
  qed
  then show ?thesis using assms(1) by (simp add: snapshot_ok_def)
qed

text \<open>The values of a \<open>prev_pack_hash\<close> the chain can be extended from.\<close>

definition digest_hex :: "string \<Rightarrow> bool" where
  "digest_hex h \<longleftrightarrow> (\<exists>b. hex_decode h = Some b \<and> length b = 32)"

lemma digest_hex_SHA [simp]: "digest_hex (SHA b)"
  by (simp add: digest_hex_def)

lemma digest_hex_ZeroHash [simp]: "digest_hex ZeroHash"
  by (simp add: digest_hex_def ZeroHash_def)

lemma PackHash_digest: "digest_hex p \<Longrightarrow> PackHash p (SHA b) = Inr (SHA (the (hex_decode p) @ sha256 b))"
  by (auto simp: PackHash_def digest_hex_def)

definition signer_total :: "jws_signer \<Rightarrow> bool" where
  "signer_total s \<longleftrightarrow> (\<forall>d. \<exists>r ss. ecdsa_sign s d = Some (r, ss) \<and> r < 256 ^ 32 \<and> ss < 256 ^ 32)"

lemma node_digest: "is_withheld v = None \<Longrightarrow> node v s p = Inr h \<Longrightarrow> \<exists>b. h = SHA b"
  by (cases v rule: value_shape)
    (auto simp: node_leaf node_obj node_list leaf_def res_simps split: option.splits)

lemma pack_built:
  assumes snap: "snapshot_ok snap" and rest: "wf_json (JObj rest)" "plain_keys rest"
    and prev: "salts_hex prev" and ph: "digest_hex prevHash" and signer: "signer_total signer"
  shows "\<exists>p. BuildPack fresh snap version rest prev prevHash signer = Inr p
     \<and> PEvidenceRoot p = snap_root snap \<and> digest_hex (PPackHash p)"
proof -
  obtain r where r: "normalize rest = Inr r" using normalize_ok [OF rest(1)] by blast
  let ?d = "pack_data snap version r"
  let ?s = "pack_salts fresh snap prev ?d"
  have wf: "wf_map r" using r by (rule normalize_wf)
  have pk: "plain_keys r" using rest(2) unfolding plain_keys_def normalize_keys(1) [OF rest(1) r] .
  have rend: "renderable (JObj ?d)"
    using normalize_renderable [OF rest(1) r] wf snap by (rule pack_data_renderable)
  then obtain payload where pl: "canon (JObj ?d) = Inr payload" using canon_renders by blast
  have nw: "is_withheld (JObj ?d) = None" using wf by (rule pack_data_not_withheld)
  have ne: "?d \<noteq> []" by (simp add: pack_data_def)
  obtain master where m: "MasterRoot ?d ?s = Inr master"
    using MasterRoot_total [OF rend ne nw] pack_salts_cover [OF snap prev wf] by blast
  then have "node (JObj ?d) ?s [] = Inr master" by (simp only: MasterRoot_def NodeHash_def)
  then obtain b where b: "master = SHA b" using node_digest [OF nw] by blast
  obtain jws where "Sign signer payload = Inr jws"
    using Sign_total signer unfolding signer_total_def by blast
  with r pl m b ph show ?thesis
    by (simp add: BuildPack_def Let_def pack_evidence_root [OF snap pk] PackHash_digest)
qed

lemma BuildPack_parts:
  assumes "BuildPack fresh snap version rest prev prevHash signer = Inr p"
  obtains r payload where "normalize rest = Inr r" and "Data p = pack_data snap version r"
    and "Salts p = pack_salts fresh snap prev (Data p)" and "canon (JObj (Data p)) = Inr payload"
    and "MasterRoot (Data p) (Salts p) = Inr (PMasterRoot p)"
    and "EvidenceRoot (Data p) (Salts p) = Inr (PEvidenceRoot p)"
    and "PEvidenceRoot p = snap_root snap" and "Sign signer payload = Inr (JWS p)"
    and "PackHash prevHash (PMasterRoot p) = Inr (PPackHash p)"
    and "PrevPackHash p = prevHash" and "Version p = version" and "PackKID p = KID signer"
    and "PackID p = pack_id_of (snap_data snap)"
  using assms unfolding BuildPack_def Let_def res_simps
  by (auto simp: res_simps split: if_splits)


text \<open>Every leaf under \<open>decision\<close> has the salt drawn for this version.\<close>

lemma pack_salts_decision:
  assumes "snapshot_ok snap" and "plain_keys data" and "wf_map data"
    and "(''decision'', v) \<in> set data" and "p \<in> set (leaf_paths v ''decision'')"
  shows "map_of (pack_salts fresh snap prev data) p = Some (hex_encode (fresh p))"
proof -
  obtain us vs where d: "data = us @ (''decision'', v) # vs" using assms(4) by (meson split_list)
  have first: "first_segment p = ''decision''" using assms(5) by (intro leaf_paths_first) simp_all
  have "''decision'' \<notin> set (keys us)" "''decision'' \<notin> set (keys vs)"
    using assms(3) by (auto simp: d wf_map_def)
  moreover have "plain_keys us" "plain_keys vs" using assms(2) by (auto simp: d plain_keys_def)
  ultimately have out: "map_of (fold (salt_section fresh snap prev) us s) p = map_of s p"
      "map_of (fold (salt_section fresh snap prev) vs s) p = map_of s p" for s
    using fold_salt_section_outside first by simp_all
  have ev: "''decision'' \<notin> set (keys (snap_data snap))"
    using assms(1) decision_not_evidence unfolding snapshot_ok_def by blast
  have "map_of (snap_salts snap) p = None"
    using assms(1) first decision_not_evidence unfolding snapshot_ok_def by metis
  then show ?thesis
    using ev assms(5) by (simp add: pack_salts_def d out salt_section_def Salt_new)
qed

section \<open>The journal chain\<close>

text \<open>
  The pack hashes of a journal: each pack's hash over its predecessor's. A chain is the hash after
  a sequence of master roots.
\<close>

fun chain_hash :: "string \<Rightarrow> string list \<Rightarrow> (build_err, string) res" where
  "chain_hash h [] = Inr h"
| "chain_hash h (m # ms) = and_then (PackHash h m) (\<lambda>h'. chain_hash h' ms)"

text \<open>The messages hashed along a chain.\<close>

fun chain_messages :: "string \<Rightarrow> string list \<Rightarrow> string list" where
  "chain_messages h [] = []"
| "chain_messages h (m # ms) = (case PackHash h m of
     Inl e \<Rightarrow> []
   | Inr h' \<Rightarrow> (the (hex_decode h) @ the (hex_decode m)) # chain_messages h' ms)"

definition colliding :: "string list \<Rightarrow> string list \<Rightarrow> bool" where
  "colliding xs ys \<longleftrightarrow> (\<exists>a\<in>set xs. \<exists>b\<in>set ys. a \<noteq> b \<and> sha256 a = sha256 b)"

lemma PackHash_Inr:
  "PackHash h m = Inr x \<longleftrightarrow> (\<exists>p b. hex_decode h = Some p \<and> hex_decode m = Some b
     \<and> length p = 32 \<and> length b = 32 \<and> x = SHA (p @ b))"
  by (auto simp: PackHash_def split: option.splits if_splits)

lemma chain_snoc:
  "chain_hash h (ms @ [m]) = and_then (chain_hash h ms) (\<lambda>h'. PackHash h' m)"
proof (induction ms arbitrary: h)
  case (Cons a ms)
  then show ?case by (cases "PackHash h a") auto
next
  case Nil
  show ?case by (cases "PackHash h m") auto
qed

lemma chain_messages_snoc:
  assumes "chain_hash h ms = Inr h'" and "PackHash h' m = Inr x"
  shows "chain_messages h (ms @ [m]) = chain_messages h ms @ [the (hex_decode h') @ the (hex_decode m)]"
  using assms(1)
proof (induction ms arbitrary: h)
  case Nil
  then show ?case using assms(2) by simp
next
  case (Cons a ms)
  then show ?case by (auto simp: res_simps)
qed

lemma collidingI: "a \<in> set xs \<Longrightarrow> b \<in> set ys \<Longrightarrow> a \<noteq> b \<Longrightarrow> sha256 a = sha256 b \<Longrightarrow> colliding xs ys"
  by (auto simp: colliding_def)

lemma colliding_mono: "colliding xs ys \<Longrightarrow> set xs \<subseteq> set xs' \<Longrightarrow> set ys \<subseteq> set ys' \<Longrightarrow> colliding xs' ys'"
  by (auto simp: colliding_def)

lemma chain_hash_SHA: "chain_hash h ms = Inr x \<Longrightarrow> ms \<noteq> [] \<Longrightarrow> \<exists>b. x = SHA b"
  by (induction ms rule: rev_induct) (auto simp: chain_snoc res_simps PackHash_Inr)

text \<open>Equal hashes after equally long chains: the same (decoded) roots in the same order, or a collision.\<close>

lemma chain_commits:
  assumes "chain_hash h ms = Inr x" and "chain_hash h' ms' = Inr x" and "length ms = length ms'"
  shows "(hex_decode h = hex_decode h' \<and> map hex_decode ms = map hex_decode ms')
    \<or> colliding (chain_messages h ms) (chain_messages h' ms')"
  using assms
proof (induction ms arbitrary: ms' x rule: rev_induct)
  case (snoc m ms)
  obtain ns n where ms': "ms' = ns @ [n]" using snoc.prems(3) by (cases ms' rule: rev_cases) auto
  obtain y where y: "chain_hash h ms = Inr y" "PackHash y m = Inr x"
    using snoc.prems(1) by (auto simp: chain_snoc res_simps)
  obtain z where z: "chain_hash h' ns = Inr z" "PackHash z n = Inr x"
    using snoc.prems(2) by (auto simp: ms' chain_snoc res_simps)
  obtain p b where pb: "hex_decode y = Some p" "hex_decode m = Some b" "length p = 32" "x = SHA (p @ b)"
    using y(2) by (auto simp: PackHash_Inr)
  obtain q c where qc: "hex_decode z = Some q" "hex_decode n = Some c" "length q = 32" "x = SHA (q @ c)"
    using z(2) by (auto simp: PackHash_Inr)
  note msgs = chain_messages_snoc [OF y] chain_messages_snoc [OF z]
  show ?case
  proof (cases "p @ b = q @ c")
    case False
    moreover have "sha256 (p @ b) = sha256 (q @ c)" using pb(4) qc(4) by (simp add: SHA_eq_iff)
    ultimately show ?thesis
      unfolding ms' msgs using pb qc by (intro disjI2 collidingI [of "p @ b" _ "q @ c"]) simp_all
  next
    case True
    then have pq: "p = q" "b = c" using pb(3) qc(3) by simp_all
    have len: "length ms = length ns" using snoc.prems(3) by (simp add: ms')
    show ?thesis
    proof (cases "ms = []")
      case True
      with len y z pb qc pq show ?thesis by (simp add: ms')
    next
      case False
      with len have "ns \<noteq> []" by auto
      with False have "y = z"
        using chain_hash_SHA [OF y(1)] chain_hash_SHA [OF z(1)] pb(1) qc(1) pq(1)
        by (auto simp: SHA_eq_iff)
      then have "(hex_decode h = hex_decode h' \<and> map hex_decode ms = map hex_decode ns)
          \<or> colliding (chain_messages h ms) (chain_messages h' ns)"
        using snoc.IH [OF y(1) _ len] z(1) by simp
      then show ?thesis
        using pb(2) qc(2) pq(2) unfolding ms' msgs colliding_def by auto
    qed
  qed
qed simp

section \<open>Properties\<close>

text \<open>A pack is always built from a sound snapshot and well-formed sections outside it, whatever
  the previous salts and the previous hash, and it keeps the evidence root the decision was taken on:
  the check that the root changed never fires.\<close>

theorem pack_always_built:
  assumes "snapshot_ok snap" and "wf_json (JObj rest)" and "plain_keys rest"
    and "salts_hex prev" and "digest_hex prevHash" and "signer_total signer"
  shows "\<exists>p. BuildPack fresh snap version rest prev prevHash signer = Inr p
     \<and> PEvidenceRoot p = snap_root snap \<and> digest_hex (PPackHash p)"
  using assms by (rule pack_built)

definition null_sections :: "(string \<times> jval) list" where
  "null_sections = map (\<lambda>k. (k, JNull)) EvidenceKeys"

lemma null_sections_ok: "evidence_sections null_sections"
proof -
  have k: "keys null_sections = EvidenceKeys" by (simp add: null_sections_def comp_def)
  have "list_all valid_utf8 EvidenceKeys" by code_simp
  then show ?thesis
    unfolding evidence_sections_def wf_json.simps wf_map_def k
    using EvidenceKeys_distinct by (simp add: null_sections_def list_all_iff)
qed

theorem pack_always_built_witness:
  "\<exists>snap p. BuildPack (\<lambda>p. p) snap 1 [] [] ZeroHash \<lparr> KID = ''k'', ecdsa_sign = (\<lambda>d. Some (1, 1)) \<rparr> = Inr p
     \<and> PEvidenceRoot p = snap_root snap"
proof -
  obtain snap where "snapshot_ok snap" using NewSnapshot_ok [OF null_sections_ok] by blast
  from pack_always_built [OF this, where fresh = "\<lambda>p. p" and version = 1 and rest = "[]" and prev = "[]" and prevHash = ZeroHash
      and signer = "\<lparr> KID = ''k'', ecdsa_sign = (\<lambda>d. Some (1, 1)) \<rparr>"]
  show ?thesis by (auto simp: wf_map_def plain_keys_def salts_hex_def signer_total_def)
qed

text \<open>Salts across pack versions: a leaf of the decision always gets a fresh salt, and every other
  leaf outside the evidence that was salted before keeps its salt.\<close>

theorem pack_salts_fresh_or_carried:
  assumes "snapshot_ok snap" and "plain_keys data" and "wf_map data" and "(k, v) \<in> set data"
    and "k \<notin> set (keys (snap_data snap))" and "p \<in> set (leaf_paths v k)"
  shows "(k = ''decision'' \<longrightarrow> map_of (pack_salts fresh snap prev data) p = Some (hex_encode (fresh p)))
    \<and> (k \<noteq> ''decision'' \<longrightarrow> map_of prev p = Some x \<longrightarrow> map_of (pack_salts fresh snap prev data) p = Some x)"
  using assms pack_salts_decision pack_salts_carried [OF assms(4,5) _ assms(6)] by blast

theorem pack_salts_fresh_or_carried_witness:
  "\<exists>snap. snapshot_ok snap
     \<and> map_of (pack_salts (\<lambda>p. ''new'') snap [(''decision'', ''6f6c64'')] [(''decision'', JStr ''HOLD'')]) ''decision'' = Some (hex_encode ''new'')"
proof -
  obtain snap where snap: "snapshot_ok snap" using NewSnapshot_ok [OF null_sections_ok] by blast
  then have d: "''decision'' \<notin> set (keys (snap_data snap))"
    using decision_not_evidence by (simp only: snapshot_ok_def) blast
  have "''decision'' \<in> set (leaf_paths (JStr ''HOLD'') ''decision'')" by (subst leaf_paths.simps) simp
  from pack_salts_fresh_or_carried [OF snap _ _ _ d this, of "[(''decision'', JStr ''HOLD'')]" "\<lambda>p. ''new''" "[(''decision'', ''6f6c64'')]"]
  have "map_of (pack_salts (\<lambda>p. ''new'') snap [(''decision'', ''6f6c64'')] [(''decision'', JStr ''HOLD'')]) ''decision'' = Some (hex_encode ''new'')"
    by (simp add: plain_keys_def wf_map_def)
  with snap show ?thesis by blast
qed

text \<open>The journal commits to its history: two chains of the same length that end in the same pack
  hash start from the same hash and list the same master roots, or two of the hashed messages are a
  collision of SHA-256.\<close>

theorem journal_commits:
  "chain_hash h ms = Inr x \<Longrightarrow> chain_hash h' ms' = Inr x \<Longrightarrow> length ms = length ms'
     \<Longrightarrow> (hex_decode h = hex_decode h' \<and> map hex_decode ms = map hex_decode ms')
       \<or> colliding (chain_messages h ms) (chain_messages h' ms')"
  by (rule chain_commits)

theorem journal_commits_witness:
  "\<exists>x. chain_hash ZeroHash [ZeroHash, ZeroHash] = Inr x
     \<and> ((hex_decode ZeroHash = hex_decode ZeroHash \<and> map hex_decode [ZeroHash, ZeroHash] = map hex_decode [ZeroHash, ZeroHash])
       \<or> colliding (chain_messages ZeroHash [ZeroHash, ZeroHash]) (chain_messages ZeroHash [ZeroHash, ZeroHash]))"
proof -
  have d: "\<exists>b. PackHash h ZeroHash = Inr (SHA b)" if "digest_hex h" for h
    using that unfolding digest_hex_def by (auto simp: PackHash_def ZeroHash_def)
  obtain a where a: "PackHash ZeroHash ZeroHash = Inr (SHA a)" using d by fastforce
  obtain b where b: "PackHash (SHA a) ZeroHash = Inr (SHA b)" using d by fastforce
  have x: "chain_hash ZeroHash [ZeroHash, ZeroHash] = Inr (SHA b)" by (simp add: a b)
  with journal_commits [OF x x refl] show ?thesis by blast
qed

end
