(* ===== verification/Projection.thy ===== *)
theory Projection
  imports Builder
begin

text \<open>
  Recipient copies: compliance-backend/internal/evidence/projection.go and profiles.go, and the
  independent verifier docs/evidence-pack/verify_pack.py that recipients run (\<open>check_copy\<close>).
  The formatted generation time is an argument. The verifier has Python's own JSON rendering and hex
  reader (\<open>py_json\<close>, \<open>fromhex\<close>), which are not Go's; its rendering of floats is the parameter \<open>fl\<close>.

  The lemmas: withholding a path changes neither root and removes every leaf and every salt at or
  below it; the verifier hashes what Go hashes on values with integer numbers, and refuses or differs
  elsewhere; therefore each issued copy passes it.
\<close>

section \<open>Disclosure profiles\<close>

definition offRamp :: "string list" where
  "offRamp = [
     ''travel_rule.originator.identifier'', ''travel_rule.originator.identifier_type'',
     ''travel_rule.beneficiary.name'',
     ''kyt.api_version'', ''kyt.external_ref'', ''kyt.raw_response_sha256'',
     ''sanctions.algorithm'', ''sanctions.threshold'', ''sanctions.calibration_version'',
     ''sanctions.matched_on'', ''sanctions.alert_analysis'', ''sanctions.reviewer'',
     ''sanctions.second_reviewer'',
     ''structuring.rule_id'', ''structuring.window'', ''structuring.thresholds'',
     ''structuring.linked_count'', ''structuring.linked_pack_ids'', ''structuring.features'',
     ''structuring.score'',
     ''rules.approved_by'', ''rules.engine_version'', ''rules.thresholds'', ''rules.recommendation'',
     ''timeline.offchain'',
     ''decision.mode'', ''decision.policy_ref'', ''decision.reason_codes'', ''decision.rationale'',
     ''decision.officer_id'', ''decision.second_reviewer'', ''decision.return_blocked'',
     ''retention.legal_hold'']"

definition Profiles :: "(string, string list) gomap" where
  "Profiles = [
     (''MASTER'', []),
     (''FIU_SUPERVISOR'', []),
     (''OFF_RAMP'', offRamp),
     (''BANK'', offRamp @ [
        ''travel_rule.originator'', ''travel_rule.beneficiary'',
        ''wallet_ownership.required'', ''wallet_ownership.reason'', ''wallet_ownership.method'',
        ''wallet_ownership.message'', ''wallet_ownership.message_sha256'', ''wallet_ownership.domain'',
        ''wallet_ownership.nonce'', ''wallet_ownership.chain_id'', ''wallet_ownership.issued_at'',
        ''wallet_ownership.expires_at'', ''wallet_ownership.signature'', ''wallet_ownership.verified_at'',
        ''wallet_ownership.verified_block'', ''wallet_ownership.prior_pack_id'']),
     (''AUDITOR'', [''travel_rule.originator'', ''travel_rule.beneficiary''])]"

text \<open>A field of a section; a missing section or field reads as nil.\<close>

definition section_field :: "(string \<times> jval) list \<Rightarrow> string \<Rightarrow> string \<Rightarrow> jval" where
  "section_field data sec key = (case map_of data sec of Some (JObj m) \<Rightarrow> lookup_any m key | _ \<Rightarrow> JNull)"

definition frozen_reason :: string where
  "frozen_reason = ''the payment is frozen; off-ramp and bank requests go to the MLRO''"

definition match_reason :: string where
  "match_reason = ''sanctions screening is a true match; off-ramp and bank requests go to the MLRO''"

definition RefusedProfiles :: "pack \<Rightarrow> (string, string) gomap" where
  "RefusedProfiles p =
     (if section_field (Data p) ''decision'' ''decision'' = JStr ''FREEZE''
      then [(''OFF_RAMP'', frozen_reason), (''BANK'', frozen_reason)]
      else if section_field (Data p) ''sanctions'' ''result'' = JStr ''TRUE_MATCH''
      then [(''OFF_RAMP'', match_reason), (''BANK'', match_reason)]
      else [])"

section \<open>Projection\<close>

record recipient =
  Profile :: string
  PreparedFor :: string
  Purpose :: string

datatype project_err = UnknownProfile string | MissingRecipient | ProjTree tree_err | ProjCanon canon_err

fun deepCopy :: "jval \<Rightarrow> jval" where
  "deepCopy (JObj kvs) = JObj (map (\<lambda>(k, c). (k, deepCopy c)) kvs)"
| "deepCopy (JList xs) = JList (map deepCopy xs)"
| "deepCopy v = v"

definition toAny :: "salts \<Rightarrow> jval" where
  "toAny m = JObj (map (\<lambda>(k, v). (k, JStr v)) m)"

text \<open>The walk of \<open>withhold\<close> down the nested maps, and the assignment at its end.\<close>

fun subtree :: "string list \<Rightarrow> (string \<times> jval) list \<Rightarrow> jval option" where
  "subtree [] kvs = None"
| "subtree [k] kvs = map_of kvs k"
| "subtree (k # k' # ks) kvs = (case map_of kvs k of Some (JObj m) \<Rightarrow> subtree (k' # ks) m | _ \<Rightarrow> None)"

fun replace_at :: "string list \<Rightarrow> jval \<Rightarrow> (string \<times> jval) list \<Rightarrow> (string \<times> jval) list" where
  "replace_at [] new kvs = kvs"
| "replace_at [k] new kvs = AList.update k new kvs"
| "replace_at (k # k' # ks) new kvs = (case map_of kvs k of
     Some (JObj m) \<Rightarrow> AList.update k (JObj (replace_at (k' # ks) new m)) kvs | _ \<Rightarrow> kvs)"

definition marker :: "string \<Rightarrow> jval" where
  "marker h = JObj [(withheld_key, JStr h)]"

definition drop_salts :: "string \<Rightarrow> salts \<Rightarrow> salts" where
  "drop_salts path = filter (\<lambda>(k, _). \<not> (k = path \<or> prefix (path @ ''.'') k))"

definition withhold :: "(string \<times> jval) list \<Rightarrow> salts \<Rightarrow> string \<Rightarrow> (tree_err, (string \<times> jval) list \<times> salts) res" where
  "withhold data salts path = (case subtree (split_on CHR ''.'' path) data of
     None \<Rightarrow> Inr (data, salts)
   | Some v \<Rightarrow> map_res (\<lambda>h. (replace_at (split_on CHR ''.'' path) (marker h) data, drop_salts path salts))
       (NodeHash v salts path))"

fun withhold_all :: "string list \<Rightarrow> (string \<times> jval) list \<Rightarrow> salts \<Rightarrow> (tree_err, (string \<times> jval) list \<times> salts) res" where
  "withhold_all [] data salts = Inr (data, salts)"
| "withhold_all (path # paths) data salts =
     and_then (withhold data salts path) (\<lambda>(d, s). withhold_all paths d s)"

definition copy_body :: "pack \<Rightarrow> recipient \<Rightarrow> string \<Rightarrow> (string \<times> jval) list \<Rightarrow> salts \<Rightarrow> (string \<times> jval) list" where
  "copy_body p r now data salts = [
     (''schema_version'', JStr SchemaVersion), (''pack_id'', JStr (PackID p)), (''profile'', JStr (Profile r)),
     (''prepared_for'', JStr (PreparedFor r)), (''purpose'', JStr (Purpose r)), (''generated_at'', JStr now),
     (''data'', JObj data), (''salts'', toAny salts)]"

definition integrity_block :: "pack \<Rightarrow> string \<Rightarrow> (string \<times> jval) list" where
  "integrity_block p projection_hash = [
     (''sig_alg'', JStr ''ES256, detached JWS''), (''key_id'', JStr (PackKID p)), (''signature'', JStr (JWS p)),
     (''tsa'', JNull), (''ts_time'', JNull), (''ts_serial'', JNull), (''anchor_root'', JNull), (''anchor_tx'', JNull),
     (''prev_pack_hash'', JStr (PrevPackHash p)), (''master_root'', JStr (PMasterRoot p)),
     (''evidence_root'', JStr (PEvidenceRoot p)), (''projection_hash'', JStr projection_hash)]"

definition Project :: "pack \<Rightarrow> recipient \<Rightarrow> string \<Rightarrow> (project_err, (string \<times> jval) list) res" where
  "Project p r now = (case map_of Profiles (Profile r) of
     None \<Rightarrow> Inl (UnknownProfile (Profile r))
   | Some paths \<Rightarrow>
       if blank (PreparedFor r) \<or> blank (Purpose r) then Inl MissingRecipient
       else (case deepCopy (JObj (Data p)) of JObj data0 \<Rightarrow>
         and_then (map_err ProjTree (withhold_all paths data0 (Salts p))) (\<lambda>(data, salts).
         let copy = copy_body p r now data salts in
         map_res (\<lambda>b. copy @ [(''integrity'', JObj (integrity_block p (SHA b)))])
           (map_err ProjCanon (canon (JObj copy))))))"

section \<open>The independent verifier\<close>

text \<open>
  \<open>verify_pack.py\<close>, over values as \<open>json.load\<close> yields them. Its \<open>node\<close> returns
  whatever stands under a single \<open>$withheld\<close> key. A raised exception is None; \<open>fl\<close> is the
  text \<open>json.dumps\<close> prints for a number literal that is read as a float (the shortest decimal of the
  nearest double, \<open>1.0\<close> for \<open>1e0\<close>), the limits of memory and recursion are left out.
\<close>

text \<open>\<open>json.dumps(o, sort_keys=True, separators=(",", ":"), ensure_ascii=False)\<close>: the encoder escapes
  the quote, the backslash and the control characters.\<close>

definition py_escape :: "nat \<Rightarrow> string" where
  "py_escape r =
     (if r = 0x5C then backslash # [backslash] else if r = 0x22 then backslash # [quote]
      else if r = 0x08 then backslash # ''b'' else if r = 0x0C then backslash # ''f'' else if r = 0x0A then backslash # ''n''
      else if r = 0x0D then backslash # ''r'' else if r = 0x09 then backslash # ''t''
      else if r < 0x20 then backslash # CHR ''u'' # map hex_digit [r div 4096, r div 256 mod 16, r div 16 mod 16, r mod 16]
      else encode_rune r)"

definition py_str :: "string \<Rightarrow> string" where
  "py_str s = [quote] @ concat (map py_escape (runes s)) @ [quote]"

text \<open>An integer literal becomes an \<open>int\<close>, of at most 4,300 digits, and is printed in decimal; any other
  literal becomes a \<open>float\<close>.\<close>

definition py_number :: "(string \<Rightarrow> string) \<Rightarrow> string \<Rightarrow> string option" where
  "py_number fl s =
     (if CHR ''.'' \<in> set s \<or> CHR ''e'' \<in> set s \<or> CHR ''E'' \<in> set s then Some (fl s)
      else if 4300 < length (filter is_digit s) then None
      else if s = ''-0'' then Some ''0'' else Some s)"

function py_json :: "(string \<Rightarrow> string) \<Rightarrow> jval \<Rightarrow> string option" where
  "py_json fl JNull = Some ''null''"
| "py_json fl (JBool b) = Some (if b then ''true'' else ''false'')"
| "py_json fl (JNumber s) = py_number fl s"
| "py_json fl (JInt w) = Some (int_dec (sint w))"
| "py_json fl (JInt64 w) = Some (int_dec (sint w))"
| "py_json fl (JUint64 w) = Some (nat_dec (unat w))"
| "py_json fl (JStr s) = Some (py_str s)"
| "py_json fl (JList xs) = map_option (\<lambda>ss. ''['' @ intercalate '','' ss @ '']'') (those (map (py_json fl) xs))"
| "py_json fl (JStrList ss) = Some (''['' @ intercalate '','' (map py_str ss) @ '']'')"
| "py_json fl (JObj kvs) = map_option (\<lambda>ms. ''{'' @ intercalate '','' ms @ ''}'')
     (those (map (\<lambda>(k, v). map_option (\<lambda>b. py_str k @ '':'' @ b) (py_json fl v)) (sort_key fst kvs)))"
| "py_json fl (JOther t) = None"
  by pat_completeness auto
termination
  by (relation "measure (\<lambda>(fl, v). size v)") (auto intro: size_member size_list_member)

text \<open>\<open>bytes.fromhex\<close> skips ASCII white space around the pairs of digits.\<close>

definition py_space :: "char \<Rightarrow> bool" where
  "py_space c \<longleftrightarrow> c = CHR '' '' \<or> 9 \<le> (of_char c :: nat) \<and> (of_char c :: nat) \<le> 13"

fun fromhex :: "string \<Rightarrow> string option" where
  "fromhex [] = Some []"
| "fromhex [c] = (if py_space c then Some [] else None)"
| "fromhex (a # b # s) =
     (if py_space a then fromhex (b # s)
      else case (hex_val a, hex_val b) of
        (Some x, Some y) \<Rightarrow> map_option ((#) (char_of (16 * x + y))) (fromhex s)
      | _ \<Rightarrow> None)"

definition py_sha :: "(string \<Rightarrow> string) \<Rightarrow> jval \<Rightarrow> jval option" where
  "py_sha fl v = map_option (\<lambda>b. JStr (SHA b)) (py_json fl v)"

definition py_leaf :: "(string \<Rightarrow> string) \<Rightarrow> jval \<Rightarrow> (string \<times> jval) list \<Rightarrow> string \<Rightarrow> jval option" where
  "py_leaf fl v salts path = (case map_of salts path of
     Some (JStr s) \<Rightarrow> (case (fromhex s, py_json fl v) of
       (Some salt, Some b) \<Rightarrow> Some (JStr (SHA (salt @ b))) | _ \<Rightarrow> None)
   | _ \<Rightarrow> None)"

function py_node :: "(string \<Rightarrow> string) \<Rightarrow> jval \<Rightarrow> (string \<times> jval) list \<Rightarrow> string \<Rightarrow> jval option" where
  "py_node fl v salts path =
     (case v of
        JObj kvs \<Rightarrow>
          if map fst kvs = [withheld_key] then Some (snd (hd kvs))
          else if kvs = [] then py_leaf fl v salts path
          else Option.bind (those (map (\<lambda>(k, x). map_option (Pair k) (py_node fl x salts (join path k))) kvs))
                 (\<lambda>m. py_sha fl (JObj m))
      | JList xs \<Rightarrow>
          if xs = [] then py_leaf fl v salts path
          else Option.bind (those (map (\<lambda>(i, x). py_node fl x salts (join path (nat_dec i))) (indexed xs)))
                 (\<lambda>l. py_sha fl (JList l))
      | _ \<Rightarrow> py_leaf fl v salts path)"
  by pat_completeness auto
termination
  by (relation "measure (\<lambda>(_, v, _, _). size v)")
    (auto intro: size_member size_list_member dest: indexed_mem)


declare py_node.simps [simp del]

definition py_evidence :: "(string \<Rightarrow> string) \<Rightarrow> (string \<times> jval) list \<Rightarrow> (string \<times> jval) list \<Rightarrow> jval option" where
  "py_evidence fl data salts =
     Option.bind (those (map (\<lambda>k. Option.bind (map_of data k) (\<lambda>x. map_option (Pair k) (py_node fl x salts k))) EvidenceKeys))
       (\<lambda>m. py_sha fl (JObj m))"

text \<open>The three results of \<open>check_copy\<close>: copy hash, master root, evidence root.\<close>

definition check_copy :: "(string \<Rightarrow> string) \<Rightarrow> (string \<times> jval) list \<Rightarrow> (bool \<times> bool \<times> bool) option" where
  "check_copy fl copy =
     (let rest = filter (\<lambda>(k, _). k \<noteq> ''integrity'') copy in
      case (map_of copy ''integrity'', map_of rest ''data'', map_of rest ''salts'') of
        (Some (JObj integ), Some (JObj data), Some (JObj salts)) \<Rightarrow>
          (case (py_sha fl (JObj rest), py_node fl (JObj data) salts [], py_evidence fl data salts) of
             (Some c, Some m, Some e) \<Rightarrow>
               Some (map_of integ ''projection_hash'' = Some c, map_of integ ''master_root'' = Some m,
                     map_of integ ''evidence_root'' = Some e)
           | _ \<Rightarrow> None)
      | _ \<Rightarrow> None)"

section \<open>The verifier computes the service's hashes\<close>

text \<open>Markers carry a hash string.\<close>

fun markers_ok :: "jval \<Rightarrow> bool" where
  "markers_ok (JObj kvs) = ((case kvs of [(k, x)] \<Rightarrow> k = withheld_key \<longrightarrow> (case x of JStr w \<Rightarrow> True | _ \<Rightarrow> False) | _ \<Rightarrow> True)
     \<and> list_all (\<lambda>(k, x). markers_ok x) kvs)"
| "markers_ok (JList xs) = list_all markers_ok xs"
| "markers_ok _ = True"

definition str_salts :: "salts \<Rightarrow> (string \<times> jval) list" where
  "str_salts = map (\<lambda>(k, v). (k, JStr v))"

definition ok_hash :: "('e, string) res \<Rightarrow> jval option" where
  "ok_hash r = (case r of Inl e \<Rightarrow> None | Inr h \<Rightarrow> Some (JStr h))"

lemma map_of_str_salts: "map_of (str_salts s) p = map_option JStr (map_of s p)"
  by (simp add: str_salts_def map_of_map_snd)

text \<open>Number literals that both sides print alike: no negative zero and at most 4,300 digits.\<close>

definition plain_int :: "string \<Rightarrow> bool" where
  "plain_int s \<longleftrightarrow> s \<noteq> ''-0'' \<and> length (filter is_digit s) \<le> 4300"

fun plain_ints :: "jval \<Rightarrow> bool" where
  "plain_ints (JNumber s) = plain_int s"
| "plain_ints (JList xs) = list_all plain_ints xs"
| "plain_ints (JObj kvs) = list_all (\<lambda>(k, v). plain_ints v) kvs"
| "plain_ints _ = True"

lemma py_escape_rune: "py_escape r = escape_rune r"
proof -
  have "r div 4096 = 0" "r div 256 mod 16 = 0" "r div 16 mod 16 = r div 16" if "r < 32" using that by simp_all
  moreover have "hex_digit 0 = CHR ''0''" by code_simp
  ultimately show ?thesis by (simp add: py_escape_def escape_rune_def backslash_def quote_def)
qed

lemma py_str_is: "py_str = write_string"
proof -
  have "py_escape = escape_rune" by (rule ext) (rule py_escape_rune)
  then show ?thesis by (intro ext) (simp only: py_str_def write_string_def append_Cons append_Nil)
qed

definition res_opt :: "('e, 'a) res \<Rightarrow> 'a option" where
  "res_opt r = (case r of Inl e \<Rightarrow> None | Inr y \<Rightarrow> Some y)"

lemma res_opt_simps [simp]: "res_opt (Inl e) = None" "res_opt (Inr y) = Some y"
  by (simp_all add: res_opt_def)

lemma res_opt_map [simp]: "res_opt (map_res f r) = map_option f (res_opt r)" "res_opt (map_err g r) = res_opt r"
  by (cases r; simp)+

lemma res_opt_Some: "res_opt r = Some y \<longleftrightarrow> r = Inr y"
  by (cases r) simp_all

lemma those_res_opt:
  "(\<And>x. x \<in> set xs \<Longrightarrow> g x = res_opt (f x)) \<Longrightarrow> those (map g xs) = res_opt (seq_res (map f xs))"
proof (induction xs)
  case (Cons a xs)
  then show ?case by (cases "f a"; cases "seq_res (map f xs)") auto
qed simp

text \<open>Where Go renders, Python prints the same text.\<close>

lemma those_map_option: "those (map (\<lambda>x. map_option h (g x)) xs) = map_option (map h) (those (map g xs))"
proof (induction xs)
  case (Cons a xs)
  then show ?case by (cases "g a"; cases "those (map g xs)") auto
qed simp

lemma py_json_write: "plain_ints v \<Longrightarrow> renderable v \<Longrightarrow> py_json fl v = res_opt (write_val v)"
proof (induction v rule: write_val.induct)
  case (3 s)
  then show ?case by (auto simp: py_number_def number_ok_def plain_int_def)
next
  case (8 xs)
  then have "those (map (py_json fl) xs) = res_opt (seq_res (map write_val xs))"
    by (intro those_res_opt) (auto simp: list_all_iff)
  then show ?case by (simp add: write_list_def [abs_def])
next
  case (10 kvs)
  have "map_option (Pair k) (py_json fl v) = res_opt (map_res (Pair k) (write_val v))" if "(k, v) \<in> set kvs" for k v
    using 10 that by (fastforce simp: list_all_iff)
  then have "those (map (\<lambda>(k, v). map_option (Pair k) (py_json fl v)) (sort_key fst kvs))
      = res_opt (seq_res (map (\<lambda>(k, v). map_res (Pair k) (write_val v)) (sort_key fst kvs)))"
    by (intro those_res_opt) auto
  moreover have "those (map (\<lambda>(k, v). map_option (\<lambda>b. py_str k @ '':'' @ b) (py_json fl v)) (sort_key fst kvs))
      = map_option (map write_member) (those (map (\<lambda>(k, v). map_option (Pair k) (py_json fl v)) (sort_key fst kvs)))"
    unfolding those_map_option [symmetric]
    by (intro arg_cong [where f = those] map_cong refl) (auto simp: option.map_comp write_member_def py_str_is comp_def)
  ultimately show ?case by (simp add: option.map_comp write_object_def [abs_def] comp_def)
qed (simp_all add: py_str_is write_list_def)

declare py_json.simps [simp del]

lemma py_json_canon: "plain_ints v \<Longrightarrow> renderable v \<Longrightarrow> py_json fl v = res_opt (canon v)"
  by (simp add: py_json_write canon_def)

lemma py_json_ok: "plain_ints v \<Longrightarrow> canon v = Inr b \<Longrightarrow> py_json fl v = Some b"
  using canon_renderable py_json_canon by fastforce

lemma hex_not_space: "hex_val c = Some d \<Longrightarrow> \<not> py_space c"
  by (auto simp: hex_val_def py_space_def Let_def split: if_splits)

lemma fromhex_ok: "hex_decode s = Some b \<Longrightarrow> fromhex s = Some b"
  by (induction s arbitrary: b rule: hex_decode.induct) (auto simp: hex_not_space split: option.splits)


lemma py_leaf_ok: "plain_ints v \<Longrightarrow> leaf v s path = Inr h \<Longrightarrow> py_leaf fl v (str_salts s) path = Some (JStr h)"
  by (auto simp: py_leaf_def leaf_def map_of_str_salts res_simps py_json_ok fromhex_ok split: option.splits)



lemma py_node_leaf: "is_leaf v \<Longrightarrow> py_node fl v salts path = py_leaf fl v salts path"
  by (subst py_node.simps) (cases v; auto simp: is_leaf_def)

lemma is_withheld_SomeD: "is_withheld v = Some w \<Longrightarrow> v = JObj [(withheld_key, JStr w)]"
  by (auto elim: is_withheld.elims split: if_splits)

lemma py_node_withheld: "is_withheld v = Some w \<Longrightarrow> py_node fl v salts path = Some (JStr w)"
  by (auto dest!: is_withheld_SomeD simp: py_node.simps)

lemma markers_not_withheld:
  "markers_ok (JObj kvs) \<Longrightarrow> is_withheld (JObj kvs) = None \<Longrightarrow> map fst kvs \<noteq> [withheld_key]"
proof
  assume m: "markers_ok (JObj kvs)" "is_withheld (JObj kvs) = None" and "map fst kvs = [withheld_key]"
  then obtain x where "kvs = [(withheld_key, x)]" by auto
  with m show False by (cases x) simp_all
qed

text \<open>The hash of an inner node: its children are hash strings, which both sides render alike.\<close>

lemma plain_hashes [simp]: "plain_ints (JObj (map (\<lambda>(k, h). (k, JStr h)) m))" "renderable (JObj (map (\<lambda>(k, h). (k, JStr h)) m))"
  "plain_ints (JList (map JStr l))" "renderable (JList (map JStr l))"
  by (auto simp: list_all_iff)

lemma py_sha_obj: "list_all (\<lambda>(k, x). \<exists>h. x = JStr h) m \<Longrightarrow> py_sha fl (JObj m) = ok_hash (map_res SHA (map_err TreeCanon (canon (JObj m))))"
proof -
  assume m: "list_all (\<lambda>(k, x). \<exists>h. x = JStr h) m"
  then have "plain_ints (JObj m)" "renderable (JObj m)" by (auto simp: list_all_iff)
  from py_json_canon [OF this] show ?thesis by (cases "canon (JObj m)") (simp_all add: py_sha_def ok_hash_def)
qed

lemma py_sha_list: "list_all (\<lambda>x. \<exists>h. x = JStr h) l \<Longrightarrow> py_sha fl (JList l) = ok_hash (map_res SHA (map_err TreeCanon (canon (JList l))))"
proof -
  assume l: "list_all (\<lambda>x. \<exists>h. x = JStr h) l"
  then have "plain_ints (JList l)" "renderable (JList l)" by (auto simp: list_all_iff)
  from py_json_canon [OF this] show ?thesis by (cases "canon (JList l)") (simp_all add: py_sha_def ok_hash_def)
qed

lemma py_node_obj:
  assumes "kvs \<noteq> []" and "is_withheld (JObj kvs) = None" and "markers_ok (JObj kvs)"
    and ch: "\<And>k x. (k, x) \<in> set kvs \<Longrightarrow> py_node fl x (str_salts s) (join path k) = ok_hash (node x s (join path k))"
  shows "py_node fl (JObj kvs) (str_salts s) path = ok_hash (node (JObj kvs) s path)"
proof -
  let ?f = "\<lambda>(k, x). map_res (\<lambda>h. (k, JStr h)) (node x s (join path k))"
  have "map_option (Pair k) (py_node fl x (str_salts s) (join path k)) = res_opt (?f (k, x))" if "(k, x) \<in> set kvs" for k x
    using ch [OF that] by (cases "node x s (join path k)") (auto simp: ok_hash_def)
  then have t: "those (map (\<lambda>(k, x). map_option (Pair k) (py_node fl x (str_salts s) (join path k))) kvs) = res_opt (seq_res (map ?f kvs))"
    by (intro those_res_opt) auto
  have "list_all (\<lambda>(k, x). \<exists>h. x = JStr h) m" if "seq_res (map ?f kvs) = Inr m" for m
  proof -
    have "\<exists>h. snd y = JStr h" if "y \<in> set m" for y
      by (rule seq_res_map_all [OF \<open>seq_res (map ?f kvs) = Inr m\<close> _ that]) (auto simp: res_simps)
    then show ?thesis by (auto simp: list_all_iff)
  qed
  then show ?thesis
    using assms(1,2) markers_not_withheld [OF assms(3,2)] t
    by (subst py_node.simps) (cases "seq_res (map ?f kvs)"; simp add: node_obj py_sha_obj ok_hash_def)
qed

lemma py_node_list:
  assumes "xs \<noteq> []"
    and ch: "\<And>i x. (i, x) \<in> set (indexed xs) \<Longrightarrow> py_node fl x (str_salts s) (join path (nat_dec i)) = ok_hash (node x s (join path (nat_dec i)))"
  shows "py_node fl (JList xs) (str_salts s) path = ok_hash (node (JList xs) s path)"
proof -
  let ?f = "\<lambda>(i, x). map_res JStr (node x s (join path (nat_dec i)))"
  have "py_node fl x (str_salts s) (join path (nat_dec i)) = res_opt (?f (i, x))" if "(i, x) \<in> set (indexed xs)" for i x
    using ch [OF that] by (cases "node x s (join path (nat_dec i))") (auto simp: ok_hash_def)
  then have t: "those (map (\<lambda>(i, x). py_node fl x (str_salts s) (join path (nat_dec i))) (indexed xs)) = res_opt (seq_res (map ?f (indexed xs)))"
    by (intro those_res_opt) auto
  have "list_all (\<lambda>x. \<exists>h. x = JStr h) l" if "seq_res (map ?f (indexed xs)) = Inr l" for l
  proof -
    have "\<exists>h. y = JStr h" if "y \<in> set l" for y
      by (rule seq_res_map_all [OF \<open>seq_res (map ?f (indexed xs)) = Inr l\<close> _ that]) (auto simp: res_simps)
    then show ?thesis by (simp add: list_all_iff)
  qed
  then show ?thesis
    using assms(1) t by (subst py_node.simps) (cases "seq_res (map ?f (indexed xs))"; simp add: node_list py_sha_list ok_hash_def)
qed

lemma ok_hash_Inr: "ok_hash r = Some (JStr h) \<longleftrightarrow> r = Inr h"
  by (cases r) (simp_all add: ok_hash_def)

lemma node_children:
  assumes "node (JObj kvs) s path = Inr h" and "kvs \<noteq> []" and "is_withheld (JObj kvs) = None" and "(k, x) \<in> set kvs"
  shows "\<exists>h'. node x s (join path k) = Inr h'"
proof -
  let ?f = "\<lambda>(k, x). map_res (\<lambda>h. (k, JStr h)) (node x s (join path k))"
  obtain m where "seq_res (map ?f kvs) = Inr m"
    using assms(1) unfolding node_obj [OF assms(2,3)] by (cases "seq_res (map ?f kvs)") simp_all
  then have "\<forall>r\<in>set (map ?f kvs). is_ok r" by (intro iffD1 [OF seq_res_ok_iff]) simp
  then have "is_ok (?f (k, x))" using assms(4) unfolding list.set_map by blast
  then show ?thesis by (simp flip: is_ok_iff)
qed

lemma node_items:
  assumes "node (JList xs) s path = Inr h" and "xs \<noteq> []" and "(i, x) \<in> set (indexed xs)"
  shows "\<exists>h'. node x s (join path (nat_dec i)) = Inr h'"
proof -
  let ?f = "\<lambda>(i, x). map_res JStr (node x s (join path (nat_dec i)))"
  obtain l where "seq_res (map ?f (indexed xs)) = Inr l"
    using assms(1) unfolding node_list [OF assms(2)] by (cases "seq_res (map ?f (indexed xs))") simp_all
  then have "\<forall>r\<in>set (map ?f (indexed xs)). is_ok r" by (intro iffD1 [OF seq_res_ok_iff]) simp
  then have "is_ok (?f (i, x))" using assms(3) unfolding list.set_map by blast
  then show ?thesis by (simp flip: is_ok_iff)
qed

lemma py_node_ok:
  "markers_ok v \<Longrightarrow> plain_ints v \<Longrightarrow> node v s path = Inr h \<Longrightarrow> py_node fl v (str_salts s) path = Some (JStr h)"
proof (induction v path arbitrary: h rule: tree_induct)
  case (obj kvs path)
  have "py_node fl x (str_salts s) (join path k) = ok_hash (node x s (join path k))" if "(k, x) \<in> set kvs" for k x
    using node_children [OF obj(6,1,2) that] obj(3) [OF that] obj(4,5) that by (fastforce simp: list_all_iff ok_hash_def)
  from py_node_obj [OF obj(1,2,4) this] show ?case by (simp add: obj(6) ok_hash_def)
next
  case (list xs path)
  have "py_node fl x (str_salts s) (join path (nat_dec i)) = ok_hash (node x s (join path (nat_dec i)))" if "(i, x) \<in> set (indexed xs)" for i x
    using node_items [OF list(5,1) that] list(2) [OF that] list(3,4) indexed_mem [OF that] by (fastforce simp: list_all_iff ok_hash_def)
  from py_node_list [OF list(1) this] show ?case by (simp add: list(5) ok_hash_def)
qed (auto simp: tree_withheld tree_leaf py_node_leaf py_node_withheld py_leaf_ok)


section \<open>Withholding keeps both roots\<close>

lemma deepCopy_id: "deepCopy v = v"
proof (induction v)
  case (JObj kvs)
  have "map (\<lambda>(k, c). (k, deepCopy c)) kvs = kvs"
    using JObj by (intro map_idI) auto
  then show ?case by simp
next
  case (JList xs)
  then show ?case by (simp add: map_idI)
qed simp_all

lemma join_below: "q \<noteq> [] \<Longrightarrow> below q (join q k)"
  by (simp add: below_def join_def)

lemma below_trans: "below a b \<Longrightarrow> below b c \<Longrightarrow> below a c"
  by (auto simp: below_def prefix_def)

lemma foldl_join_below: "q \<noteq> [] \<Longrightarrow> below q (foldl join q ks)"
proof (induction ks arbitrary: q)
  case (Cons k ks)
  have "below (join q k) (foldl join (join q k) ks)"
    using Cons.prems by (intro Cons.IH) (simp add: join_def)
  with join_below [OF Cons.prems] show ?case using below_trans by simp blast
qed simp

lemma replace_map:
  assumes "wf_map kvs" and "k \<in> set (keys kvs)"
  shows "AList.update k new kvs = map (\<lambda>(k', v'). (k', if k' = k then new else v')) kvs"
  using assms by (rule update_map_present)

lemma map_of_Some_segmented:
  "segmented (JObj kvs) \<Longrightarrow> (k, v) \<in> set kvs \<Longrightarrow> segmented v \<and> k \<noteq> [] \<and> map_of kvs k = Some v"
  using segmented_keys wf_map_lookup by (fastforce simp: list_all_iff)

text \<open>
  Withholding rewrites the values of the entries and leaves every entry's hash as it was, provided
  the remaining salts are those outside the withheld path.
\<close>

definition same_hashes ::
  "salts \<Rightarrow> salts \<Rightarrow> string \<Rightarrow> (string \<times> jval) list \<Rightarrow> (string \<Rightarrow> jval \<Rightarrow> jval) \<Rightarrow> bool" where
  "same_hashes s s' q kvs g \<longleftrightarrow>
     (\<forall>(k, v)\<in>set kvs. node (g k v) s' (join q k) = node v s (join q k))"

lemma node_obj_same:
  assumes "same_hashes s s' q kvs g" and "kvs \<noteq> []" and "is_withheld (JObj kvs) = None"
    and "is_withheld (JObj (map (\<lambda>(k, v). (k, g k v)) kvs)) = None"
  shows "node (JObj (map (\<lambda>(k, v). (k, g k v)) kvs)) s' q = node (JObj kvs) s q"
proof -
  have eq: "map (\<lambda>(k, c). map_res (\<lambda>h. (k, JStr h)) (node c s' (join q k))) (map (\<lambda>(k, v). (k, g k v)) kvs)
      = map (\<lambda>(k, c). map_res (\<lambda>h. (k, JStr h)) (node c s (join q k))) kvs"
    using assms(1) by (auto simp: same_hashes_def)
  have ne: "map (\<lambda>(k, v). (k, g k v)) kvs \<noteq> []" using assms(2) by simp
  show ?thesis
    unfolding node_obj [OF assms(2,3)] node_obj [OF ne assms(4)] eq by (rule refl)
qed

lemma is_withheld_container: "(k, v) \<in> set kvs \<Longrightarrow> (\<And>w. v \<noteq> JStr w) \<Longrightarrow> is_withheld (JObj kvs) = None"
  by (rule ccontr) (auto dest!: is_withheld_SomeD)

lemma sibling_unaffected:
  assumes "segmented (JObj kvs)" and "(k, v) \<in> set kvs" and "(k', v') \<in> set kvs" and "k' \<noteq> k"
    and "below (join q k) full" and "\<And>p. \<not> below full p \<Longrightarrow> map_of s' p = map_of s p"
  shows "node v' s' (join q k') = node v' s (join q k')"
proof (rule node_cong)
  fix p assume "p \<in> set (leaf_paths v' (join q k'))"
  then have "\<not> below (join q k) p"
    using sibling_leaves_disjoint [OF assms(1,3,2,4)] by blast
  with assms(5) show "map_of s' p = map_of s p"
    using assms(6) below_trans by blast
qed

lemma node_marker [simp]: "node (marker h) s q = Inr h"
  by (rule node_withheld) (simp add: marker_def)

lemma replace_same_hashes:
  assumes "segmented (JObj kvs)" and "subtree ks kvs = Some v" and "withheld_key \<notin> set ks"
    and "node v s (foldl join q ks) = Inr h"
    and "\<And>p. \<not> below (foldl join q ks) p \<Longrightarrow> map_of s' p = map_of s p"
  shows "\<exists>g. replace_at ks (marker h) kvs = map (\<lambda>(k, v). (k, g k v)) kvs
     \<and> same_hashes s s' q kvs g \<and> (\<forall>k v. (\<forall>w. v \<noteq> JStr w) \<longrightarrow> (\<forall>w. g k v \<noteq> JStr w))
     \<and> (\<exists>v. (hd ks, v) \<in> set kvs \<and> (\<forall>w. g (hd ks) v \<noteq> JStr w))"
  using assms
proof (induction ks kvs arbitrary: q rule: subtree.induct)
  case (1 kvs)
  then show ?case by simp
next
  case (2 k kvs)
  have mem: "(k, v) \<in> set kvs" using "2.prems"(2) by (simp add: map_of_SomeD)
  have k: "k \<in> set (keys kvs)" using mem by force
  have ne: "join q k \<noteq> []" using map_of_Some_segmented [OF "2.prems"(1) mem] by (simp add: join_def)
  have out: "map_of s' p = map_of s p" if "\<not> below (join q k) p" for p
    using "2.prems"(5) [of p] that by simp
  let ?g = "\<lambda>k' v'. if k' = k then marker h else v'"
  have "same_hashes s s' q kvs ?g"
    unfolding same_hashes_def
  proof (clarify)
    fix k' v' assume mem': "(k', v') \<in> set kvs"
    show "node (?g k' v') s' (join q k') = node v' s (join q k')"
    proof (cases "k' = k")
      case True
      then have "v' = v"
        using map_of_Some_segmented [OF "2.prems"(1) mem] map_of_Some_segmented [OF "2.prems"(1) mem'] by simp
      then show ?thesis using True "2.prems"(4) by simp
    next
      case False
      have "node v' s' (join q k') = node v' s (join q k')"
        by (rule sibling_unaffected [OF "2.prems"(1) mem mem' False below_refl])
          (rule out)
      then show ?thesis using False by simp
    qed
  qed
  moreover have "replace_at [k] (marker h) kvs = map (\<lambda>(k, v). (k, ?g k v)) kvs"
    unfolding replace_at.simps by (rule replace_map [OF segmented_keys [OF "2.prems"(1)] k])
  moreover have "\<forall>k v. (\<forall>w. v \<noteq> JStr w) \<longrightarrow> (\<forall>w. ?g k v \<noteq> JStr w)"
    by (simp add: marker_def)
  moreover have "(hd [k], v) \<in> set kvs \<and> (\<forall>w. ?g (hd [k]) v \<noteq> JStr w)"
    using mem by (simp add: marker_def)
  ultimately show ?case by - (rule exI [of _ ?g], (intro conjI exI [of _ v]; simp))
next
  case (3 k k' ks kvs)
  then obtain m where m: "map_of kvs k = Some (JObj m)" and sub: "subtree (k' # ks) m = Some v"
    by (auto split: option.splits jval.splits)
  have mem: "(k, JObj m) \<in> set kvs" using m by (simp add: map_of_SomeD)
  have k: "k \<in> set (keys kvs)" using mem by force
  have seg: "segmented (JObj m)" and ne: "join q k \<noteq> []"
    using map_of_Some_segmented [OF "3.prems"(1) mem] by (simp_all add: join_def)
  have wk: "withheld_key \<notin> set (k' # ks)" using "3.prems"(3) by simp
  obtain g where g: "replace_at (k' # ks) (marker h) m = map (\<lambda>(k, v). (k, g k v)) m"
      "same_hashes s s' (join q k) m g" "\<exists>v. (k', v) \<in> set m \<and> (\<forall>w. g k' v \<noteq> JStr w)"
    using "3.IH" [OF m refl seg sub wk, of "join q k"] "3.prems"(4,5) by auto
  have nw: "is_withheld (JObj m) = None"
  proof (rule ccontr)
    assume "is_withheld (JObj m) \<noteq> None"
    then have "map fst m = [withheld_key]" by (auto dest: is_withheld_SomeD)
    moreover have "k' \<in> set (map fst m)" using g(3) by force
    ultimately show False using wk by simp
  qed
  have nw': "is_withheld (JObj (map (\<lambda>(k, v). (k, g k v)) m)) = None"
    using g(3) by (fastforce intro: is_withheld_container)
  have m_ne: "m \<noteq> []" using g(3) by auto
  have inner: "node (JObj (replace_at (k' # ks) (marker h) m)) s' (join q k) = node (JObj m) s (join q k)"
    unfolding g(1) by (rule node_obj_same [OF g(2) m_ne nw nw'])
  have bel: "below (join q k) (foldl join q (k # k' # ks))"
    using foldl_join_below [OF ne, of "k' # ks"] by simp
  let ?new = "JObj (replace_at (k' # ks) (marker h) m)"
  let ?g = "\<lambda>k1 v1. if k1 = k then ?new else v1"
  have "same_hashes s s' q kvs ?g"
    unfolding same_hashes_def
  proof (clarify)
    fix k1 v1 assume mem1: "(k1, v1) \<in> set kvs"
    show "node (?g k1 v1) s' (join q k1) = node v1 s (join q k1)"
    proof (cases "k1 = k")
      case True
      then have "v1 = JObj m"
        using map_of_Some_segmented [OF "3.prems"(1) mem] map_of_Some_segmented [OF "3.prems"(1) mem1] by simp
      then show ?thesis using True inner by simp
    next
      case False
      have "node v1 s' (join q k1) = node v1 s (join q k1)"
        by (rule sibling_unaffected [OF "3.prems"(1) mem mem1 False bel]) (rule "3.prems"(5))
      then show ?thesis using False by simp
    qed
  qed
  moreover have "replace_at (k # k' # ks) (marker h) kvs = map (\<lambda>(k, v). (k, ?g k v)) kvs"
    using replace_map [OF segmented_keys [OF "3.prems"(1)] k, of ?new] m by simp
  moreover have "\<forall>k v. (\<forall>w. v \<noteq> JStr w) \<longrightarrow> (\<forall>w. ?g k v \<noteq> JStr w)"
    by simp
  moreover have "(hd (k # k' # ks), JObj m) \<in> set kvs \<and> (\<forall>w. ?g (hd (k # k' # ks)) (JObj m) \<noteq> JStr w)"
    using mem by simp
  ultimately show ?case by - (rule exI [of _ ?g], (intro conjI exI [of _ "JObj m"]; simp))
qed

text \<open>Segments a profile may name: not empty, not numeric, not the marker key.\<close>

definition path_ok :: "string \<Rightarrow> bool" where
  "path_ok path \<longleftrightarrow> (let ks = split_on CHR ''.'' path in
     foldl join [] ks = path \<and> list_all (\<lambda>k. k \<noteq> [] \<and> \<not> is_digit (hd k) \<and> k \<noteq> withheld_key) ks)"

lemma profile_paths_ok: "map_of Profiles pr = Some paths \<Longrightarrow> list_all path_ok paths"
proof -
  assume "map_of Profiles pr = Some paths"
  then have "paths \<in> snd ` set Profiles" by (force dest: map_of_SomeD)
  moreover have "list_all (\<lambda>x. list_all path_ok (snd x)) Profiles" by code_simp
  ultimately show ?thesis by (auto simp: list_all_iff)
qed

lemma drop_salts_lookup: "map_of (drop_salts path s) p = (if below path p then None else map_of s p)"
proof -
  have "drop_salts path s = filter (\<lambda>(k, _). \<not> below path k) s" by (simp add: drop_salts_def below_def)
  then show ?thesis by (simp add: map_of_filter_key)
qed

lemma update_all:
  assumes "wf_map kvs" and "k \<in> set (keys kvs)" and "list_all P kvs" and "P (k, new)"
  shows "list_all P (AList.update k new kvs)"
  using assms(3,4) unfolding replace_map [OF assms(1,2)] by (auto simp: list_all_iff)

lemma segmented_alt:
  "segmented (JObj kvs) \<longleftrightarrow> distinct (map first_segment (keys kvs)) \<and> list_all (\<lambda>(k, v). k \<noteq> [] \<and> segmented v) kvs"
proof -
  have "map (\<lambda>(k, v). first_segment k) kvs = map first_segment (keys kvs)" by auto
  then show ?thesis by (simp only: segmented.simps)
qed

lemma update_segmented:
  assumes "segmented (JObj kvs)" and "map_of kvs k = Some v" and "segmented new"
  shows "segmented (JObj (AList.update k new kvs))"
proof -
  have wf: "wf_map kvs" using assms(1) by (rule segmented_keys)
  have k: "k \<in> set (keys kvs)" using assms(2) by (rule map_of_Some_key)
  then have "k \<noteq> []" using assms(1) by (auto simp: list_all_iff)
  then have "list_all (\<lambda>(k, v). k \<noteq> [] \<and> segmented v) (AList.update k new kvs)"
    using assms(1,3) by (intro update_all [OF wf k]) simp_all
  with assms(1) k show ?thesis unfolding segmented_alt by (simp only: keys_update_mem simp_thms)
qed

lemma segmented_member: "segmented (JObj kvs) \<Longrightarrow> map_of kvs k = Some v \<Longrightarrow> segmented v"
  by (auto simp: list_all_iff dest: map_of_SomeD)

lemma replace_segmented:
  "segmented (JObj kvs) \<Longrightarrow> subtree ks kvs = Some v \<Longrightarrow> segmented new \<Longrightarrow> segmented (JObj (replace_at ks new kvs))"
proof (induction ks kvs rule: subtree.induct)
  case (2 k kvs)
  then show ?case by (simp add: update_segmented del: segmented.simps)
next
  case (3 k k' ks kvs)
  then obtain m where m: "map_of kvs k = Some (JObj m)" and sub: "subtree (k' # ks) m = Some v"
    by (auto split: option.splits jval.splits)
  then have "segmented (JObj (replace_at (k' # ks) new m))"
    using 3 segmented_member by blast
  then show ?case
    using m 3(2) by (simp add: update_segmented del: segmented.simps)
qed simp

text \<open>Markers stay well-formed.\<close>

definition marker_like :: "(string \<times> jval) list \<Rightarrow> bool" where
  "marker_like kvs \<longleftrightarrow> keys kvs = [withheld_key]"

lemma markers_alt:
  "markers_ok (JObj kvs) \<longleftrightarrow> (marker_like kvs \<longrightarrow> (\<exists>w. kvs = [(withheld_key, JStr w)]))
     \<and> list_all (\<lambda>(k, x). markers_ok x) kvs"
  by (auto simp: marker_like_def split: list.splits jval.splits)

lemma update_markers:
  assumes "markers_ok (JObj kvs)" and "wf_map kvs" and "map_of kvs k = Some v" and "markers_ok new" and "k \<noteq> withheld_key"
  shows "markers_ok (JObj (AList.update k new kvs))"
proof -
  have k: "k \<in> set (keys kvs)" using assms(3) by (rule map_of_Some_key)
  then have "\<not> marker_like (AList.update k new kvs)"
    using assms(5) unfolding marker_like_def keys_update_mem [OF k] by auto
  moreover have "list_all (\<lambda>(k, x). markers_ok x) (AList.update k new kvs)"
    using assms(1,4) unfolding markers_alt by (intro update_all [OF assms(2) k]) simp_all
  ultimately show ?thesis by (simp only: markers_alt simp_thms)
qed

lemma replace_markers:
  "markers_ok (JObj kvs) \<Longrightarrow> segmented (JObj kvs) \<Longrightarrow> subtree ks kvs = Some v \<Longrightarrow> withheld_key \<notin> set ks \<Longrightarrow>
     markers_ok new \<Longrightarrow> markers_ok (JObj (replace_at ks new kvs))"
proof (induction ks kvs rule: subtree.induct)
  case (2 k kvs)
  then show ?case using segmented_keys [OF 2(2)] by (simp add: update_markers del: markers_ok.simps segmented.simps)
next
  case (3 k k' ks kvs)
  then obtain m where m: "map_of kvs k = Some (JObj m)" and sub: "subtree (k' # ks) m = Some v"
    by (auto split: option.splits jval.splits)
  have "markers_ok (JObj m)"
    using 3(2) map_of_SomeD [OF m] unfolding markers_alt [of kvs] list_all_iff by blast
  then have "markers_ok (JObj (replace_at (k' # ks) new m))"
    using 3 m sub segmented_member [OF 3(3) m] by simp
  moreover have "k \<noteq> withheld_key" using 3(5) by auto
  ultimately have "markers_ok (JObj (AList.update k (JObj (replace_at (k' # ks) new m)) kvs))"
    using update_markers [OF 3(2) segmented_keys [OF 3(3)] m] by blast
  then show ?case using m by (simp only: replace_at.simps option.case jval.case)
qed simp

lemma marker_props [simp]: "segmented (marker h)" "markers_ok (marker h)"
  by (simp_all add: marker_def withheld_key_def)

text \<open>The data a copy is made from.\<close>

definition projectable :: "(string \<times> jval) list \<Rightarrow> bool" where
  "projectable data \<longleftrightarrow> segmented (JObj data) \<and> markers_ok (JObj data) \<and> is_withheld (JObj data) = None
     \<and> list_all (\<lambda>k. map_of data k \<noteq> None) EvidenceKeys"

lemma projectable_nonempty: "projectable data \<Longrightarrow> data \<noteq> []"
  by (auto simp: projectable_def EvidenceKeys_def)

lemma lookup_any_map: "lookup_any (map (\<lambda>(k, v). (k, g k v)) data) k
    = (case map_of data k of None \<Rightarrow> JNull | Some v \<Rightarrow> g k v)"
  by (induction data) (auto simp: lookup_any_def)

lemma keys_map_value: "keys (map (\<lambda>(k, v). (k, g k v)) data) = keys data"
  by (induction data) auto

lemma withhold_steps:
  assumes "withhold data s path = Inr (d', s')" and "path_ok path" and "projectable data"
  shows "(subtree (split_on CHR ''.'' path) data = None \<and> d' = data \<and> s' = s)
    \<or> (\<exists>v h g. subtree (split_on CHR ''.'' path) data = Some v
        \<and> d' = replace_at (split_on CHR ''.'' path) (marker h) data \<and> s' = drop_salts path s
        \<and> d' = map (\<lambda>(k, v). (k, g k v)) data \<and> same_hashes s s' [] data g \<and> is_withheld (JObj d') = None)"
proof (cases "subtree (split_on CHR ''.'' path) data")
  case None
  then show ?thesis using assms(1) by (simp add: withhold_def)
next
  case (Some v)
  let ?ks = "split_on CHR ''.'' path"
  obtain h where h: "node v s path = Inr h" and d': "d' = replace_at ?ks (marker h) data" and s': "s' = drop_salts path s"
    using assms(1) Some by (auto simp: withhold_def NodeHash_def res_simps)
  have fj: "foldl join [] ?ks = path" and wk: "withheld_key \<notin> set ?ks"
    using assms(2) by (auto simp: path_ok_def Let_def list_all_iff)
  have seg: "segmented (JObj data)" using assms(3) by (simp only: projectable_def)
  have nv: "node v s (foldl join [] ?ks) = Inr h" using h by (simp only: fj)
  have out: "map_of s' p = map_of s p" if "\<not> below (foldl join [] ?ks) p" for p
    using that unfolding fj by (simp add: s' drop_salts_lookup)
  obtain g w where g: "d' = map (\<lambda>(k, v). (k, g k v)) data" "same_hashes s s' [] data g"
      "(hd ?ks, w) \<in> set data" "\<forall>x. g (hd ?ks) w \<noteq> JStr x"
    using replace_same_hashes [OF seg Some wk nv out] unfolding d' by blast
  have "(hd ?ks, g (hd ?ks) w) \<in> set d'" using g(1,3) by force
  then have "is_withheld (JObj d') = None" using g(4) by (blast intro: is_withheld_container)
  then show ?thesis using Some d' s' g(1,2) by blast
qed

lemma withhold_projectable:
  assumes "withhold data s path = Inr (d', s')" and "path_ok path" and "projectable data"
  shows "projectable d'"
  using withhold_steps [OF assms]
proof (elim disjE exE conjE)
  fix v h g
  assume a: "subtree (split_on CHR ''.'' path) data = Some v"
    "d' = replace_at (split_on CHR ''.'' path) (marker h) data"
    "d' = map (\<lambda>(k, v). (k, g k v)) data" "is_withheld (JObj d') = None"
  have wk: "withheld_key \<notin> set (split_on CHR ''.'' path)"
    using assms(2) by (auto simp: path_ok_def Let_def list_all_iff)
  have p: "segmented (JObj data)" "markers_ok (JObj data)" using assms(3) by (simp_all only: projectable_def)
  have "segmented (JObj d')" unfolding a(2) using p(1) a(1) by (rule replace_segmented) simp
  moreover have "markers_ok (JObj d')" unfolding a(2) using p(2,1) a(1) wk by (rule replace_markers) simp
  moreover have "map_of d' k \<noteq> None" if "map_of data k \<noteq> None" for k
    using that unfolding keys_iff [symmetric] a(3) keys_map_value .
  ultimately show ?thesis
    using a(4) assms(3) unfolding projectable_def list_all_iff by blast
qed (use assms(3) in simp)

lemma withhold_roots:
  assumes "withhold data s path = Inr (d', s')" and "path_ok path" and "projectable data"
  shows "MasterRoot d' s' = MasterRoot data s \<and> EvidenceRoot d' s' = EvidenceRoot data s"
  using withhold_steps [OF assms]
proof (elim disjE exE conjE)
  fix v h g
  assume a: "d' = map (\<lambda>(k, v). (k, g k v)) data" "same_hashes s s' [] data g" "is_withheld (JObj d') = None"
  have nw: "is_withheld (JObj data) = None" using assms(3) by (simp only: projectable_def)
  have "node (JObj d') s' [] = node (JObj data) s []"
    using node_obj_same [OF a(2) projectable_nonempty [OF assms(3)] nw] a(3) unfolding a(1) by blast
  moreover have "node (lookup_any d' k) s' k = node (lookup_any data k) s k" if k: "k \<in> set EvidenceKeys" for k
  proof -
    obtain v where v: "map_of data k = Some v"
      using assms(3) k unfolding projectable_def list_all_iff by blast
    then have "node (g k v) s' (join [] k) = node v s (join [] k)"
      using a(2) map_of_SomeD [OF v] unfolding same_hashes_def by blast
    then show ?thesis unfolding a(1) lookup_any_map by (simp add: v lookup_any_def join_def)
  qed
  ultimately show ?thesis
    by (simp add: MasterRoot_def NodeHash_def EvidenceRoot_def cong: map_cong)
qed simp

lemma withhold_all_roots:
  "list_all path_ok paths \<Longrightarrow> projectable data \<Longrightarrow> withhold_all paths data s = Inr (d', s') \<Longrightarrow>
     projectable d' \<and> MasterRoot d' s' = MasterRoot data s \<and> EvidenceRoot d' s' = EvidenceRoot data s"
proof (induction paths arbitrary: data s)
  case (Cons path paths)
  obtain d1 s1 where w: "withhold data s path = Inr (d1, s1)" and ws: "withhold_all paths d1 s1 = Inr (d', s')"
    using Cons.prems(3) by (auto simp: res_simps)
  have "path_ok path" using Cons.prems(1) by simp
  from withhold_projectable [OF w this Cons.prems(2)] withhold_roots [OF w this Cons.prems(2)] Cons.IH [OF _ _ ws] Cons.prems(1)
  show ?case by simp
qed simp

section \<open>Withholding removes every leaf and salt below the path\<close>

text \<open>
  A path is unambiguous in an object if no other key on its way starts with the same segment: the
  keys of rule inputs contain dots (\<open>kyt.risk_level\<close>), those on a profile's paths do not.
\<close>

fun clean :: "string list \<Rightarrow> (string \<times> jval) list \<Rightarrow> bool" where
  "clean [] kvs = True"
| "clean (k # ks) kvs = list_all (\<lambda>(k', c). first_segment k' = k \<longrightarrow>
     k' = k \<and> (case c of JObj m \<Rightarrow> clean ks m | _ \<Rightarrow> True)) kvs"

definition seg_ok :: "string \<Rightarrow> bool" where
  "seg_ok k \<longleftrightarrow> k \<noteq> [] \<and> CHR ''.'' \<notin> set k \<and> \<not> is_digit (hd k) \<and> k \<noteq> withheld_key"

lemma path_ok_segs: "path_ok path \<Longrightarrow> list_all seg_ok (split_on CHR ''.'' path)"
  using split_on_no_sep by (auto simp: path_ok_def Let_def list_all_iff seg_ok_def)

lemma below_same_key:
  assumes "below (join q k) p" and "below (join q k') p" and "CHR ''.'' \<notin> set k" and "CHR ''.'' \<notin> set k'"
  shows "k = k'"
  using below_segments [OF assms(1,2)] assms(3,4) first_segment_nodot by simp

lemma not_below_self: "q \<noteq> [] \<Longrightarrow> \<not> below (join q k) q"
  by (auto simp: below_def join_def prefix_def)

lemma foldl_join_below_first: "k \<noteq> [] \<Longrightarrow> below (join q k) (foldl join q (k # ks))"
  using foldl_join_below [of "join q k" ks] by simp

lemma index_not_segment: "seg_ok k \<Longrightarrow> below (join q (nat_dec i)) p \<Longrightarrow> \<not> below (join q k) p"
proof
  assume k: "seg_ok k" and b: "below (join q (nat_dec i)) p" "below (join q k) p"
  have "CHR ''.'' \<notin> set (nat_dec i)" using nat_dec_digits digit_not_special by blast
  then have "nat_dec i = k" using below_same_key b k by (auto simp: seg_ok_def)
  then have "is_digit (hd k)" using nat_dec_digits [of "hd k" i] by (metis hd_in_set nat_dec_nonempty)
  with k show False by (simp add: seg_ok_def)
qed

lemma leaf_paths_member:
  "is_withheld (JObj kvs) = None \<Longrightarrow> kvs \<noteq> [] \<Longrightarrow>
     p \<in> set (leaf_paths (JObj kvs) q) \<longleftrightarrow> (\<exists>(k, c)\<in>set kvs. p \<in> set (leaf_paths c (join q k)))"
  by (auto simp: leaf_paths_obj)

lemma member_leaf_key:
  assumes "segmented (JObj kvs)" and "clean (k # ks) kvs" and "(k', c) \<in> set kvs"
    and "p \<in> set (leaf_paths c (join q k'))" and "seg_ok k" and "below (join q k) p"
  shows "k' = k"
proof -
  have "join q k' \<noteq> []" using map_of_Some_segmented [OF assms(1,3)] by (simp add: join_def)
  then have "below (join q k') p" using assms(4) by (rule leaf_paths_below)
  then have "first_segment k' = first_segment k" using assms(6) by (rule below_segments)
  then have "first_segment k' = k" using assms(5) first_segment_nodot by (simp add: seg_ok_def)
  then show ?thesis using assms(2,3) by (fastforce simp: list_all_iff)
qed

lemma clean_member: "clean (k # ks) kvs \<Longrightarrow> (k, JObj m) \<in> set kvs \<Longrightarrow> seg_ok k \<Longrightarrow> clean ks m"
  using first_segment_nodot by (fastforce simp: list_all_iff seg_ok_def)

lemma absent_leaves:
  assumes "segmented (JObj kvs)" and "clean ks kvs" and "list_all seg_ok ks" and "ks \<noteq> []"
    and "subtree ks kvs = None"
    and "is_withheld (JObj kvs) = None" and "kvs \<noteq> []" and "p \<in> set (leaf_paths (JObj kvs) q)"
  shows "\<not> below (foldl join q ks) p"
  using assms
proof (induction ks kvs arbitrary: q rule: subtree.induct)
  case (2 k kvs)
  show ?case
  proof
    assume b: "below (foldl join q [k]) p"
    obtain k' c where kc: "(k', c) \<in> set kvs" "p \<in> set (leaf_paths c (join q k'))"
      using 2 by (auto simp: leaf_paths_member)
    have "k' = k" using member_leaf_key [OF 2(1,2) kc] b 2(3) by simp
    then show False using map_of_Some_segmented [OF 2(1) kc(1)] 2(5) by simp
  qed
next
  case (3 k k' ks kvs)
  show ?case
  proof
    assume b: "below (foldl join q (k # k' # ks)) p"
    have ok: "seg_ok k" "seg_ok k'" "list_all seg_ok (k' # ks)" using 3(4) by simp_all
    obtain k1 c where kc: "(k1, c) \<in> set kvs" "p \<in> set (leaf_paths c (join q k1))"
      using 3(7,8,9) by (auto simp: leaf_paths_member)
    have bk: "below (join q k) p"
      using foldl_join_below_first [of k q "k' # ks"] b below_trans ok(1) unfolding seg_ok_def by blast
    have k1: "k1 = k" by (rule member_leaf_key [OF 3(2,3) kc ok(1) bk])
    let ?q = "join q k"
    have q: "?q \<noteq> []" using ok(1) by (simp add: seg_ok_def join_def)
    have b': "below (foldl join ?q (k' # ks)) p" using b by simp
    have bk': "below (join ?q k') p"
      using foldl_join_below_first [of k' ?q ks] b' below_trans ok(2) unfolding seg_ok_def by blast
    have c: "map_of kvs k = Some c" "segmented c" using map_of_Some_segmented [OF 3(2) kc(1)] k1 by simp_all
    have pc: "p \<in> set (leaf_paths c ?q)" using kc(2) k1 by simp
    show False
    proof (cases c rule: value_shape)
      case (withheld w)
      then show False using pc by (simp add: leaf_paths_withheld)
    next
      case leaf
      then show False using pc not_below_self [OF q] bk' by (simp add: leaf_paths_leaf)
    next
      case (obj m)
      have m: "map_of kvs k = Some (JObj m)" "segmented (JObj m)" "is_withheld (JObj m) = None"
        "p \<in> set (leaf_paths (JObj m) ?q)"
        using c obj(3) pc unfolding obj(1) by blast+
      have "clean (k' # ks) m" using clean_member [OF 3(3) map_of_SomeD [OF m(1)] ok(1)] .
      moreover have "subtree (k' # ks) m = None" using 3(6) m(1) by simp
      ultimately show False
        using "3.IH" [OF m(1) refl m(2) _ ok(3) _ _ m(3) obj(2) m(4)] b' by simp
    next
      case (list xs)
      then obtain i x where "p \<in> set (leaf_paths x (join ?q (nat_dec i)))"
        using pc by (auto simp: leaf_paths_list)
      then have "below (join ?q (nat_dec i)) p" by (intro leaf_paths_below) simp_all
      with index_not_segment [OF ok(2)] bk' show False by blast
    qed
  qed
qed simp

text \<open>An entry of an object after a replacement, and its leaves.\<close>

lemma update_entries:
  assumes "segmented (JObj kvs)" and "(k, v) \<in> set kvs" and "\<forall>w. new \<noteq> JStr w"
  shows "(k, new) \<in> set (AList.update k new kvs)"
    and "(k', c) \<in> set (AList.update k new kvs) \<longleftrightarrow> (k' = k \<and> c = new) \<or> (k' \<noteq> k \<and> (k', c) \<in> set kvs)"
    and "is_withheld (JObj (AList.update k new kvs)) = None" and "AList.update k new kvs \<noteq> []"
proof -
  have k: "k \<in> set (keys kvs)" using assms(2) by force
  note rep = replace_map [OF segmented_keys [OF assms(1)] k, of new]
  show mem: "(k, new) \<in> set (AList.update k new kvs)" unfolding rep using assms(2) by force
  show "(k', c) \<in> set (AList.update k new kvs) \<longleftrightarrow> (k' = k \<and> c = new) \<or> (k' \<noteq> k \<and> (k', c) \<in> set kvs)"
    unfolding rep set_map image_iff using assms(2) by (auto split: if_splits intro: bexI [rotated])
  show "is_withheld (JObj (AList.update k new kvs)) = None"
    using is_withheld_container [OF mem] assms(3) by blast
  show "AList.update k new kvs \<noteq> []" using mem by auto
qed

lemma marker_no_str: "\<forall>w. marker h \<noteq> JStr w"
  by (simp add: marker_def)

lemma leaf_paths_marker [simp]: "leaf_paths (marker h) q = []"
  by (rule leaf_paths_withheld) (simp add: marker_def)

lemma subtree_not_withheld:
  assumes "subtree (k # ks) m = Some v" and "k \<noteq> withheld_key"
  shows "is_withheld (JObj m) = None"
proof (rule ccontr)
  assume "is_withheld (JObj m) \<noteq> None"
  then have "keys m = [withheld_key]" by (auto dest: is_withheld_SomeD)
  then have "subtree (k # ks) m = None"
    using assms(2) by (cases ks) (auto split: option.splits dest!: map_of_Some_key)
  with assms(1) show False by simp
qed

lemma replaced_leaves:
  assumes "segmented (JObj kvs)" and "clean ks kvs" and "list_all seg_ok ks" and "subtree ks kvs = Some v"
    and "is_withheld (JObj kvs) = None"
  shows "p \<in> set (leaf_paths (JObj (replace_at ks (marker h) kvs)) q)
    \<longleftrightarrow> p \<in> set (leaf_paths (JObj kvs) q) \<and> \<not> below (foldl join q ks) p"
  using assms
proof (induction ks kvs arbitrary: q rule: subtree.induct)
  case (2 k kvs)
  have mem: "(k, v) \<in> set kvs" using 2(4) by (simp add: map_of_SomeD)
  have ok: "seg_ok k" using 2(3) by simp
  have ne: "kvs \<noteq> []" using mem by auto
  note upd = update_entries [OF 2(1) mem marker_no_str]
  note new = leaf_paths_member [OF upd(3,4)] and old = leaf_paths_member [OF 2(5) ne]
  have at: "below (join q k) p" if "p \<in> set (leaf_paths c (join q k))" for c
    using that ok by (intro leaf_paths_below) (simp_all add: seg_ok_def join_def)
  show ?case
  proof
    assume "p \<in> set (leaf_paths (JObj (replace_at [k] (marker h) kvs)) q)"
    then obtain k' c where kc: "(k', c) \<in> set (AList.update k (marker h) kvs)" "p \<in> set (leaf_paths c (join q k'))"
      unfolding replace_at.simps new by blast
    then have k': "k' \<noteq> k" and mem': "(k', c) \<in> set kvs" unfolding upd(2) by auto
    show "p \<in> set (leaf_paths (JObj kvs) q) \<and> \<not> below (foldl join q [k]) p"
      unfolding old foldl.simps using member_leaf_key [OF 2(1,2) mem' kc(2) ok] k' mem' kc(2) by blast
  next
    assume a: "p \<in> set (leaf_paths (JObj kvs) q) \<and> \<not> below (foldl join q [k]) p"
    then obtain k' c where kc: "(k', c) \<in> set kvs" "p \<in> set (leaf_paths c (join q k'))" unfolding old by blast
    then have "k' \<noteq> k" using a at by auto
    then have "(k', c) \<in> set (AList.update k (marker h) kvs)" unfolding upd(2) using kc(1) by blast
    then show "p \<in> set (leaf_paths (JObj (replace_at [k] (marker h) kvs)) q)"
      unfolding replace_at.simps new using kc(2) by blast
  qed
next
  case (3 k k' ks kvs)
  then obtain m where m: "map_of kvs k = Some (JObj m)" and sub: "subtree (k' # ks) m = Some v"
    by (auto split: option.splits jval.splits)
  have mem: "(k, JObj m) \<in> set kvs" using m by (simp add: map_of_SomeD)
  have ok: "seg_ok k" "seg_ok k'" "list_all seg_ok (k' # ks)" using 3(4) by simp_all
  have ne: "kvs \<noteq> []" using mem by auto
  let ?new = "JObj (replace_at (k' # ks) (marker h) m)"
  have rep: "replace_at (k # k' # ks) (marker h) kvs = AList.update k ?new kvs" using m by simp
  have ns: "\<forall>w. ?new \<noteq> JStr w" by simp
  note upd = update_entries [OF 3(2) mem ns]
  note new = leaf_paths_member [OF upd(3,4)] and old = leaf_paths_member [OF 3(6) ne]
  have mnw: "is_withheld (JObj m) = None" using subtree_not_withheld [OF sub] ok(2) by (simp add: seg_ok_def)
  have seg: "segmented (JObj m)" using map_of_Some_segmented [OF 3(2) mem] by blast
  have cl: "clean (k' # ks) m" by (rule clean_member [OF 3(3) mem ok(1)])
  have IH: "p \<in> set (leaf_paths ?new (join q k))
      \<longleftrightarrow> p \<in> set (leaf_paths (JObj m) (join q k)) \<and> \<not> below (foldl join (join q k) (k' # ks)) p"
    by (rule "3.IH" [OF m refl seg cl ok(3) sub mnw])
  have up: "\<not> below (foldl join q (k # k' # ks)) p" if "\<not> below (join q k) p"
    using that foldl_join_below_first [of k q "k' # ks"] below_trans ok(1) unfolding seg_ok_def by blast
  show ?case
  proof
    assume "p \<in> set (leaf_paths (JObj (replace_at (k # k' # ks) (marker h) kvs)) q)"
    then obtain k1 c where kc: "(k1, c) \<in> set (AList.update k ?new kvs)" "p \<in> set (leaf_paths c (join q k1))"
      unfolding rep new by blast
    show "p \<in> set (leaf_paths (JObj kvs) q) \<and> \<not> below (foldl join q (k # k' # ks)) p"
    proof (cases "k1 = k")
      case True
      then have "p \<in> set (leaf_paths ?new (join q k))" using kc unfolding upd(2) by simp
      then have "p \<in> set (leaf_paths (JObj m) (join q k))" "\<not> below (foldl join q (k # k' # ks)) p"
        using IH by simp_all
      then show ?thesis unfolding old using mem by blast
    next
      case False
      then have mem': "(k1, c) \<in> set kvs" using kc(1) unfolding upd(2) by blast
      have "\<not> below (join q k) p" using member_leaf_key [OF 3(2,3) mem' kc(2) ok(1)] False by blast
      with up show ?thesis unfolding old using mem' kc(2) by blast
    qed
  next
    assume a: "p \<in> set (leaf_paths (JObj kvs) q) \<and> \<not> below (foldl join q (k # k' # ks)) p"
    then obtain k1 c where kc: "(k1, c) \<in> set kvs" "p \<in> set (leaf_paths c (join q k1))" unfolding old by blast
    show "p \<in> set (leaf_paths (JObj (replace_at (k # k' # ks) (marker h) kvs)) q)"
    proof (cases "k1 = k")
      case True
      then have "c = JObj m" using map_of_Some_segmented [OF 3(2) mem] map_of_Some_segmented [OF 3(2) kc(1)] by simp
      then have "p \<in> set (leaf_paths ?new (join q k))" using IH kc(2) True a by simp
      then show ?thesis unfolding rep new using upd(1) by blast
    next
      case False
      then have "(k1, c) \<in> set (AList.update k ?new kvs)" unfolding upd(2) using kc(1) by blast
      then show ?thesis unfolding rep new using kc(2) by blast
    qed
  qed
qed simp

lemma jobj_case: "(case c of JObj m \<Rightarrow> P m | _ \<Rightarrow> True) \<longleftrightarrow> (\<forall>m. c = JObj m \<longrightarrow> P m)"
  by (cases c) simp_all

lemma clean_Cons_iff:
  "clean (l # ls) kvs \<longleftrightarrow> (\<forall>k c. (k, c) \<in> set kvs \<longrightarrow> first_segment k = l \<longrightarrow>
     k = l \<and> (\<forall>m. c = JObj m \<longrightarrow> clean ls m))"
  unfolding clean.simps list_all_iff jobj_case by blast

lemma clean_marker: "clean ks [(withheld_key, JStr h)]"
  by (cases ks) (simp_all add: withheld_key_def first_segment_def)

lemma clean_replace:
  "segmented (JObj kvs) \<Longrightarrow> subtree ks kvs = Some v \<Longrightarrow> clean ls kvs \<Longrightarrow> clean ls (replace_at ks (marker h) kvs)"
proof (induction ks kvs arbitrary: ls rule: subtree.induct)
  case (2 k kvs)
  have mem: "(k, v) \<in> set kvs" using 2(2) by (simp add: map_of_SomeD)
  show ?case
  proof (cases ls)
    case (Cons l ls')
    then show ?thesis
      using 2(3) mem clean_marker
      unfolding Cons clean_Cons_iff replace_at.simps update_entries(2) [OF 2(1) mem marker_no_str]
      by (auto simp: marker_def)
  qed simp
next
  case (3 k k' ks kvs)
  then obtain m where m: "map_of kvs k = Some (JObj m)" and sub: "subtree (k' # ks) m = Some v"
    by (auto split: option.splits jval.splits)
  have mem: "(k, JObj m) \<in> set kvs" using m by (simp add: map_of_SomeD)
  have seg: "segmented (JObj m)" using map_of_Some_segmented [OF 3(2) mem] by blast
  let ?new = "JObj (replace_at (k' # ks) (marker h) m)"
  have rep: "replace_at (k # k' # ks) (marker h) kvs = AList.update k ?new kvs" using m by simp
  have ns: "\<forall>w. ?new \<noteq> JStr w" by simp
  show ?case
  proof (cases ls)
    case (Cons l ls')
    have "first_segment k = l \<longrightarrow> k = l \<and> clean ls' (replace_at (k' # ks) (marker h) m)"
      using 3(4) mem "3.IH" [OF m refl seg sub] unfolding Cons clean_Cons_iff by blast
    then show ?thesis
      using 3(4) unfolding Cons clean_Cons_iff rep update_entries(2) [OF 3(2) mem ns] by auto
  qed simp
qed simp

definition clean_path :: "(string \<times> jval) list \<Rightarrow> string \<Rightarrow> bool" where
  "clean_path data path = clean (split_on CHR ''.'' path) data"

lemma withhold_hides:
  assumes w: "withhold data s path = Inr (d', s')" and ok: "path_ok path" and proj: "projectable data"
    and cl: "clean_path data path"
  shows "clean_path data path' \<Longrightarrow> clean_path d' path'"
    and "p \<in> set (leaf_paths (JObj d') []) \<longleftrightarrow> p \<in> set (leaf_paths (JObj data) []) \<and> \<not> below path p"
    and "p \<in> set (leaf_paths (JObj data) []) \<Longrightarrow> map_of s' p = (if below path p then None else map_of s p)"
proof -
  let ?ks = "split_on CHR ''.'' path"
  have fj: "foldl join [] ?ks = path" using ok by (simp add: path_ok_def Let_def)
  have nw: "is_withheld (JObj data) = None" and seg: "segmented (JObj data)"
    using proj by (simp_all only: projectable_def)
  note cl' = cl [unfolded clean_path_def]
  note segs = path_ok_segs [OF ok] and ne = projectable_nonempty [OF proj]
  have absent: "\<not> below path p" if "subtree ?ks data = None" "p \<in> set (leaf_paths (JObj data) [])" for p
    using absent_leaves [OF seg cl' segs split_on_nonempty that(1) nw ne that(2)] unfolding fj .
  from withhold_steps [OF w ok proj]
  consider "subtree ?ks data = None" "d' = data" "s' = s"
    | v h where "subtree ?ks data = Some v" "d' = replace_at ?ks (marker h) data" "s' = drop_salts path s"
    by (elim disjE exE conjE) ((rule that(1); assumption) | (rule that(2); assumption))+
  note cs = this
  show "clean_path d' path'" if "clean_path data path'"
    using cs by cases (use that clean_replace [OF seg] in \<open>auto simp: clean_path_def\<close>)
  show "p \<in> set (leaf_paths (JObj d') []) \<longleftrightarrow> p \<in> set (leaf_paths (JObj data) []) \<and> \<not> below path p"
    using cs
  proof cases
    case 1
    then show ?thesis using absent [of p] by blast
  next
    case (2 v h)
    from replaced_leaves [OF seg cl' segs 2(1) nw, of p h "[]"]
    show ?thesis unfolding fj 2(2) .
  qed
  show "map_of s' p = (if below path p then None else map_of s p)" if "p \<in> set (leaf_paths (JObj data) [])"
    using cs
  proof cases
    case 1
    then show ?thesis using absent [of p] that by presburger
  qed (simp add: drop_salts_lookup)
qed

lemma withhold_mono: "withhold data s path = Inr (d', s') \<Longrightarrow> map_of s' p = Some x \<Longrightarrow> map_of s p = Some x"
  by (auto simp: withhold_def res_simps drop_salts_lookup split: option.splits if_splits)

lemma withhold_all_mono: "withhold_all paths data s = Inr (d', s') \<Longrightarrow> map_of s' p = Some x \<Longrightarrow> map_of s p = Some x"
  by (induction paths arbitrary: data s) (auto simp: res_simps dest: withhold_mono)

text \<open>
  The leaves of the data of a copy are the leaves of the pack outside the profile's paths; these
  keep their salts and the others lose them.
\<close>

lemma withhold_all_hides:
  "list_all path_ok paths \<Longrightarrow> projectable data \<Longrightarrow> list_all (clean_path data) paths \<Longrightarrow>
     withhold_all paths data s = Inr (d', s') \<Longrightarrow>
     (\<forall>p. p \<in> set (leaf_paths (JObj d') []) \<longleftrightarrow>
        p \<in> set (leaf_paths (JObj data) []) \<and> \<not> list_ex (\<lambda>path. below path p) paths)
     \<and> (\<forall>p\<in>set (leaf_paths (JObj data) []).
          map_of s' p = (if list_ex (\<lambda>path. below path p) paths then None else map_of s p))"
proof (induction paths arbitrary: data s)
  case (Cons path paths)
  obtain d1 s1 where w: "withhold data s path = Inr (d1, s1)" and ws: "withhold_all paths d1 s1 = Inr (d', s')"
    using Cons.prems(4) by (auto simp: res_simps)
  have ok: "path_ok path" "list_all path_ok paths" using Cons.prems(1) by simp_all
  have cl: "clean_path data path" "list_all (clean_path data) paths" using Cons.prems(3) by simp_all
  note hide = withhold_hides [OF w ok(1) Cons.prems(2) cl(1)]
  have "list_all (clean_path d1) paths" using cl(2) hide(1) by (auto simp: list_all_iff)
  note IH = Cons.IH [OF ok(2) withhold_projectable [OF w ok(1) Cons.prems(2)] this ws]
  have mono: "map_of s' p = None" if "map_of s1 p = None" for p
    using withhold_all_mono [OF ws] that by (cases "map_of s' p") auto
  show ?case
  proof (intro conjI allI ballI)
    fix p
    show "p \<in> set (leaf_paths (JObj d') []) \<longleftrightarrow>
        p \<in> set (leaf_paths (JObj data) []) \<and> \<not> list_ex (\<lambda>path. below path p) (path # paths)"
      using IH hide(2) by simp
    assume p: "p \<in> set (leaf_paths (JObj data) [])"
    show "map_of s' p = (if list_ex (\<lambda>path. below path p) (path # paths) then None else map_of s p)"
      using IH hide(2) [of p] hide(3) [OF p] p mono by (cases "below path p") simp_all
  qed
qed simp

section \<open>Issued copies verify\<close>

text \<open>Hashing a value hashes every subtree and renders every leaf.\<close>

lemma seq_res_member: "seq_res (map f xs) = Inr ys \<Longrightarrow> x \<in> set xs \<Longrightarrow> \<exists>y. f x = Inr y"
  unfolding seq_res_Inr_iff by (metis (no_types, lifting) image_iff list.set_map)

lemma node_renderable: "node v s q = Inr h \<Longrightarrow> renderable v"
proof (induction v q arbitrary: h rule: tree_induct)
  case (withheld v path w)
  then show ?case by (auto dest!: is_withheld_SomeD)
next
  case (leaf v path)
  then show ?case
    by (auto simp: node_leaf leaf_def res_simps split: option.splits intro: canon_renderable)
next
  case (obj kvs path)
  obtain m where m: "seq_res (map (\<lambda>(k, c). map_res (\<lambda>h. (k, JStr h)) (node c s (join path k))) kvs) = Inr m"
    using obj(4) by (auto simp: node_obj [OF obj(1,2)] res_simps)
  have "\<exists>h. node c s (join path k) = Inr h" if "(k, c) \<in> set kvs" for k c
    using seq_res_member [OF m that] by (auto simp: res_simps)
  then show ?case using obj(3) by (fastforce simp: list_all_iff)
next
  case (list xs path)
  obtain m where m: "seq_res (map (\<lambda>(i, c). map_res JStr (node c s (join path (nat_dec i)))) (indexed xs)) = Inr m"
    using list(3) by (auto simp: node_list [OF list(1)] res_simps)
  have ok: "\<exists>h. node c s (join path (nat_dec i)) = Inr h" if "(i, c) \<in> set (indexed xs)" for i c
    using seq_res_member [OF m that] by (auto simp: res_simps)
  have "renderable c" if mem: "c \<in> set xs" for c
  proof -
    obtain i where "i < length xs" and "xs ! i = c" using mem unfolding in_set_conv_nth by blast
    then have "(i, c) \<in> set (indexed xs)" by (simp add: indexed_def in_set_enumerate_eq)
    then show ?thesis using ok list(2) by blast
  qed
  then show ?case by (simp add: list_all_iff)
qed

lemma node_member:
  assumes "node (JObj kvs) s q = Inr h" and "is_withheld (JObj kvs) = None" and "(k, c) \<in> set kvs"
  shows "\<exists>h. node c s (join q k) = Inr h"
proof -
  have ne: "kvs \<noteq> []" using assms(3) by auto
  obtain m where m: "seq_res (map (\<lambda>(k, c). map_res (\<lambda>h. (k, JStr h)) (node c s (join q k))) kvs) = Inr m"
    using assms(1) by (auto simp: node_obj [OF ne assms(2)] res_simps)
  show ?thesis using seq_res_member [OF m assms(3)] by (auto simp: res_simps)
qed

lemma node_subtree:
  assumes "node (JObj kvs) s q = Inr h" and "is_withheld (JObj kvs) = None"
    and "subtree ks kvs = Some v" and "withheld_key \<notin> set ks"
  shows "\<exists>h. node v s (foldl join q ks) = Inr h"
  using assms
proof (induction ks kvs arbitrary: q h rule: subtree.induct)
  case (2 k kvs)
  then show ?case using node_member [OF 2(1,2)] by (auto dest: map_of_SomeD)
next
  case (3 k k' ks kvs)
  then obtain m where m: "map_of kvs k = Some (JObj m)" and sub: "subtree (k' # ks) m = Some v"
    by (auto split: option.splits jval.splits)
  obtain h' where h': "node (JObj m) s (join q k) = Inr h'"
    using node_member [OF 3(2,3) map_of_SomeD [OF m]] by blast
  have "is_withheld (JObj m) = None"
  proof (rule ccontr)
    assume "is_withheld (JObj m) \<noteq> None"
    then have "keys m = [withheld_key]" by (auto dest: is_withheld_SomeD)
    then have "subtree (k' # ks) m = None"
      using 3(5) by (cases ks) (auto split: option.splits dest!: map_of_Some_key)
    with sub show False by simp
  qed
  then show ?case using "3.IH" [OF m refl h' _ sub] 3(5) by simp
qed simp

lemma withhold_total:
  assumes "path_ok path" and "projectable data" and "MasterRoot data s = Inr m"
  shows "\<exists>d' s'. withhold data s path = Inr (d', s')"
proof (cases "subtree (split_on CHR ''.'' path) data")
  case None
  then show ?thesis by (simp add: withhold_def)
next
  case (Some v)
  have "foldl join [] (split_on CHR ''.'' path) = path" "withheld_key \<notin> set (split_on CHR ''.'' path)"
    using assms(1) by (auto simp: path_ok_def Let_def list_all_iff)
  moreover have "is_withheld (JObj data) = None" using assms(2) by (simp only: projectable_def)
  ultimately obtain h where "node v s path = Inr h"
    using node_subtree [OF _ _ Some] assms(3) unfolding MasterRoot_def NodeHash_def by metis
  then show ?thesis using Some by (simp add: withhold_def NodeHash_def)
qed

lemma withhold_all_total:
  "list_all path_ok paths \<Longrightarrow> projectable data \<Longrightarrow> MasterRoot data s = Inr m \<Longrightarrow>
     \<exists>d' s'. withhold_all paths data s = Inr (d', s')"
proof (induction paths arbitrary: data s)
  case (Cons path paths)
  have ok: "path_ok path" "list_all path_ok paths" using Cons.prems(1) by simp_all
  obtain d1 s1 where w: "withhold data s path = Inr (d1, s1)"
    using withhold_total [OF ok(1) Cons.prems(2,3)] by blast
  then show ?case
    using Cons.IH [OF ok(2) withhold_projectable [OF w ok(1) Cons.prems(2)], of s1]
      withhold_roots [OF w ok(1) Cons.prems(2)] Cons.prems(3) by simp
qed simp

lemma py_evidence_ok:
  assumes "markers_ok (JObj data)" and "plain_ints (JObj data)" and ev: "EvidenceRoot data s = Inr h"
    and k: "list_all (\<lambda>k. map_of data k \<noteq> None) EvidenceKeys"
  shows "py_evidence fl data (str_salts s) = Some (JStr h)"
proof -
  let ?f = "\<lambda>k. map_res (\<lambda>h. (k, JStr h)) (node (lookup_any data k) s k)"
  obtain m where m: "seq_res (map ?f EvidenceKeys) = Inr m" and h: "map_res SHA (map_err TreeCanon (canon (JObj m))) = Inr h"
    using ev by (cases "seq_res (map ?f EvidenceKeys)") (auto simp: EvidenceRoot_def)
  have ok: "\<forall>r\<in>set (map ?f EvidenceKeys). is_ok r" using m by (intro iffD1 [OF seq_res_ok_iff]) simp
  have "Option.bind (map_of data k) (\<lambda>x. map_option (Pair k) (py_node fl x (str_salts s) k)) = res_opt (?f k)" if k': "k \<in> set EvidenceKeys" for k
  proof -
    obtain v where v: "map_of data k = Some v" using k k' unfolding list_all_iff by blast
    have "markers_ok v" using assms(1) map_of_SomeD [OF v] unfolding markers_alt [of data] list_all_iff by blast
    moreover have "plain_ints v" using assms(2) map_of_SomeD [OF v] by (auto simp: list_all_iff)
    moreover have "is_ok (?f k)" using ok k' unfolding list.set_map by blast
    then obtain h' where "node v s k = Inr h'" by (auto simp: is_ok_iff lookup_any_def v res_simps)
    ultimately show ?thesis using py_node_ok by (simp add: v lookup_any_def)
  qed
  then have t: "those (map (\<lambda>k. Option.bind (map_of data k) (\<lambda>x. map_option (Pair k) (py_node fl x (str_salts s) k))) EvidenceKeys)
      = res_opt (seq_res (map ?f EvidenceKeys))"
    by (rule those_res_opt)
  have "\<exists>h. snd y = JStr h" if "y \<in> set m" for y by (rule seq_res_map_all [OF m _ that]) (auto simp: res_simps)
  then have "py_sha fl (JObj m) = ok_hash (Inr h :: (tree_err, string) res)"
    unfolding h [symmetric] by (intro py_sha_obj) (auto simp: list_all_iff)
  then show ?thesis by (simp add: py_evidence_def t m ok_hash_def)
qed

lemma check_copy_body:
  assumes "canon (JObj (copy_body p r now data s)) = Inr b" and "projectable data"
    and "MasterRoot data s = Inr (PMasterRoot p)" and "EvidenceRoot data s = Inr (PEvidenceRoot p)" and pi: "plain_ints (JObj data)"
  shows "check_copy fl (copy_body p r now data s @ [(''integrity'', JObj (integrity_block p (SHA b)))])
    = Some (True, True, True)"
proof -
  let ?copy = "copy_body p r now data s @ [(''integrity'', JObj (integrity_block p (SHA b)))]"
  have f: "filter (\<lambda>(k, _). k \<noteq> ''integrity'') ?copy = copy_body p r now data s"
    by (simp add: copy_body_def)
  have l: "map_of ?copy ''integrity'' = Some (JObj (integrity_block p (SHA b)))"
    "map_of (copy_body p r now data s) ''data'' = Some (JObj data)"
    "map_of (copy_body p r now data s) ''salts'' = Some (JObj (str_salts s))"
    by (simp_all add: copy_body_def toAny_def str_salts_def)
  have mk: "markers_ok (JObj data)" "list_all (\<lambda>k. map_of data k \<noteq> None) EvidenceKeys"
    using assms(2) by (simp_all only: projectable_def)
  have "plain_ints (JObj (copy_body p r now data s))" using pi by (auto simp: copy_body_def toAny_def list_all_iff)
  from py_json_ok [OF this assms(1)] have "py_sha fl (JObj (copy_body p r now data s)) = Some (JStr (SHA b))"
    by (simp add: py_sha_def)
  moreover have "py_node fl (JObj data) (str_salts s) [] = Some (JStr (PMasterRoot p))"
    using assms(3) by (intro py_node_ok [OF mk(1) pi]) (simp add: MasterRoot_def NodeHash_def)
  moreover have "py_evidence fl data (str_salts s) = Some (JStr (PEvidenceRoot p))"
    by (rule py_evidence_ok [OF mk(1) pi assms(4) mk(2)])
  moreover have "map_of (integrity_block p (SHA b)) ''projection_hash'' = Some (JStr (SHA b))"
    "map_of (integrity_block p (SHA b)) ''master_root'' = Some (JStr (PMasterRoot p))"
    "map_of (integrity_block p (SHA b)) ''evidence_root'' = Some (JStr (PEvidenceRoot p))"
    by (simp_all add: integrity_block_def)
  ultimately show ?thesis
    unfolding check_copy_def Let_def f l by simp
qed

text \<open>A pack whose stated roots are those of its data.\<close>

definition pack_sound :: "pack \<Rightarrow> bool" where
  "pack_sound p \<longleftrightarrow> projectable (Data p) \<and> plain_ints (JObj (Data p)) \<and> MasterRoot (Data p) (Salts p) = Inr (PMasterRoot p)
     \<and> EvidenceRoot (Data p) (Salts p) = Inr (PEvidenceRoot p)"

lemma Project_parts:
  assumes "Project p r now = Inr copy"
  obtains paths data s b where "map_of Profiles (Profile r) = Some paths"
    and "withhold_all paths (Data p) (Salts p) = Inr (data, s)"
    and "canon (JObj (copy_body p r now data s)) = Inr b"
    and "copy = copy_body p r now data s @ [(''integrity'', JObj (integrity_block p (SHA b)))]"
  using assms unfolding Project_def deepCopy_id
  by (auto simp: Let_def res_simps split: option.splits if_splits prod.splits)

lemma update_ints: "plain_ints (JObj kvs) \<Longrightarrow> plain_ints v \<Longrightarrow> plain_ints (JObj (AList.update k v kvs))"
  by (induction kvs) auto

lemma replace_at_ints: "plain_ints (JObj kvs) \<Longrightarrow> plain_ints new \<Longrightarrow> plain_ints (JObj (replace_at ks new kvs))"
proof (induction ks new kvs rule: replace_at.induct)
  case (3 k k' ks new kvs)
  have sub: "plain_ints (JObj m)" if "map_of kvs k = Some (JObj m)" for m
    using 3(2) map_of_SomeD [OF that] by (fastforce simp: list_all_iff)
  show ?case
  proof (cases "\<exists>m. map_of kvs k = Some (JObj m)")
    case True
    then obtain m where m: "map_of kvs k = Some (JObj m)" by blast
    then have "plain_ints (JObj (replace_at (k' # ks) new m))" using 3(1) [OF m refl] 3(3) sub by blast
    from update_ints [OF 3(2) this] show ?thesis by (simp add: m)
  next
    case False
    then show ?thesis using 3(2) by (auto split: option.splits jval.splits)
  qed
qed (use update_ints in simp_all)

lemma withhold_ints: "withhold data s path = Inr (d', s') \<Longrightarrow> plain_ints (JObj data) \<Longrightarrow> plain_ints (JObj d')"
  using replace_at_ints [of data "marker h" "split_on CHR ''.'' path" for h]
  by (auto simp: withhold_def res_simps marker_def split: option.splits)

lemma withhold_all_ints: "withhold_all paths data s = Inr (d', s') \<Longrightarrow> plain_ints (JObj data) \<Longrightarrow> plain_ints (JObj d')"
proof (induction paths arbitrary: data s)
  case (Cons path paths)
  then obtain d1 s1 where "withhold data s path = Inr (d1, s1)" "withhold_all paths d1 s1 = Inr (d', s')" by (auto simp: res_simps)
  then show ?case using Cons.IH withhold_ints Cons.prems(2) by blast
qed simp

lemma copy_verifies:
  assumes "pack_sound p" and "Project p r now = Inr copy"
  shows "check_copy fl copy = Some (True, True, True)"
  using assms(2)
proof (rule Project_parts)
  fix paths data s b
  assume a: "map_of Profiles (Profile r) = Some paths" "withhold_all paths (Data p) (Salts p) = Inr (data, s)"
    "canon (JObj (copy_body p r now data s)) = Inr b"
    "copy = copy_body p r now data s @ [(''integrity'', JObj (integrity_block p (SHA b)))]"
  have "projectable (Data p)" using assms(1) by (simp only: pack_sound_def)
  from withhold_all_roots [OF profile_paths_ok [OF a(1)] this a(2)]
  have r: "projectable data" "MasterRoot data s = Inr (PMasterRoot p)" "EvidenceRoot data s = Inr (PEvidenceRoot p)"
    using assms(1) by (simp_all add: pack_sound_def)
  have "plain_ints (JObj data)" using withhold_all_ints [OF a(2)] assms(1) by (simp add: pack_sound_def)
  then show ?thesis unfolding a(4) by (rule check_copy_body [OF a(3) r])
qed

lemma Project_total:
  assumes "pack_sound p" and "map_of Profiles (Profile r) \<noteq> None"
    and "\<not> blank (PreparedFor r)" and "\<not> blank (Purpose r)"
  shows "\<exists>copy. Project p r now = Inr copy"
proof -
  obtain paths where p: "map_of Profiles (Profile r) = Some paths" using assms(2) by auto
  have pr: "projectable (Data p)" and m: "MasterRoot (Data p) (Salts p) = Inr (PMasterRoot p)"
    using assms(1) by (simp_all only: pack_sound_def)
  obtain d s where w: "withhold_all paths (Data p) (Salts p) = Inr (d, s)"
    using withhold_all_total [OF profile_paths_ok [OF p] pr m] by blast
  have "MasterRoot d s = Inr (PMasterRoot p)"
    using withhold_all_roots [OF profile_paths_ok [OF p] pr w] m by simp
  then have "renderable (JObj d)" using node_renderable by (simp only: MasterRoot_def NodeHash_def)
  then have "renderable (JObj (copy_body p r now d s))"
    by (auto simp: copy_body_def toAny_def list_all_iff)
  then obtain b where "canon (JObj (copy_body p r now d s)) = Inr b" using canon_renders by blast
  then show ?thesis using p w assms(3,4) by (simp add: Project_def deepCopy_id Let_def)
qed

text \<open>Packs built from plainly named sections are sound.\<close>

definition tree_ok :: "jval \<Rightarrow> bool" where
  "tree_ok v \<longleftrightarrow> segmented v \<and> markers_ok v \<and> plain_ints v"

lemma tree_ok_obj:
  "tree_ok (JObj kvs) \<longleftrightarrow> distinct (map first_segment (keys kvs))
     \<and> (marker_like kvs \<longrightarrow> (\<exists>w. kvs = [(withheld_key, JStr w)]))
     \<and> list_all (\<lambda>(k, v). k \<noteq> [] \<and> tree_ok v) kvs"
  unfolding tree_ok_def segmented_alt markers_alt plain_ints.simps list_all_iff by fastforce

lemma tree_ok_simps [simp]:
  "tree_ok (JList xs) \<longleftrightarrow> list_all tree_ok xs" "tree_ok JNull" "tree_ok (JBool b)"
  "tree_ok (JNumber s) \<longleftrightarrow> plain_int s" "tree_ok (JStr s)" "tree_ok (JInt w)" "tree_ok (JInt64 w)"
  "tree_ok (JUint64 w)" "tree_ok (JStrList ss)"
  by (auto simp: tree_ok_def list_all_iff)

lemma sorted_entries:
  "set (sort_key fst (map (\<lambda>(k, v). (k, f v)) kvs)) = (\<lambda>(k, v). (k, f v)) ` set kvs"
  "distinct (map g (keys kvs)) \<Longrightarrow> distinct (map g (keys (sort_key fst (map (\<lambda>(k, v). (k, f v)) kvs))))"
proof -
  assume d: "distinct (map g (keys kvs))"
  have "mset (map g (keys (sort_key fst (map (\<lambda>(k, v). (k, f v)) kvs)))) = mset (map g (keys (map (\<lambda>(k, v). (k, f v)) kvs)))"
    by (simp only: mset_map mset_sort)
  then show "distinct (map g (keys (sort_key fst (map (\<lambda>(k, v). (k, f v)) kvs))))"
    using d mset_eq_imp_distinct_iff unfolding keys_map_snd by blast
qed simp

lemma plain_int_digits: "list_all is_digit s \<Longrightarrow> length s \<le> 4300 \<Longrightarrow> plain_int s"
  using le_trans [OF length_filter_le [of is_digit s]] by (auto simp: plain_int_def is_digit_def)

lemma plain_int_dec: "n < 10 ^ 20 \<Longrightarrow> plain_int (nat_dec n)" "\<bar>i\<bar> < 10 ^ 20 \<Longrightarrow> plain_int (int_dec i)"
proof -
  have d: "list_all is_digit (nat_dec n)" for n using nat_dec_digits by (simp add: list_all_iff)
  have p: "length (nat_dec n) \<le> 20" if "n < 10 ^ 20" for n :: nat using length_nat_dec [OF that] by simp
  show n: "plain_int (nat_dec n)" if "n < 10 ^ 20" for n :: nat
    using p [OF that] by (intro plain_int_digits d) simp
  show "plain_int (int_dec i)" if i: "\<bar>i\<bar> < 10 ^ 20"
  proof (cases "i < 0")
    case True
    have "nat (- i) < 10 ^ 20" using i by simp
    from p [OF this] have "length (filter is_digit (nat_dec (nat (- i)))) \<le> 4300"
      by (intro le_trans [OF length_filter_le]) simp
    moreover have "nat_dec (nat (- i)) \<noteq> ''0''"
    proof
      assume "nat_dec (nat (- i)) = ''0''"
      then have "dec_nat (nat_dec (nat (- i))) = dec_nat ''0''" by (rule arg_cong)
      moreover have "dec_nat ''0'' = 0" by (simp add: dec_nat_def digit_val_def)
      ultimately show False using True by (simp only: dec_nat_nat_dec)
    qed
    ultimately show ?thesis using True by (simp add: int_dec_def plain_int_def is_digit_def)
  next
    case False
    then show ?thesis using n [of "nat i"] i by (simp add: int_dec_def)
  qed
qed

lemma plain_int_word [simp]: "plain_int (int_dec (sint (w :: 64 word)))" "plain_int (nat_dec (unat (w :: 64 word)))"
proof -
  have "- (2 ^ 63) \<le> sint w" "sint w < 2 ^ 63" using sint_ge [of w] sint_lt [of w] by simp_all
  then show "plain_int (int_dec (sint w))" by (intro plain_int_dec) simp
  have "unat w < 2 ^ 64" using unsigned_less [of w] by simp
  then show "plain_int (nat_dec (unat w))" by (intro plain_int_dec) simp
qed

lemma normal_tree_ok: "tree_ok v \<Longrightarrow> tree_ok (normal v)"
proof (induction v)
  case (JObj kvs)
  let ?n = "sort_key fst (map (\<lambda>(k, v). (k, normal v)) kvs)"
  have p: "distinct (map first_segment (keys kvs))" "marker_like kvs \<longrightarrow> (\<exists>w. kvs = [(withheld_key, JStr w)])"
    "list_all (\<lambda>(k, v). k \<noteq> [] \<and> tree_ok v) kvs"
    using JObj.prems unfolding tree_ok_obj by blast+
  have "list_all (\<lambda>(k, v). k \<noteq> [] \<and> tree_ok v) ?n"
    using p(3) JObj.IH unfolding list_all_iff sorted_entries(1) by fastforce
  moreover have "\<exists>w. ?n = [(withheld_key, JStr w)]" if m: "marker_like ?n"
  proof -
    from m have "length (keys ?n) = length [withheld_key]" by (simp only: marker_like_def)
    then have "length kvs = 1" by simp
    then obtain k v where kv: "kvs = [(k, v)]" by (cases kvs) auto
    then have "k = withheld_key" using m by (simp add: marker_like_def)
    then have "marker_like kvs" by (simp add: marker_like_def kv)
    then show ?thesis using p(2) kv by auto
  qed
  ultimately show ?case
    unfolding normal.simps tree_ok_obj using sorted_entries(2) [OF p(1)] by blast
qed (auto simp: list_all_iff)

lemma normalize_tree_ok:
  assumes "wf_json (JObj m)" and "tree_ok (JObj m)" and "normalize m = Inr m'"
  shows "tree_ok (JObj m')"
proof -
  have "JObj m' = normal (JObj m)" using assms(1,3) by (simp add: normalize_ok)
  then show ?thesis using normal_tree_ok [OF assms(2)] by simp
qed

lemma NewSnapshot_data: "NewSnapshot fresh m = Inr snap \<Longrightarrow> normalize m = Inr (snap_data snap)"
  by (auto simp: NewSnapshot_def Let_def res_simps split: option.splits if_splits)

lemma pack_data_tree_ok:
  assumes "snapshot_ok snap" and "tree_ok (JObj (snap_data snap))" and "tree_ok (JObj rest)" and "plain_keys rest"
  shows "tree_ok (JObj (pack_data snap version rest))"
proof -
  let ?d = "pack_data snap version rest"
  have wf: "wf_map rest" using assms(3) segmented_keys by (simp only: tree_ok_def)
  have dk: "distinct (keys ?d)" using pack_data_wf [OF wf] by (simp only: wf_map_def)
  have pk: "plain_keys ?d" using assms(1,4) by (rule pack_data_plain)
  then have "map first_segment (keys ?d) = keys ?d"
    unfolding plain_keys_def by (intro map_idI first_segment_nodot) blast
  then have "distinct (map first_segment (keys ?d))" using dk by (simp only:)
  moreover have "k \<noteq> [] \<and> tree_ok v" if kv: "(k, v) \<in> set ?d" for k v
  proof -
    have "k \<in> set (keys ?d)" using kv by force
    then have "k \<noteq> []" using pk unfolding plain_keys_def by blast
    have m: "map_of ?d k = Some v" using dk kv by simp
    then have "v = JStr SchemaVersion \<or> v = JStr (int_dec version) \<or> (k, v) \<in> set (snap_data snap) \<or> (k, v) \<in> set rest"
      unfolding pack_data_lookup by (auto split: if_splits option.splits dest: map_of_SomeD)
    then have "tree_ok v"
    proof (elim disjE)
      assume "(k, v) \<in> set (snap_data snap)"
      then show ?thesis using assms(2) unfolding tree_ok_obj list_all_iff by blast
    next
      assume "(k, v) \<in> set rest"
      then show ?thesis using assms(3) unfolding tree_ok_obj list_all_iff by blast
    qed simp_all
    with \<open>k \<noteq> []\<close> show ?thesis by simp
  qed
  moreover have "\<not> marker_like ?d"
  proof
    assume "marker_like ?d"
    then have "set (keys ?d) = {withheld_key}" by (simp only: marker_like_def list.set)
    moreover have "''pack_version'' \<in> set (keys ?d)" unfolding pack_data_keys by simp
    ultimately have "''pack_version'' \<in> {withheld_key}" by blast
    then show False by (simp add: withheld_key_def)
  qed
  ultimately show ?thesis unfolding tree_ok_obj list_all_iff by blast
qed

lemma built_pack_sound:
  assumes "snapshot_ok snap" and "tree_ok (JObj (snap_data snap))" and "wf_json (JObj rest)"
    and "tree_ok (JObj rest)" and "plain_keys rest"
    and "BuildPack fresh snap version rest prev prevHash signer = Inr p"
  shows "pack_sound p"
proof -
  obtain r where r: "normalize rest = Inr r" "Data p = pack_data snap version r"
    and roots: "MasterRoot (Data p) (Salts p) = Inr (PMasterRoot p)"
      "EvidenceRoot (Data p) (Salts p) = Inr (PEvidenceRoot p)"
    using BuildPack_parts [OF assms(6)] by metis
  have pk: "plain_keys r" using assms(5) unfolding plain_keys_def normalize_keys(1) [OF assms(3) r(1)] .
  have pt: "tree_ok (JObj (Data p))"
    unfolding r(2) using assms(1,2) normalize_tree_ok [OF assms(3,4) r(1)] pk by (rule pack_data_tree_ok)
  have "map_of (Data p) k \<noteq> None" if "k \<in> set EvidenceKeys" for k
  proof -
    have "k \<in> set (keys (snap_data snap))" using assms(1) that by (simp only: snapshot_ok_def)
    then show ?thesis unfolding keys_iff [symmetric] r(2) pack_data_keys by blast
  qed
  then have "projectable (Data p)" "plain_ints (JObj (Data p))"
    using pt pack_data_not_withheld [OF normalize_wf [OF r(1)]]
    unfolding projectable_def list_all_iff r(2) tree_ok_def by blast+
  then show ?thesis using roots by (simp only: pack_sound_def)
qed

section \<open>Properties\<close>



text \<open>C21 A copy discloses exactly the leaves outside its profile's paths, with exactly their salts: the
  leaves under a withheld path are gone from the data and their salts from the salt map, so that the
  hashes standing for them cannot be searched.\<close>

theorem copy_discloses_outside_profile:
  assumes "map_of Profiles pr = Some paths" and "projectable data" and "list_all (clean_path data) paths"
    and "withhold_all paths data s = Inr (d', s')"
  shows "(p \<in> set (leaf_paths (JObj d') []) \<longleftrightarrow>
      p \<in> set (leaf_paths (JObj data) []) \<and> \<not> list_ex (\<lambda>path. below path p) paths)
    \<and> (p \<in> set (leaf_paths (JObj data) []) \<longrightarrow>
      map_of s' p = (if list_ex (\<lambda>path. below path p) paths then None else map_of s p))"
  using withhold_all_hides [OF profile_paths_ok [OF assms(1)] assms(2,3,4)] by blast

text \<open>The sample: the ten sections, with the originator of the travel rule filled in.\<close>

definition sample_data :: "(string \<times> jval) list" where
  "sample_data = map (\<lambda>k. (k, if k = ''travel_rule'' then JObj [(''originator'', JStr ''Jane''), (''note'', JNull)] else JNull)) EvidenceKeys"

lemma sample_data_projectable: "projectable sample_data"
  by (simp add: projectable_def sample_data_def EvidenceKeys_def withheld_key_def first_segment_def)

theorem copy_discloses_outside_profile_witness:
  "\<exists>s d' s'. map_of s ''travel_rule.originator'' = Some ''00''
     \<and> withhold_all [''travel_rule.originator'', ''travel_rule.beneficiary''] sample_data s = Inr (d', s')
     \<and> ''travel_rule.originator'' \<notin> set (leaf_paths (JObj d') []) \<and> map_of s' ''travel_rule.originator'' = None"
proof -
  let ?paths = "[''travel_rule.originator'', ''travel_rule.beneficiary'']"
  let ?L = "leaf_paths (JObj sample_data) []"
  let ?s = "map (\<lambda>p. (p, ''00'')) ?L"
  have pr: "map_of Profiles ''AUDITOR'' = Some ?paths" by (simp add: Profiles_def)
  have cl: "list_all (clean_path sample_data) ?paths"
    by (simp add: clean_path_def sample_data_def EvidenceKeys_def first_segment_def)
  have ne: "sample_data \<noteq> []" "is_withheld (JObj sample_data) = None"
    using sample_data_projectable projectable_nonempty by (auto simp: projectable_def)
  have o1: "''travel_rule.originator'' \<in> set (leaf_paths (JObj [(''originator'', JStr ''Jane''), (''note'', JNull)]) ''travel_rule'')"
    by (rule leaf_paths_objI [of "''originator''" "JStr ''Jane''"]) (simp_all add: leaf_paths_leaf is_leaf_def join_def)
  have leaf: "''travel_rule.originator'' \<in> set ?L"
    by (rule leaf_paths_objI [OF _ ne(2), of "''travel_rule''" "JObj [(''originator'', JStr ''Jane''), (''note'', JNull)]"])
      (use o1 in \<open>simp_all add: sample_data_def EvidenceKeys_def join_def\<close>)
  have s00: "map_of ?s p = Some ''00''" if "p \<in> set ?L" for p
    using that by (simp add: map_of_map_restrict restrict_map_def)
  have "salt_ok ?s p" if "(k, v) \<in> set sample_data" "p \<in> set (leaf_paths v k)" for k v p
  proof -
    have "p \<in> set ?L" by (rule leaf_paths_objI [OF that(1) ne(2)]) (use that(2) in \<open>simp add: join_def\<close>)
    then show ?thesis using s00 by (simp add: salt_ok_def hex_val_def)
  qed
  moreover have "renderable (JObj sample_data)" by (simp add: sample_data_def EvidenceKeys_def)
  ultimately obtain root where m: "MasterRoot sample_data ?s = Inr root" using MasterRoot_total ne by blast
  obtain d' s' where w: "withhold_all ?paths sample_data ?s = Inr (d', s')"
    using withhold_all_total [OF profile_paths_ok [OF pr] sample_data_projectable m] by blast
  from copy_discloses_outside_profile [OF pr sample_data_projectable cl w, of "''travel_rule.originator''"] leaf w s00
  show ?thesis by (intro exI [of _ ?s] exI [of _ d'] exI [of _ s']) (simp add: below_def)
qed

text \<open>The copies that would disclose a freeze or a sanctions match are refused: after a FREEZE
  decision, and after a true sanctions match, no off-ramp or bank copy is issued.\<close>

theorem tipping_off_refused:
  "section_field (Data p) ''decision'' ''decision'' = JStr ''FREEZE''
     \<or> section_field (Data p) ''sanctions'' ''result'' = JStr ''TRUE_MATCH''
   \<longleftrightarrow> map_of (RefusedProfiles p) ''OFF_RAMP'' \<noteq> None"
  by (auto simp: RefusedProfiles_def)

end
