(* ===== verification/GoRat.thy ===== *)
theory GoRat
  imports Projection Complex_Main
begin

text \<open>
  The part of Go's \<open>math/big\<close> the services use: \<open>Int.SetString\<close> in base 10,
  \<open>Rat.SetString\<close> (fractions, base prefixes, underscores, decimal and binary exponents and the
  limits on their size, as in the standard library) and \<open>Rat.FloatString\<close>.

  The lemmas: rounding of \<open>FloatString\<close> to the nearest multiple, half away from zero, and that
  \<open>SetString\<close> reads back exactly what \<open>FloatString\<close> printed.
\<close>

section \<open>Scanning\<close>

definition digit36 :: "char \<Rightarrow> nat" where
  "digit36 c = (let n = of_char c :: nat in
     if 48 \<le> n \<and> n \<le> 57 then n - 48
     else if 97 \<le> n \<and> n \<le> 122 then n - 87
     else if 65 \<le> n \<and> n \<le> 90 then n - 55
     else 99)"

datatype prev_char = PDot | PDigit | PSep

record scan_state =
  sc_prev :: prev_char
  sc_bad :: bool
  sc_val :: nat
  sc_count :: nat
  sc_dot :: "nat option"

fun scan_loop :: "nat \<Rightarrow> bool \<Rightarrow> scan_state \<Rightarrow> string \<Rightarrow> scan_state \<times> string" where
  "scan_loop b fok st [] = (st, [])"
| "scan_loop b fok st (c # cs) =
     (if c = CHR ''.'' \<and> fok
      then scan_loop b False (st\<lparr>sc_bad := sc_bad st \<or> sc_prev st = PSep, sc_prev := PDot, sc_dot := Some (sc_count st)\<rparr>) cs
      else if c = CHR ''_''
      then scan_loop b fok (st\<lparr>sc_bad := sc_bad st \<or> sc_prev st \<noteq> PDigit, sc_prev := PSep\<rparr>) cs
      else if b \<le> digit36 c then (st, c # cs)
      else scan_loop b fok (st\<lparr>sc_prev := PDigit, sc_val := sc_val st * b + digit36 c, sc_count := Suc (sc_count st)\<rparr>) cs)"

definition scan_init :: "prev_char \<Rightarrow> nat \<Rightarrow> scan_state" where
  "scan_init p n = \<lparr> sc_prev = p, sc_bad = False, sc_val = 0, sc_count = n, sc_dot = None \<rparr>"

text \<open>Value, base, digit count (minus the number of fractional digits after a point) and the rest.\<close>

definition scan_finish :: "nat \<Rightarrow> bool \<Rightarrow> scan_state \<times> string \<Rightarrow> (nat \<times> nat \<times> int \<times> string) option" where
  "scan_finish b octal0 r = (case r of (st, rest) \<Rightarrow>
     if sc_bad st \<or> sc_prev st = PSep then None
     else if sc_count st = 0 then (if octal0 then Some (0, 10, 1, rest) else None)
     else Some (sc_val st, b, (case sc_dot st of None \<Rightarrow> int (sc_count st) | Some d \<Rightarrow> int d - int (sc_count st)), rest))"

definition nat_scan :: "bool \<Rightarrow> string \<Rightarrow> (nat \<times> nat \<times> int \<times> string) option" where
  "nat_scan fok s = (case s of
     [] \<Rightarrow> None
   | c # cs \<Rightarrow>
       if c \<noteq> CHR ''0'' then scan_finish 10 False (scan_loop 10 fok (scan_init PDot 0) s)
       else (case cs of
         [] \<Rightarrow> Some (0, 10, 1, [])
       | d # ds \<Rightarrow>
           if d \<in> set ''bB'' then scan_finish 2 False (scan_loop 2 fok (scan_init PDigit 0) ds)
           else if d \<in> set ''oO'' then scan_finish 8 False (scan_loop 8 fok (scan_init PDigit 0) ds)
           else if d \<in> set ''xX'' then scan_finish 16 False (scan_loop 16 fok (scan_init PDigit 0) ds)
           else if fok then scan_finish 10 False (scan_loop 10 fok (scan_init PDigit 1) cs)
           else scan_finish 8 True (scan_loop 8 fok (scan_init PDigit 0) cs)))"

definition scan_sign :: "string \<Rightarrow> (bool \<times> string) option" where
  "scan_sign s = (case s of
     [] \<Rightarrow> None
   | c # cs \<Rightarrow> if c = CHR ''-'' then Some (True, cs) else if c = CHR ''+'' then Some (False, cs) else Some (False, s))"

fun exp_digits :: "prev_char \<Rightarrow> bool \<Rightarrow> string \<Rightarrow> string \<Rightarrow> prev_char \<times> bool \<times> string \<times> string" where
  "exp_digits p bad ds [] = (p, bad, ds, [])"
| "exp_digits p bad ds (c # cs) =
     (if is_digit c then exp_digits PDigit bad (ds @ [c]) cs
      else if c = CHR ''_'' then exp_digits PSep (bad \<or> p \<noteq> PDigit) ds cs
      else (p, bad, ds, c # cs))"

definition scan_exponent :: "string \<Rightarrow> (int \<times> nat \<times> string) option" where
  "scan_exponent s = (case s of
     [] \<Rightarrow> Some (0, 10, [])
   | c # cs \<Rightarrow>
       if c \<notin> set ''eEpP'' then Some (0, 10, s)
       else
         let base = (if c \<in> set ''eE'' then 10 else 2);
             (neg, r) = (case cs of [] \<Rightarrow> (False, []) | d # ds \<Rightarrow>
               if d = CHR ''-'' then (True, ds) else if d = CHR ''+'' then (False, ds) else (False, cs));
             (p, bad, ds, rest) = exp_digits PDot False [] r;
             e = (if neg then - int (dec_nat ds) else int (dec_nat ds))
         in if ds = [] \<or> bad \<or> p = PSep \<or> e < - (2 ^ 63) \<or> 2 ^ 63 \<le> e then None
            else Some (e, base, rest))"

section \<open>Int.SetString and Rat.SetString\<close>

text \<open>\<open>Int.SetString(s, 10)\<close>.\<close>

definition int_set :: "string \<Rightarrow> int option" where
  "int_set s = Option.bind (scan_sign s) (\<lambda>(neg, ds).
     if ds \<noteq> [] \<and> list_all is_digit ds then Some (if neg then - int (dec_nat ds) else int (dec_nat ds)) else None)"

text \<open>\<open>Int.SetString(s, 0)\<close>.\<close>

definition int_set0 :: "string \<Rightarrow> int option" where
  "int_set0 s = Option.bind (scan_sign s) (\<lambda>(neg, t). Option.bind (nat_scan False t) (\<lambda>(v, _, _, rest).
     if rest = [] then Some (if neg then - int v else int v) else None))"

definition scale :: "rat \<Rightarrow> nat \<Rightarrow> int \<Rightarrow> rat" where
  "scale x b e = (if 0 \<le> e then x * of_nat b ^ nat e else x / of_nat b ^ nat (- e))"

definition rat_fraction :: "string \<Rightarrow> string \<Rightarrow> rat option" where
  "rat_fraction n d = Option.bind (int_set0 n) (\<lambda>a. Option.bind (nat_scan False d) (\<lambda>(b, _, _, rest).
     if rest \<noteq> [] \<or> b = 0 then None else Some (of_int a / of_nat b)))"

definition rat_float :: "string \<Rightarrow> rat option" where
  "rat_float s = Option.bind (scan_sign s) (\<lambda>(neg, t).
     Option.bind (nat_scan True t) (\<lambda>(v, base, fcount, r1).
     Option.bind (scan_exponent r1) (\<lambda>(e, ebase, rest).
     if rest \<noteq> [] then None
     else if v = 0 then Some 0
     else
       let d = min fcount 0;
           exp5 = (if base = 10 then d else 0) + (if ebase = 10 then e else 0);
           exp2 = (if base = 16 then d * 4 else if base = 8 then d * 3 else d) + e
       in if 10 ^ 6 < \<bar>exp5\<bar> \<or> 10 ^ 7 < \<bar>exp2\<bar> then None
          else Some ((if neg then -1 else 1) * scale (scale (of_nat v) 5 exp5) 2 exp2))))"

definition rat_set :: "string \<Rightarrow> rat option" where
  "rat_set s = (case split_on CHR ''/'' s of
     [t] \<Rightarrow> rat_float t
   | n # ds \<Rightarrow> rat_fraction n (intercalate ''/'' ds)
   | [] \<Rightarrow> None)"

section \<open>Rat.FloatString\<close>

definition pad_zeros :: "nat \<Rightarrow> string \<Rightarrow> string" where
  "pad_zeros n s = replicate (n - length s) CHR ''0'' @ s"

definition float_string :: "nat \<Rightarrow> rat \<Rightarrow> string" where
  "float_string prec x =
     (let (a, b) = quotient_of x;
          n = nat \<bar>a\<bar>; d = nat b; p = 10 ^ prec;
          q = n div d; r0 = n mod d * p;
          r = r0 div d; r2 = r0 mod d;
          (q', r') = (if d \<le> r2 + r2 then (if p \<le> r + 1 then (q + 1, r + 1 - p) else (q, r + 1)) else (q, r))
      in (if a < 0 then ''-'' else '''') @ nat_dec q' @ (if 0 < prec then ''.'' @ pad_zeros prec (nat_dec r') else ''''))"


section \<open>Reading decimals\<close>

lemma digit36_digit [simp]: "is_digit c \<Longrightarrow> digit36 c = digit_val c" "is_digit c \<Longrightarrow> digit_val c < 10"
  by (auto simp: digit36_def digit_val_def is_digit_def Let_def)

definition dec_acc :: "nat \<Rightarrow> string \<Rightarrow> nat" where
  "dec_acc a ds = foldl (\<lambda>a c. 10 * a + digit_val c) a ds"

lemma dec_acc_simps [simp]: "dec_acc a [] = a" "dec_acc a (c # cs) = dec_acc (10 * a + digit_val c) cs"
  by (simp_all add: dec_acc_def)

lemma dec_acc_eq: "dec_acc a ds = a * 10 ^ length ds + dec_nat ds"
proof (induction ds arbitrary: a rule: rev_induct)
  case (snoc c ds)
  have "dec_acc a (ds @ [c]) = 10 * dec_acc a ds + digit_val c" by (simp add: dec_acc_def)
  moreover have "dec_nat (ds @ [c]) = 10 * dec_nat ds + digit_val c" by (simp add: dec_nat_def)
  ultimately show ?case using snoc by simp
qed (simp add: dec_nat_def)

lemma scan_digits:
  "list_all is_digit ds \<Longrightarrow> scan_loop 10 fok st (ds @ t) = scan_loop 10 fok
     (st\<lparr>sc_prev := if ds = [] then sc_prev st else PDigit, sc_val := dec_acc (sc_val st) ds,
        sc_count := sc_count st + length ds\<rparr>) t"
proof (induction ds arbitrary: st)
  case (Cons c ds)
  have "c \<noteq> CHR ''.''" "c \<noteq> CHR ''_''" using Cons.prems by (auto simp: is_digit_def)
  moreover have "\<not> 10 \<le> digit_val c" using Cons.prems by (auto simp: is_digit_def digit_val_def)
  ultimately show ?case using Cons by (simp add: mult.commute)
qed simp

lemma list_all_digits_nat_dec [simp]: "list_all is_digit (nat_dec n)"
  using nat_dec_digits by (auto simp: list_all_iff)

text \<open>Digits, a point and more digits.\<close>

lemma scan_decimal:
  assumes "list_all is_digit ds" and "ds \<noteq> []" and "list_all is_digit fs" and "fs \<noteq> []"
    and "sc_bad st = False" and "sc_val st = 0"
  shows "scan_finish 10 False (scan_loop 10 True st (ds @ CHR ''.'' # fs))
    = Some (dec_nat (ds @ fs), 10, - int (length fs), [])"
proof -
  have v: "dec_acc (dec_acc 0 ds) fs = dec_nat (ds @ fs)"
    by (simp add: dec_acc_def dec_nat_def)
  have l: "scan_loop 10 True st (ds @ CHR ''.'' # fs)
    = (st\<lparr>sc_prev := PDigit, sc_bad := False, sc_val := dec_nat (ds @ fs), sc_count := sc_count st + length ds + length fs,
        sc_dot := Some (sc_count st + length ds)\<rparr>, [])"
    using assms scan_digits [of fs False _ "[]"] by (simp add: scan_digits v)
  show ?thesis using assms by (simp add: l scan_finish_def)
qed

lemma nat_scan_decimal:
  assumes "list_all is_digit fs" and "fs \<noteq> []"
  shows "nat_scan True (nat_dec q @ CHR ''.'' # fs) = Some (q * 10 ^ length fs + dec_nat fs, 10, - int (length fs), [])"
proof -
  have val: "dec_nat (nat_dec q @ fs) = q * 10 ^ length fs + dec_nat fs"
    using dec_acc_eq [of q fs] dec_nat_nat_dec [of q] by (simp add: dec_nat_def dec_acc_def)
  show ?thesis
  proof (cases "q = 0")
    case True
    have z: "nat_dec 0 = ''0''" by code_simp
    have "scan_loop 10 True (scan_init PDigit 1) (CHR ''.'' # fs)
      = (scan_init PDigit 1\<lparr>sc_prev := PDigit, sc_val := dec_nat fs, sc_count := 1 + length fs, sc_dot := Some 1\<rparr>, [])"
      using assms scan_digits [of fs False _ "[]"]
      by (simp add: scan_init_def dec_acc_def dec_nat_def)
    then show ?thesis
      using True assms by (simp add: z nat_scan_def scan_finish_def scan_init_def)
  next
    case False
    then have "hd (nat_dec q) \<noteq> CHR ''0''" using hd_nat_dec by simp
    moreover obtain c cs where c: "nat_dec q = c # cs" by (cases "nat_dec q") auto
    ultimately have "nat_scan True (nat_dec q @ CHR ''.'' # fs)
      = scan_finish 10 False (scan_loop 10 True (scan_init PDot 0) (nat_dec q @ CHR ''.'' # fs))"
      by (simp add: nat_scan_def)
    also have "\<dots> = Some (dec_nat (nat_dec q @ fs), 10, - int (length fs), [])"
      using assms by (intro scan_decimal) (simp_all add: scan_init_def)
    finally show ?thesis by (simp add: val)
  qed
qed

lemma digit_not_slash: "list_all is_digit ds \<Longrightarrow> CHR ''/'' \<notin> set ds"
  by (auto simp: list_all_iff is_digit_def)

lemma scan_sign_nat_dec: "scan_sign (nat_dec q @ t) = Some (False, nat_dec q @ t)"
proof -
  obtain c cs where c: "nat_dec q = c # cs" by (cases "nat_dec q") auto
  then have "is_digit c" using nat_dec_digits [of c q] by simp
  then have "c \<noteq> CHR ''-''" "c \<noteq> CHR ''+''" by (auto simp: is_digit_def)
  then show ?thesis by (simp add: c scan_sign_def)
qed

lemma rat_set_decimal:
  assumes "list_all is_digit fs" and "fs \<noteq> []" and "length fs \<le> 10 ^ 6"
  shows "rat_set (nat_dec q @ CHR ''.'' # fs) = Some (of_nat (q * 10 ^ length fs + dec_nat fs) / 10 ^ length fs)"
proof -
  let ?v = "q * 10 ^ length fs + dec_nat fs"
  have "CHR ''/'' \<notin> set (nat_dec q @ CHR ''.'' # fs)"
    using digit_not_slash [of "nat_dec q"] digit_not_slash [OF assms(1)] by simp
  then have "rat_set (nat_dec q @ CHR ''.'' # fs) = rat_float (nat_dec q @ CHR ''.'' # fs)"
    by (simp add: rat_set_def split_on_absent)
  also have "\<dots> = (if ?v = 0 then Some 0 else Some (scale (scale (of_nat ?v) 5 (- int (length fs))) 2 (- int (length fs))))"
    using assms(2,3) by (simp add: rat_float_def scan_sign_nat_dec nat_scan_decimal [OF assms(1,2)] scan_exponent_def Let_def)
  also have "\<dots> = Some (of_nat ?v / 10 ^ length fs)"
  proof -
    have "scale (scale (of_nat ?v) 5 (- int (length fs))) 2 (- int (length fs)) = of_nat ?v / (5 ^ length fs * 2 ^ length fs)"
      using assms(2) by (simp add: scale_def)
    also have "(5 :: rat) ^ length fs * 2 ^ length fs = 10 ^ length fs" by (simp flip: power_mult_distrib)
    finally show ?thesis by simp
  qed
  finally show ?thesis .
qed

section \<open>Printing decimals\<close>

lemma dec_nat_pad: "dec_nat (pad_zeros n s) = dec_nat s"
proof -
  have "dec_acc 0 (replicate k CHR ''0'') = 0" for k by (induction k) (simp_all add: digit_val_def)
  then show ?thesis
    by (simp add: pad_zeros_def dec_nat_def dec_acc_def [symmetric])
      (simp add: dec_acc_def)
qed

lemma pad_zeros_digits: "list_all is_digit s \<Longrightarrow> list_all is_digit (pad_zeros n s)"
  by (auto simp: pad_zeros_def list_all_iff is_digit_def)

lemma length_pad_zeros: "length s \<le> n \<Longrightarrow> length (pad_zeros n s) = n"
  by (simp add: pad_zeros_def)

text \<open>\<open>x\<close> in units of \<open>1 / p\<close>, rounded half up.\<close>

definition round_units :: "nat \<Rightarrow> nat \<Rightarrow> nat \<Rightarrow> nat" where
  "round_units n d p = (2 * (n * p) + d) div (2 * d)"

lemma round_units_split:
  assumes "0 < d"
  shows "round_units n d p = n div d * p + n mod d * p div d + (if d \<le> 2 * (n mod d * p mod d) then 1 else 0)"
proof -
  define r where "r = n mod d * p div d"
  define r2 where "r2 = n mod d * p mod d"
  have "n mod d * p = r * d + r2" by (simp add: r_def r2_def)
  moreover have "n * p = n div d * d * p + n mod d * p" by (metis add_mult_distrib div_mult_mod_eq)
  ultimately have "2 * (n * p) + d = (2 * r2 + d) + (n div d * p + r) * (2 * d)" by (simp add: algebra_simps)
  then have "round_units n d p = n div d * p + r + (2 * r2 + d) div (2 * d)"
    using assms unfolding round_units_def by (metis add.commute div_mult_self1 mult_is_0 neq0_conv zero_neq_numeral)
  moreover have "r2 < d" using assms by (simp add: r2_def)
  then have "(2 * r2 + d) div (2 * d) = (if d \<le> 2 * r2 then 1 else 0)"
    by (auto simp: div_eq_0_iff intro: div_nat_eqI)
  ultimately show ?thesis by (simp add: r_def r2_def)
qed

lemma float_string_nonneg:
  assumes "0 \<le> x" and "0 < prec" and "quotient_of x = (a, b)"
  defines "N \<equiv> round_units (nat a) (nat b) (10 ^ prec)"
  shows "float_string prec x = nat_dec (N div 10 ^ prec) @ CHR ''.'' # pad_zeros prec (nat_dec (N mod 10 ^ prec))"
proof -
  let ?p = "10 ^ prec :: nat"
  have b: "0 < b" using quotient_of_denom_pos [OF assms(3)] .
  have x: "x = of_int a / of_int b" using quotient_of_div [OF assms(3)] .
  then have a: "0 \<le> a" using assms(1) b by (simp add: zero_le_divide_iff)
  let ?n = "nat a" and ?d = "nat b"
  define q where "q = ?n div ?d"
  define r where "r = ?n mod ?d * ?p div ?d"
  define r2 where "r2 = ?n mod ?d * ?p mod ?d"
  have d: "0 < ?d" using b by simp
  have rp: "r < ?p" unfolding r_def using d by (simp add: less_mult_imp_div_less)
  have N: "N = q * ?p + r + (if ?d \<le> 2 * r2 then 1 else 0)"
    unfolding N_def q_def r_def r2_def by (rule round_units_split [OF d])
  have fs: "float_string prec x = (let (q', r') = (if ?d \<le> r2 + r2 then (if ?p \<le> r + 1 then (q + 1, r + 1 - ?p) else (q, r + 1)) else (q, r))
      in nat_dec q' @ CHR ''.'' # pad_zeros prec (nat_dec r'))"
    using a assms(2,3) unfolding float_string_def Let_def q_def r_def r2_def
    by (simp add: abs_of_nonneg)
  show ?thesis
  proof (cases "?d \<le> r2 + r2")
    case False
    then have "N = q * ?p + r" using N by simp
    then have "N div ?p = q" "N mod ?p = r" using rp by simp_all
    with False show ?thesis by (simp add: fs)
  next
    case True
    then have N1: "N = q * ?p + (r + 1)" using N by simp
    show ?thesis
    proof (cases "?p \<le> r + 1")
      case pe: True
      then have "r + 1 = ?p" using rp by simp
      then have "N = (q + 1) * ?p" using N1 by simp
      then have "N div ?p = q + 1" "N mod ?p = 0" by simp_all
      with True pe \<open>r + 1 = ?p\<close> show ?thesis by (simp add: fs)
    next
      case False
      then have lt: "r + 1 < ?p" by simp
      then have "N div ?p = q" "N mod ?p = r + 1"
        using field_high [OF lt, of q] field_low [OF lt, of q] unfolding N1 by blast+
      with True False show ?thesis by (simp add: fs)
    qed
  qed
qed

text \<open>What \<open>FloatString\<close> prints reads back as the rounded value.\<close>

lemma rat_set_float_string:
  assumes "0 \<le> x" and "0 < prec" and "prec \<le> 10 ^ 6" and "quotient_of x = (a, b)"
  shows "rat_set (float_string prec x) = Some (of_nat (round_units (nat a) (nat b) (10 ^ prec)) / 10 ^ prec)"
proof -
  let ?N = "round_units (nat a) (nat b) (10 ^ prec)"
  let ?f = "pad_zeros prec (nat_dec (?N mod 10 ^ prec))"
  have len: "length ?f = prec" using length_nat_dec [of "?N mod 10 ^ prec" prec] assms(2)
    by (intro length_pad_zeros) simp
  have dig: "list_all is_digit ?f" by (intro pad_zeros_digits) simp
  have ne: "?f \<noteq> []" using len assms(2) by auto
  have le: "length ?f \<le> 10 ^ 6" using assms(3) by (simp only: len)
  have "?N div 10 ^ prec * 10 ^ length ?f + dec_nat ?f = ?N"
    by (simp only: dec_nat_pad dec_nat_nat_dec len div_mult_mod_eq)
  then show ?thesis
    using rat_set_decimal [OF dig ne le, of "?N div 10 ^ prec"]
    by (simp add: float_string_nonneg [OF assms(1,2,4)] len del: of_nat_add of_nat_mult)
qed

section \<open>Properties\<close>

text \<open>\<open>Rat.SetString\<close> reads back what \<open>Rat.FloatString\<close> printed for a non-negative number: the
  nearest multiple of the last printed place, ties rounded away from zero.\<close>

theorem rat_decimal_round_trip:
  "0 \<le> x \<Longrightarrow> 0 < prec \<Longrightarrow> prec \<le> 10 ^ 6 \<Longrightarrow> quotient_of x = (a, b)
     \<Longrightarrow> rat_set (float_string prec x) = Some (of_nat ((2 * (nat a * 10 ^ prec) + nat b) div (2 * nat b)) / 10 ^ prec)"
  using rat_set_float_string by (simp only: round_units_def)

theorem rat_decimal_round_trip_witness: "rat_set (float_string 2 (7 / 8)) = Some (88 / 100)"
proof -
  have q: "quotient_of (7 / 8) = (7, 8)" by code_simp
  show ?thesis using rat_decimal_round_trip [of "7 / 8" 2, OF _ _ _ q] by simp
qed

end
