(* ===== verification/Config.thy ===== *)
theory Config
  imports GoRat
begin

text \<open>
  The service configuration: compliance-backend/internal/config/config.go after JSON decoding.
  Addresses are 20-byte strings, durations nanoseconds. \<open>Validate\<close> returns the list of errors
  Go joins (nil is the empty list).

  The lemmas: the defaults are idempotent, and what a validated configuration guarantees to the
  lookups the other components do.
\<close>

type_synonym address = string
type_synonym hash = string
type_synonym duration = int

definition zero_address :: address where
  "zero_address = replicate 20 (char_of (0 :: nat))"

definition second :: duration where "second = 10 ^ 9"

record token =
  Symbol :: string
  TokenAddress :: address
  Decimals :: "8 word"
  EventscaleAlias :: string
  EURRate :: string
  FXSource :: string

record deposit =
  DepositAddress :: address
  MerchantID :: string

record chain =
  ChainID :: "64 word"
  ChainName :: string
  RPC :: string
  Confirmations :: "64 word"
  ReconcileInterval :: duration
  Chunk :: "64 word"
  EventscaleNetwork :: string
  Tokens :: "token list"
  Deposits :: "deposit list"

record officer =
  OfficerAddress :: address
  OfficerID :: string
  Mask :: "8 word"

record sanctions_cfg =
  ListName :: string
  ListVersion :: string
  ListPath :: string

record processor =
  LegalName :: string
  LEI :: string
  CASPID :: string
  NCA :: string
  RFIChannel :: string
  CertURL :: string

record config =
  DatabaseURL :: string
  Listen :: string
  APIToken :: string
  DataDir :: string
  NATSURL :: string
  Processor :: processor
  Chains :: "chain list"
  PolicyKeyFile :: string
  EvidenceKeyFile :: string
  EvidenceKID :: string
  Officers :: "officer list"
  MLRO :: "address list"
  SanctionsLists :: "sanctions_cfg list"
  GoPlusBaseURL :: string
  CheckTimeout :: duration
  DecisionTTL :: duration
  WorkerInterval :: duration
  RetentionYears :: int

section \<open>Defaults\<close>

definition str_default :: "string \<Rightarrow> string \<Rightarrow> string" where
  "str_default d v = (if v = [] then d else v)"

definition dur_default :: "duration \<Rightarrow> duration \<Rightarrow> duration" where
  "dur_default d v = (if v = 0 then d else v)"

definition chain_defaults :: "chain \<Rightarrow> chain" where
  "chain_defaults ch = ch
     \<lparr> ReconcileInterval := dur_default (30 * second) (ReconcileInterval ch),
       Chunk := (if Chunk ch = 0 then 2000 else Chunk ch) \<rparr>"

definition defaults :: "config \<Rightarrow> config" where
  "defaults c = c
     \<lparr> Listen := str_default '':8080'' (Listen c),
       DataDir := str_default ''data'' (DataDir c),
       GoPlusBaseURL := str_default ''https://api.gopluslabs.io'' (GoPlusBaseURL c),
       CheckTimeout := dur_default (10 * second) (CheckTimeout c),
       DecisionTTL := dur_default (24 * 3600 * second) (DecisionTTL c),
       WorkerInterval := dur_default (2 * second) (WorkerInterval c),
       RetentionYears := (if RetentionYears c = 0 then 7 else RetentionYears c),
       Chains := map chain_defaults (Chains c) \<rparr>"

section \<open>Validation\<close>

datatype cfg_err =
    Required string | NoChains | NoMLRO | ChainIDMissing nat | ChainIDDuplicated nat "64 word"
  | TokensEmpty nat | DepositsEmpty nat | TokenAddressMissing nat nat | BadRate nat nat string
  | DepositAddressMissing nat nat | BadMask nat "8 word"

definition req :: "string \<Rightarrow> string \<Rightarrow> cfg_err list" where
  "req v name = (if blank v then [Required name] else [])"

definition err_if :: "bool \<Rightarrow> cfg_err \<Rightarrow> cfg_err list" where
  "err_if b e = (if b then [e] else [])"

definition idx :: "string \<Rightarrow> nat \<Rightarrow> string" where
  "idx name i = name @ ''['' @ nat_dec i @ '']''"

definition rate_ok :: "string \<Rightarrow> bool" where
  "rate_ok s = (case rat_set s of None \<Rightarrow> False | Some r \<Rightarrow> 0 < r)"

definition validate_token :: "nat \<Rightarrow> nat \<Rightarrow> token \<Rightarrow> cfg_err list" where
  "validate_token i j t = (let tp = idx (idx ''chains'' i @ ''.tokens'') j in
     req (Symbol t) (tp @ ''.symbol'') @ req (FXSource t) (tp @ ''.fx_source'')
     @ err_if (TokenAddress t = zero_address) (TokenAddressMissing i j)
     @ err_if (\<not> rate_ok (EURRate t)) (BadRate i j (EURRate t)))"

definition validate_deposit :: "nat \<Rightarrow> nat \<Rightarrow> deposit \<Rightarrow> cfg_err list" where
  "validate_deposit i j d = err_if (DepositAddress d = zero_address) (DepositAddressMissing i j)
     @ req (MerchantID d) (idx (idx ''chains'' i @ ''.deposit_addresses'') j @ ''.merchant_id'')"

text \<open>\<open>seen\<close> is the set of chain ids of the chains before this one.\<close>

definition validate_chain :: "64 word set \<Rightarrow> nat \<Rightarrow> chain \<Rightarrow> cfg_err list" where
  "validate_chain seen i ch = (let p = idx ''chains'' i in
     err_if (ChainID ch = 0) (ChainIDMissing i)
     @ err_if (ChainID ch \<in> seen) (ChainIDDuplicated i (ChainID ch))
     @ req (ChainName ch) (p @ ''.name'') @ req (RPC ch) (p @ ''.rpc'')
     @ err_if (Tokens ch = []) (TokensEmpty i) @ err_if (Deposits ch = []) (DepositsEmpty i)
     @ concat (map (\<lambda>(j, t). validate_token i j t) (indexed (Tokens ch)))
     @ concat (map (\<lambda>(j, d). validate_deposit i j d) (indexed (Deposits ch))))"

fun validate_chains :: "64 word set \<Rightarrow> nat \<Rightarrow> chain list \<Rightarrow> cfg_err list" where
  "validate_chains seen i [] = []"
| "validate_chains seen i (ch # chs) =
     validate_chain seen i ch @ validate_chains (insert (ChainID ch) seen) (Suc i) chs"

definition validate_officer :: "nat \<Rightarrow> officer \<Rightarrow> cfg_err list" where
  "validate_officer i o' = err_if (Mask o' = 0 \<or> 0x0F < Mask o') (BadMask i (Mask o'))
     @ req (OfficerID o') (idx ''officers'' i @ ''.officer_id'')"

definition validate_list :: "nat \<Rightarrow> sanctions_cfg \<Rightarrow> cfg_err list" where
  "validate_list i s = (let p = idx ''sanctions_lists'' i in
     req (ListName s) (p @ ''.name'') @ req (ListVersion s) (p @ ''.version'') @ req (ListPath s) (p @ ''.path''))"

definition Validate :: "config \<Rightarrow> cfg_err list" where
  "Validate c =
     req (DatabaseURL c) ''database_url'' @ req (APIToken c) ''api_token''
     @ req (LegalName (Processor c)) ''processor.legal_name''
     @ req (PolicyKeyFile c) ''keys.policy_key_file'' @ req (EvidenceKeyFile c) ''keys.evidence_key_file''
     @ req (EvidenceKID c) ''keys.evidence_kid''
     @ err_if (Chains c = []) NoChains @ err_if (MLRO c = []) NoMLRO
     @ validate_chains {} 0 (Chains c)
     @ concat (map (\<lambda>(i, o'). validate_officer i o') (indexed (Officers c)))
     @ concat (map (\<lambda>(i, s). validate_list i s) (indexed (SanctionsLists c)))"

section \<open>Lookups\<close>

definition Chain :: "config \<Rightarrow> 64 word \<Rightarrow> chain option" where
  "Chain c i = find_first (\<lambda>ch. ChainID ch = i) (Chains c)"

definition Token :: "chain \<Rightarrow> address \<Rightarrow> token option" where
  "Token ch a = find_first (\<lambda>t. TokenAddress t = a) (Tokens ch)"

definition Deposit :: "chain \<Rightarrow> address \<Rightarrow> deposit option" where
  "Deposit ch a = find_first (\<lambda>d. DepositAddress d = a) (Deposits ch)"

section \<open>What validation guarantees\<close>

lemma defaults_idem: "defaults (defaults c) = defaults c"
proof -
  have "chain_defaults (chain_defaults ch) = chain_defaults ch" for ch
    by (simp add: chain_defaults_def dur_default_def second_def)
  then show ?thesis by (simp add: defaults_def str_default_def dur_default_def second_def)
qed

lemma err_if_nil [simp]: "err_if b e = [] \<longleftrightarrow> \<not> b"
  by (simp add: err_if_def)

lemma req_nil [simp]: "req v n = [] \<longleftrightarrow> \<not> blank v"
  by (simp add: req_def)

lemma concat_indexed_nil:
  "concat (map (\<lambda>(i, x). f i x) (indexed xs)) = [] \<Longrightarrow> x \<in> set xs \<Longrightarrow> \<exists>i. f i x = []"
proof -
  assume nil: "concat (map (\<lambda>(i, x). f i x) (indexed xs)) = []" and "x \<in> set xs"
  then obtain i where "i < length xs" "xs ! i = x" unfolding in_set_conv_nth by blast
  then have "(i, x) \<in> set (indexed xs)" by (simp add: indexed_def in_set_enumerate_eq)
  with nil show ?thesis unfolding concat_eq_Nil_conv by force
qed

lemma validate_chains_nil:
  "validate_chains seen i chs = [] \<Longrightarrow>
     distinct (map ChainID chs) \<and> set (map ChainID chs) \<inter> seen = {}
     \<and> (\<forall>ch\<in>set chs. \<exists>seen' j. validate_chain seen' j ch = [])"
proof (induction seen i chs rule: validate_chains.induct)
  case (2 seen i ch chs)
  then have "validate_chain seen i ch = []" and IH: "distinct (map ChainID chs)"
      "set (map ChainID chs) \<inter> insert (ChainID ch) seen = {}"
      "\<forall>ch\<in>set chs. \<exists>seen' j. validate_chain seen' j ch = []"
    by simp_all
  moreover from this(1) have "ChainID ch \<notin> seen" by (simp add: validate_chain_def Let_def)
  ultimately show ?case by auto
qed simp

definition chain_ok :: "chain \<Rightarrow> bool" where
  "chain_ok ch \<longleftrightarrow> ChainID ch \<noteq> 0 \<and> Tokens ch \<noteq> [] \<and> Deposits ch \<noteq> []
     \<and> list_all (\<lambda>t. TokenAddress t \<noteq> zero_address \<and> rate_ok (EURRate t)) (Tokens ch)
     \<and> list_all (\<lambda>d. DepositAddress d \<noteq> zero_address \<and> \<not> blank (MerchantID d)) (Deposits ch)"

definition config_ok :: "config \<Rightarrow> bool" where
  "config_ok c \<longleftrightarrow> \<not> blank (APIToken c) \<and> Chains c \<noteq> [] \<and> MLRO c \<noteq> [] \<and> distinct (map ChainID (Chains c))
     \<and> list_all chain_ok (Chains c)
     \<and> list_all (\<lambda>o'. Mask o' \<noteq> 0 \<and> Mask o' \<le> 15 \<and> \<not> blank (OfficerID o')) (Officers c)"

lemma validate_chain_ok: "validate_chain seen i ch = [] \<Longrightarrow> chain_ok ch"
proof -
  assume v: "validate_chain seen i ch = []"
  have "TokenAddress t \<noteq> zero_address \<and> rate_ok (EURRate t)" if "t \<in> set (Tokens ch)" for t
    using concat_indexed_nil [of "validate_token i" "Tokens ch" t] that v
    by (auto simp: validate_chain_def validate_token_def Let_def)
  moreover have "DepositAddress d \<noteq> zero_address \<and> \<not> blank (MerchantID d)" if "d \<in> set (Deposits ch)" for d
    using concat_indexed_nil [of "validate_deposit i" "Deposits ch" d] that v
    by (auto simp: validate_chain_def validate_deposit_def Let_def)
  ultimately show ?thesis
    using v by (auto simp: chain_ok_def list_all_iff validate_chain_def Let_def)
qed

lemma Validate_ok: "Validate c = [] \<Longrightarrow> config_ok c"
proof -
  assume v: "Validate c = []"
  then have "validate_chains {} 0 (Chains c) = []" by (simp add: Validate_def)
  from validate_chains_nil [OF this] have "distinct (map ChainID (Chains c))" "list_all chain_ok (Chains c)"
    using validate_chain_ok by (auto simp: list_all_iff)
  moreover have "Mask o' \<noteq> 0 \<and> Mask o' \<le> 15 \<and> \<not> blank (OfficerID o')" if "o' \<in> set (Officers c)" for o'
    using concat_indexed_nil [of validate_officer "Officers c" o'] that v
    by (auto simp: Validate_def validate_officer_def not_less)
  ultimately show ?thesis
    using v by (simp add: config_ok_def list_all_iff Validate_def)
qed

lemma Chain_mem: "Chain c i = Some ch \<Longrightarrow> ch \<in> set (Chains c) \<and> ChainID ch = i"
  by (auto simp: Chain_def dest: find_first_SomeD)

lemma Token_mem: "Token ch a = Some t \<Longrightarrow> t \<in> set (Tokens ch) \<and> TokenAddress t = a"
  by (auto simp: Token_def dest: find_first_SomeD)

lemma Deposit_mem: "Deposit ch a = Some d \<Longrightarrow> d \<in> set (Deposits ch) \<and> DepositAddress d = a"
  by (auto simp: Deposit_def dest: find_first_SomeD)

lemma Chain_unique: "config_ok c \<Longrightarrow> ch \<in> set (Chains c) \<Longrightarrow> Chain c (ChainID ch) = Some ch"
proof -
  assume c: "config_ok c" and ch: "ch \<in> set (Chains c)"
  have "Chain c (ChainID ch) \<noteq> None" using ch by (auto simp: Chain_def find_first_None_iff)
  then obtain ch' where ch': "Chain c (ChainID ch) = Some ch'" by auto
  with Chain_mem [OF this] ch c show ?thesis
    by (auto simp: config_ok_def distinct_map dest: inj_onD)
qed

lemma token_rate:
  assumes "config_ok c" and "Chain c i = Some ch" and "Token ch a = Some t"
  shows "\<exists>r. rat_set (EURRate t) = Some r \<and> 0 < r"
proof -
  have "rate_ok (EURRate t)"
    using assms(1) Chain_mem [OF assms(2)] Token_mem [OF assms(3)]
    unfolding config_ok_def chain_ok_def list_all_iff by blast
  then show ?thesis by (simp add: rate_ok_def split: option.splits)
qed

section \<open>Properties\<close>

text \<open>What a validated configuration guarantees to the rest of the service: an API token, distinct
  non-zero chain ids, every token with a non-zero address and a positive rate that parses, every deposit
  address with a merchant, and every officer with an id and a mask of the four decisions.\<close>

theorem validated_config: "Validate c = [] \<Longrightarrow> config_ok c"
  by (rule Validate_ok)

definition sample_config :: config where
  "sample_config = \<lparr> DatabaseURL = ''db'', Listen = '':1'', APIToken = ''t'', DataDir = ''d'', NATSURL = [],
     Processor = \<lparr> LegalName = ''P'', LEI = [], CASPID = [], NCA = [], RFIChannel = [], CertURL = [] \<rparr>,
     Chains = [\<lparr> ChainID = 1, ChainName = ''c'', RPC = ''r'', Confirmations = 5, ReconcileInterval = 1, Chunk = 10,
        EventscaleNetwork = [],
        Tokens = [\<lparr> Symbol = ''EURC'', TokenAddress = replicate 20 (char_of (1 :: nat)), Decimals = 6, EventscaleAlias = [],
           EURRate = ''1.00'', FXSource = ''f'' \<rparr>],
        Deposits = [\<lparr> DepositAddress = replicate 20 (char_of (2 :: nat)), MerchantID = ''m'' \<rparr>] \<rparr>],
     PolicyKeyFile = ''p'', EvidenceKeyFile = ''e'', EvidenceKID = ''k'',
     Officers = [\<lparr> OfficerAddress = replicate 20 (char_of (3 :: nat)), OfficerID = ''o'', Mask = 15 \<rparr>],
     MLRO = [replicate 20 (char_of (4 :: nat))], SanctionsLists = [], GoPlusBaseURL = ''g'', CheckTimeout = 1,
     DecisionTTL = 86400 * second, WorkerInterval = 1, RetentionYears = 7 \<rparr>"

lemma not_blank_letter: "ascii s \<Longrightarrow> s \<noteq> [] \<Longrightarrow> 64 < (of_char (hd s) :: nat) \<Longrightarrow> \<not> blank s"
  by (cases s) (auto simp: blank_def runes_ascii is_space_rune_def ascii_def)

lemma sample_rate: "rate_ok ''1.00''"
proof -
  have "rat_set (nat_dec 1 @ CHR ''.'' # ''00'') = Some (of_nat (1 * 10 ^ length ''00'' + dec_nat ''00'') / 10 ^ length ''00'')"
    by (rule rat_set_decimal) (simp_all add: is_digit_def)
  moreover have "nat_dec 1 = ''1''" by code_simp
  ultimately show ?thesis by (simp add: rate_ok_def)
qed

lemma sample_config_valid: "Validate sample_config = []"
proof -
  have b: "\<not> blank ''db''" "\<not> blank ''t''" "\<not> blank ''P''" "\<not> blank ''p''" "\<not> blank ''e''" "\<not> blank ''k''" "\<not> blank ''c''"
    "\<not> blank ''r''" "\<not> blank ''EURC''" "\<not> blank ''f''" "\<not> blank ''m''" "\<not> blank ''o''"
    by (simp_all add: not_blank_letter ascii_def)
  have z: "replicate 20 (char_of (n :: nat)) \<noteq> zero_address" if "n \<in> {1, 2}" for n
  proof
    assume "replicate 20 (char_of n) = zero_address"
    then have "(of_char (char_of n :: char) :: nat) = of_char (char_of (0 :: nat) :: char)"
      by (simp only: zero_address_def replicate_eq_replicate)
    then show False using that by (auto simp: of_char_of)
  qed
  show ?thesis
    using b z sample_rate
    by (simp add: Validate_def sample_config_def validate_chain_def validate_token_def validate_deposit_def
        validate_officer_def indexed_def req_def err_if_def Let_def)
qed

theorem validated_config_witness: "config_ok sample_config"
  by (rule validated_config) (rule sample_config_valid)

end
