(* ===== verification/Decision.thy ===== *)
theory Decision
  imports Config
begin

text \<open>
  Decisions: compliance-backend/internal/decision (decision.go, transition.go, verify.go). The
  record \<open>crypto\<close> holds what go-ethereum computes: the checksummed hex of an address, the
  EIP-712 hash of a document (None on its error) and the address recovered from a 65-byte signature.

  The locale \<open>decision_machine\<close> states the laws of the freeze-safe transition table and derives
  from them which decision histories are possible; \<open>Next\<close> is its instance here, the contract's
  \<open>_execute\<close> another one in theory Hub. Further lemmas: names and masks, injectivity of the
  signed document, signatures produced by the service's signer recover to it, and exactly when an
  officer's signature is accepted.
\<close>

section \<open>Kinds, names and masks\<close>

type_synonym kind = "8 word"

definition Credit :: kind where "Credit = 1"
definition Hold :: kind where "Hold = 2"
definition Freeze :: kind where "Freeze = 3"
definition Return :: kind where "Return = 4"

lemmas kind_defs = Credit_def Hold_def Freeze_def Return_def

definition names :: "(kind, string) gomap" where
  "names = [(Credit, ''CREDIT''), (Hold, ''HOLD''), (Freeze, ''FREEZE''), (Return, ''RETURN'')]"

definition Name :: "kind \<Rightarrow> string" where
  "Name k = (case map_of names k of None \<Rightarrow> [] | Some n \<Rightarrow> n)"

definition Kind :: "string \<Rightarrow> kind option" where
  "Kind name = map_option fst (find_first (\<lambda>(k, n). n = name) names)"

definition Permits :: "8 word \<Rightarrow> kind \<Rightarrow> bool" where
  "Permits m k \<longleftrightarrow> Credit \<le> k \<and> k \<le> Return \<and> and m (push_bit (unat (k - 1)) 1) \<noteq> 0"

section \<open>The EIP-712 documents\<close>

record decision =
  PaymentID :: hash
  DecisionKind :: kind
  DToken :: address
  Amount :: int
  DPackHash :: hash
  Nonce :: "64 word"
  Deadline :: "64 word"

record typed_data =
  td_types :: "(string \<times> (string \<times> string) list) list"
  td_primary :: string
  td_name :: string
  td_version :: string
  td_chain :: "nat option"
  td_contract :: string
  td_message :: "(string \<times> string) list"

record crypto =
  addr_hex :: "address \<Rightarrow> string"
  typed_hash :: "typed_data \<Rightarrow> hash option"
  sig_to_addr :: "hash \<Rightarrow> string \<Rightarrow> address option"

definition hash_hex :: "hash \<Rightarrow> string" where
  "hash_hex h = ''0x'' @ hex_encode h"

definition decisionTypes :: "(string \<times> (string \<times> string) list) list" where
  "decisionTypes = [
     (''EIP712Domain'', [(''name'', ''string''), (''version'', ''string''), (''chainId'', ''uint256''),
        (''verifyingContract'', ''address'')]),
     (''Decision'', [(''paymentId'', ''bytes32''), (''decision'', ''uint8''), (''token'', ''address''),
        (''amount'', ''uint256''), (''packHash'', ''bytes32''), (''nonce'', ''uint64''), (''deadline'', ''uint64'')])]"

definition TypedData :: "crypto \<Rightarrow> 64 word \<Rightarrow> address \<Rightarrow> decision \<Rightarrow> typed_data" where
  "TypedData cr chainID verifying s = \<lparr>
     td_types = decisionTypes, td_primary = ''Decision'', td_name = ''Deflow Decision'', td_version = ''1'',
     td_chain = Some (unat chainID), td_contract = addr_hex cr verifying,
     td_message = [(''paymentId'', hash_hex (PaymentID s)), (''decision'', nat_dec (unat (DecisionKind s))),
       (''token'', addr_hex cr (DToken s)), (''amount'', int_dec (Amount s)), (''packHash'', hash_hex (DPackHash s)),
       (''nonce'', nat_dec (unat (Nonce s))), (''deadline'', nat_dec (unat (Deadline s)))] \<rparr>"

definition RulesetApproval :: "hash \<Rightarrow> string \<Rightarrow> 64 word \<Rightarrow> typed_data" where
  "RulesetApproval rulesetHash version effectiveFrom = \<lparr>
     td_types = [(''EIP712Domain'', [(''name'', ''string''), (''version'', ''string'')]),
       (''RulesetApproval'', [(''rulesetHash'', ''bytes32''), (''version'', ''string''), (''effectiveFrom'', ''uint64'')])],
     td_primary = ''RulesetApproval'', td_name = ''Deflow Ruleset'', td_version = ''1'',
     td_chain = None, td_contract = '''',
     td_message = [(''rulesetHash'', hash_hex rulesetHash), (''version'', version),
       (''effectiveFrom'', nat_dec (unat effectiveFrom))] \<rparr>"

definition JSON :: "typed_data \<Rightarrow> (string \<times> jval) list" where
  "JSON td = [
     (''types'', JObj (map (\<lambda>(n, fs). (n, JList (map (\<lambda>(f, t). JObj [(''name'', JStr f), (''type'', JStr t)]) fs))) (td_types td))),
     (''primaryType'', JStr (td_primary td)),
     (''domain'', JObj ([(''name'', JStr (td_name td)), (''version'', JStr (td_version td))]
        @ (case td_chain td of None \<Rightarrow> [] | Some c \<Rightarrow> [(''chainId'', JStr (nat_dec c))])
        @ (if td_contract td \<noteq> [] then [(''verifyingContract'', JStr (td_contract td))] else []))),
     (''message'', JObj (map (\<lambda>(k, v). (k, JStr v)) (td_message td)))]"

section \<open>Signatures\<close>

datatype sig_err =
    HashFailed | BadSigLength | RecoverFailed | NotPermitted string kind | NotOfficer address | NotMLRO address

definition Digest :: "crypto \<Rightarrow> typed_data \<Rightarrow> (sig_err, hash) res" where
  "Digest cr td = of_option HashFailed (typed_hash cr td)"

text \<open>v as 0/1 or 27/28.\<close>

definition normal_v :: "string \<Rightarrow> string" where
  "normal_v sig = (let v = of_char (sig ! 64) :: nat in if 27 \<le> v then sig[64 := char_of (v - 27)] else sig)"

definition Recover :: "crypto \<Rightarrow> hash \<Rightarrow> string \<Rightarrow> (sig_err, address) res" where
  "Recover cr digest sig =
     (if length sig \<noteq> 65 then Inl BadSigLength
      else of_option RecoverFailed (sig_to_addr cr digest (normal_v sig)))"

text \<open>\<open>KeySigner\<close>: the key as the function \<open>crypto.Sign\<close> (None is its error), v raised to 27/28.\<close>

record key_signer =
  SignerAddress :: address
  raw_sign :: "hash \<Rightarrow> string option"

definition SignerSign :: "key_signer \<Rightarrow> hash \<Rightarrow> string option" where
  "SignerSign ks digest = map_option (\<lambda>sig. sig[64 := char_of (of_char (sig ! 64) + 27 :: nat)]) (raw_sign ks digest)"

definition VerifyOfficer :: "crypto \<Rightarrow> typed_data \<Rightarrow> string \<Rightarrow> kind \<Rightarrow> officer list \<Rightarrow> (sig_err, officer) res" where
  "VerifyOfficer cr td sig k officers =
     and_then (Digest cr td) (\<lambda>digest. and_then (Recover cr digest sig) (\<lambda>a.
       case find_first (\<lambda>o'. OfficerAddress o' = a) officers of
         None \<Rightarrow> Inl (NotOfficer a)
       | Some o' \<Rightarrow> if Permits (Mask o') k then Inr o' else Inl (NotPermitted (OfficerID o') k)))"

definition VerifyApproval :: "crypto \<Rightarrow> typed_data \<Rightarrow> string \<Rightarrow> address list \<Rightarrow> (sig_err, address) res" where
  "VerifyApproval cr td sig mlro =
     and_then (Digest cr td) (\<lambda>digest. and_then (Recover cr digest sig) (\<lambda>a.
       if a \<in> set mlro then Inr a else Inl (NotMLRO a)))"

section \<open>Transitions\<close>

datatype status = NoStatus | Held | Credited | Returned

record state =
  Status :: status
  Frozen :: bool

datatype next_err = ErrTerminal | ErrFrozen | UnknownKind

definition initial :: state where
  "initial = \<lparr> Status = NoStatus, Frozen = False \<rparr>"

definition Next :: "state \<Rightarrow> kind \<Rightarrow> (next_err, state) res" where
  "Next s k =
     (if Status s = Credited \<or> Status s = Returned then Inl ErrTerminal
      else if Frozen s \<and> (k = Return \<or> k = Hold) then Inl ErrFrozen
      else if k = Credit then Inr \<lparr> Status = Credited, Frozen = Frozen s \<rparr>
      else if k = Return then Inr \<lparr> Status = Returned, Frozen = False \<rparr>
      else if k = Hold then Inr \<lparr> Status = Held, Frozen = False \<rparr>
      else if k = Freeze then Inr \<lparr> Status = Held, Frozen = True \<rparr>
      else Inl UnknownKind)"

text \<open>\<open>Replay\<close> returns the state reached and the first error, which stops it.\<close>

fun replay_from :: "state \<Rightarrow> kind list \<Rightarrow> state \<times> next_err option" where
  "replay_from s [] = (s, None)"
| "replay_from s (k # ks) = (case Next s k of Inl e \<Rightarrow> (s, Some e) | Inr s' \<Rightarrow> replay_from s' ks)"

definition Replay :: "kind list \<Rightarrow> state \<times> next_err option" where
  "Replay ks = replay_from initial ks"

section \<open>The laws of a decision machine\<close>

fun run :: "('s \<Rightarrow> 'd \<Rightarrow> 's option) \<Rightarrow> 's \<Rightarrow> 'd list \<Rightarrow> 's option" where
  "run step s [] = Some s"
| "run step s (d # ds) = Option.bind (step s d) (\<lambda>s'. run step s' ds)"

definition is_kind :: "kind \<Rightarrow> bool" where
  "is_kind k \<longleftrightarrow> k = Credit \<or> k = Hold \<or> k = Freeze \<or> k = Return"

definition releasing :: "kind \<Rightarrow> bool" where
  "releasing k \<longleftrightarrow> k = Credit \<or> k = Return"

definition status_of :: "kind \<Rightarrow> status" where
  "status_of k = (if k = Credit then Credited else if k = Return then Returned else Held)"

definition terminal :: "status \<Rightarrow> bool" where
  "terminal st \<longleftrightarrow> st = Credited \<or> st = Returned"

text \<open>
  The histories a payment may have: only known kinds, money is released at most once and last, and
  after a freeze there is neither a plain hold nor a return.
\<close>

definition legal_history :: "bool \<Rightarrow> kind list \<Rightarrow> bool" where
  "legal_history frozen ks \<longleftrightarrow> list_all is_kind ks
     \<and> (\<forall>i<length ks. releasing (ks ! i) \<longrightarrow> i = length ks - 1)
     \<and> (\<forall>j<length ks. frozen \<or> Freeze \<in> set (take j ks) \<longrightarrow> ks ! j \<noteq> Hold \<and> ks ! j \<noteq> Return)"

locale decision_machine =
  fixes step :: "'s \<Rightarrow> 'd \<Rightarrow> 's option"
    and kind_of :: "'d \<Rightarrow> kind"
    and status :: "'s \<Rightarrow> status"
    and frozen :: "'s \<Rightarrow> bool"
  assumes known_kind: "step s d = Some s' \<Longrightarrow> is_kind (kind_of d)"
    and terminal_stuck: "terminal (status s) \<Longrightarrow> step s d = None"
    and frozen_guard: "step s d = Some s' \<Longrightarrow> frozen s \<Longrightarrow> kind_of d \<noteq> Hold \<and> kind_of d \<noteq> Return"
    and step_status: "step s d = Some s' \<Longrightarrow> status s' = status_of (kind_of d)"
    and step_frozen: "step s d = Some s' \<Longrightarrow> frozen s' \<longleftrightarrow> frozen s \<or> kind_of d = Freeze"
begin

lemma run_terminal: "terminal (status s) \<Longrightarrow> run step s ds = Some s' \<Longrightarrow> ds = [] \<and> s' = s"
  by (cases ds) (auto simp: terminal_stuck)

lemma releasing_terminal: "step s d = Some s' \<Longrightarrow> releasing (kind_of d) \<Longrightarrow> terminal (status s')"
  using step_status by (auto simp: releasing_def status_of_def terminal_def kind_defs)

lemma run_frozen: "run step s ds = Some s' \<Longrightarrow> frozen s' \<longleftrightarrow> frozen s \<or> Freeze \<in> set (map kind_of ds)"
proof (induction ds arbitrary: s)
  case (Cons d ds)
  then obtain s1 where s1: "step s d = Some s1" "run step s1 ds = Some s'" by (auto simp: bind_eq_Some_conv)
  from Cons.IH [OF s1(2)] step_frozen [OF s1(1)] show ?case by auto
qed simp

lemma run_status: "run step s ds = Some s' \<Longrightarrow> ds \<noteq> [] \<Longrightarrow> status s' = status_of (kind_of (last ds))"
proof (induction ds arbitrary: s)
  case (Cons d ds)
  then obtain s1 where s1: "step s d = Some s1" "run step s1 ds = Some s'" by (auto simp: bind_eq_Some_conv)
  show ?case
  proof (cases "ds = []")
    case True
    then show ?thesis using s1 step_status by simp
  next
    case False
    then show ?thesis using Cons.IH [OF s1(2)] by simp
  qed
qed simp

lemma run_append: "run step s (ds @ es) = Option.bind (run step s ds) (\<lambda>s'. run step s' es)"
  by (induction ds arbitrary: s) (auto split: bind_splits)

lemma run_prefix: "run step s (ds @ d # es) = Some s' \<Longrightarrow>
    \<exists>u w. run step s ds = Some u \<and> step u d = Some w \<and> run step w es = Some s'"
  by (auto simp: run_append bind_eq_Some_conv)

lemma run_legal:
  assumes "run step s ds = Some s'"
  shows "legal_history (frozen s) (map kind_of ds)"
proof -
  have split: "\<exists>u w. run step s (take i ds) = Some u \<and> step u (ds ! i) = Some w \<and> run step w (drop (Suc i) ds) = Some s'"
    if "i < length ds" for i
    using run_prefix [of s "take i ds" "ds ! i" "drop (Suc i) ds" s'] assms that by (simp add: id_take_nth_drop [symmetric])
  have "is_kind (kind_of d)" if "d \<in> set ds" for d
    using that split known_kind unfolding in_set_conv_nth by blast
  moreover have "i = length ds - 1" if i: "i < length ds" and r: "releasing (kind_of (ds ! i))" for i
  proof -
    obtain u w where "step u (ds ! i) = Some w" "run step w (drop (Suc i) ds) = Some s'"
      using split [OF i] by blast
    then have "drop (Suc i) ds = []" using releasing_terminal r run_terminal by blast
    then show ?thesis using i by simp
  qed
  moreover have "kind_of (ds ! j) \<noteq> Hold \<and> kind_of (ds ! j) \<noteq> Return"
    if j: "j < length ds" and f: "frozen s \<or> Freeze \<in> set (take j (map kind_of ds))" for j
  proof -
    obtain u w where "run step s (take j ds) = Some u" "step u (ds ! j) = Some w"
      using split [OF j] by blast
    moreover from this(1) have "frozen u" using run_frozen f by (simp add: take_map)
    ultimately show ?thesis using frozen_guard by blast
  qed
  ultimately show ?thesis by (simp add: legal_history_def list_all_iff)
qed

end

text \<open>A machine without further guards accepts every legal history.\<close>

locale free_decision_machine = decision_machine +
  assumes progress: "\<not> terminal (status s) \<Longrightarrow> is_kind (kind_of d) \<Longrightarrow>
    (frozen s \<Longrightarrow> kind_of d \<noteq> Hold \<and> kind_of d \<noteq> Return) \<Longrightarrow> \<exists>s'. step s d = Some s'"
begin

lemma legal_run:
  "\<not> terminal (status s) \<Longrightarrow> legal_history (frozen s) (map kind_of ds) \<Longrightarrow> \<exists>s'. run step s ds = Some s'"
proof (induction ds arbitrary: s)
  case (Cons d ds)
  have l: "is_kind (kind_of d)" "list_all is_kind (map kind_of ds)"
    using Cons.prems(2) by (simp_all add: legal_history_def)
  have rel: "i = length ds" if "i < Suc (length ds)" "releasing (map kind_of (d # ds) ! i)" for i
    using Cons.prems(2) that unfolding legal_history_def by fastforce
  have fr: "map kind_of (d # ds) ! j \<noteq> Hold \<and> map kind_of (d # ds) ! j \<noteq> Return"
    if "j < Suc (length ds)" "frozen s \<or> Freeze \<in> set (take j (map kind_of (d # ds)))" for j
    using Cons.prems(2) that unfolding legal_history_def by fastforce
  have "frozen s \<Longrightarrow> kind_of d \<noteq> Hold \<and> kind_of d \<noteq> Return" using fr [of 0] by simp
  then obtain s1 where s1: "step s d = Some s1" using progress [OF Cons.prems(1) l(1)] by blast
  show ?case
  proof (cases "ds = []")
    case True
    then show ?thesis using s1 by simp
  next
    case False
    have "\<not> releasing (kind_of d)" using rel [of 0] False by auto
    then have nt: "\<not> terminal (status s1)"
      using step_status [OF s1] by (simp add: releasing_def status_of_def terminal_def)
    have "legal_history (frozen s1) (map kind_of ds)"
      unfolding legal_history_def
    proof (intro conjI allI impI)
      show "list_all is_kind (map kind_of ds)" by (rule l(2))
    next
      fix i assume "i < length (map kind_of ds)" "releasing (map kind_of ds ! i)"
      then show "i = length (map kind_of ds) - 1" using rel [of "Suc i"] by simp
    next
      fix j assume "j < length (map kind_of ds)" "frozen s1 \<or> Freeze \<in> set (take j (map kind_of ds))"
      then show "map kind_of ds ! j \<noteq> Hold" and "map kind_of ds ! j \<noteq> Return"
        using fr [of "Suc j"] step_frozen [OF s1] by auto
    qed
    then show ?thesis using Cons.IH [OF nt] s1 by simp
  qed
qed simp

lemma run_iff_legal:
  "\<not> terminal (status s) \<Longrightarrow> (\<exists>s'. run step s ds = Some s') \<longleftrightarrow> legal_history (frozen s) (map kind_of ds)"
  using run_legal legal_run by blast

end

definition next_opt :: "state \<Rightarrow> kind \<Rightarrow> state option" where
  "next_opt s k = (case Next s k of Inl e \<Rightarrow> None | Inr s' \<Rightarrow> Some s')"

lemma kinds_distinct:
  "Credit \<noteq> Hold" "Credit \<noteq> Freeze" "Credit \<noteq> Return" "Hold \<noteq> Freeze" "Hold \<noteq> Return" "Freeze \<noteq> Return"
  by (simp_all add: kind_defs)

interpretation go: free_decision_machine next_opt "\<lambda>k. k" Status Frozen
  by unfold_locales
    (use kinds_distinct in \<open>auto simp: next_opt_def Next_def is_kind_def terminal_def status_of_def split: if_splits\<close>)

lemma replay_run: "replay_from s ks = (s', None) \<longleftrightarrow> run next_opt s ks = Some s'"
  by (induction ks arbitrary: s) (auto simp: next_opt_def split: sum.splits)

lemma Replay_ok_iff: "snd (Replay ks) = None \<longleftrightarrow> legal_history False ks"
proof -
  have "snd (Replay ks) = None \<longleftrightarrow> (\<exists>s'. Replay ks = (s', None))" by (cases "Replay ks") auto
  also have "\<dots> \<longleftrightarrow> (\<exists>s'. run next_opt initial ks = Some s')" by (simp add: Replay_def replay_run)
  also have "\<dots> \<longleftrightarrow> legal_history False ks"
    using go.run_iff_legal [of initial ks] by (simp add: initial_def terminal_def)
  finally show ?thesis .
qed

lemma Replay_state:
  assumes "Replay ks = (s, None)"
  shows "Frozen s \<longleftrightarrow> Freeze \<in> set ks" and "Status s = (if ks = [] then NoStatus else status_of (last ks))"
proof -
  have r: "run next_opt initial ks = Some s" using assms by (simp add: Replay_def replay_run)
  show "Frozen s \<longleftrightarrow> Freeze \<in> set ks" using go.run_frozen [OF r] by (simp add: initial_def)
  show "Status s = (if ks = [] then NoStatus else status_of (last ks))"
    using go.run_status [OF r] r by (auto simp: initial_def)
qed

text \<open>A step the service takes extends a legal history to a legal history.\<close>

lemma Next_extends:
  assumes "Next (fst (Replay ks)) k = Inr s'" and "snd (Replay ks) = None"
  shows "Replay (ks @ [k]) = (s', None)"
proof -
  obtain s where s: "Replay ks = (s, None)" using assms(2) by (cases "Replay ks") auto
  then have "run next_opt initial ks = Some s" and "next_opt s k = Some s'"
    using assms(1) by (simp_all add: replay_run next_opt_def flip: Replay_def) (simp add: Replay_def replay_run)
  then have "run next_opt initial (ks @ [k]) = Some s'" by (simp add: go.run_append)
  then show ?thesis by (simp add: Replay_def replay_run)
qed

section \<open>Names and masks\<close>

lemma Kind_Name: "is_kind k \<Longrightarrow> Kind (Name k) = Some k"
  by (auto simp: is_kind_def Kind_def Name_def names_def kind_defs)

lemma Name_Kind: "Kind n = Some k \<Longrightarrow> Name k = n \<and> is_kind k"
  by (auto simp: is_kind_def Kind_def Name_def names_def kind_defs split: if_splits)

lemma Kind_cases: "Kind n = (if n = ''CREDIT'' then Some Credit else if n = ''HOLD'' then Some Hold
    else if n = ''FREEZE'' then Some Freeze else if n = ''RETURN'' then Some Return else None)"
  by (auto simp: Kind_def names_def)

lemma is_kind_range: "is_kind k \<longleftrightarrow> Credit \<le> k \<and> k \<le> Return"
proof
  assume "Credit \<le> k \<and> k \<le> Return"
  then have "unat k \<in> {1, 2, 3, 4}" by (auto simp: kind_defs word_le_nat_alt)
  then have "k \<in> {1, 2, 3, 4}" by (auto simp: unat_arith_simps)
  then show "is_kind k" by (auto simp: is_kind_def kind_defs)
qed (auto simp: is_kind_def kind_defs)

lemma Permits_iff: "Permits m k \<longleftrightarrow> is_kind k \<and> bit m (unat k - 1)"
proof (cases "is_kind k")
  case True
  have push: "and m (push_bit n 1) \<noteq> 0 \<longleftrightarrow> bit m n" for n
    by (simp add: bit_iff_and_push_bit_not_eq_0)
  have "unat (k - 1) = unat k - 1" "unat k - 1 < 8" using True by (auto simp: is_kind_def kind_defs)
  then show ?thesis using True push [of "unat k - 1"] by (simp add: Permits_def is_kind_range)
next
  case False
  then show ?thesis unfolding Permits_def is_kind_range by blast
qed

section \<open>The signed document determines the decision\<close>

lemma int_dec_inj: "int_dec i = int_dec j \<Longrightarrow> i = j"
proof -
  have minus: "nat_dec n \<noteq> CHR ''-'' # t" for n t
  proof
    assume "nat_dec n = CHR ''-'' # t"
    then have "is_digit CHR ''-''" using nat_dec_digits [of "CHR ''-''" n] by simp
    then show False by (simp add: is_digit_def)
  qed
  assume "int_dec i = int_dec j"
  then show ?thesis using minus minus [THEN not_sym] nat_dec_inj
    by (auto simp: int_dec_def split: if_splits dest!: nat_dec_inj)
qed

lemma hash_hex_inj: "hash_hex a = hash_hex b \<Longrightarrow> a = b"
  by (simp add: hash_hex_def hex_encode_inj)

lemma TypedData_inj:
  assumes "inj (addr_hex cr)" and "TypedData cr c v s = TypedData cr c' v' s'"
  shows "c = c' \<and> v = v' \<and> s = s'"
proof -
  have "PaymentID s = PaymentID s'" "DecisionKind s = DecisionKind s'" "DToken s = DToken s'" "Amount s = Amount s'"
    "DPackHash s = DPackHash s'" "Nonce s = Nonce s'" "Deadline s = Deadline s'" "c = c'" "v = v'"
    using assms(2) injD [OF assms(1)]
    by (auto simp: TypedData_def simp flip: word_unat_eq_iff dest!: hash_hex_inj nat_dec_inj int_dec_inj)
  then show ?thesis by simp
qed

section \<open>Signatures\<close>

text \<open>\<open>crypto.Sign\<close> and \<open>crypto.SigToPub\<close>: 65 bytes with v 0 or 1 that recover to the key's address.\<close>

definition signs_for :: "crypto \<Rightarrow> key_signer \<Rightarrow> bool" where
  "signs_for cr ks \<longleftrightarrow> (\<forall>d sig. raw_sign ks d = Some sig \<longrightarrow>
     length sig = 65 \<and> (of_char (sig ! 64) :: nat) \<le> 1 \<and> sig_to_addr cr d sig = Some (SignerAddress ks))"

lemma normal_v_lift:
  assumes "length sig = 65" and "(of_char (sig ! 64) :: nat) \<le> 1"
  shows "normal_v (sig[64 := char_of (of_char (sig ! 64) + 27 :: nat)]) = sig" and "normal_v sig = sig"
proof -
  have "(of_char (sig ! 64) :: nat) + 27 < 256" using assms(2) by simp
  then show "normal_v (sig[64 := char_of (of_char (sig ! 64) + 27 :: nat)]) = sig"
    using assms(1) by (simp add: normal_v_def Let_def)
  show "normal_v sig = sig" using assms(2) by (simp add: normal_v_def Let_def)
qed

lemma Recover_SignerSign:
  assumes "signs_for cr ks" and "SignerSign ks d = Some sig"
  shows "Recover cr d sig = Inr (SignerAddress ks)"
proof -
  obtain raw where raw: "raw_sign ks d = Some raw" and sig: "sig = raw[64 := char_of (of_char (raw ! 64) + 27 :: nat)]"
    using assms(2) by (auto simp: SignerSign_def)
  have "length raw = 65" "(of_char (raw ! 64) :: nat) \<le> 1" "sig_to_addr cr d raw = Some (SignerAddress ks)"
    using assms(1) raw by (auto simp: signs_for_def)
  then show ?thesis using normal_v_lift(1) [of raw] by (simp add: Recover_def sig)
qed

lemma VerifyOfficer_iff:
  "VerifyOfficer cr td sig k officers = Inr o' \<longleftrightarrow>
     (\<exists>d. typed_hash cr td = Some d \<and> Recover cr d sig = Inr (OfficerAddress o')
        \<and> find_first (\<lambda>x. OfficerAddress x = OfficerAddress o') officers = Some o' \<and> Permits (Mask o') k)"
proof
  assume "VerifyOfficer cr td sig k officers = Inr o'"
  then show "\<exists>d. typed_hash cr td = Some d \<and> Recover cr d sig = Inr (OfficerAddress o')
        \<and> find_first (\<lambda>x. OfficerAddress x = OfficerAddress o') officers = Some o' \<and> Permits (Mask o') k"
    by (auto simp: VerifyOfficer_def Digest_def res_simps dest: find_first_SomeD split: option.splits if_splits)
next
  assume "\<exists>d. typed_hash cr td = Some d \<and> Recover cr d sig = Inr (OfficerAddress o')
        \<and> find_first (\<lambda>x. OfficerAddress x = OfficerAddress o') officers = Some o' \<and> Permits (Mask o') k"
  then show "VerifyOfficer cr td sig k officers = Inr o'"
    by (elim exE conjE) (simp add: VerifyOfficer_def Digest_def)
qed

lemma VerifyOfficer_mem:
  "VerifyOfficer cr td sig k officers = Inr o' \<Longrightarrow> o' \<in> set officers \<and> is_kind k \<and> bit (Mask o') (unat k - 1)"
  by (auto simp: VerifyOfficer_iff Permits_iff dest: find_first_SomeD)

lemma VerifyApproval_iff:
  "VerifyApproval cr td sig mlro = Inr a \<longleftrightarrow>
     (\<exists>d. typed_hash cr td = Some d \<and> Recover cr d sig = Inr a \<and> a \<in> set mlro)"
  by (auto simp: VerifyApproval_def Digest_def res_simps split: if_splits)

section \<open>Properties\<close>

text \<open>C9 The decision histories the service accepts are exactly the legal ones: only known kinds, money
  is released at most once and by the last decision, and after a freeze there is neither a plain hold
  nor a return.\<close>

theorem replay_legal: "snd (Replay ks) = None \<longleftrightarrow> legal_history False ks"
  by (rule Replay_ok_iff)

text \<open>The replayed state is the one the history says: frozen exactly when the history has a freeze,
  with the status of the last decision; and it permits a next decision exactly when the extended history
  is legal.\<close>

theorem replay_state:
  "Replay ks = (s, None) \<Longrightarrow> (Frozen s \<longleftrightarrow> Freeze \<in> set ks)
     \<and> Status s = (if ks = [] then NoStatus else status_of (last ks))
     \<and> (is_ok (Next s k) \<longleftrightarrow> legal_history False (ks @ [k]))"
proof (intro conjI)
  assume r: "Replay ks = (s, None)"
  show "Frozen s \<longleftrightarrow> Freeze \<in> set ks" "Status s = (if ks = [] then NoStatus else status_of (last ks))"
    using Replay_state [OF r] by blast+
  have "run next_opt initial (ks @ [k]) = Option.bind (Some s) (\<lambda>s. run next_opt s [k])"
    using r by (simp only: go.run_append Replay_def replay_run)
  also have "\<dots> = next_opt s k" by (cases "next_opt s k") simp_all
  finally have n: "run next_opt initial (ks @ [k]) = next_opt s k" .
  have "(\<exists>t. run next_opt initial (ks @ [k]) = Some t) \<longleftrightarrow> legal_history False (ks @ [k])"
    using go.run_iff_legal [of initial "ks @ [k]"] by (simp add: initial_def terminal_def)
  then show "is_ok (Next s k) \<longleftrightarrow> legal_history False (ks @ [k])"
    unfolding n next_opt_def by (cases "Next s k") simp_all
qed

theorem replay_state_witness:
  "(Frozen \<lparr> Status = Held, Frozen = True \<rparr> \<longleftrightarrow> Freeze \<in> set [Hold, Freeze])
     \<and> Status \<lparr> Status = Held, Frozen = True \<rparr> = (if [Hold, Freeze] = [] then NoStatus else status_of (last [Hold, Freeze]))
     \<and> (is_ok (Next \<lparr> Status = Held, Frozen = True \<rparr> Credit) \<longleftrightarrow> legal_history False ([Hold, Freeze] @ [Credit]))"
  by (rule replay_state) (simp add: Replay_def initial_def Next_def kind_defs)

text \<open>An officer signs exactly one decision: two documents that are equal as typed data name the same
  chain, the same deposit account and the same decision in every field.\<close>

theorem typed_data_binds:
  "inj (addr_hex cr) \<Longrightarrow> TypedData cr c v s = TypedData cr c' v' s' \<Longrightarrow> c = c' \<and> v = v' \<and> s = s'"
  by (rule TypedData_inj)

theorem typed_data_binds_witness:
  "(1 :: 64 word) = 1 \<and> ''a'' = ''a'' \<and>
     \<lparr> PaymentID = ''p'', DecisionKind = Hold, DToken = ''t'', Amount = 5, DPackHash = ''h'', Nonce = 1, Deadline = 9 \<rparr>
     = \<lparr> PaymentID = ''p'', DecisionKind = Hold, DToken = ''t'', Amount = 5, DPackHash = ''h'', Nonce = 1, Deadline = 9 \<rparr>"
  by (rule typed_data_binds [where cr = "\<lparr> addr_hex = (\<lambda>a. ''0x'' @ a), typed_hash = (\<lambda>_. None), sig_to_addr = (\<lambda>_ _. None) \<rparr>"])
    (simp_all add: inj_def)

text \<open>An officer's signature is accepted exactly when the document hashes, the signature recovers to
  the officer's address, the officer is the first configured one with it, and the officer's mask permits
  the kind.\<close>

theorem officer_accepted_iff:
  "VerifyOfficer cr td sig k officers = Inr o' \<longleftrightarrow>
     (\<exists>d. typed_hash cr td = Some d \<and> Recover cr d sig = Inr (OfficerAddress o')
        \<and> find_first (\<lambda>x. OfficerAddress x = OfficerAddress o') officers = Some o'
        \<and> is_kind k \<and> bit (Mask o') (unat k - 1))"
  by (simp only: VerifyOfficer_iff Permits_iff)

text \<open>The service accepts its own signatures: what \<open>KeySigner.Sign\<close> returns recovers to the signer's
  address, with v moved to 27 or 28.\<close>

theorem own_signature_recovers:
  "signs_for cr ks \<Longrightarrow> SignerSign ks d = Some sig \<Longrightarrow> Recover cr d sig = Inr (SignerAddress ks)"
  by (rule Recover_SignerSign)

theorem own_signature_recovers_witness:
  "Recover \<lparr> addr_hex = (\<lambda>a. a), typed_hash = (\<lambda>_. None), sig_to_addr = (\<lambda>d s. Some ''me'') \<rparr> ''d''
     ((replicate 64 (char_of (9 :: nat)) @ [char_of (28 :: nat)])) = Inr (SignerAddress \<lparr> SignerAddress = ''me'',
       raw_sign = (\<lambda>d. Some (replicate 64 (char_of (9 :: nat)) @ [char_of (1 :: nat)])) \<rparr>)"
proof (rule own_signature_recovers)
  show "signs_for \<lparr> addr_hex = (\<lambda>a. a), typed_hash = (\<lambda>_. None), sig_to_addr = (\<lambda>d s. Some ''me'') \<rparr>
    \<lparr> SignerAddress = ''me'', raw_sign = (\<lambda>d. Some (replicate 64 (char_of (9 :: nat)) @ [char_of (1 :: nat)])) \<rparr>"
    by (simp add: signs_for_def nth_append)
  show "SignerSign \<lparr> SignerAddress = ''me'', raw_sign = (\<lambda>d. Some (replicate 64 (char_of (9 :: nat)) @ [char_of (1 :: nat)])) \<rparr> ''d''
    = Some (replicate 64 (char_of (9 :: nat)) @ [char_of (28 :: nat)])"
    by (simp add: SignerSign_def nth_append list_update_append)
qed

end
