(* ===== verification/Hub.thy ===== *)
theory Hub
  imports Decision
begin

text \<open>
  The on-chain counterpart of the decision table: \<open>ProcessorHub._execute\<close> of
  contracts/src/processor/ProcessorHub.sol with \<open>DepositAccount.release\<close>. The hash functions,
  signature recovery and account addresses are fields of \<open>hub_env\<close>; the ERC-20 balances are part
  of the state. A revert is an error value.

  The lemmas: a successful execution takes the step \<open>Next\<close> allows (so the table of the service
  and of the contract agree); the reserved amount of an account never exceeds its balance and is the sum of
  what is held there (\<open>backed\<close>), so a decision to release a held payment goes through.
\<close>

record hub_payment =
  HPayer :: address
  HNonce :: "64 word"
  HStatus :: status
  HToken :: address
  HAmount :: int
  HPackHash :: hash
  HLock :: hash

record hub =
  pool :: address
  signerMask :: "address \<Rightarrow> 8 word"
  payments :: "hash \<Rightarrow> hub_payment"
  reserved :: "address \<Rightarrow> address \<Rightarrow> int"
  balances :: "address \<Rightarrow> address \<Rightarrow> int"

record hub_env =
  accountOf :: "address \<Rightarrow> address"
  decisionDigest :: "address \<Rightarrow> decision \<Rightarrow> hash"
  ec_recover :: "hash \<Rightarrow> string \<Rightarrow> address option"
  lockCommitment :: "hash \<Rightarrow> 64 word \<Rightarrow> hash"

datatype hub_err =
    UnknownDecision | Expired | BadSignature | HubNotPermitted address | InsufficientFree | Terminal | Mismatch
  | StaleNonce | HubFrozen | Panic | TransferFailed

definition zero_hash :: hash where
  "zero_hash = replicate 32 (char_of (0 :: nat))"

definition upd2 :: "('a \<Rightarrow> 'b \<Rightarrow> 'c) \<Rightarrow> 'a \<Rightarrow> 'b \<Rightarrow> 'c \<Rightarrow> 'a \<Rightarrow> 'b \<Rightarrow> 'c" where
  "upd2 f a b c = f(a := (f a)(b := c))"

text \<open>\<open>release\<close>: a transfer out of the account to the pool or the payer.\<close>

definition release :: "hub \<Rightarrow> address \<Rightarrow> address \<Rightarrow> address \<Rightarrow> int \<Rightarrow> (hub_err, hub) res" where
  "release st account dest tok amount =
     (if balances st tok account < amount then Inl TransferFailed
      else let b1 = upd2 (balances st) tok account (balances st tok account - amount)
           in Inr (st\<lparr>balances := upd2 b1 tok dest (b1 tok dest + amount)\<rparr>))"

text \<open>The guards before any effect, and the record with payer, token and amount fixed.\<close>

definition admit :: "hub \<Rightarrow> address \<Rightarrow> address \<Rightarrow> decision \<Rightarrow> (hub_err, hub_payment) res" where
  "admit st account payer d = (let p = payments st (PaymentID d) in
     if HStatus p = NoStatus
     then (if balances st (DToken d) account < reserved st account (DToken d) then Inl Panic
           else if balances st (DToken d) account - reserved st account (DToken d) < Amount d then Inl InsufficientFree
           else Inr (p\<lparr>HPayer := payer, HToken := DToken d, HAmount := Amount d\<rparr>))
     else if HStatus p \<noteq> Held then Inl Terminal
     else if HPayer p \<noteq> payer \<or> HToken p \<noteq> DToken d \<or> HAmount p \<noteq> Amount d then Inl Mismatch
     else Inr p)"

definition execute :: "hub_env \<Rightarrow> nat \<Rightarrow> hub \<Rightarrow> address \<Rightarrow> decision \<Rightarrow> string \<Rightarrow> (hub_err, hub) res" where
  "execute env now st payer d sig =
     (let k = DecisionKind d; account = accountOf env payer; tok = DToken d in
      if \<not> is_kind k then Inl UnknownDecision
      else if unat (Deadline d) < now then Inl Expired
      else (case ec_recover env (decisionDigest env account d) sig of
        None \<Rightarrow> Inl BadSignature
      | Some signer \<Rightarrow>
          if \<not> Permits (signerMask st signer) k then Inl (HubNotPermitted signer)
          else and_then (admit st account payer d) (\<lambda>p.
            if Nonce d \<le> HNonce p then Inl StaleNonce
            else
              let held = HStatus p = Held in
              if HLock p \<noteq> zero_hash \<and> (k = Return \<or> k = Hold) then Inl HubFrozen
              else
                let p1 = p\<lparr>HNonce := Nonce d, HPackHash := DPackHash d\<rparr> in
                if k = Hold \<or> k = Freeze
                then
                  Inr (st\<lparr>reserved := (if held then reserved st else upd2 (reserved st) account tok (reserved st account tok + Amount d)),
                     payments := (payments st)(PaymentID d := p1\<lparr>HStatus := Held,
                        HLock := (if k = Freeze then lockCommitment env (DPackHash d) (Nonce d) else HLock p1)\<rparr>)\<rparr>)
                else if held \<and> reserved st account tok < Amount d then Inl Panic
                else
                  release (st\<lparr>reserved := (if held then upd2 (reserved st) account tok (reserved st account tok - Amount d) else reserved st),
                     payments := (payments st)(PaymentID d := p1\<lparr>HStatus := (if k = Credit then Credited else Returned)\<rparr>)\<rparr>)
                    account (if k = Credit then pool st else payer) tok (Amount d))))"

section \<open>The contract takes exactly the service's transitions\<close>

definition hub_state :: "hub_payment \<Rightarrow> state" where
  "hub_state p = \<lparr> Status = HStatus p, Frozen = HLock p \<noteq> zero_hash \<rparr>"

lemma admit_fields: "admit st account payer d = Inr p \<Longrightarrow>
    HStatus p = HStatus (payments st (PaymentID d)) \<and> HLock p = HLock (payments st (PaymentID d))
    \<and> HNonce p = HNonce (payments st (PaymentID d)) \<and> (HStatus p = NoStatus \<or> HStatus p = Held)"
  by (auto simp: admit_def Let_def split: if_splits)

lemma release_payments: "release st a dest tok n = Inr st' \<Longrightarrow> payments st' = payments st \<and> reserved st' = reserved st"
  by (auto simp: release_def Let_def split: if_splits)

text \<open>What a successful execution did.\<close>

lemma execute_cases:
  assumes "execute env now st payer d sig = Inr st'"
  obtains p where "is_kind (DecisionKind d)" and "admit st (accountOf env payer) payer d = Inr p"
    and "HNonce p < Nonce d" and "now \<le> unat (Deadline d)"
    and "HLock p \<noteq> zero_hash \<Longrightarrow> DecisionKind d \<noteq> Return \<and> DecisionKind d \<noteq> Hold"
    and "payments st' = (payments st)(PaymentID d := p\<lparr>HNonce := Nonce d, HPackHash := DPackHash d,
       HStatus := status_of (DecisionKind d),
       HLock := (if DecisionKind d = Freeze then lockCommitment env (DPackHash d) (Nonce d) else HLock p)\<rparr>)"
proof -
  have ex: "\<exists>p. is_kind (DecisionKind d) \<and> admit st (accountOf env payer) payer d = Inr p
    \<and> HNonce p < Nonce d \<and> now \<le> unat (Deadline d)
    \<and> (HLock p \<noteq> zero_hash \<longrightarrow> DecisionKind d \<noteq> Return \<and> DecisionKind d \<noteq> Hold)
    \<and> payments st' = (payments st)(PaymentID d := p\<lparr>HNonce := Nonce d, HPackHash := DPackHash d,
       HStatus := status_of (DecisionKind d),
       HLock := (if DecisionKind d = Freeze then lockCommitment env (DPackHash d) (Nonce d) else HLock p)\<rparr>)"
    using assms kinds_distinct unfolding execute_def Let_def
    by (auto simp: res_simps is_kind_def status_of_def not_le dest!: release_payments split: if_splits option.splits)
  then show ?thesis using that by blast
qed

lemma execute_Next:
  assumes "execute env now st payer d sig = Inr st'"
    and "lockCommitment env (DPackHash d) (Nonce d) \<noteq> zero_hash"
  shows "Next (hub_state (payments st (PaymentID d))) (DecisionKind d) = Inr (hub_state (payments st' (PaymentID d)))"
  using assms(1)
proof (rule execute_cases)
  fix p
  assume k: "is_kind (DecisionKind d)" and ad: "admit st (accountOf env payer) payer d = Inr p"
    and fr: "HLock p \<noteq> zero_hash \<Longrightarrow> DecisionKind d \<noteq> Return \<and> DecisionKind d \<noteq> Hold"
    and st': "payments st' = (payments st)(PaymentID d := p\<lparr>HNonce := Nonce d, HPackHash := DPackHash d,
       HStatus := status_of (DecisionKind d),
       HLock := (if DecisionKind d = Freeze then lockCommitment env (DPackHash d) (Nonce d) else HLock p)\<rparr>)"
  note fields = admit_fields [OF ad]
  show ?thesis
    using k fields fr kinds_distinct assms(2) unfolding is_kind_def
    by (elim disjE) (auto simp: st' Next_def hub_state_def status_of_def)
qed

lemma execute_other: "execute env now st payer d sig = Inr st' \<Longrightarrow> i \<noteq> PaymentID d \<Longrightarrow> payments st' i = payments st i"
  by (erule execute_cases) simp

lemma execute_nonce: "execute env now st payer d sig = Inr st' \<Longrightarrow>
    HNonce (payments st (PaymentID d)) < Nonce d \<and> HNonce (payments st' (PaymentID d)) = Nonce d"
  by (erule execute_cases) (auto dest: admit_fields)

section \<open>Sequences of executions\<close>

record hub_call =
  c_now :: nat
  c_payer :: address
  c_decision :: decision
  c_sig :: string

text \<open>The calls that are executed; reverted calls leave no trace.\<close>

fun executed :: "hub_env \<Rightarrow> hub \<Rightarrow> hub_call list \<Rightarrow> hub_call list \<times> hub" where
  "executed env st [] = ([], st)"
| "executed env st (c # cs) = (case execute env (c_now c) st (c_payer c) (c_decision c) (c_sig c) of
     Inl e \<Rightarrow> executed env st cs
   | Inr st' \<Rightarrow> (case executed env st' cs of (ds, st2) \<Rightarrow> (c # ds, st2)))"

definition kinds_for :: "hash \<Rightarrow> hub_call list \<Rightarrow> kind list" where
  "kinds_for i cs = map (\<lambda>c. DecisionKind (c_decision c)) (filter (\<lambda>c. PaymentID (c_decision c) = i) cs)"

lemma executed_run:
  assumes "\<And>h n. lockCommitment env h n \<noteq> zero_hash" and "executed env st cs = (ds, st')"
  shows "run next_opt (hub_state (payments st i)) (kinds_for i ds) = Some (hub_state (payments st' i))"
  using assms(2)
proof (induction cs arbitrary: st ds)
  case Nil
  then show ?case by (simp add: kinds_for_def)
next
  case (Cons c cs)
  show ?case
  proof (cases "execute env (c_now c) st (c_payer c) (c_decision c) (c_sig c)")
    case (Inl e)
    then show ?thesis using Cons by simp
  next
    case (Inr st1)
    obtain es where es: "executed env st1 cs = (es, st')" "ds = c # es"
      using Cons.prems Inr by (auto split: prod.splits)
    note IH = Cons.IH [OF es(1)]
    show ?thesis
    proof (cases "PaymentID (c_decision c) = i")
      case True
      then have "Next (hub_state (payments st i)) (DecisionKind (c_decision c)) = Inr (hub_state (payments st1 i))"
        using execute_Next [OF Inr assms(1)] by simp
      then show ?thesis using True IH by (simp add: es(2) kinds_for_def next_opt_def)
    next
      case False
      then show ?thesis using execute_other [OF Inr] IH by (simp add: es(2) kinds_for_def)
    qed
  qed
qed

section \<open>Reserved funds are there\<close>

definition solvent :: "hub \<Rightarrow> bool" where
  "solvent st \<longleftrightarrow> (\<forall>a t. 0 \<le> reserved st a t \<and> reserved st a t \<le> balances st t a)"

lemma admit_free:
  "admit st account payer d = Inr p \<Longrightarrow> HStatus p = NoStatus \<Longrightarrow>
     Amount d \<le> balances st (DToken d) account - reserved st account (DToken d)"
  by (auto simp: admit_def Let_def split: if_splits)

lemma release_solvent:
  assumes "release st account dest tok n = Inr st'" and "0 \<le> n"
    and "\<And>a t. 0 \<le> reserved st a t \<and> reserved st a t + (if a = account \<and> t = tok then n else 0) \<le> balances st t a"
  shows "solvent st'"
proof -
  let ?b1 = "upd2 (balances st) tok account (balances st tok account - n)"
  have st': "st' = st\<lparr>balances := upd2 ?b1 tok dest (?b1 tok dest + n)\<rparr>"
    using assms(1) by (simp add: release_def Let_def split: if_splits)
  have "0 \<le> reserved st a t \<and> reserved st a t \<le> upd2 ?b1 tok dest (?b1 tok dest + n) t a" for a t
    using assms(3) [of a t] assms(2) by (auto simp: upd2_def split: if_splits)
  then show ?thesis by (simp add: solvent_def st')
qed

lemma execute_solvent:
  assumes "execute env now st payer d sig = Inr st'" and "solvent st" and "0 \<le> Amount d"
  shows "solvent st'"
proof -
  let ?a = "accountOf env payer" and ?t = "DToken d" and ?n = "Amount d"
  obtain p where ad: "admit st ?a payer d = Inr p"
    using execute_cases [OF assms(1)] by metis
  have sol: "0 \<le> reserved st a t" "reserved st a t \<le> balances st t a" for a t
    using assms(2) by (simp_all add: solvent_def)
  show ?thesis
  proof (cases "DecisionKind d = Hold \<or> DecisionKind d = Freeze")
    case True
    then obtain ps where st': "st' = st\<lparr>reserved := (if HStatus p = Held then reserved st
        else upd2 (reserved st) ?a ?t (reserved st ?a ?t + ?n)), payments := ps\<rparr>"
      using assms(1) ad unfolding execute_def Let_def
      by (auto simp: res_simps split: if_splits option.splits)
    show ?thesis
    proof (cases "HStatus p = Held")
      case True
      then show ?thesis using sol by (simp add: solvent_def st')
    next
      case False
      then have "HStatus p = NoStatus" using admit_fields [OF ad] by auto
      then show ?thesis using False sol admit_free [OF ad] assms(3) by (auto simp: solvent_def st' upd2_def)
    qed
  next
    case False
    then obtain ps dest where rel: "release (st\<lparr>reserved := (if HStatus p = Held then upd2 (reserved st) ?a ?t (reserved st ?a ?t - ?n)
        else reserved st), payments := ps\<rparr>) ?a dest ?t ?n = Inr st'" and res: "HStatus p = Held \<Longrightarrow> ?n \<le> reserved st ?a ?t"
      using assms(1) ad unfolding execute_def Let_def
      by (auto simp: res_simps split: if_splits option.splits)
    show ?thesis
    proof (cases "HStatus p = Held")
      case True
      show ?thesis
        by (rule release_solvent [OF rel assms(3)]) (use True sol res in \<open>auto simp: upd2_def\<close>)
    next
      case False
      then have "HStatus p = NoStatus" using admit_fields [OF ad] by auto
      then have "?n \<le> balances st ?t ?a - reserved st ?a ?t" using admit_free [OF ad] by simp
      then show ?thesis
        by (intro release_solvent [OF rel assms(3)]) (use False sol in auto)
    qed
  qed
qed

section \<open>What is reserved is what is held\<close>

definition held_ids :: "(hash \<Rightarrow> hub_payment) \<Rightarrow> hash set" where
  "held_ids ps = {i. HStatus (ps i) = Held}"

text \<open>The amounts of a token held for the payers of one deposit account.\<close>

definition held_sum :: "hub_env \<Rightarrow> (hash \<Rightarrow> hub_payment) \<Rightarrow> address \<Rightarrow> address \<Rightarrow> int" where
  "held_sum env ps a tok = (\<Sum>i | HStatus (ps i) = Held \<and> accountOf env (HPayer (ps i)) = a \<and> HToken (ps i) = tok. HAmount (ps i))"

definition backed :: "hub_env \<Rightarrow> hub \<Rightarrow> bool" where
  "backed env st \<longleftrightarrow> finite (held_ids (payments st)) \<and> (\<forall>i\<in>held_ids (payments st). 0 \<le> HAmount (payments st i))
     \<and> (\<forall>a tok. reserved st a tok = held_sum env (payments st) a tok)"

definition held_part :: "hub_env \<Rightarrow> address \<Rightarrow> address \<Rightarrow> hub_payment \<Rightarrow> int" where
  "held_part env a tok p = (if HStatus p = Held \<and> accountOf env (HPayer p) = a \<and> HToken p = tok then HAmount p else 0)"

lemma held_sum_over:
  assumes "finite S" and "held_ids ps \<subseteq> S"
  shows "held_sum env ps a tok = (\<Sum>i\<in>S. held_part env a tok (ps i))"
proof -
  have "held_sum env ps a tok = (\<Sum>i | HStatus (ps i) = Held \<and> accountOf env (HPayer (ps i)) = a \<and> HToken (ps i) = tok. held_part env a tok (ps i))"
    unfolding held_sum_def by (intro sum.cong) (simp_all add: held_part_def)
  also have "\<dots> = (\<Sum>i\<in>S. held_part env a tok (ps i))"
    using assms by (intro sum.mono_neutral_left) (auto simp: held_ids_def held_part_def)
  finally show ?thesis .
qed

lemma held_sum_upd:
  assumes "finite (held_ids ps)"
  shows "held_sum env (ps(i := q)) a tok = held_sum env ps a tok - held_part env a tok (ps i) + held_part env a tok q"
proof -
  let ?S = "insert i (held_ids ps)"
  have f: "finite ?S" "held_ids ps \<subseteq> ?S" "held_ids (ps(i := q)) \<subseteq> ?S" using assms by (auto simp: held_ids_def)
  have "(\<Sum>j\<in>?S. held_part env a tok ((ps(i := q)) j)) = held_part env a tok q + (\<Sum>j\<in>?S - {i}. held_part env a tok (ps j))"
    using f(1) by (simp add: sum.remove [of ?S i])
  moreover have "(\<Sum>j\<in>?S. held_part env a tok (ps j)) = held_part env a tok (ps i) + (\<Sum>j\<in>?S - {i}. held_part env a tok (ps j))"
    using f(1) by (simp add: sum.remove [of ?S i])
  ultimately show ?thesis unfolding held_sum_over [OF f(1,2)] held_sum_over [OF f(1,3)] by simp
qed

lemma held_upd: "finite (held_ids ps) \<Longrightarrow> finite (held_ids (ps(i := q)))"
  by (rule finite_subset [of _ "insert i (held_ids ps)"]) (auto simp: held_ids_def)

lemma execute_reserved:
  assumes "execute env now st payer d sig = Inr st'" and ad: "admit st (accountOf env payer) payer d = Inr p"
  shows "reserved st' = (let a = accountOf env payer; tok = DToken d in
      if DecisionKind d = Hold \<or> DecisionKind d = Freeze
      then (if HStatus p = Held then reserved st else upd2 (reserved st) a tok (reserved st a tok + Amount d))
      else (if HStatus p = Held then upd2 (reserved st) a tok (reserved st a tok - Amount d) else reserved st))"
  using assms unfolding execute_def Let_def
  by (auto simp: res_simps dest!: release_payments split: if_splits option.splits)

lemma admit_record:
  "admit st account payer d = Inr p \<Longrightarrow> HPayer p = payer \<and> HToken p = DToken d \<and> HAmount p = Amount d
     \<and> (HStatus p = Held \<longrightarrow> payments st (PaymentID d) = p)"
  by (auto simp: admit_def Let_def split: if_splits)

lemma execute_backed:
  assumes ex: "execute env now st payer d sig = Inr st'" and b: "backed env st" and n: "0 \<le> Amount d"
  shows "backed env st'"
  using ex
proof (rule execute_cases)
  fix p :: hub_payment
  let ?a = "accountOf env payer" and ?i = "PaymentID d"
  let ?q = "p\<lparr>HNonce := Nonce d, HPackHash := DPackHash d, HStatus := status_of (DecisionKind d),
       HLock := (if DecisionKind d = Freeze then lockCommitment env (DPackHash d) (Nonce d) else HLock p)\<rparr>"
  assume k: "is_kind (DecisionKind d)" and ad: "admit st ?a payer d = Inr p" and st': "payments st' = (payments st)(?i := ?q)"
  note r = execute_reserved [OF ex ad] and f = admit_fields [OF ad] and p = admit_record [OF ad]
  have fin: "finite (held_ids (payments st))" using b by (simp add: backed_def)
  have same: "reserved st a tok = held_sum env (payments st) a tok" for a tok using b by (simp add: backed_def)
  have "held_part env a tok (payments st ?i) = (if HStatus p = Held \<and> ?a = a \<and> DToken d = tok then Amount d else 0)" for a tok
    using f p by (auto simp: held_part_def)
  moreover have "held_part env a tok ?q = (if (DecisionKind d = Hold \<or> DecisionKind d = Freeze) \<and> ?a = a \<and> DToken d = tok then Amount d else 0)" for a tok
    using k kinds_distinct p by (auto simp: held_part_def status_of_def is_kind_def)
  ultimately have "reserved st' a tok = held_sum env (payments st') a tok" for a tok
    unfolding st' held_sum_upd [OF fin] by (auto simp: r Let_def upd2_def same)
  moreover have "0 \<le> HAmount (payments st' i)" if "i \<in> held_ids (payments st')" for i
    using that b n p by (cases "i = ?i") (auto simp: backed_def held_ids_def st')
  ultimately show ?thesis using held_upd [OF fin] by (simp add: backed_def st')
qed

text \<open>A decision to release a held payment: the record's token and amount, a newer nonce, in time, signed by
  someone permitted to decide so; a return only while nothing is locked.\<close>

definition releasable :: "hub_env \<Rightarrow> nat \<Rightarrow> hub \<Rightarrow> decision \<Rightarrow> string \<Rightarrow> bool" where
  "releasable env now st d sig \<longleftrightarrow> (let p = payments st (PaymentID d) in
     HStatus p = Held \<and> (DecisionKind d = Credit \<or> DecisionKind d = Return \<and> HLock p = zero_hash)
     \<and> DToken d = HToken p \<and> Amount d = HAmount p \<and> HNonce p < Nonce d \<and> now \<le> unat (Deadline d)
     \<and> (case ec_recover env (decisionDigest env (accountOf env (HPayer p)) d) sig of
          None \<Rightarrow> False | Some signer \<Rightarrow> Permits (signerMask st signer) (DecisionKind d)))"

lemma held_is_reserved:
  assumes "backed env st" and "HStatus (payments st i) = Held"
  shows "HAmount (payments st i) \<le> reserved st (accountOf env (HPayer (payments st i))) (HToken (payments st i))"
proof -
  let ?p = "payments st i"
  let ?f = "\<lambda>j. held_part env (accountOf env (HPayer ?p)) (HToken ?p) (payments st j)"
  have f: "finite (held_ids (payments st))" and i: "i \<in> held_ids (payments st)" using assms by (simp_all add: backed_def held_ids_def)
  have "0 \<le> ?f j" if "j \<in> held_ids (payments st)" for j using assms(1) that by (simp add: backed_def held_part_def)
  then have "?f i \<le> (\<Sum>j\<in>held_ids (payments st). ?f j)" using member_le_sum [OF i _ f, of ?f] by simp
  moreover have "?f i = HAmount ?p" using assms(2) by (simp add: held_part_def)
  ultimately show ?thesis using assms(1) held_sum_over [OF f order_refl] by (simp add: backed_def)
qed

lemma execute_money:
  assumes "execute env now st payer d sig = Inr st'"
  shows "DecisionKind d = Hold \<or> DecisionKind d = Freeze \<Longrightarrow> balances st' = balances st"
    and "\<not> (DecisionKind d = Hold \<or> DecisionKind d = Freeze) \<Longrightarrow> DecisionKind d = Credit \<or> DecisionKind d = Return"
    and "\<not> (DecisionKind d = Hold \<or> DecisionKind d = Freeze) \<Longrightarrow> Amount d \<le> balances st (DToken d) (accountOf env payer)
      \<and> balances st' = (let b = upd2 (balances st) (DToken d) (accountOf env payer) (balances st (DToken d) (accountOf env payer) - Amount d);
           dest = (if DecisionKind d = Credit then pool st else payer)
         in upd2 b (DToken d) dest (b (DToken d) dest + Amount d))"
  using assms unfolding execute_def Let_def is_kind_def
  by (auto simp: res_simps release_def Let_def split: if_splits option.splits)

lemma held_can_be_released:
  assumes "backed env st" and "solvent st" and "releasable env now st d sig"
  shows "\<exists>st'. execute env now st (HPayer (payments st (PaymentID d))) d sig = Inr st'
    \<and> HStatus (payments st' (PaymentID d)) = status_of (DecisionKind d)
    \<and> (let a = accountOf env (HPayer (payments st (PaymentID d))); dest = (if DecisionKind d = Credit then pool st else HPayer (payments st (PaymentID d)))
       in reserved st' a (DToken d) = reserved st a (DToken d) - Amount d
        \<and> (dest \<noteq> a \<longrightarrow> balances st' (DToken d) a = balances st (DToken d) a - Amount d
             \<and> balances st' (DToken d) dest = balances st (DToken d) dest + Amount d))"
proof -
  let ?p = "payments st (PaymentID d)"
  let ?a = "accountOf env (HPayer ?p)"
  have r: "HStatus ?p = Held" "DecisionKind d = Credit \<or> DecisionKind d = Return \<and> HLock ?p = zero_hash" "DToken d = HToken ?p"
      "Amount d = HAmount ?p" "HNonce ?p < Nonce d" "now \<le> unat (Deadline d)"
    using assms(3) by (simp_all add: releasable_def Let_def)
  obtain signer where signer: "ec_recover env (decisionDigest env ?a d) sig = Some signer" "Permits (signerMask st signer) (DecisionKind d)"
    using assms(3) by (auto simp: releasable_def Let_def split: option.splits)
  have res: "Amount d \<le> reserved st ?a (DToken d)" using held_is_reserved [OF assms(1) r(1)] r(3,4) by simp
  also have "\<dots> \<le> balances st (DToken d) ?a" using assms(2) by (simp add: solvent_def)
  finally have bal: "Amount d \<le> balances st (DToken d) ?a" .
  have ad: "admit st ?a (HPayer ?p) d = Inr ?p" using r by (simp add: admit_def Let_def)
  moreover have k:  "is_kind (DecisionKind d)" "\<not> (DecisionKind d = Hold \<or> DecisionKind d = Freeze)"
    using r(2) kinds_distinct by (auto simp: is_kind_def)
  ultimately have "is_ok (execute env now st (HPayer ?p) d sig)"
    using r signer res bal kinds_distinct
    by (auto simp: execute_def release_def Let_def is_ok_iff not_le not_less)
  then obtain st' where st': "execute env now st (HPayer ?p) d sig = Inr st'" by (auto simp: is_ok_iff)
  then have "HStatus (payments st' (PaymentID d)) = status_of (DecisionKind d)" by (rule execute_cases) simp
  moreover have "reserved st' ?a (DToken d) = reserved st ?a (DToken d) - Amount d"
    using k(2) r(1) by (simp add: execute_reserved [OF st' ad] Let_def upd2_def)
  ultimately show ?thesis using st' execute_money(3) [OF st' k(2)] by (simp add: Let_def upd2_def)
qed

section \<open>Properties\<close>

text \<open>The processor contract executes only histories the service could have decided: whatever calls it
  receives, the decisions executed for a payment extend its history step by step through the service's
  transition table.\<close>

theorem hub_refines_service:
  "(\<And>h n. lockCommitment env h n \<noteq> zero_hash) \<Longrightarrow> executed env st cs = (ds, st')
     \<Longrightarrow> run next_opt (hub_state (hub.payments st i)) (kinds_for i ds) = Some (hub_state (hub.payments st' i))"
  by (rule executed_run)

definition sample_hub_env :: hub_env where
  "sample_hub_env = \<lparr> accountOf = (\<lambda>p. ''acc''), decisionDigest = (\<lambda>a d. ''d''), ec_recover = (\<lambda>d s. Some ''officer''),
     lockCommitment = (\<lambda>h n. ''lock'') \<rparr>"

definition sample_hub :: hub where
  "sample_hub = \<lparr> pool = ''pool'', signerMask = (\<lambda>_. 15),
     payments = (\<lambda>_. \<lparr> HPayer = [], HNonce = 0, HStatus = NoStatus, HToken = [], HAmount = 0, HPackHash = [], HLock = zero_hash \<rparr>),
     reserved = (\<lambda>_ _. 0), balances = (\<lambda>t a. if a = ''acc'' then 10 else 0) \<rparr>"

definition sample_call :: hub_call where
  "sample_call = \<lparr> c_now = 0, c_payer = ''payer'', c_decision = \<lparr> PaymentID = ''p'', DecisionKind = Hold, DToken = ''t'', Amount = 5,
     DPackHash = ''h'', Nonce = 1, Deadline = 9 \<rparr>, c_sig = ''s'' \<rparr>"

lemma sample_execution:
  "\<exists>st'. execute sample_hub_env (c_now sample_call) sample_hub (c_payer sample_call) (c_decision sample_call) (c_sig sample_call) = Inr st'"
proof -
  have k: "is_kind Hold" by (simp add: is_kind_def)
  have p: "Permits 15 Hold" by (simp add: Permits_def kind_defs)
  have n: "Hold \<noteq> Return" "Hold \<noteq> Credit" using kinds_distinct by auto
  show ?thesis using k p n
    by (simp add: execute_def sample_hub_env_def sample_hub_def sample_call_def admit_def Let_def)
qed

theorem hub_refines_service_witness:
  "\<exists>st'. executed sample_hub_env sample_hub [sample_call] = ([sample_call], st')
     \<and> run next_opt (hub_state (hub.payments sample_hub ''p'')) (kinds_for ''p'' [sample_call]) = Some (hub_state (hub.payments st' ''p''))"
proof -
  obtain st' where e: "executed sample_hub_env sample_hub [sample_call] = ([sample_call], st')"
    using sample_execution by auto
  have "lockCommitment sample_hub_env h n \<noteq> zero_hash" for h n
    by (simp add: sample_hub_env_def zero_hash_def numeral_eq_Suc)
  from hub_refines_service [OF this e] e show ?thesis by blast
qed

text \<open>The contract stays solvent: no execution makes a reservation exceed the account's balance.\<close>

theorem hub_stays_solvent:
  "execute env now st payer d sig = Inr st' \<Longrightarrow> solvent st \<Longrightarrow> 0 \<le> Amount d \<Longrightarrow> solvent st'"
  by (rule execute_solvent)

theorem hub_stays_solvent_witness:
  "\<exists>st'. execute sample_hub_env (c_now sample_call) sample_hub (c_payer sample_call) (c_decision sample_call) (c_sig sample_call) = Inr st'
     \<and> solvent st'"
proof -
  obtain st' where e: "execute sample_hub_env (c_now sample_call) sample_hub (c_payer sample_call) (c_decision sample_call) (c_sig sample_call) = Inr st'"
    using sample_execution by blast
  have "solvent sample_hub" "0 \<le> Amount (c_decision sample_call)" by (simp_all add: solvent_def sample_hub_def sample_call_def)
  from hub_stays_solvent [OF e this] e show ?thesis by blast
qed

end
