(* ===== verification/Rules.thy ===== *)
theory Rules
  imports Hub
begin

text \<open>
  The recommendation engine: compliance-backend/internal/rules/rules.go. A failed type assertion and
  the missing default rule are the error \<open>Panic\<close> of the result. \<open>struct_of\<close> functions
  model how \<open>encoding/json\<close> fills the structs (field names match without regard to ASCII case,
  null is skipped, unknown fields and wrong types are errors) from the decoded value.

  The lemmas: a validated ruleset never panics and its recommendation is the first matching rule's,
  one of the four decisions with at least one reason; the input hash commits to the inputs.
\<close>

section \<open>Rulesets\<close>

record condition =
  Field :: string
  Op :: string
  Val :: jval

record rule =
  RID :: string
  When :: "condition list"
  RRecommend :: string
  RReasons :: "string list"
  RAuto :: bool

record ruleset =
  RVersion :: string
  Rules :: "rule list"

record inputs =
  KYT :: string
  Sanctions :: string
  Structuring :: string
  Issuer :: string
  AnyUnavailable :: bool
  AmountEUR :: string

record recommendation =
  Recommendation :: string
  Reasons :: "string list"
  PolicyRef :: string
  RuleID :: string
  Auto :: bool

definition enums :: "(string, string list) gomap" where
  "enums = [
     (''kyt.risk_level'', [''LOW'', ''MEDIUM'', ''HIGH'', ''SEVERE'', ''UNAVAILABLE'']),
     (''sanctions.result'', [''NO_MATCH'', ''TRUE_MATCH'', ''UNAVAILABLE'']),
     (''structuring.result'', [''PASS'', ''FLAG'', ''UNAVAILABLE'']),
     (''issuer.result'', [''NOT_LISTED'', ''LISTED'', ''UNAVAILABLE''])]"

definition Decisions :: "string list" where
  "Decisions = [''CREDIT'', ''HOLD'', ''FREEZE'', ''RETURN'']"

section \<open>Validation\<close>

datatype cond_err = NeedsOneOf string | NeedsList string | NotOneOf string | NoSuchOp string string
  | TakesBool | TakesDecimal | UnknownField string

definition allowed_str :: "string list \<Rightarrow> jval \<Rightarrow> bool" where
  "allowed_str allowed v = (case v of JStr s \<Rightarrow> s \<in> set allowed | _ \<Rightarrow> False)"

text \<open>A failed assertion leaves the empty string, which is not a decimal.\<close>

definition str_or_empty :: "jval \<Rightarrow> string" where
  "str_or_empty v = (case v of JStr s \<Rightarrow> s | _ \<Rightarrow> [])"

definition validate_cond :: "condition \<Rightarrow> cond_err option" where
  "validate_cond c = (case map_of enums (Field c) of
     Some allowed \<Rightarrow>
       if Op c = ''eq'' then (if allowed_str allowed (Val c) then None else Some (NeedsOneOf (Field c)))
       else if Op c = ''in'' then (case Val c of
           JList l \<Rightarrow> if l = [] then Some (NeedsList (Field c))
                      else if list_all (allowed_str allowed) l then None else Some (NotOneOf (Field c))
         | _ \<Rightarrow> Some (NeedsList (Field c)))
       else Some (NoSuchOp (Field c) (Op c))
   | None \<Rightarrow>
       if Field c = ''any_unavailable'' then
         (case Val c of JBool b \<Rightarrow> if Op c = ''eq'' then None else Some TakesBool | _ \<Rightarrow> Some TakesBool)
       else if Field c = ''amount_eur'' then
         (case Val c of JStr s \<Rightarrow> if rat_set s \<noteq> None \<and> Op c = ''gte'' then None else Some TakesDecimal
          | _ \<Rightarrow> Some TakesDecimal)
       else Some (UnknownField (Field c)))"

datatype rules_err =
    VersionRequired | RuleRequired | IdMissing nat | BadRecommend nat string | ReasonRequired nat
  | BadCondition nat nat cond_err | NoDefault string

definition validate_conds :: "nat \<Rightarrow> condition list \<Rightarrow> rules_err list" where
  "validate_conds i cs = concat (map (\<lambda>(j, c). case validate_cond c of None \<Rightarrow> [] | Some e \<Rightarrow> [BadCondition i j e]) (indexed cs))"

definition validate_rule :: "string set \<Rightarrow> nat \<Rightarrow> rule \<Rightarrow> rules_err list" where
  "validate_rule ids i r =
     (if RID r = [] \<or> RID r \<in> ids then [IdMissing i] else [])
     @ (if RRecommend r \<in> set Decisions then [] else [BadRecommend i (RRecommend r)])
     @ (if RReasons r = [] then [ReasonRequired i] else [])
     @ validate_conds i (When r)"

fun validate_rules :: "string set \<Rightarrow> nat \<Rightarrow> rule list \<Rightarrow> rules_err list" where
  "validate_rules ids i [] = []"
| "validate_rules ids i (r # rs) = validate_rule ids i r @ validate_rules (insert (RID r) ids) (Suc i) rs"

definition validate_ruleset :: "ruleset \<Rightarrow> rules_err list" where
  "validate_ruleset rs =
     (if RVersion rs = [] then [VersionRequired] else [])
     @ (if Rules rs = [] then [RuleRequired]
        else validate_rules {} 0 (Rules rs)
          @ (if When (last (Rules rs)) \<noteq> [] then [NoDefault (RID (last (Rules rs)))] else []))"

section \<open>Evaluation\<close>

datatype rpanic = BadAssertion | NoDefaultRule

definition get :: "inputs \<Rightarrow> string \<Rightarrow> string" where
  "get i f = (if f = ''kyt.risk_level'' then KYT i else if f = ''sanctions.result'' then Sanctions i
     else if f = ''structuring.result'' then Structuring i else if f = ''issuer.result'' then Issuer i else [])"

fun any_equal :: "string \<Rightarrow> jval list \<Rightarrow> (rpanic, bool) res" where
  "any_equal v [] = Inr False"
| "any_equal v (JStr s # xs) = (if v = s then Inr True else any_equal v xs)"
| "any_equal v (x # xs) = Inl BadAssertion"

definition match :: "condition \<Rightarrow> inputs \<Rightarrow> (rpanic, bool) res" where
  "match c i =
     (if Field c = ''any_unavailable'' then (case Val c of JBool b \<Rightarrow> Inr (AnyUnavailable i = b) | _ \<Rightarrow> Inl BadAssertion)
      else if Field c = ''amount_eur'' then (case Val c of
          JStr s \<Rightarrow> Inr (case (rat_set (AmountEUR i), rat_set s) of (Some a, Some b) \<Rightarrow> b \<le> a | _ \<Rightarrow> False)
        | _ \<Rightarrow> Inl BadAssertion)
      else if Op c = ''eq'' then (case Val c of JStr s \<Rightarrow> Inr (get i (Field c) = s) | _ \<Rightarrow> Inl BadAssertion)
      else (case Val c of JList l \<Rightarrow> any_equal (get i (Field c)) l | _ \<Rightarrow> Inl BadAssertion))"

fun match_all :: "condition list \<Rightarrow> inputs \<Rightarrow> (rpanic, bool) res" where
  "match_all [] i = Inr True"
| "match_all (c # cs) i = and_then (match c i) (\<lambda>b. if b then match_all cs i else Inr False)"

definition rec_of :: "string \<Rightarrow> rule \<Rightarrow> recommendation" where
  "rec_of version r = \<lparr> Recommendation = RRecommend r, Reasons = RReasons r,
     PolicyRef = version @ ''/'' @ RID r, RuleID = RID r, Auto = RAuto r \<rparr>"

fun recommend_from :: "string \<Rightarrow> rule list \<Rightarrow> inputs \<Rightarrow> (rpanic, recommendation) res" where
  "recommend_from version [] i = Inl NoDefaultRule"
| "recommend_from version (r # rs) i =
     and_then (match_all (When r) i) (\<lambda>ok. if ok then Inr (rec_of version r) else recommend_from version rs i)"

definition Recommend :: "ruleset \<Rightarrow> inputs \<Rightarrow> (rpanic, recommendation) res" where
  "Recommend rs i = recommend_from (RVersion rs) (Rules rs) i"

definition inputs_map :: "inputs \<Rightarrow> (string \<times> jval) list" where
  "inputs_map i = [(''kyt.risk_level'', JStr (KYT i)), (''sanctions.result'', JStr (Sanctions i)),
     (''structuring.result'', JStr (Structuring i)), (''issuer.result'', JStr (Issuer i)),
     (''any_unavailable'', JBool (AnyUnavailable i)), (''amount_eur'', JStr (AmountEUR i))]"

text \<open>\<open>b, _ := Canon(...)\<close>: on an error the bytes are nil.\<close>

definition inputs_hash :: "inputs \<Rightarrow> string" where
  "inputs_hash i = SHA (case canon (JObj (inputs_map i)) of Inl e \<Rightarrow> [] | Inr b \<Rightarrow> b)"

section \<open>Parsing\<close>

text \<open>The members \<open>encoding/json\<close> assigns to the field tagged \<open>name\<close>, in order.\<close>

definition members_for :: "string \<Rightarrow> (string \<times> jval) list \<Rightarrow> jval list" where
  "members_for name m = map snd (filter (\<lambda>(k, v). to_lower k = name) m)"

definition known_fields :: "string list \<Rightarrow> (string \<times> jval) list \<Rightarrow> bool" where
  "known_fields tags m = list_all (\<lambda>(k, v). to_lower k \<in> set tags) m"

text \<open>Decode every assigned value; the last one that is not null stays.\<close>

definition field_of :: "(jval \<Rightarrow> 'a option) \<Rightarrow> 'a \<Rightarrow> string \<Rightarrow> (string \<times> jval) list \<Rightarrow> 'a option" where
  "field_of dec dflt name m = map_option (\<lambda>vs. if vs = [] then dflt else last vs)
     (those (map dec (filter (\<lambda>v. v \<noteq> JNull) (members_for name m))))"

definition str_of :: "jval \<Rightarrow> string option" where
  "str_of v = (case v of JStr s \<Rightarrow> Some s | JNull \<Rightarrow> Some [] | _ \<Rightarrow> None)"

definition bool_of :: "jval \<Rightarrow> bool option" where
  "bool_of v = (case v of JBool b \<Rightarrow> Some b | _ \<Rightarrow> None)"

definition list_of :: "(jval \<Rightarrow> 'a option) \<Rightarrow> jval \<Rightarrow> 'a list option" where
  "list_of dec v = (case v of JList xs \<Rightarrow> those (map dec xs) | _ \<Rightarrow> None)"

definition any_of :: "string \<Rightarrow> (string \<times> jval) list \<Rightarrow> jval" where
  "any_of name m = (let vs = members_for name m in if vs = [] then JNull else last vs)"

definition condition_of :: "jval \<Rightarrow> condition option" where
  "condition_of v = (case v of
     JNull \<Rightarrow> Some \<lparr> Field = [], Op = [], Val = JNull \<rparr>
   | JObj m \<Rightarrow>
       if known_fields [''field'', ''op'', ''value''] m
       then Option.bind (field_of str_of [] ''field'' m) (\<lambda>f. Option.bind (field_of str_of [] ''op'' m) (\<lambda>opr.
              Some \<lparr> Field = f, Op = opr, Val = any_of ''value'' m \<rparr>))
       else None
   | _ \<Rightarrow> None)"

definition rule_of :: "jval \<Rightarrow> rule option" where
  "rule_of v = (case v of
     JNull \<Rightarrow> Some \<lparr> RID = [], When = [], RRecommend = [], RReasons = [], RAuto = False \<rparr>
   | JObj m \<Rightarrow>
       if known_fields [''id'', ''when'', ''recommend'', ''reasons'', ''auto''] m
       then Option.bind (field_of str_of [] ''id'' m) (\<lambda>i. Option.bind (field_of (list_of condition_of) [] ''when'' m) (\<lambda>w.
            Option.bind (field_of str_of [] ''recommend'' m) (\<lambda>rc. Option.bind (field_of (list_of str_of) [] ''reasons'' m) (\<lambda>rn.
            Option.bind (field_of bool_of False ''auto'' m) (\<lambda>a.
              Some \<lparr> RID = i, When = w, RRecommend = rc, RReasons = rn, RAuto = a \<rparr>)))))
       else None
   | _ \<Rightarrow> None)"

definition ruleset_of :: "jval \<Rightarrow> ruleset option" where
  "ruleset_of v = (case v of
     JNull \<Rightarrow> Some \<lparr> RVersion = [], Rules = [] \<rparr>
   | JObj m \<Rightarrow>
       if known_fields [''version'', ''rules''] m
       then Option.bind (field_of str_of [] ''version'' m) (\<lambda>ver. Option.bind (field_of (list_of rule_of) [] ''rules'' m) (\<lambda>rs.
              Some \<lparr> RVersion = ver, Rules = rs \<rparr>))
       else None
   | _ \<Rightarrow> None)"

datatype parse_err = ParseDecode | ParseInvalid "rules_err list" | ParseCanon canon_err

definition Parse :: "string \<Rightarrow> (parse_err, ruleset \<times> string \<times> string) res" where
  "Parse raw =
     and_then (of_option ParseDecode (Option.bind (decode raw) ruleset_of)) (\<lambda>rs.
     if validate_ruleset rs \<noteq> [] then Inl (ParseInvalid (validate_ruleset rs))
     else and_then (of_option ParseDecode (decode_map raw)) (\<lambda>generic.
       map_res (\<lambda>c. (rs, c, SHA c)) (map_err ParseCanon (canon (JObj generic)))))"

section \<open>A validated ruleset does not panic\<close>

lemma any_equal_total: "list_all (allowed_str allowed) l \<Longrightarrow> \<exists>b. any_equal v l = Inr b"
  by (induction v l rule: any_equal.induct) (auto simp: allowed_str_def)

lemma any_equal_iff: "list_all (allowed_str allowed) l \<Longrightarrow> any_equal v l = Inr (JStr v \<in> set l)"
  by (induction v l rule: any_equal.induct) (auto simp: allowed_str_def)

lemma enums_fields: "map_of enums f = Some a \<Longrightarrow> f \<noteq> ''any_unavailable'' \<and> f \<noteq> ''amount_eur''"
  by (auto simp: enums_def split: if_splits)

lemma valid_match:
  assumes "validate_cond c = None"
  shows "\<exists>b. match c i = Inr b"
proof (cases "map_of enums (Field c)")
  case None
  then show ?thesis using assms by (auto simp: validate_cond_def match_def split: if_splits jval.splits)
next
  case (Some a)
  note f = enums_fields [OF Some]
  show ?thesis
  proof (cases "Op c = ''eq''")
    case True
    then show ?thesis
      using assms Some f by (cases "Val c") (auto simp: validate_cond_def match_def allowed_str_def split: if_splits)
  next
    case False
    then show ?thesis
      using assms Some f any_equal_total
      by (cases "Val c") (auto simp: validate_cond_def match_def split: if_splits)
  qed
qed

definition conds_valid :: "rule \<Rightarrow> bool" where
  "conds_valid r \<longleftrightarrow> list_all (\<lambda>c. validate_cond c = None) (When r)"

lemma match_all_iff:
  assumes "list_all (\<lambda>c. validate_cond c = None) cs"
  shows "match_all cs i = Inr (list_all (\<lambda>c. match c i = Inr True) cs)"
  using assms
proof (induction cs)
  case (Cons c cs)
  then obtain b where "match c i = Inr b" using valid_match by auto
  then show ?case using Cons by (cases b) auto
qed simp

text \<open>What validation establishes.\<close>

definition ruleset_ok :: "ruleset \<Rightarrow> bool" where
  "ruleset_ok rs \<longleftrightarrow> RVersion rs \<noteq> [] \<and> Rules rs \<noteq> [] \<and> When (last (Rules rs)) = []
     \<and> distinct (map RID (Rules rs))
     \<and> list_all (\<lambda>r. RID r \<noteq> [] \<and> RRecommend r \<in> set Decisions \<and> RReasons r \<noteq> [] \<and> conds_valid r) (Rules rs)"

lemma validate_conds_nil: "validate_conds i cs = [] \<longleftrightarrow> list_all (\<lambda>c. validate_cond c = None) cs"
proof
  assume v: "validate_conds i cs = []"
  have "validate_cond c = None" if "c \<in> set cs" for c
    using concat_indexed_nil [OF v [unfolded validate_conds_def] that] by (auto split: option.splits)
  then show "list_all (\<lambda>c. validate_cond c = None) cs" by (simp add: list_all_iff)
next
  assume "list_all (\<lambda>c. validate_cond c = None) cs"
  then show "validate_conds i cs = []"
    by (auto simp: validate_conds_def list_all_iff dest!: indexed_mem)
qed

lemma validate_rules_nil:
  "validate_rules ids i rs = [] \<longleftrightarrow> distinct (map RID rs) \<and> set (map RID rs) \<inter> ids = {}
     \<and> list_all (\<lambda>r. RID r \<noteq> [] \<and> RRecommend r \<in> set Decisions \<and> RReasons r \<noteq> [] \<and> conds_valid r) rs"
proof (induction ids i rs rule: validate_rules.induct)
  case (2 ids i r rs)
  have "validate_rule ids i r = [] \<longleftrightarrow> RID r \<noteq> [] \<and> RID r \<notin> ids \<and> RRecommend r \<in> set Decisions
      \<and> RReasons r \<noteq> [] \<and> conds_valid r"
    by (auto simp: validate_rule_def validate_conds_nil conds_valid_def)
  with 2 show ?case by auto
qed simp

lemma validate_ruleset_ok: "validate_ruleset rs = [] \<longleftrightarrow> ruleset_ok rs"
  by (auto simp: validate_ruleset_def ruleset_ok_def validate_rules_nil)

text \<open>The first rule whose conditions hold.\<close>

definition applies :: "inputs \<Rightarrow> rule \<Rightarrow> bool" where
  "applies i r \<longleftrightarrow> list_all (\<lambda>c. match c i = Inr True) (When r)"

lemma recommend_from_first:
  "list_all conds_valid rs \<Longrightarrow> recommend_from version rs i =
     (case find_first (applies i) rs of None \<Rightarrow> Inl NoDefaultRule | Some r \<Rightarrow> Inr (rec_of version r))"
  by (induction version rs i rule: recommend_from.induct) (auto simp: conds_valid_def match_all_iff applies_def)

lemma Recommend_ok:
  assumes "ruleset_ok rs"
  shows "\<exists>r. find_first (applies i) (Rules rs) = Some r \<and> Recommend rs i = Inr (rec_of (RVersion rs) r)"
proof -
  have v: "list_all conds_valid (Rules rs)" using assms by (auto simp: ruleset_ok_def list_all_iff)
  have "last (Rules rs) \<in> set (Rules rs)" "applies i (last (Rules rs))"
    using assms by (auto simp: ruleset_ok_def applies_def)
  then have "find_first (applies i) (Rules rs) \<noteq> None" by (auto simp: find_first_None_iff)
  then show ?thesis using v by (auto simp: Recommend_def recommend_from_first)
qed

lemma Recommend_sound:
  assumes "ruleset_ok rs"
  shows "\<exists>rc. Recommend rs i = Inr rc \<and> Kind (Recommendation rc) \<noteq> None \<and> Reasons rc \<noteq> []
    \<and> PolicyRef rc = RVersion rs @ ''/'' @ RuleID rc"
proof -
  obtain r where r: "find_first (applies i) (Rules rs) = Some r" "Recommend rs i = Inr (rec_of (RVersion rs) r)"
    using Recommend_ok [OF assms] by blast
  then have "RRecommend r \<in> set Decisions" "RReasons r \<noteq> []"
    using assms find_first_SomeD [OF r(1)] by (auto simp: ruleset_ok_def list_all_iff)
  then show ?thesis using r(2) by (auto simp: rec_of_def Kind_cases Decisions_def)
qed

lemma Parse_ok: "Parse raw = Inr (rs, c, h) \<Longrightarrow> ruleset_ok rs \<and> h = SHA c
    \<and> (\<exists>m. decode_map raw = Some m \<and> canon (JObj m) = Inr c)"
  by (auto simp: Parse_def res_simps validate_ruleset_ok split: if_splits)

section \<open>The input hash commits to the inputs\<close>

definition inputs_valid :: "inputs \<Rightarrow> bool" where
  "inputs_valid i \<longleftrightarrow> valid_utf8 (KYT i) \<and> valid_utf8 (Sanctions i) \<and> valid_utf8 (Structuring i)
     \<and> valid_utf8 (Issuer i) \<and> valid_utf8 (AmountEUR i)"

lemma inputs_map_wf: "wf_json (JObj (inputs_map i))"
  by (auto simp: inputs_map_def wf_map_def intro!: ascii_valid) (auto simp: ascii_def)

lemma inputs_hash_commits:
  assumes "inputs_valid i" and "inputs_valid j" and "inputs_hash i = inputs_hash j"
    and "canon (JObj (inputs_map i)) = Inr a" and "canon (JObj (inputs_map j)) = Inr b"
  shows "i = j \<or> (a \<noteq> b \<and> sha256 a = sha256 b)"
proof (cases "a = b")
  case False
  then show ?thesis using assms(3,4,5) by (simp add: inputs_hash_def SHA_eq_iff)
next
  case True
  then have n: "normal (JObj (inputs_map i)) = normal (JObj (inputs_map j))"
    using canon_inj [OF inputs_map_wf inputs_map_wf] assms(4,5) by blast
  have lk: "map_option normal (map_of (inputs_map i) k) = map_option normal (map_of (inputs_map j) k)" for k
    using n normalize_lookup [OF inputs_map_wf [of i] normalize_ok [OF inputs_map_wf]]
      normalize_lookup [OF inputs_map_wf [of j] normalize_ok [OF inputs_map_wf]] by simp
  have "sanitize (KYT i) = sanitize (KYT j)" using lk [of "''kyt.risk_level''"] by (simp add: inputs_map_def)
  moreover have "sanitize (Sanctions i) = sanitize (Sanctions j)" using lk [of "''sanctions.result''"] by (simp add: inputs_map_def)
  moreover have "sanitize (Structuring i) = sanitize (Structuring j)" using lk [of "''structuring.result''"] by (simp add: inputs_map_def)
  moreover have "sanitize (Issuer i) = sanitize (Issuer j)" using lk [of "''issuer.result''"] by (simp add: inputs_map_def)
  moreover have "AnyUnavailable i = AnyUnavailable j" using lk [of "''any_unavailable''"] by (simp add: inputs_map_def)
  moreover have "sanitize (AmountEUR i) = sanitize (AmountEUR j)" using lk [of "''amount_eur''"] by (simp add: inputs_map_def)
  ultimately show ?thesis using assms(1,2) by (simp add: inputs_valid_def valid_utf8_def)
qed

section \<open>Properties\<close>

text \<open>C23 A ruleset that parses always recommends: it never reaches a failed type assertion or the missing
  default rule, and the recommendation is the one of the first rule whose conditions all hold.\<close>

theorem parsed_ruleset_recommends:
  assumes "Parse raw = Inr (rs, c, h)"
  shows "\<exists>r. find_first (applies i) (Rules rs) = Some r \<and> Recommend rs i = Inr (rec_of (RVersion rs) r)
    \<and> Kind (RRecommend r) \<noteq> None \<and> RReasons r \<noteq> []"
proof -
  have ok: "ruleset_ok rs" using Parse_ok [OF assms] by blast
  obtain r where r: "find_first (applies i) (Rules rs) = Some r" "Recommend rs i = Inr (rec_of (RVersion rs) r)"
    using Recommend_ok [OF ok] by blast
  then show ?thesis using Recommend_sound [OF ok, of i] by (auto simp: rec_of_def)
qed

definition sample_ruleset :: string where
  "sample_ruleset = ''{'' @ [quote] @ ''version'' @ [quote] @ '':'' @ [quote] @ ''v'' @ [quote] @ '','' @ [quote] @ ''rules'' @ [quote]
     @ '':[{'' @ [quote] @ ''id'' @ [quote] @ '':'' @ [quote] @ ''d'' @ [quote] @ '','' @ [quote] @ ''when'' @ [quote] @ '':[],'' @ [quote]
     @ ''recommend'' @ [quote] @ '':'' @ [quote] @ ''HOLD'' @ [quote] @ '','' @ [quote] @ ''reasons'' @ [quote] @ '':['' @ [quote] @ ''R'' @ [quote]
     @ ''],'' @ [quote] @ ''auto'' @ [quote] @ '':true}]}''"

theorem parsed_ruleset_recommends_witness:
  "\<exists>rs c h r. Parse sample_ruleset = Inr (rs, c, h) \<and> Recommend rs \<lparr> KYT = ''LOW'', Sanctions = ''NO_MATCH'', Structuring = ''PASS'',
     Issuer = ''NOT_LISTED'', AnyUnavailable = False, AmountEUR = ''1.00'' \<rparr> = Inr (rec_of (RVersion rs) r)"
proof -
  let ?rs = "\<lparr> RVersion = ''v'', Rules = [\<lparr> RID = ''d'', When = [], RRecommend = ''HOLD'', RReasons = [''R''], RAuto = True \<rparr>] \<rparr>"
  have "Option.bind (decode sample_ruleset) ruleset_of = Some ?rs" by code_simp
  moreover have "validate_ruleset ?rs = []" by code_simp
  moreover have "\<exists>g c. decode_map sample_ruleset = Some g \<and> canon (JObj g) = Inr c"
  proof -
    have "list_ex (\<lambda>g. is_ok (canon (JObj g))) (case decode_map sample_ruleset of None \<Rightarrow> [] | Some g \<Rightarrow> [g])" by code_simp
    then show ?thesis by (auto simp: is_ok_iff split: option.splits)
  qed
  ultimately obtain c where p: "Parse sample_ruleset = Inr (?rs, c, SHA c)" by (auto simp: Parse_def)
  from parsed_ruleset_recommends [OF p] p show ?thesis by blast
qed

end
