(* ===== verification/GoTime.thy ===== *)
theory GoTime
  imports Rules
begin

text \<open>
  The part of Go's \<open>time\<close> the services use: an instant is its nanoseconds since the Unix epoch
  (UTC), \<open>Unix\<close> truncates to seconds, and \<open>Format(time.RFC3339)\<close>,
  \<open>Format("2006-01-02")\<close> and \<open>AddDate(years, 0, 0)\<close> go through the proleptic Gregorian
  calendar. Years before 0 are outside the model.

  The samples check the calendar at a leap day, at the end of a century and across \<open>AddDate\<close>.
\<close>

type_synonym time = int

definition unix_sec :: "time \<Rightarrow> int" where
  "unix_sec t = t div 10 ^ 9"

definition from_unix :: "int \<Rightarrow> time" where
  "from_unix s = s * 10 ^ 9"

section \<open>Civil dates\<close>

text \<open>Day number relative to 1970-01-01, with years starting in March.\<close>

definition civil :: "int \<Rightarrow> int \<times> int \<times> int" where
  "civil days =
     (let z = days + 719468;
          era = z div 146097; doe = z mod 146097;
          yoe = (doe - doe div 1460 + doe div 36524 - doe div 146096) div 365;
          doy = doe - (365 * yoe + yoe div 4 - yoe div 100);
          mp = (5 * doy + 2) div 153;
          d = doy - (153 * mp + 2) div 5 + 1;
          m = (if mp < 10 then mp + 3 else mp - 9);
          y = yoe + era * 400
      in (if m \<le> 2 then y + 1 else y, m, d))"

definition day_number :: "int \<Rightarrow> int \<Rightarrow> int \<Rightarrow> int" where
  "day_number y m d =
     (let y' = (if m \<le> 2 then y - 1 else y);
          era = y' div 400; yoe = y' mod 400;
          mp = (if m > 2 then m - 3 else m + 9);
          doy = (153 * mp + 2) div 5 + d - 1;
          doe = yoe * 365 + yoe div 4 - yoe div 100 + doy
      in era * 146097 + doe - 719468)"

definition pad_int :: "nat \<Rightarrow> int \<Rightarrow> string" where
  "pad_int n i = pad_zeros n (nat_dec (nat i))"

definition format_date :: "int \<times> int \<times> int \<Rightarrow> string" where
  "format_date ymd = (case ymd of (y, m, d) \<Rightarrow> pad_int 4 y @ ''-'' @ pad_int 2 m @ ''-'' @ pad_int 2 d)"

definition rfc3339 :: "time \<Rightarrow> string" where
  "rfc3339 t = (let s = unix_sec t; r = s mod 86400 in
     format_date (civil (s div 86400)) @ ''T'' @ pad_int 2 (r div 3600) @ '':'' @ pad_int 2 (r mod 3600 div 60)
       @ '':'' @ pad_int 2 (r mod 60) @ ''Z'')"

text \<open>\<open>AddDate(years, 0, 0)\<close>, the time of day dropped: 29 February moves to 1 March.\<close>

definition add_years :: "int \<Rightarrow> time \<Rightarrow> int \<times> int \<times> int" where
  "add_years n t = (case civil (unix_sec t div 86400) of (y, m, d) \<Rightarrow> civil (day_number (y + n) m d))"

section \<open>Samples\<close>

lemma rfc3339_epoch: "rfc3339 (from_unix 1791331200) = ''2026-10-07T00:00:00Z''"
  by code_simp

lemma civil_samples:
  "civil 0 = (1970, 1, 1)" "civil 11016 = (2000, 2, 29)" "civil 47540 = (2100, 2, 28)" "civil 47541 = (2100, 3, 1)"
  "day_number 2000 2 29 = 11016" "day_number 2100 3 1 = 47541"
  by code_simp+

lemma leap_day_retention: "format_date (add_years 7 (from_unix (day_number 2024 2 29 * 86400))) = ''2031-03-01''"
  by code_simp

end
