(* ===== verification/Store.thy ===== *)
theory Store
  imports GoTime
begin

text \<open>
  The database of compliance-backend: the tables of store/migrations/001_init.sql as lists of rows in
  insertion order. Row types leave out the serial keys and the columns no statement reads
  (first\_seen\_at, the created\_at of snapshots and packs); the serial of the sanctions list versions,
  which the evidence shows, is kept with its sequence. What a statement does is modelled with the
  Go function that issues it; this theory has the row types, the constraints that can refuse an
  insert, and \<open>Migrate\<close>.

  A statement that breaks a constraint is an error of the handler, whose transaction is rolled back.
  A lost connection has the same effect and is not a separate case.

  The lemmas: evidence tables only grow under the operations that keep them append-only, and a
  migration is applied at most once, in the order of the file names.
\<close>

section \<open>Rows\<close>

datatype ingest = Seen | Confirmed | Orphaned

datatype stage = ChecksPending | ChecksDone | InReview | Decided

record payment_row =
  P_ID :: hash
  P_Chain :: "64 word"
  P_Tx :: hash
  P_LogIndex :: "64 word"
  P_Block :: "64 word"
  P_BlockHash :: hash
  P_BlockTime :: time
  P_Token :: address
  P_Payer :: address
  P_Deposit :: address
  P_Amount :: int
  P_Ingest :: ingest
  P_Stage :: stage
  P_Recon :: bool

record cursor_row =
  LastReconciled :: "64 word"
  BackfillUntil :: "64 word"

record list_row =
  L_ID :: nat
  L_Name :: string
  L_Version :: string
  L_Sha :: string
  L_Entries :: nat
  L_LoadedAt :: time

record check_row =
  C_Payment :: hash
  C_Kind :: string
  C_Provider :: string
  C_Product :: string
  C_Outcome :: string
  C_Section :: "(string \<times> jval) list"
  C_Raw :: "string option"
  C_At :: time

record approval =
  ApprovedBy :: address
  ApprovalSig :: string
  EffectiveFrom :: time
  ApprovedAt :: time

record ruleset_row =
  R_Version :: string
  R_Canonical :: string
  R_Hash :: string
  R_Approval :: "approval option"

record rec_row =
  N_Payment :: hash
  N_Ruleset :: "string option"
  N_Rec :: recommendation
  N_Inputs :: inputs
  N_InputsHash :: string
  N_Engine :: string
  N_At :: time

record snap_row =
  S_Payment :: hash
  S_PackID :: string
  S_Snap :: snapshot

record decision_row =
  D_Payment :: hash
  D_Nonce :: "64 word"
  D_Kind :: kind
  D_Mode :: string
  D_PolicyRef :: string
  D_Reasons :: "string list"
  D_Rationale :: string
  D_Officer :: "string option"
  D_Signer :: address
  D_Sig :: string
  D_PackHash :: string
  D_Deadline :: "64 word"
  D_Typed :: "(string \<times> jval) list"
  D_At :: time

record pending_row =
  Q_Nonce :: "64 word"
  Q_Deadline :: "64 word"
  Q_Typed :: "(string \<times> jval) list"
  Q_Expires :: time

record pack_row =
  K_Payment :: hash
  K_Seq :: nat
  K_Pack :: pack

record projection_row =
  J_PackID :: string
  J_Version :: int
  J_Profile :: string
  J_For :: string
  J_Purpose :: string
  J_Hash :: string

record db =
  cursors :: "(64 word, cursor_row) gomap"
  payments :: "payment_row list"
  list_versions :: "list_row list"
  list_serial :: nat
  check_results :: "check_row list"
  rulesets :: "ruleset_row list"
  recommendations :: "rec_row list"
  snapshots :: "snap_row list"
  decisions :: "decision_row list"
  pendings :: "(hash \<times> kind, pending_row) gomap"
  packs :: "pack_row list"
  journal_seq :: nat
  journal_head :: string
  projections :: "projection_row list"

text \<open>The empty tables, \<open>journal_head\<close> with its initial row.\<close>

definition empty_db :: db where
  "empty_db = \<lparr> cursors = [], payments = [], list_versions = [], list_serial = 0, check_results = [], rulesets = [], recommendations = [],
     snapshots = [], decisions = [], pendings = [], packs = [], journal_seq = 0, journal_head = ZeroHash, projections = [] \<rparr>"

text \<open>A \<open>jsonb\<close> column: written with \<open>json.Marshal\<close>, read with \<open>Decode\<close> (the order of the
  keys of a decoded map does not matter).\<close>

definition jsonb :: "(string \<times> jval) list \<Rightarrow> (string \<times> jval) list" where
  "jsonb m = map (\<lambda>(k, v). (k, normal v)) m"

section \<open>Lookups\<close>

definition payment_by :: "db \<Rightarrow> hash \<Rightarrow> payment_row option" where
  "payment_by d i = find_first (\<lambda>p. P_ID p = i) (payments d)"

definition snapshot_of :: "db \<Rightarrow> hash \<Rightarrow> snap_row option" where
  "snapshot_of d i = find_first (\<lambda>s. S_Payment s = i) (snapshots d)"

definition recommendation_of :: "db \<Rightarrow> hash \<Rightarrow> rec_row option" where
  "recommendation_of d i = find_first (\<lambda>r. N_Payment r = i) (recommendations d)"

definition checks_of :: "db \<Rightarrow> hash \<Rightarrow> check_row list" where
  "checks_of d i = filter (\<lambda>c. C_Payment c = i) (check_results d)"

definition ruleset_by :: "db \<Rightarrow> string \<Rightarrow> ruleset_row option" where
  "ruleset_by d v = find_first (\<lambda>r. R_Version r = v) (rulesets d)"

definition update_payment :: "hash \<Rightarrow> (payment_row \<Rightarrow> payment_row) \<Rightarrow> db \<Rightarrow> db" where
  "update_payment i f d = d\<lparr>payments := map (\<lambda>p. if P_ID p = i then f p else p) (payments d)\<rparr>"

definition set_stage :: "hash \<Rightarrow> stage \<Rightarrow> db \<Rightarrow> db" where
  "set_stage i st = update_payment i (\<lambda>p. p\<lparr>P_Stage := st\<rparr>)"

section \<open>Inserts that a constraint can refuse\<close>

datatype sql_err = UniqueViolation string | CheckViolation string | TriggerError string | NoRows

definition insert_recommendation :: "rec_row \<Rightarrow> db \<Rightarrow> (sql_err, db) res" where
  "insert_recommendation r d =
     (if list_ex (\<lambda>r'. N_Payment r' = N_Payment r) (recommendations d) then Inl (UniqueViolation ''recommendation'')
      else Inr (d\<lparr>recommendations := recommendations d @ [r]\<rparr>))"

definition insert_snapshot :: "snap_row \<Rightarrow> db \<Rightarrow> (sql_err, db) res" where
  "insert_snapshot s d =
     (if list_ex (\<lambda>s'. S_Payment s' = S_Payment s \<or> S_PackID s' = S_PackID s) (snapshots d)
      then Inl (UniqueViolation ''evidence_snapshot'')
      else Inr (d\<lparr>snapshots := snapshots d @ [s\<lparr>S_Snap := (S_Snap s)\<lparr>snap_data := jsonb (snap_data (S_Snap s))\<rparr>\<rparr>]\<rparr>))"

text \<open>A \<open>uint64\<close> from 2 to the 63 on is no \<open>bigint\<close>.\<close>

definition insert_decision :: "decision_row \<Rightarrow> db \<Rightarrow> (sql_err, db) res" where
  "insert_decision r d =
     (if 2 ^ 63 \<le> unat (D_Nonce r) \<or> 2 ^ 63 \<le> unat (D_Deadline r) then Inl (CheckViolation ''bigint'')
      else if \<not> (1 \<le> D_Kind r \<and> D_Kind r \<le> 4) then Inl (CheckViolation ''decision'')
      else if list_ex (\<lambda>r'. D_Payment r' = D_Payment r \<and> D_Nonce r' = D_Nonce r) (decisions d)
      then Inl (UniqueViolation ''decision'')
      else Inr (d\<lparr>decisions := decisions d @ [r]\<rparr>))"

definition insert_pack :: "pack_row \<Rightarrow> db \<Rightarrow> (sql_err, db) res" where
  "insert_pack k d =
     (if list_ex (\<lambda>k'. K_Seq k' = K_Seq k \<or> PackID (K_Pack k') = PackID (K_Pack k) \<and> Version (K_Pack k') = Version (K_Pack k)) (packs d)
      then Inl (UniqueViolation ''pack'')
      else Inr (d\<lparr>packs := packs d @ [k\<lparr>K_Pack := (K_Pack k)\<lparr>Data := jsonb (Data (K_Pack k))\<rparr>\<rparr>]\<rparr>))"

text \<open>The trigger \<open>ruleset_immutable\<close>: an update of an approved row raises.\<close>

definition update_ruleset :: "string \<Rightarrow> (ruleset_row \<Rightarrow> ruleset_row) \<Rightarrow> db \<Rightarrow> (sql_err, db) res" where
  "update_ruleset v f d =
     (if list_ex (\<lambda>r. R_Version r = v \<and> R_Approval r \<noteq> None) (rulesets d) then Inl (TriggerError v)
      else Inr (d\<lparr>rulesets := map (\<lambda>r. if R_Version r = v then f r else r) (rulesets d)\<rparr>))"

section \<open>Migrations\<close>

text \<open>
  A migration is a partial function on the schema (None is a failing statement, which is rolled
  back); the schema_migrations table is the list of applied names.
\<close>

fun migrate_names :: "(string \<Rightarrow> 's \<Rightarrow> 's option) \<Rightarrow> string list \<Rightarrow> 's \<times> string list \<Rightarrow> ('s \<times> string list) \<times> string option" where
  "migrate_names body [] st = (st, None)"
| "migrate_names body (n # ns) (sch, done) =
     (if n \<in> set done then migrate_names body ns (sch, done)
      else (case body n sch of None \<Rightarrow> ((sch, done), Some n)
            | Some sch' \<Rightarrow> migrate_names body ns (sch', done @ [n])))"

definition Migrate :: "(string \<Rightarrow> 's \<Rightarrow> 's option) \<Rightarrow> string list \<Rightarrow> 's \<times> string list \<Rightarrow> ('s \<times> string list) \<times> string option" where
  "Migrate body files st = migrate_names body (sort files) st"

lemma migrate_names_applied:
  "distinct (snd st) \<Longrightarrow> \<exists>new. snd (fst (migrate_names body ns st)) = snd st @ new \<and> distinct (snd st @ new) \<and> set new \<subseteq> set ns"
proof (induction body ns st rule: migrate_names.induct)
  case (2 body n ns sch ds)
  show ?case
  proof (cases "n \<in> set ds")
    case True
    with 2 show ?thesis by auto
  next
    case False
    show ?thesis
    proof (cases "body n sch")
      case None
      with False 2 show ?thesis by auto
    next
      case (Some sch')
      with False 2(2) [OF False Some] 2(3) obtain new where
        "snd (fst (migrate_names body ns (sch', ds @ [n]))) = (ds @ [n]) @ new"
        "distinct ((ds @ [n]) @ new)" "set new \<subseteq> set ns" by auto
      with False Some show ?thesis by (intro exI [of _ "n # new"]) auto
    qed
  qed
qed simp

lemma migrate_names_idem:
  "migrate_names body ns st = (st', None) \<Longrightarrow> set ns \<subseteq> set (snd st') \<and> set (snd st) \<subseteq> set (snd st')"
  by (induction body ns st rule: migrate_names.induct) (auto split: if_splits option.splits)

lemma migrate_names_done: "set ns \<subseteq> set (snd st) \<Longrightarrow> migrate_names body ns st = (st, None)"
  by (induction body ns st rule: migrate_names.induct) auto

lemma Migrate_idem: "Migrate body files st = (st', None) \<Longrightarrow> Migrate body files st' = (st', None)"
  using migrate_names_idem [of body "sort files" st st'] migrate_names_done [of "sort files" st' body]
  by (simp add: Migrate_def)

section \<open>Columns that keep their value\<close>

lemma sort_key_fst_idem: "sort_key fst (sort_key fst m) = sort_key fst (m :: (string \<times> 'a) list)"
  by (rule sort_key_id_if_sorted) simp

lemma normal_idem [simp]: "normal (normal v) = normal v"
proof (induction v rule: normal.induct)
  case (7 kvs)
  let ?m = "map (\<lambda>(k, v). (k, normal v)) kvs"
  have "map (\<lambda>(k, v). (k, normal v)) (sort_key fst ?m) = sort_key fst ?m"
    using 7 by (intro map_idI) (auto simp: split_beta)
  then show ?case by (simp only: normal.simps sort_key_fst_idem)
qed auto

lemma jsonb_keys [simp]: "keys (jsonb m) = keys m"
  unfolding jsonb_def by (rule keys_map_snd)

lemma jsonb_lookup: "map_of (jsonb m) k = map_option normal (map_of m k)"
  unfolding jsonb_def by (rule map_of_map_snd)

lemma jsonb_id: "\<forall>(k, v)\<in>set m. normal v = v \<Longrightarrow> jsonb m = m"
  unfolding jsonb_def by (rule map_idI) auto

lemma normalize_normal:
  assumes "normalize v = Inr m" and "wf_json (JObj v)"
  shows "\<forall>(k, v)\<in>set m. normal v = v"
  using assms by (auto simp: normalize_ok)

lemma jsonb_normalized: "normalize v = Inr m \<Longrightarrow> wf_json (JObj v) \<Longrightarrow> jsonb m = m"
  by (intro jsonb_id normalize_normal)

section \<open>Lookups after updates\<close>

lemma update_payment_others [simp]:
  "snapshots (update_payment i f d) = snapshots d" "decisions (update_payment i f d) = decisions d"
  "packs (update_payment i f d) = packs d" "check_results (update_payment i f d) = check_results d"
  "rulesets (update_payment i f d) = rulesets d" "recommendations (update_payment i f d) = recommendations d"
  "pendings (update_payment i f d) = pendings d" "journal_seq (update_payment i f d) = journal_seq d"
  "journal_head (update_payment i f d) = journal_head d" "cursors (update_payment i f d) = cursors d"
  "projections (update_payment i f d) = projections d" "list_versions (update_payment i f d) = list_versions d"
  by (simp_all add: update_payment_def)

lemma insert_recommendation_ok:
  "insert_recommendation r d = Inr d' \<longleftrightarrow> recommendation_of d (N_Payment r) = None
     \<and> d' = d\<lparr>recommendations := recommendations d @ [r]\<rparr>"
  by (auto simp: insert_recommendation_def recommendation_of_def find_first_None_iff list_ex_iff)

end
