(* ===== verification/Checks.thy ===== *)
theory Checks
  imports Store
begin

text \<open>
  Screening: compliance-backend/internal/checks (fx.go, kyt.go, sanctions.go, structuring.go,
  issuer.go and the runner in checks.go). The HTTP client, the file system, the chain clients and
  go-ethereum's keccak are parameters; the clock of a run is its argument \<open>now\<close>; the text of an
  error is rendered by the parameter \<open>err_text\<close>. A check's Go results (result, raw response,
  error) are a triple, a panic is \<open>Inl\<close>.

  The locale \<open>check_contract\<close> states what the pipeline relies on: a check that does not fail has
  an outcome of its rule field's enumeration. All four checks are instances. Further lemmas: token
  amounts print exactly, EUR amounts are within half a cent and read back, the runner returns one
  result per check whatever fails, and raw responses are stored under their hash.
\<close>

section \<open>Amounts (fx.go)\<close>

text \<open>\<open>strings.TrimRight(s, "0")\<close>.\<close>

definition trim_zeros :: "string \<Rightarrow> string" where
  "trim_zeros s = rev (dropWhile (\<lambda>c. c = CHR ''0'') (rev s))"

definition FormatUnits :: "int \<Rightarrow> 8 word \<Rightarrow> string" where
  "FormatUnits amount decimals =
     (let s = float_string (unat decimals) (of_int amount / 10 ^ unat decimals)
      in if CHR ''.'' \<in> set s
         then (let i = length (takeWhile (\<lambda>c. c \<noteq> CHR ''.'') s); t = trim_zeros s
               in t @ replicate (2 - (length t - i - 1)) CHR ''0'')
         else s @ ''.00'')"

datatype check_err =
    BadRateText string | BadDecimal string | HTTPFailed string | HTTPStatus nat | NotUsable
  | NoListLoaded | ListUnreadable string | ChainUnconfigured "64 word" | TokenUnconfigured address | BadAmount string
  | NoRPC "64 word" | CallFailed string string | NotABool string nat | TimedOut duration | Panicked string | RawFailed

definition EUR :: "int \<Rightarrow> 8 word \<Rightarrow> string \<Rightarrow> (check_err, string) res" where
  "EUR amount decimals rate = (case rat_set rate of
     None \<Rightarrow> Inl (BadRateText rate)
   | Some r \<Rightarrow> Inr (float_string 2 (of_int amount / 10 ^ unat decimals * r)))"

definition ParseDecimal :: "string \<Rightarrow> (check_err, rat) res" where
  "ParseDecimal s = of_option (BadDecimal s) (rat_set s)"

section \<open>The runner (checks.go)\<close>

definition Unavailable :: string where
  "Unavailable = ''UNAVAILABLE''"

record check_payment =
  CP_ID :: hash
  CP_Chain :: "64 word"
  CP_Block :: "64 word"
  CP_Time :: time
  CP_Token :: address
  CP_Payer :: address
  CP_Deposit :: address
  CP_Amount :: int
  CP_EUR :: string

text \<open>The zero \<open>PerformedAt\<close> is None.\<close>

record result =
  Res_Kind :: string
  Res_Provider :: string
  Res_Product :: string
  Res_Outcome :: string
  Res_Section :: "(string \<times> jval) list"
  Res_Raw :: string
  Res_At :: "time option"

definition no_result :: result where
  "no_result = \<lparr> Res_Kind = [], Res_Provider = [], Res_Product = [], Res_Outcome = [], Res_Section = [], Res_Raw = [], Res_At = None \<rparr>"

type_synonym outcome3 = "result \<times> string option \<times> check_err option"

record check =
  CKind :: string
  CRun :: "check_payment \<Rightarrow> (string, outcome3) res"

text \<open>The raw store is a directory; \<open>writable\<close> says whether a write succeeds.\<close>

type_synonym raw_store = "(string, string) gomap"

definition Put :: "bool \<Rightarrow> raw_store \<Rightarrow> string \<Rightarrow> (check_err, string) res \<times> raw_store" where
  "Put writable raw b = (if writable then (Inr (SHA b), AList.update (SHA b) b raw) else (Inl RawFailed, raw))"

definition Get :: "raw_store \<Rightarrow> string \<Rightarrow> string option" where
  "Get raw h = map_of raw h"

definition unavailable :: "(check_err \<Rightarrow> string) \<Rightarrow> time \<Rightarrow> string \<Rightarrow> result \<Rightarrow> check_err \<Rightarrow> result" where
  "unavailable err_text now kind partial e =
     (let (provider, product) = (if Res_Provider partial = [] then (''n/a'', ''n/a'') else (Res_Provider partial, Res_Product partial))
      in \<lparr> Res_Kind = kind, Res_Provider = provider, Res_Product = product, Res_Outcome = Unavailable,
           Res_Section = [(''result'', JStr Unavailable), (''error'', JStr (err_text e)), (''checked_at'', JStr (rfc3339 now))],
           Res_Raw = [], Res_At = Some now \<rparr>)"

text \<open>What the runner cannot choose: a late answer, the clock, a full disk.\<close>

record run_env =
  Late :: bool
  Clock :: time
  Writable :: bool
  Err_Text :: "check_err \<Rightarrow> string"

definition runOne :: "run_env \<Rightarrow> duration \<Rightarrow> check \<Rightarrow> check_payment \<Rightarrow> raw_store \<Rightarrow> result \<times> raw_store" where
  "runOne env timeout c p raw =
     (let (r, b, err) = (if Late env then (no_result, None, Some (TimedOut timeout))
            else (case CRun c p of Inl v \<Rightarrow> (no_result, None, Some (Panicked v)) | Inr got \<Rightarrow> got));
          (r, err, raw) = (case (err, b) of
              (None, Some bytes) \<Rightarrow> (case Put (Writable env) raw bytes of
                 (Inr h, raw') \<Rightarrow> (r\<lparr>Res_Raw := h\<rparr>, None, raw')
               | (Inl e, raw') \<Rightarrow> (r\<lparr>Res_Raw := []\<rparr>, Some e, raw'))
            | _ \<Rightarrow> (r, err, raw))
      in case err of
           Some e \<Rightarrow> (unavailable (Err_Text env) (Clock env) (CKind c) r e, raw)
         | None \<Rightarrow> (r\<lparr>Res_At := (case Res_At r of None \<Rightarrow> Some (Clock env) | Some t \<Rightarrow> Some t), Res_Kind := CKind c\<rparr>, raw))"

text \<open>
  The goroutines write disjoint slots of the result and share only the raw store, whose writes are
  keyed by content; they are run in the order of the list. \<open>env i\<close> is what check \<open>i\<close> meets.
\<close>

fun run_from :: "(nat \<Rightarrow> run_env) \<Rightarrow> duration \<Rightarrow> nat \<Rightarrow> check list \<Rightarrow> check_payment \<Rightarrow> raw_store \<Rightarrow> result list \<times> raw_store" where
  "run_from env timeout i [] p raw = ([], raw)"
| "run_from env timeout i (c # cs) p raw =
     (let (r, raw1) = runOne (env i) timeout c p raw; (rs, raw2) = run_from env timeout (Suc i) cs p raw1 in (r # rs, raw2))"

definition RunAll :: "(nat \<Rightarrow> run_env) \<Rightarrow> check list \<Rightarrow> check_payment \<Rightarrow> duration \<Rightarrow> raw_store \<Rightarrow> result list \<times> raw_store" where
  "RunAll env all p timeout raw = run_from env timeout 0 all p raw"

section \<open>KYT (kyt.go)\<close>

definition goPlusWeights :: "(string, nat) gomap" where
  "goPlusWeights = [(''sanctioned'', 100), (''money_laundering'', 90), (''stealing_attack'', 90), (''mixer'', 80),
     (''darkweb_transactions'', 80), (''cybercrime'', 70), (''financial_crime'', 70), (''blackmail_activities'', 70),
     (''phishing_activities'', 60), (''blacklist_doubt'', 50), (''fake_kyc'', 40), (''honeypot_related_address'', 30)]"

definition riskLevel :: "nat \<Rightarrow> string" where
  "riskLevel score = (if 80 \<le> score then ''SEVERE'' else if 60 \<le> score then ''HIGH''
     else if 30 \<le> score then ''MEDIUM'' else ''LOW'')"

text \<open>\<open>json.Unmarshal\<close>: one value and nothing after it.\<close>

definition unmarshal :: "string \<Rightarrow> jval option" where
  "unmarshal s = (case parse_value (Suc (length s)) s of
     Some (v, rest) \<Rightarrow> if skip_ws rest = [] then Some v else None
   | None \<Rightarrow> None)"

definition go_int_of :: "jval \<Rightarrow> int option" where
  "go_int_of v = (case v of
     JNumber s \<Rightarrow> (case int_set s of Some i \<Rightarrow> if - (2 ^ 63) \<le> i \<and> i < 2 ^ 63 then Some i else None | None \<Rightarrow> None)
   | _ \<Rightarrow> None)"

definition str_map_of :: "jval \<Rightarrow> (string, string) gomap option" where
  "str_map_of v = (case v of
     JObj m \<Rightarrow> those (map (\<lambda>(k, x). map_option (Pair k) (str_of x)) m)
   | _ \<Rightarrow> None)"

text \<open>The fields \<open>code\<close> and \<open>result\<close> of the response (maps decoded into one field merge).\<close>

definition goplus_response :: "string \<Rightarrow> (int \<times> (string, string) gomap) option" where
  "goplus_response body = (case unmarshal body of
     Some (JObj m) \<Rightarrow>
       Option.bind (field_of go_int_of 0 ''code'' m) (\<lambda>code.
       map_option (\<lambda>ms. (code, foldl AList.merge [] ms)) (those (map str_map_of (filter (\<lambda>v. v \<noteq> JNull) (members_for ''result'' m)))))
   | Some JNull \<Rightarrow> Some (0, [])
   | _ \<Rightarrow> None)"

definition flagged :: "(string, string) gomap \<Rightarrow> string list" where
  "flagged reported = sort (map fst (filter (\<lambda>(f, w). map_of reported f = Some ''1'') goPlusWeights))"

definition weight :: "string \<Rightarrow> nat" where
  "weight f = (case map_of goPlusWeights f of None \<Rightarrow> 0 | Some w \<Rightarrow> w)"

definition kyt_score :: "string list \<Rightarrow> nat" where
  "kyt_score flags = foldl max 0 (map weight flags)"

definition kyt_base :: result where
  "kyt_base = no_result\<lparr>Res_Provider := ''GoPlus'', Res_Product := ''address_security (demo, not for production)''\<rparr>"

definition kyt_section :: "time \<Rightarrow> string list \<Rightarrow> (string \<times> jval) list" where
  "kyt_section now flags = [
     (''provider'', JStr (Res_Provider kyt_base)), (''product'', JStr (Res_Product kyt_base)),
     (''api_version'', JStr ''v1 address_security, chain_id=1''), (''external_ref'', JNull),
     (''screened_at'', JStr (rfc3339 now)), (''risk_level'', JStr (riskLevel (kyt_score flags))),
     (''categories'', JList (map JStr flags)),
     (''alerts'', JList (map (\<lambda>f. JObj [(''category'', JStr f), (''severity'', JStr (riskLevel (weight f)))]) flags)),
     (''exposures'', JList []), (''score'', JStr (nat_dec (kyt_score flags)))]"

text \<open>\<open>http\<close>: status and body of a GET, or the transport error; at most \<open>1 << 20\<close> bytes are read.\<close>

definition GoPlusRun :: "(string \<Rightarrow> (check_err, nat \<times> string) res) \<Rightarrow> crypto \<Rightarrow> string \<Rightarrow> time \<Rightarrow> check_payment \<Rightarrow> outcome3" where
  "GoPlusRun http cr baseURL now p =
     (case http (baseURL @ ''/api/v1/address_security/'' @ addr_hex cr (CP_Payer p) @ ''?chain_id=1'') of
        Inl e \<Rightarrow> (kyt_base, None, Some e)
      | Inr (status, full) \<Rightarrow>
          let body = take (2 ^ 20) full in
          if status \<noteq> 200 then (kyt_base, None, Some (HTTPStatus status))
          else (case goplus_response body of
             Some (code, reported) \<Rightarrow>
               if code \<noteq> 1 then (kyt_base, None, Some NotUsable)
               else let flags = flagged reported in
                 (kyt_base\<lparr>Res_Outcome := riskLevel (kyt_score flags), Res_At := Some now, Res_Section := kyt_section now flags\<rparr>,
                  Some body, None)
           | None \<Rightarrow> (kyt_base, None, Some NotUsable)))"

section \<open>Sanctions (sanctions.go)\<close>

text \<open>The UTF-8 encodings of the white space runes (U+0009 to U+000D, U+0020, U+0085, U+00A0, U+1680,
  U+2000 to U+200A, U+2028, U+2029, U+202F, U+205F, U+3000), for \<open>strings.TrimSpace\<close>.\<close>

definition space_encodings :: "string list" where
  "space_encodings = [
     [CHR 0x09], [CHR 0x0A], [CHR 0x0B], [CHR 0x0C], [CHR 0x0D], [CHR 0x20], [CHR 0xC2, CHR 0x85],
     [CHR 0xC2, CHR 0xA0], [CHR 0xE1, CHR 0x9A, CHR 0x80], [CHR 0xE2, CHR 0x80, CHR 0x80],
     [CHR 0xE2, CHR 0x80, CHR 0x81], [CHR 0xE2, CHR 0x80, CHR 0x82], [CHR 0xE2, CHR 0x80, CHR 0x83],
     [CHR 0xE2, CHR 0x80, CHR 0x84], [CHR 0xE2, CHR 0x80, CHR 0x85], [CHR 0xE2, CHR 0x80, CHR 0x86],
     [CHR 0xE2, CHR 0x80, CHR 0x87], [CHR 0xE2, CHR 0x80, CHR 0x88], [CHR 0xE2, CHR 0x80, CHR 0x89],
     [CHR 0xE2, CHR 0x80, CHR 0x8A], [CHR 0xE2, CHR 0x80, CHR 0xA8], [CHR 0xE2, CHR 0x80, CHR 0xA9],
     [CHR 0xE2, CHR 0x80, CHR 0xAF], [CHR 0xE2, CHR 0x81, CHR 0x9F], [CHR 0xE3, CHR 0x80, CHR 0x80]]"

function trim_left :: "string \<Rightarrow> string" where
  "trim_left s = (case find_first (\<lambda>e. e \<noteq> [] \<and> prefix e s) space_encodings of
     None \<Rightarrow> s | Some e \<Rightarrow> trim_left (drop (length e) s))"
  by pat_completeness auto
termination
proof (relation "measure length")
  fix s e
  assume "find_first (\<lambda>e. e \<noteq> [] \<and> prefix e s) space_encodings = Some e"
  then have "e \<noteq> []" and "prefix e s" by (auto dest: find_first_SomeD)
  then show "(drop (length e) s, s) \<in> measure length" by (auto simp: prefix_def)
qed simp

function trim_right :: "string \<Rightarrow> string" where
  "trim_right s = (case find_first (\<lambda>e. e \<noteq> [] \<and> suffix e s) space_encodings of
     None \<Rightarrow> s | Some e \<Rightarrow> trim_right (take (length s - length e) s))"
  by pat_completeness auto
termination
proof (relation "measure length")
  fix s e
  assume "find_first (\<lambda>e. e \<noteq> [] \<and> suffix e s) space_encodings = Some e"
  then have "e \<noteq> []" and "suffix e s" by (auto dest: find_first_SomeD)
  then show "(take (length s - length e) s, s) \<in> measure length" by (auto simp: suffix_def)
qed simp

declare trim_left.simps [simp del] trim_right.simps [simp del]

definition TrimSpace :: "string \<Rightarrow> string" where
  "TrimSpace s = trim_right (trim_left s)"

text \<open>
  \<open>bufio.Scanner\<close> over lines: a carriage return before the newline is dropped, a last line
  without newline counts when it is not empty, and a line that does not fit the 64 KiB buffer ends the
  scan (its error is never read).
\<close>

definition drop_cr :: "string \<Rightarrow> string" where
  "drop_cr l = (if l \<noteq> [] \<and> last l = CHR 0x0D then butlast l else l)"

fun scan_lines :: "string list \<Rightarrow> string list" where
  "scan_lines [] = []"
| "scan_lines [l] = (if l = [] \<or> 65536 \<le> length l then [] else [drop_cr l])"
| "scan_lines (l # ls) = (if 65536 \<le> length l then [] else drop_cr l # scan_lines ls)"

definition list_entry :: "string \<Rightarrow> string" where
  "list_entry l = to_lower (TrimSpace (takeWhile (\<lambda>c. c \<noteq> CHR ''#'') l))"

definition list_entries :: "string \<Rightarrow> string list" where
  "list_entries raw = remdups (filter (\<lambda>e. e \<noteq> []) (map list_entry (scan_lines (split_on CHR 0x0A raw))))"

record loaded_list =
  LL_ID :: nat
  LL_Name :: string
  LL_Version :: string
  LL_Sha :: string
  LL_LoadedAt :: time
  LL_Entries :: "string list"

text \<open>The upsert: the existing row keeps its id and time, and the sequence advances either way.\<close>

definition upsert_list :: "time \<Rightarrow> string \<Rightarrow> string \<Rightarrow> string \<Rightarrow> nat \<Rightarrow> db \<Rightarrow> (nat \<times> time) \<times> db" where
  "upsert_list now name version sha n d =
     (let same = (\<lambda>r. L_Name r = name \<and> L_Version r = version \<and> L_Sha r = sha); i = Suc (list_serial d);
          d' = d\<lparr>list_serial := i\<rparr>
      in case find_first same (list_versions d) of
        Some r \<Rightarrow> ((L_ID r, L_LoadedAt r), d'\<lparr>list_versions := map (\<lambda>r. if same r then r\<lparr>L_Entries := n\<rparr> else r) (list_versions d)\<rparr>)
      | None \<Rightarrow> ((i, now), d'\<lparr>list_versions := list_versions d
          @ [\<lparr> L_ID = i, L_Name = name, L_Version = version, L_Sha = sha, L_Entries = n, L_LoadedAt = now \<rparr>]\<rparr>))"

text \<open>
  \<open>Load\<close>: the lists loaded so far become the screening lists only when every file was read;
  \<open>read\<close> is the file system.
\<close>

fun load_lists :: "(string \<Rightarrow> string option) \<Rightarrow> time \<Rightarrow> sanctions_cfg list \<Rightarrow> db \<Rightarrow> (check_err, loaded_list list) res \<times> db" where
  "load_lists read now [] d = (Inr [], d)"
| "load_lists read now (c # cs) d = (case read (ListPath c) of
     None \<Rightarrow> (Inl (ListUnreadable (ListName c)), d)
   | Some raw \<Rightarrow>
       let es = list_entries raw; ((i, loaded), d1) = upsert_list now (ListName c) (ListVersion c) (SHA raw) (length es) d;
           (rest, d2) = load_lists read now cs d1
       in (map_res ((#) \<lparr> LL_ID = i, LL_Name = ListName c, LL_Version = ListVersion c, LL_Sha = SHA raw, LL_LoadedAt = loaded, LL_Entries = es \<rparr>) rest, d2))"

definition Load :: "(string \<Rightarrow> string option) \<Rightarrow> time \<Rightarrow> sanctions_cfg list \<Rightarrow> loaded_list list \<Rightarrow> db
    \<Rightarrow> check_err option \<times> loaded_list list \<times> db" where
  "Load read now cfgs old d = (case load_lists read now cfgs d of
     (Inl e, d') \<Rightarrow> (Some e, old, d') | (Inr ls, d') \<Rightarrow> (None, ls, d'))"

definition sanctions_base :: result where
  "sanctions_base = no_result\<lparr>Res_Provider := ''Deflow'', Res_Product := ''address list screening''\<rparr>"

definition used_list :: "loaded_list \<Rightarrow> jval" where
  "used_list l = JObj [(''name'', JStr (LL_Name l)), (''version'', JStr (LL_Version l)), (''sha256'', JStr (LL_Sha l)),
     (''loaded_at'', JStr (rfc3339 (LL_LoadedAt l))), (''version_id'', JInt64 (word_of_nat (LL_ID l)))]"

definition list_match :: "string \<Rightarrow> loaded_list \<Rightarrow> jval" where
  "list_match payer l = JObj [(''field'', JStr ''payer_address''), (''value'', JStr payer),
     (''list'', JStr (LL_Name l)), (''list_version'', JStr (LL_Version l))]"

definition SanctionsRun :: "loaded_list list \<Rightarrow> crypto \<Rightarrow> time \<Rightarrow> check_payment \<Rightarrow> outcome3" where
  "SanctionsRun loaded cr now p =
     (if loaded = [] then (sanctions_base, None, Some NoListLoaded)
      else
        let payer = to_lower (addr_hex cr (CP_Payer p));
            matched = map (list_match (addr_hex cr (CP_Payer p))) (filter (\<lambda>l. payer \<in> set (LL_Entries l)) loaded);
            outcome = (if matched = [] then ''NO_MATCH'' else ''TRUE_MATCH'')
        in (sanctions_base\<lparr>Res_Outcome := outcome, Res_At := Some now, Res_Section := [
              (''fields_screened'', JStr ''Payer address''), (''name_screening'', JStr ''NOT_PERFORMED''),
              (''algorithm'', JStr ''exact address match, case-insensitive''), (''threshold'', JStr ''exact''),
              (''calibration_version'', JStr ''n/a''), (''lists'', JList (map used_list loaded)),
              (''screened_at'', JStr (rfc3339 now)), (''result'', JStr outcome),
              (''matched_on'', if matched = [] then JStr ''No match on the payer address. Direct counterparties are not screened in this version.''
                 else JList matched),
              (''alert_analysis'', JNull), (''reviewer'', JNull), (''second_reviewer'', JNull)]\<rparr>, None, None))"

section \<open>Structuring (structuring.go)\<close>

definition splitWindow :: duration where "splitWindow = 72 * 3600 * second"
definition splitAggregateEUR :: rat where "splitAggregateEUR = 5000"
definition splitBandLow :: rat where "splitBandLow = 900"
definition splitBandHigh :: rat where "splitBandHigh = 1000"
definition splitBandCount :: nat where "splitBandCount = 3"

text \<open>\<open>eur\<close>: the amount column is a decimal integer, which reads back as itself.\<close>

definition structuring_eur :: "config \<Rightarrow> 64 word \<Rightarrow> address \<Rightarrow> int \<Rightarrow> (check_err, rat) res" where
  "structuring_eur cfg chainID token a = (case Chain cfg chainID of
     None \<Rightarrow> Inl (ChainUnconfigured chainID)
   | Some ch \<Rightarrow> (case Token ch token of
       None \<Rightarrow> Inl (TokenUnconfigured token)
     | Some t \<Rightarrow> and_then (EUR a (Decimals t) (EURRate t)) ParseDecimal))"

text \<open>The rows of the query: the payment and the pack id of its snapshot, if any.\<close>

definition window_rows :: "db \<Rightarrow> check_payment \<Rightarrow> (payment_row \<times> string option) list" where
  "window_rows d p = map (\<lambda>r. (r, map_option S_PackID (snapshot_of d (P_ID r))))
     (filter (\<lambda>r. P_Payer r = CP_Payer p \<and> CP_Time p - splitWindow < P_BlockTime r \<and> P_BlockTime r \<le> CP_Time p
        \<and> (P_Ingest r = Confirmed \<or> P_ID r = CP_ID p)) (payments d))"

record split_state =
  aggregate :: rat
  band :: nat
  linked :: nat
  pack_ids :: "string list"
  seenSelf :: bool

definition in_band :: "rat \<Rightarrow> bool" where
  "in_band eur \<longleftrightarrow> splitBandLow \<le> eur \<and> eur < splitBandHigh"

definition add_eur :: "rat \<Rightarrow> split_state \<Rightarrow> split_state" where
  "add_eur eur st = st\<lparr>aggregate := aggregate st + eur, band := band st + (if in_band eur then 1 else 0), linked := Suc (linked st)\<rparr>"

definition split_row :: "config \<Rightarrow> hash \<Rightarrow> payment_row \<times> string option \<Rightarrow> split_state \<Rightarrow> (check_err, split_state) res" where
  "split_row cfg self r st = map_res (\<lambda>eur. let st = add_eur eur st in
       if P_ID (fst r) = self then st\<lparr>seenSelf := True\<rparr>
       else (case snd r of None \<Rightarrow> st | Some pk \<Rightarrow> st\<lparr>pack_ids := pack_ids st @ [pk]\<rparr>))
     (structuring_eur cfg (P_Chain (fst r)) (P_Token (fst r)) (P_Amount (fst r)))"

fun split_rows :: "config \<Rightarrow> hash \<Rightarrow> (payment_row \<times> string option) list \<Rightarrow> split_state \<Rightarrow> (check_err, split_state) res" where
  "split_rows cfg self [] st = Inr st"
| "split_rows cfg self (r # rs) st = and_then (split_row cfg self r st) (split_rows cfg self rs)"

definition split_state :: "config \<Rightarrow> db \<Rightarrow> check_payment \<Rightarrow> (check_err, split_state) res" where
  "split_state cfg d p =
     and_then (split_rows cfg (CP_ID p) (window_rows d p) \<lparr> aggregate = 0, band = 0, linked = 0, pack_ids = [], seenSelf = False \<rparr>)
       (\<lambda>st. if seenSelf st then Inr st else map_res (\<lambda>eur. add_eur eur st) (ParseDecimal (CP_EUR p)))"

definition split_flag :: "split_state \<Rightarrow> bool" where
  "split_flag st \<longleftrightarrow> splitAggregateEUR \<le> aggregate st \<or> splitBandCount \<le> band st"

definition split_score :: "split_state \<Rightarrow> rat" where
  "split_score st = min 1 (max (aggregate st / splitAggregateEUR) (of_nat (band st) / of_nat splitBandCount))"

definition structuring_base :: result where
  "structuring_base = no_result\<lparr>Res_Provider := ''Deflow'', Res_Product := ''SPLIT-03''\<rparr>"

definition StructuringRun :: "config \<Rightarrow> db \<Rightarrow> time \<Rightarrow> check_payment \<Rightarrow> outcome3" where
  "StructuringRun cfg d now p = (case split_state cfg d p of
     Inl e \<Rightarrow> (structuring_base, None, Some e)
   | Inr st \<Rightarrow>
       let outcome = (if split_flag st then ''FLAG'' else ''PASS'')
       in (structuring_base\<lparr>Res_Outcome := outcome, Res_At := Some now, Res_Section := [
             (''rule_id'', JStr ''SPLIT-03''), (''window'', JStr ''72h''),
             (''thresholds'', JObj [(''aggregate_eur'', JStr ''5000.00''), (''band_eur'', JStr ''900.00-999.99''),
                (''band_count'', JStr (nat_dec splitBandCount))]),
             (''linked_count'', JInt (word_of_nat (linked st))), (''linked_pack_ids'', JList (map JStr (pack_ids st))),
             (''features'', JObj [(''aggregate_eur'', JStr (float_string 2 (aggregate st))),
                (''band_count'', JStr (nat_dec (band st))), (''cluster'', JStr ''address'')]),
             (''score'', JStr (float_string 2 (split_score st))), (''result'', JStr outcome),
             (''evaluated_at'', JStr (rfc3339 now))]\<rparr>, None, None))"

section \<open>Issuer controls (issuer.go)\<close>

text \<open>
  \<open>clients\<close> are the chain clients; a call takes the contract, the input and the block number.
  The payer is asked first (Go's order of the two calls is not fixed; it decides only which error is
  reported).
\<close>

type_synonym eth_call = "address \<Rightarrow> string \<Rightarrow> 64 word \<Rightarrow> (string, string) res"

definition isBlacklistedSel :: "(string \<Rightarrow> string) \<Rightarrow> string" where
  "isBlacklistedSel keccak = take 4 (keccak ''isBlacklisted(address)'')"

definition left_pad :: "nat \<Rightarrow> string \<Rightarrow> string" where
  "left_pad n s = replicate (n - length s) (char_of (0 :: nat)) @ s"

definition is_listed :: "(string \<Rightarrow> string) \<Rightarrow> eth_call \<Rightarrow> check_payment \<Rightarrow> string \<Rightarrow> address \<Rightarrow> (check_err, bool) res" where
  "is_listed keccak call p name who =
     (case call (CP_Token p) (isBlacklistedSel keccak @ left_pad 32 who) (CP_Block p) of
        Inl e \<Rightarrow> Inl (CallFailed name e)
      | Inr out \<Rightarrow> if length out \<noteq> 32 then Inl (NotABool name (length out)) else Inr (be_nat out \<noteq> 0))"

definition issuer_base :: result where
  "issuer_base = no_result\<lparr>Res_Provider := ''Token contract'', Res_Product := ''isBlacklisted(address)''\<rparr>"

definition IssuerRun :: "(string \<Rightarrow> string) \<Rightarrow> (64 word \<Rightarrow> eth_call option) \<Rightarrow> time \<Rightarrow> check_payment \<Rightarrow> outcome3" where
  "IssuerRun keccak clients now p = (case clients (CP_Chain p) of
     None \<Rightarrow> (issuer_base, None, Some (NoRPC (CP_Chain p)))
   | Some call \<Rightarrow>
       (case and_then (is_listed keccak call p ''payer'' (CP_Payer p)) (\<lambda>a.
               map_res (Pair a) (is_listed keccak call p ''deposit'' (CP_Deposit p))) of
          Inl e \<Rightarrow> (issuer_base, None, Some e)
        | Inr (payer, dep) \<Rightarrow>
            let outcome = (if payer \<or> dep then ''LISTED'' else ''NOT_LISTED'')
            in (issuer_base\<lparr>Res_Outcome := outcome, Res_At := Some now, Res_Section := [
                  (''checked'', JStr ''Payer address and deposit address''), (''block'', JUint64 (CP_Block p)),
                  (''payer_listed'', JBool payer), (''deposit_listed'', JBool dep),
                  (''result'', JStr outcome), (''checked_at'', JStr (rfc3339 now))]\<rparr>, None, None)))"

section \<open>Sections are plain JSON\<close>

definition plain_key :: "string \<Rightarrow> bool" where
  "plain_key k \<longleftrightarrow> ascii k \<and> k \<noteq> [] \<and> CHR ''.'' \<notin> set k"

declare plain_key_def [literals]

definition section_ok :: "(string \<times> jval) list \<Rightarrow> bool" where
  "section_ok m \<longleftrightarrow> wf_json (JObj m) \<and> tree_ok (JObj m) \<and> list_all plain_key (keys m) \<and> length m \<noteq> 1"

lemma section_okI:
  assumes "distinct (keys m)" and "list_all plain_key (keys m)" and "length m \<noteq> 1"
    and "list_all (\<lambda>(k, v). wf_json v \<and> tree_ok v) m"
  shows "section_ok m"
proof -
  have seg: "map first_segment (keys m) = keys m"
    using assms(2) by (intro map_idI first_segment_nodot) (auto simp: list_all_iff plain_key_def)
  have "\<not> marker_like m"
  proof
    assume "marker_like m"
    then have "length (keys m) = length [withheld_key]" by (simp only: marker_like_def)
    then show False using assms(3) by simp
  qed
  moreover have "list_all (\<lambda>(k, v). k \<noteq> [] \<and> tree_ok v) m" "list_all (\<lambda>(k, v). valid_utf8 k \<and> wf_json v) m"
    using assms(2,4) by (fastforce simp: list_all_iff plain_key_def ascii_valid)+
  ultimately show ?thesis
    using assms(1-3) seg unfolding section_ok_def tree_ok_obj wf_json.simps wf_map_def by (simp only: simp_thms)
qed

lemma section_ok_obj: "section_ok m \<Longrightarrow> wf_json (JObj m) \<and> tree_ok (JObj m)"
  by (simp add: section_ok_def)

section \<open>The contract of a check\<close>

definition outcomes_of :: "string \<Rightarrow> string list" where
  "outcomes_of field = (case map_of enums field of None \<Rightarrow> [] | Some os \<Rightarrow> os)"

locale check_contract =
  fixes run :: "check_payment \<Rightarrow> outcome3" and field :: string
  assumes enumerated: "run p = (r, b, None) \<Longrightarrow> Res_Outcome r \<in> set (outcomes_of field) \<and> Res_Outcome r \<noteq> Unavailable"
    and plain: "run p = (r, b, None) \<Longrightarrow> section_ok (Res_Section r)"
    and degradable: "Unavailable \<in> set (outcomes_of field)"
begin

lemma runOne_failed:
  assumes "runOne env timeout \<lparr> CKind = kind, CRun = (\<lambda>p. Inr (run p)) \<rparr> p raw = (res, raw')"
  shows "Res_Outcome res = Unavailable \<longleftrightarrow> Late env \<or> (\<exists>r b e. run p = (r, b, Some e))
     \<or> (\<exists>r b. run p = (r, Some b, None) \<and> \<not> Writable env)"
proof -
  obtain r b err where r: "run p = (r, b, err)" by (cases "run p") auto
  show ?thesis
    using assms enumerated [of p r b] r
    by (cases "Late env"; cases err; cases b; cases "Writable env")
      (auto simp: runOne_def Put_def unavailable_def)
qed

lemma runOne_ok:
  assumes "runOne env timeout \<lparr> CKind = kind, CRun = (\<lambda>p. Inr (run p)) \<rparr> p raw = (res, raw')"
  shows "Res_Outcome res \<in> set (outcomes_of field)" and "section_ok (Res_Section res)" and "Res_Kind res = kind"
    and "Res_At res \<noteq> None"
proof -
  obtain r b err where r: "run p = (r, b, err)" by (cases "run p") auto
  have keys: "list_all plain_key [''result'', ''error'', ''checked_at'']" by (simp_all add: literals)
  have una: "section_ok (Res_Section (unavailable t now k x e))" for t now k x e
    by (rule section_okI) (use keys in \<open>simp_all add: unavailable_def split_beta\<close>)
  note una' = una [unfolded unavailable_def]
  show "Res_Outcome res \<in> set (outcomes_of field)"
    using assms enumerated [of p r b] r degradable
    by (cases "Late env"; cases err; cases b; cases "Writable env")
      (auto simp: runOne_def Put_def unavailable_def)
  show "section_ok (Res_Section res)"
    using assms plain [of p r b] r una
    by (cases "Late env"; cases err; cases b; cases "Writable env")
      (auto simp: runOne_def Put_def)
  show "Res_Kind res = kind" "Res_At res \<noteq> None"
    using assms r
    by (cases "Late env"; cases err; cases b; cases "Writable env";
        auto simp: runOne_def Put_def unavailable_def split: option.splits prod.splits)+
qed

end

lemma flagged_plain: "f \<in> set (flagged reported) \<Longrightarrow> map_of goPlusWeights f \<noteq> None"
  unfolding flagged_def keys_iff [symmetric] by force

lemma riskLevel_outcome: "riskLevel n \<in> set (outcomes_of ''kyt.risk_level'') \<and> riskLevel n \<noteq> Unavailable"
  by (simp add: riskLevel_def outcomes_of_def enums_def Unavailable_def)

lemma kyt_section_ok: "section_ok (kyt_section now flags)"
proof (rule section_okI)
  have k: "keys (kyt_section now flags) = [''provider'', ''product'', ''api_version'', ''external_ref'', ''screened_at'',
      ''risk_level'', ''categories'', ''alerts'', ''exposures'', ''score'']"
    by (simp add: kyt_section_def)
  show "distinct (keys (kyt_section now flags))" "list_all plain_key (keys (kyt_section now flags))"
    unfolding k by (simp_all add: literals)
  have "section_ok [(''category'', JStr f), (''severity'', JStr (riskLevel (weight f)))]" for f
  proof (rule section_okI)
    have "list_all plain_key [''category'', ''severity'']" by (simp_all add: literals)
    then show "list_all plain_key (keys [(''category'', JStr f), (''severity'', JStr (riskLevel (weight f)))])" by simp
  qed simp_all
  then have "list_all (\<lambda>v. wf_json v \<and> tree_ok v) (map (\<lambda>f. JObj [(''category'', JStr f), (''severity'', JStr (riskLevel (weight f)))]) flags)"
    using section_ok_obj by (simp only: list_all_iff list.set_map) blast
  then have "wf_json (JList (map (\<lambda>f. JObj [(''category'', JStr f), (''severity'', JStr (riskLevel (weight f)))]) flags))
    \<and> tree_ok (JList (map (\<lambda>f. JObj [(''category'', JStr f), (''severity'', JStr (riskLevel (weight f)))]) flags))"
    by (simp only: wf_json.simps tree_ok_simps list_all_iff) blast
  then show "list_all (\<lambda>(k, v). wf_json v \<and> tree_ok v) (kyt_section now flags)"
    by (simp add: kyt_section_def list_all_iff)
qed (simp add: kyt_section_def)

interpretation kyt: check_contract "GoPlusRun http cr base now" "''kyt.risk_level''" for http cr base now
proof
  fix p r b
  assume run: "GoPlusRun http cr base now p = (r, b, None)"
  then obtain flags where "Res_Outcome r = riskLevel (kyt_score flags)" "Res_Section r = kyt_section now flags"
    by (auto simp: GoPlusRun_def Let_def split: sum.splits prod.splits option.splits if_splits)
  then show "Res_Outcome r \<in> set (outcomes_of ''kyt.risk_level'') \<and> Res_Outcome r \<noteq> Unavailable" "section_ok (Res_Section r)"
    using riskLevel_outcome kyt_section_ok by simp_all
qed (simp add: outcomes_of_def enums_def Unavailable_def)

lemma objects_ok:
  assumes "\<And>x. section_ok (f x)"
  shows "wf_json (JList (map (\<lambda>x. JObj (f x)) xs)) \<and> tree_ok (JList (map (\<lambda>x. JObj (f x)) xs))"
proof -
  have "wf_json (JObj (f x)) \<and> tree_ok (JObj (f x))" for x
    using assms by (rule section_ok_obj)
  then have "\<forall>v\<in>set (map (\<lambda>x. JObj (f x)) xs). wf_json v \<and> tree_ok v"
    by (simp only: list.set_map) blast
  then show ?thesis by (simp only: wf_json.simps(2) tree_ok_simps list_all_iff) blast
qed

interpretation sanctions: check_contract "SanctionsRun loaded cr now" "''sanctions.result''" for loaded cr now
proof
  fix p r b
  assume run: "SanctionsRun loaded cr now p = (r, b, None)"
  then show "Res_Outcome r \<in> set (outcomes_of ''sanctions.result'') \<and> Res_Outcome r \<noteq> Unavailable"
    by (auto simp: SanctionsRun_def Let_def outcomes_of_def enums_def Unavailable_def split: if_splits)
  have keys: "keys (Res_Section r) = [''fields_screened'', ''name_screening'', ''algorithm'', ''threshold'', ''calibration_version'',
     ''lists'', ''screened_at'', ''result'', ''matched_on'', ''alert_analysis'', ''reviewer'', ''second_reviewer'']"
    using run by (auto simp: SanctionsRun_def Let_def split: if_splits)
  have u: "wf_json (JList (map used_list ls)) \<and> tree_ok (JList (map used_list ls))" for ls
  proof -
    have "list_all plain_key [''name'', ''version'', ''sha256'', ''loaded_at'', ''version_id'']" by (simp_all add: literals)
    then show ?thesis unfolding used_list_def by (intro objects_ok section_okI) simp_all
  qed
  have m: "wf_json (JList (map (list_match a) ls)) \<and> tree_ok (JList (map (list_match a) ls))" for a ls
  proof -
    have "list_all plain_key [''field'', ''value'', ''list'', ''list_version'']" by (simp_all add: literals)
    then show ?thesis unfolding list_match_def by (intro objects_ok section_okI) simp_all
  qed
  show "section_ok (Res_Section r)"
  proof (rule section_okI)
    show "distinct (keys (Res_Section r))" "list_all plain_key (keys (Res_Section r))" unfolding keys by (simp_all add: literals)
    show "length (Res_Section r) \<noteq> 1" using arg_cong [OF keys, of length] by simp
    show "list_all (\<lambda>(k, v). wf_json v \<and> tree_ok v) (Res_Section r)"
      using run u m by (auto simp: SanctionsRun_def Let_def list_all_iff split: if_splits)
  qed
qed (simp add: outcomes_of_def enums_def Unavailable_def)

interpretation structuring: check_contract "StructuringRun cfg d now" "''structuring.result''" for cfg d now
proof
  fix p r b
  assume run: "StructuringRun cfg d now p = (r, b, None)"
  then show "Res_Outcome r \<in> set (outcomes_of ''structuring.result'') \<and> Res_Outcome r \<noteq> Unavailable"
    by (auto simp: StructuringRun_def Let_def outcomes_of_def enums_def Unavailable_def split: sum.splits if_splits)
  have keys: "keys (Res_Section r) = [''rule_id'', ''window'', ''thresholds'', ''linked_count'', ''linked_pack_ids'', ''features'',
     ''score'', ''result'', ''evaluated_at'']"
    using run by (auto simp: StructuringRun_def Let_def split: sum.splits)
  have "list_all plain_key [''aggregate_eur'', ''band_eur'', ''band_count'']"
    and "list_all plain_key [''aggregate_eur'', ''band_count'', ''cluster'']" by (simp_all add: literals)
  then have t: "section_ok [(''aggregate_eur'', JStr x), (''band_eur'', JStr y), (''band_count'', JStr z)]"
    and f: "section_ok [(''aggregate_eur'', JStr x), (''band_count'', JStr y), (''cluster'', JStr z)]" for x y z
    by (intro section_okI; simp)+
  show "section_ok (Res_Section r)"
  proof (rule section_okI)
    show "distinct (keys (Res_Section r))" "list_all plain_key (keys (Res_Section r))" unfolding keys by (simp_all add: literals)
    show "length (Res_Section r) \<noteq> 1" using arg_cong [OF keys, of length] by simp
    show "list_all (\<lambda>(k, v). wf_json v \<and> tree_ok v) (Res_Section r)"
      using run section_ok_obj [OF t] section_ok_obj [OF f]
      by (auto simp: StructuringRun_def Let_def list_all_iff split: sum.splits)
  qed
qed (simp add: outcomes_of_def enums_def Unavailable_def)

interpretation issuer: check_contract "IssuerRun keccak clients now" "''issuer.result''" for keccak clients now
proof
  fix p r b
  assume run: "IssuerRun keccak clients now p = (r, b, None)"
  then show "Res_Outcome r \<in> set (outcomes_of ''issuer.result'') \<and> Res_Outcome r \<noteq> Unavailable"
    by (auto simp: IssuerRun_def Let_def outcomes_of_def enums_def Unavailable_def split: option.splits sum.splits prod.splits if_splits)
  have keys: "keys (Res_Section r) = [''checked'', ''block'', ''payer_listed'', ''deposit_listed'', ''result'', ''checked_at'']"
    using run by (auto simp: IssuerRun_def Let_def split: option.splits sum.splits prod.splits)
  show "section_ok (Res_Section r)"
  proof (rule section_okI)
    show "distinct (keys (Res_Section r))" "list_all plain_key (keys (Res_Section r))" unfolding keys by (simp_all add: literals)
    show "length (Res_Section r) \<noteq> 1" using arg_cong [OF keys, of length] by simp
    show "list_all (\<lambda>(k, v). wf_json v \<and> tree_ok v) (Res_Section r)"
      using run by (auto simp: IssuerRun_def Let_def list_all_iff split: option.splits sum.splits prod.splits)
  qed
qed (simp add: outcomes_of_def enums_def Unavailable_def)

section \<open>Amounts are exact or nearest\<close>

lemma round_units_bounds:
  assumes "0 < d"
  shows "2 * (n * p) < 2 * d * round_units n d p + d" and "2 * d * round_units n d p \<le> 2 * (n * p) + d"
proof -
  let ?x = "2 * (n * p) + d"
  have "2 * d * (?x div (2 * d)) \<le> ?x" by (rule times_div_less_eq_dividend)
  then show "2 * d * round_units n d p \<le> 2 * (n * p) + d" by (simp add: round_units_def)
  have "?x < 2 * d * (?x div (2 * d)) + 2 * d" using assms dividend_less_times_div [of "2 * d" ?x] by simp
  then show "2 * (n * p) < 2 * d * round_units n d p + d" by (simp add: round_units_def)
qed

lemma round_units_near:
  assumes "0 \<le> x" and "quotient_of x = (a, b)"
  shows "\<bar>of_nat (round_units (nat a) (nat b) p) - x * of_nat p\<bar> \<le> 1 / 2"
proof -
  have b: "0 < b" using quotient_of_denom_pos [OF assms(2)] .
  have x: "x = of_int a / of_int b" using quotient_of_div [OF assms(2)] .
  have a: "0 \<le> a" using assms(1) b by (simp add: x zero_le_divide_iff)
  define N where "N = round_units (nat a) (nat b) p"
  have 1: "2 * (nat a * p) < 2 * nat b * N + nat b" and 2: "2 * nat b * N \<le> 2 * (nat a * p) + nat b"
    unfolding N_def using round_units_bounds [of "nat b" "nat a" p] b by simp_all
  have "of_nat (2 * (nat a * p)) < (of_nat (2 * nat b * N + nat b) :: rat)"
    "of_nat (2 * nat b * N) \<le> (of_nat (2 * (nat a * p) + nat b) :: rat)"
    using 1 2 by (simp_all only: of_nat_less_iff of_nat_le_iff)
  then have "2 * (of_int a * of_nat p) < 2 * of_int b * of_nat N + (of_int b :: rat)"
    "2 * of_int b * of_nat N \<le> 2 * (of_int a * of_nat p) + (of_int b :: rat)"
    using a b by (simp_all add: of_nat_nat)
  moreover have "of_int a = x * (of_int b :: rat)" using b by (simp add: x)
  ultimately have u: "2 * (x * of_int b * of_nat p) < 2 * of_int b * of_nat N + (of_int b :: rat)"
    and l: "2 * of_int b * of_nat N \<le> 2 * (x * of_int b * of_nat p) + (of_int b :: rat)"
    by simp_all
  have bp: "0 < (of_int b :: rat)" using b by simp
  have "of_int b * (2 * (x * of_nat p)) < of_int b * (2 * of_nat N + (1 :: rat))" using u by (simp add: algebra_simps)
  then have "2 * (x * of_nat p) < 2 * of_nat N + 1" using bp by (simp only: mult_less_cancel_left_pos)
  moreover have "of_int b * (2 * of_nat N) \<le> of_int b * (2 * (x * of_nat p) + (1 :: rat))" using l by (simp add: algebra_simps)
  then have "2 * of_nat N \<le> 2 * (x * of_nat p) + (1 :: rat)" using bp by (simp only: mult_le_cancel_left_pos)
  ultimately show ?thesis unfolding N_def abs_le_iff by (intro conjI; linarith)
qed

lemma float_string_near:
  assumes "0 \<le> x" and "0 < prec" and "prec \<le> 10 ^ 6"
  shows "\<exists>v. rat_set (float_string prec x) = Some v \<and> \<bar>v - x\<bar> \<le> 1 / (2 * 10 ^ prec) \<and> 0 \<le> v"
proof -
  obtain a b where q: "quotient_of x = (a, b)" by (cases "quotient_of x") auto
  let ?N = "round_units (nat a) (nat b) (10 ^ prec)"
  have r: "rat_set (float_string prec x) = Some (of_nat ?N / 10 ^ prec)"
    using rat_set_float_string [OF assms q] by simp
  have n: "\<bar>of_nat ?N - x * 10 ^ prec\<bar> \<le> 1 / 2"
    using round_units_near [OF assms(1) q, of "10 ^ prec"] by simp
  have "\<bar>of_nat ?N / 10 ^ prec - x\<bar> = \<bar>(of_nat ?N - x * 10 ^ prec) / 10 ^ prec\<bar>" by (simp add: diff_divide_distrib)
  also have "\<dots> = \<bar>of_nat ?N - x * 10 ^ prec\<bar> / 10 ^ prec" by (simp add: abs_divide)
  also have "\<dots> \<le> (1 / 2) / 10 ^ prec" by (rule divide_right_mono [OF n]) simp
  finally show ?thesis using r by simp
qed

lemma EUR_total: "rat_set rate \<noteq> None \<Longrightarrow> \<exists>s. EUR a d rate = Inr s"
  by (auto simp: EUR_def)

lemma EUR_near:
  assumes "0 \<le> a" and "rat_set rate = Some r" and "0 \<le> r" and "EUR a d rate = Inr s"
  shows "\<exists>v. ParseDecimal s = Inr v \<and> \<bar>v - of_int a / 10 ^ unat d * r\<bar> \<le> 1 / 200 \<and> 0 \<le> v"
proof -
  have s: "s = float_string 2 (of_int a / 10 ^ unat d * r)" using assms(2,4) by (simp add: EUR_def)
  have "(0 :: rat) \<le> of_int a / 10 ^ unat d * r" using assms(1,3) by simp
  from float_string_near [OF this, of 2] show ?thesis by (auto simp: s ParseDecimal_def)
qed

section \<open>Printed token amounts\<close>

text \<open>The fractional digits as printed: trailing zeros dropped, then padded to two.\<close>

definition short_frac :: "string \<Rightarrow> string" where
  "short_frac fs = trim_zeros fs @ replicate (2 - length (trim_zeros fs)) CHR ''0''"

lemma trim_zeros_snoc: "trim_zeros (s @ [c]) = (if c = CHR ''0'' then trim_zeros s else s @ [c])"
  by (simp add: trim_zeros_def)

lemma trim_zeros_split: "\<exists>k. fs = trim_zeros fs @ replicate k CHR ''0''"
proof (induction fs rule: rev_induct)
  case (snoc c fs)
  then obtain k where k: "fs = trim_zeros fs @ replicate k CHR ''0''" by blast
  show ?case
  proof (cases "c = CHR ''0''")
    case True
    have "fs @ [c] = trim_zeros fs @ replicate (Suc k) CHR ''0''"
      by (subst k) (simp add: True replicate_append_same [symmetric])
    moreover have "trim_zeros (fs @ [c]) = trim_zeros fs" by (simp add: trim_zeros_snoc True)
    ultimately show ?thesis by metis
  qed (auto simp: trim_zeros_snoc)
qed (simp add: trim_zeros_def)

lemma trim_zeros_digits: "list_all is_digit fs \<Longrightarrow> list_all is_digit (trim_zeros fs)"
  by (auto simp: trim_zeros_def list_all_iff dest: set_dropWhileD)

lemma dec_nat_zeros: "dec_nat (s @ replicate k CHR ''0'') = dec_nat s * 10 ^ k"
proof -
  have "dec_acc 0 (replicate k CHR ''0'') = 0"
    by (induction k) (simp_all add: digit_val_def)
  then have "dec_nat (replicate k CHR ''0'') = 0" by (simp only: dec_acc_def dec_nat_def)
  then show ?thesis using dec_acc_eq [of "dec_nat s" "replicate k CHR ''0''"]
    by (simp add: dec_nat_def dec_acc_def)
qed

lemma dec_frac_zeros: "(of_nat (dec_nat (s @ replicate k CHR ''0'')) :: rat) / 10 ^ length (s @ replicate k CHR ''0'')
    = of_nat (dec_nat s) / 10 ^ length s"
proof -
  have "(of_nat (dec_nat s * 10 ^ k) :: rat) / (10 ^ length s * 10 ^ k) = of_nat (dec_nat s) / 10 ^ length s"
    by simp
  then show ?thesis by (simp only: dec_nat_zeros power_add length_append length_replicate)
qed

lemma short_frac_value: "(of_nat (dec_nat (short_frac fs)) :: rat) / 10 ^ length (short_frac fs) = of_nat (dec_nat fs) / 10 ^ length fs"
  using trim_zeros_split [of fs] dec_frac_zeros unfolding short_frac_def by metis

lemma short_frac_len: "2 \<le> length (short_frac fs)" "length (short_frac fs) \<le> max 2 (length fs)"
proof -
  obtain k where k: "fs = trim_zeros fs @ replicate k CHR ''0''" using trim_zeros_split by blast
  have "length fs = length (trim_zeros fs) + k" by (subst k) simp
  then show "2 \<le> length (short_frac fs)" "length (short_frac fs) \<le> max 2 (length fs)" by (auto simp: short_frac_def)
qed

lemma short_frac_digits: "list_all is_digit fs \<Longrightarrow> list_all is_digit (short_frac fs)"
proof -
  assume "list_all is_digit fs"
  then have "list_all is_digit (trim_zeros fs)" by (rule trim_zeros_digits)
  moreover have "is_digit CHR ''0''" by (simp add: is_digit_def)
  then have "list_all is_digit (replicate k CHR ''0'')" for k by (simp add: list_all_iff)
  ultimately show ?thesis by (simp only: short_frac_def list_all_append)
qed

lemma no_dot_digits: "list_all is_digit ds \<Longrightarrow> CHR ''.'' \<notin> set ds"
  by (auto simp: list_all_iff is_digit_def)

lemma round_exact: "0 < d \<Longrightarrow> n * p = m * d \<Longrightarrow> round_units n d p = m"
proof -
  assume d: "0 < d" and e: "n * p = m * d"
  have "2 * (n * p) + d = d + m * (2 * d)" by (simp add: e)
  then have "round_units n d p = d div (2 * d) + m" using d by (simp only: round_units_def) simp
  then show ?thesis using d by simp
qed

lemma FormatUnits_shape:
  assumes "0 \<le> a"
  shows "\<exists>fs. FormatUnits a d = nat_dec (nat a div 10 ^ unat d) @ CHR ''.'' # fs \<and> list_all is_digit fs
    \<and> 2 \<le> length fs \<and> length fs \<le> 255
    \<and> of_nat (dec_nat fs) / 10 ^ length fs = (of_nat (nat a mod 10 ^ unat d) / 10 ^ unat d :: rat)"
proof (cases "unat d = 0")
  case True
  obtain x y where q: "quotient_of (of_int a :: rat) = (x, y)" by (cases "quotient_of (of_int a :: rat)") auto
  have xy: "x = a" "y = 1" using q by (simp_all add: quotient_of_int)
  have fs: "float_string 0 (of_int a) = nat_dec (nat a)"
    using assms by (simp add: float_string_def quotient_of_int Let_def)
  have "CHR ''.'' \<notin> set (nat_dec (nat a))" using no_dot_digits by simp
  then have "FormatUnits a d = nat_dec (nat a) @ ''.00''" using True fs by (simp add: FormatUnits_def Let_def)
  then show ?thesis using True by (intro exI [of _ "''00''"]) (simp add: is_digit_def dec_nat_def digit_val_def)
next
  case False
  let ?p = "10 ^ unat d :: nat" and ?x = "of_int a / 10 ^ unat d :: rat"
  let ?fs = "pad_zeros (unat d) (nat_dec (nat a mod ?p))"
  obtain x y where q: "quotient_of ?x = (x, y)" by (cases "quotient_of ?x") auto
  have y: "0 < y" using quotient_of_denom_pos [OF q] .
  have e: "?x = of_int x / of_int y" using quotient_of_div [OF q] .
  have "of_int (x * 10 ^ unat d) = (of_int (a * y) :: rat)" using y e by (simp add: field_simps)
  then have xa: "x * 10 ^ unat d = a * y" by (simp only: of_int_eq_iff)
  then have "0 \<le> x * 10 ^ unat d" using assms y by simp
  then have x0: "0 \<le> x" by (metis zero_less_power zero_less_numeral mult_less_0_iff not_le)
  have "nat x * ?p = nat a * nat y"
    using xa x0 y assms by (metis nat_mult_distrib nat_power_eq nat_numeral zero_le_numeral zero_le_power less_imp_le)
  then have N: "round_units (nat x) (nat y) ?p = nat a" using y by (intro round_exact) simp_all
  have s: "float_string (unat d) ?x = nat_dec (nat a div ?p) @ CHR ''.'' # ?fs"
    using float_string_nonneg [of ?x "unat d" x y] assms False q by (simp add: N)
  have dig: "list_all is_digit ?fs" by (intro pad_zeros_digits) simp
  have len: "length ?fs = unat d"
    using length_nat_dec [of "nat a mod ?p" "unat d"] False by (intro length_pad_zeros) simp
  have nd: "CHR ''.'' \<notin> set (nat_dec (nat a div ?p))" using no_dot_digits by simp
  have tw: "takeWhile (\<lambda>c. c \<noteq> CHR ''.'') (nat_dec (nat a div ?p) @ CHR ''.'' # ?fs) = nat_dec (nat a div ?p)"
    using nd by (subst takeWhile_append2) auto
  have tz: "trim_zeros (nat_dec (nat a div ?p) @ CHR ''.'' # ?fs) = nat_dec (nat a div ?p) @ CHR ''.'' # trim_zeros ?fs"
    by (simp add: trim_zeros_def dropWhile_append)
  have "FormatUnits a d = nat_dec (nat a div ?p) @ CHR ''.'' # short_frac ?fs"
    unfolding FormatUnits_def Let_def s tw tz by (simp add: short_frac_def)
  moreover have "length (short_frac ?fs) \<le> 255"
    using short_frac_len(2) [of ?fs] unsigned_less [of d, where 'a = nat] unfolding len by simp
  moreover have "of_nat (dec_nat (short_frac ?fs)) / 10 ^ length (short_frac ?fs) = (of_nat (nat a mod ?p) / 10 ^ unat d :: rat)"
    unfolding short_frac_value len by (simp add: dec_nat_pad dec_nat_nat_dec)
  ultimately show ?thesis using short_frac_len(1) short_frac_digits [OF dig] by blast
qed

lemma FormatUnits_value:
  assumes "0 \<le> a"
  shows "rat_set (FormatUnits a d) = Some (of_int a / 10 ^ unat d)"
proof -
  obtain fs where fs: "FormatUnits a d = nat_dec (nat a div 10 ^ unat d) @ CHR ''.'' # fs" "list_all is_digit fs"
    "2 \<le> length fs" "length fs \<le> 255" and v: "of_nat (dec_nat fs) / 10 ^ length fs = (of_nat (nat a mod 10 ^ unat d) / 10 ^ unat d :: rat)"
    using FormatUnits_shape [OF assms] by blast
  have "fs \<noteq> []" using fs(3) by auto
  then have "rat_set (FormatUnits a d) = Some (of_nat (nat a div 10 ^ unat d * 10 ^ length fs + dec_nat fs) / 10 ^ length fs)"
    using rat_set_decimal [OF fs(2)] fs(1,4) by simp
  also have "of_nat (nat a div 10 ^ unat d * 10 ^ length fs + dec_nat fs) / 10 ^ length fs
      = of_nat (nat a div 10 ^ unat d) + (of_nat (dec_nat fs) / 10 ^ length fs :: rat)"
    by (simp add: add_divide_distrib)
  also have "\<dots> = of_nat (nat a div 10 ^ unat d * 10 ^ unat d + nat a mod 10 ^ unat d) / 10 ^ unat d"
    by (simp add: v add_divide_distrib)
  also have "\<dots> = of_int a / 10 ^ unat d" using assms by (simp only: div_mult_mod_eq of_nat_nat)
  finally show ?thesis .
qed

section \<open>The runner drops no check\<close>

lemma run_from_length: "length (fst (run_from env timeout i cs p raw)) = length cs"
proof (induction cs arbitrary: i raw)
  case (Cons c cs)
  then show ?case by (auto split: prod.splits) (metis fst_conv)
qed simp

lemma runOne_kind: "Res_Kind (fst (runOne env timeout c p raw)) = CKind c"
  by (auto simp: runOne_def Put_def unavailable_def split_beta split: option.splits if_splits prod.splits)

lemma run_from_kinds: "map Res_Kind (fst (run_from env timeout i cs p raw)) = map CKind cs"
proof (induction env timeout i cs p raw rule: run_from.induct)
  case (2 env timeout i c cs p raw)
  obtain r raw1 where r: "runOne (env i) timeout c p raw = (r, raw1)" by (cases "runOne (env i) timeout c p raw") auto
  then have "Res_Kind r = CKind c" using runOne_kind [of "env i" timeout c p raw] by simp
  then show ?case using r 2 by (auto split: prod.splits)
qed simp

text \<open>The raw store holds every response under its hash.\<close>

definition addressed :: "raw_store \<Rightarrow> bool" where
  "addressed raw \<longleftrightarrow> (\<forall>h b. map_of raw h = Some b \<longrightarrow> h = SHA b)"

lemma Put_addressed: "addressed raw \<Longrightarrow> Put w raw b = (r, raw') \<Longrightarrow> addressed raw'
    \<and> (\<forall>h. map_of raw h \<noteq> None \<longrightarrow> map_of raw' h \<noteq> None) \<and> (\<forall>h. r = Inr h \<longrightarrow> map_of raw' h \<noteq> None)"
  by (auto simp: Put_def addressed_def update_conv' split: if_splits)

lemma runOne_raw:
  assumes "runOne env timeout c p raw = (r, raw')"
  shows "(raw' = raw \<or> (\<exists>b r0. Put (Writable env) raw b = (r0, raw')))
     \<and> (Res_Raw r = [] \<or> (\<exists>got. CRun c p = Inr got \<and> Res_Raw r = Res_Raw (fst got)) \<or> (\<exists>b. Put (Writable env) raw b = (Inr (Res_Raw r), raw')))"
  using assms
  by (auto simp: runOne_def unavailable_def no_result_def Let_def
      split: if_splits sum.splits option.splits prod.splits)

lemma run_from_addressed:
  assumes "addressed raw" and "run_from env timeout i cs p raw = (rs, raw')"
    and "\<And>c got. c \<in> set cs \<Longrightarrow> CRun c p = Inr got \<Longrightarrow> Res_Raw (fst got) = []"
  shows "addressed raw' \<and> (\<forall>h. map_of raw h \<noteq> None \<longrightarrow> map_of raw' h \<noteq> None)
     \<and> (\<forall>r\<in>set rs. Res_Raw r \<noteq> [] \<longrightarrow> map_of raw' (Res_Raw r) \<noteq> None)"
  using assms
proof (induction cs arbitrary: i raw rs)
  case (Cons c cs)
  obtain r raw1 where r: "runOne (env i) timeout c p raw = (r, raw1)" by (cases "runOne (env i) timeout c p raw") auto
  obtain rs2 where rs: "run_from env timeout (Suc i) cs p raw1 = (rs2, raw')" "rs = r # rs2"
    using Cons.prems(2) r by (auto split: prod.splits)
  note raw = runOne_raw [OF r]
  have a1: "addressed raw1 \<and> (\<forall>h. map_of raw h \<noteq> None \<longrightarrow> map_of raw1 h \<noteq> None)"
    using raw Put_addressed [OF Cons.prems(1)] Cons.prems(1) by blast
  have h1: "map_of raw1 (Res_Raw r) \<noteq> None" if "Res_Raw r \<noteq> []"
    using raw that Cons.prems(3) [of c] Put_addressed [OF Cons.prems(1)] by fastforce
  have "addressed raw' \<and> (\<forall>h. map_of raw1 h \<noteq> None \<longrightarrow> map_of raw' h \<noteq> None)
     \<and> (\<forall>r\<in>set rs2. Res_Raw r \<noteq> [] \<longrightarrow> map_of raw' (Res_Raw r) \<noteq> None)"
    using a1 Cons.prems(3) by (intro Cons.IH [OF _ rs(1)]) auto
  with a1 h1 show ?case unfolding rs(2) by (metis set_ConsD)
qed auto

section \<open>Sanctions lists\<close>

lemma scan_lines_short: "\<forall>l\<in>set ls. length l < 65536 \<Longrightarrow> ls \<noteq> [] \<Longrightarrow>
    scan_lines ls = map drop_cr (butlast ls) @ (if last ls = [] then [] else [drop_cr (last ls)])"
  by (induction ls rule: scan_lines.induct) auto

lemma list_entries_mem:
  "e \<in> set (list_entries raw) \<longleftrightarrow> e \<noteq> [] \<and> (\<exists>l\<in>set (scan_lines (split_on CHR 0x0A raw)). list_entry l = e)"
  by (auto simp: list_entries_def)

text \<open>White space around an entry in ASCII is dropped.\<close>

definition ascii_space :: "char \<Rightarrow> bool" where
  "ascii_space c \<longleftrightarrow> c = CHR '' '' \<or> c = CHR 0x09"

lemma space_singles: "[CHR '' ''] \<in> set space_encodings" "[CHR 0x09] \<in> set space_encodings"
  by (simp_all add: space_encodings_def)

text \<open>No encoding of a space rune starts or ends with a printable ASCII character.\<close>

definition printable :: "char \<Rightarrow> bool" where
  "printable c \<longleftrightarrow> 32 < (of_char c :: nat) \<and> (of_char c :: nat) < 127"

lemma space_encoding_bytes: "e \<in> set space_encodings \<Longrightarrow> c \<in> set e \<Longrightarrow> \<not> printable c"
proof -
  have "list_all (list_all (\<lambda>c. \<not> printable c)) space_encodings" by code_simp
  then show "e \<in> set space_encodings \<Longrightarrow> c \<in> set e \<Longrightarrow> \<not> printable c" by (auto simp: list_all_iff)
qed

lemma space_encoding_single: "e \<in> set space_encodings \<Longrightarrow> ascii_space (hd e) \<or> ascii_space (last e) \<Longrightarrow> length e \<le> 1"
proof -
  have "list_all (\<lambda>e. ascii_space (hd e) \<or> ascii_space (last e) \<longrightarrow> length e \<le> 1) space_encodings" by code_simp
  then show "e \<in> set space_encodings \<Longrightarrow> ascii_space (hd e) \<or> ascii_space (last e) \<Longrightarrow> length e \<le> 1" by (auto simp: list_all_iff)
qed

lemma find_space_prefix:
  "find_first (\<lambda>e. e \<noteq> [] \<and> prefix e s) space_encodings = Some e \<Longrightarrow> e \<in> set space_encodings \<and> e \<noteq> [] \<and> prefix e s"
  using find_first_SomeD by fastforce

lemma trim_left_printable: "printable (hd s) \<Longrightarrow> s \<noteq> [] \<Longrightarrow> trim_left s = s"
proof -
  assume p: "printable (hd s)" "s \<noteq> []"
  have "\<not> (e \<noteq> [] \<and> prefix e s)" if "e \<in> set space_encodings" for e
    using space_encoding_bytes [OF that, of "hd s"] p by (auto simp: prefix_def hd_append)
  then have "find_first (\<lambda>e. e \<noteq> [] \<and> prefix e s) space_encodings = None" by (simp add: find_first_None_iff)
  then show ?thesis by (simp add: trim_left.simps)
qed

lemma trim_left_space: "ascii_space c \<Longrightarrow> trim_left (c # s) = trim_left s"
proof -
  assume c: "ascii_space c"
  have mem: "[c] \<in> set space_encodings" using c space_singles by (auto simp: ascii_space_def)
  then have "find_first (\<lambda>e. e \<noteq> [] \<and> prefix e (c # s)) space_encodings \<noteq> None"
    unfolding find_first_None_iff by (auto simp: prefix_def intro!: bexI [of _ "[c]"])
  then obtain e where e: "find_first (\<lambda>e. e \<noteq> [] \<and> prefix e (c # s)) space_encodings = Some e" by blast
  from find_space_prefix [OF e] have "e \<in> set space_encodings" "e \<noteq> []" "hd e = c" by (auto simp: prefix_def Cons_eq_append_conv)
  then have "e = [c]" using space_encoding_single [OF \<open>e \<in> set space_encodings\<close>] c \<open>e \<noteq> []\<close> by (cases e rule: list.exhaust) auto
  then show ?thesis using e by (subst trim_left.simps) simp
qed

lemma trim_left_spaces: "list_all ascii_space ws \<Longrightarrow> trim_left (ws @ s) = trim_left s"
  by (induction ws) (simp_all add: trim_left_space)

lemma find_space_suffix:
  "find_first (\<lambda>e. e \<noteq> [] \<and> suffix e s) space_encodings = Some e \<Longrightarrow> e \<in> set space_encodings \<and> e \<noteq> [] \<and> suffix e s"
  using find_first_SomeD by fastforce

lemma trim_right_printable: "printable (last s) \<Longrightarrow> s \<noteq> [] \<Longrightarrow> trim_right s = s"
proof -
  assume p: "printable (last s)" "s \<noteq> []"
  have "\<not> (e \<noteq> [] \<and> suffix e s)" if "e \<in> set space_encodings" for e
    using space_encoding_bytes [OF that, of "last s"] p by (auto simp: suffix_def)
  then have "find_first (\<lambda>e. e \<noteq> [] \<and> suffix e s) space_encodings = None" by (simp add: find_first_None_iff)
  then show ?thesis by (simp add: trim_right.simps)
qed

lemma trim_right_space: "ascii_space c \<Longrightarrow> trim_right (s @ [c]) = trim_right s"
proof -
  assume c: "ascii_space c"
  have mem: "[c] \<in> set space_encodings" using c space_singles by (auto simp: ascii_space_def)
  then have "find_first (\<lambda>e. e \<noteq> [] \<and> suffix e (s @ [c])) space_encodings \<noteq> None"
    unfolding find_first_None_iff by (auto simp: suffix_def intro!: bexI [of _ "[c]"])
  then obtain e where e: "find_first (\<lambda>e. e \<noteq> [] \<and> suffix e (s @ [c])) space_encodings = Some e" by blast
  from find_space_suffix [OF e] have mem': "e \<in> set space_encodings" "e \<noteq> []" and "last e = c"
    by (auto simp: suffix_def) (metis last_appendR last_snoc)
  then have "length e = 1" using space_encoding_single [OF mem'(1)] c mem'(2) by (cases e rule: list.exhaust) auto
  with mem'(2) have "take (length (s @ [c]) - length e) (s @ [c]) = s" by simp
  then show ?thesis using e by (subst trim_right.simps) simp
qed

lemma trim_right_spaces: "list_all ascii_space ws \<Longrightarrow> trim_right (s @ ws) = trim_right s"
proof (induction ws rule: rev_induct)
  case (snoc c ws)
  then show ?case using trim_right_space [of c "s @ ws"] by simp
qed simp

lemma TrimSpace_around:
  assumes "list_all ascii_space us" and "list_all ascii_space vs" and "s \<noteq> []" and "printable (hd s)" and "printable (last s)"
  shows "TrimSpace (us @ s @ vs) = s"
proof -
  have "trim_left (us @ s @ vs) = s @ vs"
    using trim_left_spaces [OF assms(1)] trim_left_printable [of "s @ vs"] assms(3,4) by simp
  then show ?thesis
    using trim_right_spaces [OF assms(2)] trim_right_printable assms(3,5) by (simp add: TrimSpace_def)
qed

text \<open>A line with one entry: white space, the entry in any letter case, white space, a comment.\<close>

definition entry_line :: "string \<Rightarrow> string \<Rightarrow> string \<Rightarrow> string \<Rightarrow> string" where
  "entry_line us s vs comment = us @ s @ vs @ (if comment = [] then [] else CHR ''#'' # comment)"

lemma list_entry_line:
  assumes "list_all ascii_space us" and "list_all ascii_space vs" and "s \<noteq> []" and "list_all printable s" and "CHR ''#'' \<notin> set s"
  shows "list_entry (entry_line us s vs comment) = to_lower s"
proof -
  have n: "CHR ''#'' \<notin> set (us @ s @ vs)" using assms(1,2,5) by (auto simp: list_all_iff ascii_space_def)
  have "takeWhile (\<lambda>c. c \<noteq> CHR ''#'') (entry_line us s vs comment) = us @ s @ vs"
  proof (cases "comment = []")
    case True
    then show ?thesis using n by (auto simp: entry_line_def takeWhile_eq_all_conv)
  next
    case False
    have "takeWhile (\<lambda>c. c \<noteq> CHR ''#'') ((us @ s @ vs) @ CHR ''#'' # comment) = us @ s @ vs"
      using n by (subst takeWhile_append2) auto
    then show ?thesis using False by (simp add: entry_line_def)
  qed
  then show ?thesis
    using TrimSpace_around [OF assms(1,2,3)] assms(3,4) by (simp add: list_entry_def list_all_iff)
qed

lemma SanctionsRun_match:
  assumes "loaded \<noteq> []" and "SanctionsRun loaded cr now p = (r, b, err)"
  shows "err = None \<and> Res_Outcome r =
    (if \<exists>l\<in>set loaded. to_lower (addr_hex cr (CP_Payer p)) \<in> set (LL_Entries l) then ''TRUE_MATCH'' else ''NO_MATCH'')"
proof -
  let ?m = "map (list_match (addr_hex cr (CP_Payer p))) (filter (\<lambda>l. to_lower (addr_hex cr (CP_Payer p)) \<in> set (LL_Entries l)) loaded)"
  have "?m = [] \<longleftrightarrow> \<not> (\<exists>l\<in>set loaded. to_lower (addr_hex cr (CP_Payer p)) \<in> set (LL_Entries l))"
    by (auto simp: filter_empty_conv)
  moreover have "err = None \<and> Res_Outcome r = (if ?m = [] then ''NO_MATCH'' else ''TRUE_MATCH'')"
    using assms by (simp only: SanctionsRun_def Let_def if_False prod.inject) auto
  ultimately show ?thesis by presburger
qed

lemma load_lists_ok:
  "load_lists read now cfgs d = (Inr ls, d') \<Longrightarrow> length ls = length cfgs
     \<and> (\<forall>i<length cfgs. \<exists>raw. read (ListPath (cfgs ! i)) = Some raw \<and> LL_Entries (ls ! i) = list_entries raw
          \<and> LL_Sha (ls ! i) = SHA raw \<and> LL_Name (ls ! i) = ListName (cfgs ! i) \<and> LL_Version (ls ! i) = ListVersion (cfgs ! i))"
proof (induction cfgs arbitrary: d ls)
  case (Cons c cs)
  then obtain raw rest i loaded d1 where raw: "read (ListPath c) = Some raw"
    and rest: "load_lists read now cs d1 = (Inr rest, d')"
    and ls: "ls = \<lparr> LL_ID = i, LL_Name = ListName c, LL_Version = ListVersion c, LL_Sha = SHA raw, LL_LoadedAt = loaded, LL_Entries = list_entries raw \<rparr> # rest"
    by (auto simp: Let_def res_simps split: option.splits prod.splits)
  have IH: "length rest = length cs \<and> (\<forall>i<length cs. \<exists>raw. read (ListPath (cs ! i)) = Some raw \<and> LL_Entries (rest ! i) = list_entries raw
          \<and> LL_Sha (rest ! i) = SHA raw \<and> LL_Name (rest ! i) = ListName (cs ! i) \<and> LL_Version (rest ! i) = ListVersion (cs ! i))"
    by (rule Cons.IH [OF rest])
  have "\<exists>raw. read (ListPath ((c # cs) ! i)) = Some raw \<and> LL_Entries (ls ! i) = list_entries raw
          \<and> LL_Sha (ls ! i) = SHA raw \<and> LL_Name (ls ! i) = ListName ((c # cs) ! i) \<and> LL_Version (ls ! i) = ListVersion ((c # cs) ! i)"
    if "i < length (c # cs)" for i
    using raw IH that unfolding ls by (cases i) auto
  then show ?case using IH by (simp add: ls)
qed simp

section \<open>Structuring sums its window\<close>

definition window_eurs :: "config \<Rightarrow> db \<Rightarrow> check_payment \<Rightarrow> (check_err, rat list) res" where
  "window_eurs cfg d p = seq_res (map (\<lambda>r. structuring_eur cfg (P_Chain (fst r)) (P_Token (fst r)) (P_Amount (fst r))) (window_rows d p))"

text \<open>The window written out over the payment table.\<close>

lemma seq_res_all2: "seq_res (map f xs) = Inr ys \<Longrightarrow> list_all2 (\<lambda>x y. f x = Inr y) xs ys"
proof (induction xs arbitrary: ys)
  case (Cons x xs)
  then show ?case by (cases "f x"; cases "seq_res (map f xs)") auto
qed simp

lemma window_rows_fst: "map fst (window_rows d p) = filter (\<lambda>x. P_Payer x = CP_Payer p \<and> CP_Time p - 72 * 3600 * second < P_BlockTime x
    \<and> P_BlockTime x \<le> CP_Time p \<and> (P_Ingest x = Confirmed \<or> P_ID x = CP_ID p)) (payments d)"
  by (simp add: window_rows_def splitWindow_def comp_def)

lemma window_eurs_all2:
  assumes "window_eurs cfg d p = Inr es"
  shows "list_all2 (\<lambda>x e. structuring_eur cfg (P_Chain x) (P_Token x) (P_Amount x) = Inr e)
    (filter (\<lambda>x. P_Payer x = CP_Payer p \<and> CP_Time p - 72 * 3600 * second < P_BlockTime x
      \<and> P_BlockTime x \<le> CP_Time p \<and> (P_Ingest x = Confirmed \<or> P_ID x = CP_ID p)) (payments d)) es"
  using seq_res_all2 [OF assms [unfolded window_eurs_def]] unfolding window_rows_fst [symmetric] list_all2_map1 .

lemma window_self: "(\<exists>r\<in>set (window_rows d p). P_ID (fst r) = CP_ID p) \<longleftrightarrow>
    (\<exists>x\<in>set (payments d). P_ID x = CP_ID p \<and> P_Payer x = CP_Payer p \<and> CP_Time p - 72 * 3600 * second < P_BlockTime x \<and> P_BlockTime x \<le> CP_Time p)"
  by (auto simp: window_rows_def splitWindow_def)

lemma split_rows_sum:
  "split_rows cfg self rs st = Inr st' \<Longrightarrow> \<exists>es. seq_res (map (\<lambda>r. structuring_eur cfg (P_Chain (fst r)) (P_Token (fst r)) (P_Amount (fst r))) rs) = Inr es
     \<and> aggregate st' = aggregate st + sum_list es \<and> band st' = band st + length (filter in_band es)
     \<and> linked st' = linked st + length rs \<and> (seenSelf st' \<longleftrightarrow> seenSelf st \<or> (\<exists>r\<in>set rs. P_ID (fst r) = self))"
proof (induction rs arbitrary: st)
  case (Cons r rs)
  then obtain st1 where s1: "split_row cfg self r st = Inr st1" and s2: "split_rows cfg self rs st1 = Inr st'"
    by (auto simp: res_simps)
  obtain e where e: "structuring_eur cfg (P_Chain (fst r)) (P_Token (fst r)) (P_Amount (fst r)) = Inr e"
    and f: "aggregate st1 = aggregate st + e" "band st1 = band st + (if in_band e then 1 else 0)" "linked st1 = Suc (linked st)"
      "seenSelf st1 \<longleftrightarrow> seenSelf st \<or> P_ID (fst r) = self"
    using s1 by (cases "snd r"; cases "P_ID (fst r) = self") (auto simp: split_row_def res_simps add_eur_def Let_def)
  show ?case using Cons.IH [OF s2] e f by auto
qed simp

lemma split_state_sum:
  assumes "split_state cfg d p = Inr st"
  shows "\<exists>es own. window_eurs cfg d p = Inr es \<and> aggregate st = sum_list (es @ own) \<and> band st = length (filter in_band (es @ own))
     \<and> linked st = length (es @ own) \<and> length es = length (window_rows d p)
     \<and> (if \<exists>r\<in>set (window_rows d p). P_ID (fst r) = CP_ID p then own = [] else \<exists>e. ParseDecimal (CP_EUR p) = Inr e \<and> own = [e])"
proof -
  obtain st0 where s0: "split_rows cfg (CP_ID p) (window_rows d p) \<lparr> aggregate = 0, band = 0, linked = 0, pack_ids = [], seenSelf = False \<rparr> = Inr st0"
    and st: "if seenSelf st0 then st = st0 else \<exists>e. ParseDecimal (CP_EUR p) = Inr e \<and> st = add_eur e st0"
    using assms by (auto simp: split_state_def res_simps split: if_splits)
  from split_rows_sum [OF s0] obtain es where es: "window_eurs cfg d p = Inr es" "aggregate st0 = sum_list es"
    "band st0 = length (filter in_band es)" "linked st0 = length (window_rows d p)"
    "seenSelf st0 \<longleftrightarrow> (\<exists>r\<in>set (window_rows d p). P_ID (fst r) = CP_ID p)"
    by (auto simp: window_eurs_def)
  have len: "length es = length (window_rows d p)" using seq_res_map_len es(1) unfolding window_eurs_def by blast
  show ?thesis
  proof (cases "seenSelf st0")
    case True
    then show ?thesis using st es len by (intro exI [of _ es] exI [of _ "[]"]) simp
  next
    case False
    then obtain e where "ParseDecimal (CP_EUR p) = Inr e" "st = add_eur e st0" using st by auto
    then show ?thesis using False es len by (intro exI [of _ es] exI [of _ "[e]"]) (simp add: add_eur_def)
  qed
qed

section \<open>The checks of the service\<close>

text \<open>The list app.go wires up: KYT, sanctions, structuring and issuer controls.\<close>

record screening_env =
  E_HTTP :: "string \<Rightarrow> (check_err, nat \<times> string) res"
  E_Crypto :: crypto
  E_BaseURL :: string
  E_Lists :: "loaded_list list"
  E_Config :: config
  E_Keccak :: "string \<Rightarrow> string"
  E_Clients :: "64 word \<Rightarrow> eth_call option"

definition service_checks :: "screening_env \<Rightarrow> db \<Rightarrow> time \<Rightarrow> check list" where
  "service_checks e d now = [
     \<lparr> CKind = ''kyt'', CRun = (\<lambda>p. Inr (GoPlusRun (E_HTTP e) (E_Crypto e) (E_BaseURL e) now p)) \<rparr>,
     \<lparr> CKind = ''sanctions'', CRun = (\<lambda>p. Inr (SanctionsRun (E_Lists e) (E_Crypto e) now p)) \<rparr>,
     \<lparr> CKind = ''structuring'', CRun = (\<lambda>p. Inr (StructuringRun (E_Config e) d now p)) \<rparr>,
     \<lparr> CKind = ''issuer'', CRun = (\<lambda>p. Inr (IssuerRun (E_Keccak e) (E_Clients e) now p)) \<rparr>]"

definition field_of_kind :: "string \<Rightarrow> string" where
  "field_of_kind k = (if k = ''kyt'' then ''kyt.risk_level'' else k @ ''.result'')"

definition result_ok :: "result \<Rightarrow> bool" where
  "result_ok r \<longleftrightarrow> Res_Outcome r \<in> set (outcomes_of (field_of_kind (Res_Kind r))) \<and> section_ok (Res_Section r) \<and> Res_At r \<noteq> None"

lemma field_of_kinds [simp]: "field_of_kind ''kyt'' = ''kyt.risk_level''" "field_of_kind ''sanctions'' = ''sanctions.result''"
  "field_of_kind ''structuring'' = ''structuring.result''" "field_of_kind ''issuer'' = ''issuer.result''"
  by (simp_all add: field_of_kind_def)

lemma runOne_service: "c \<in> set (service_checks e d now) \<Longrightarrow> runOne env timeout c p raw = (r, raw') \<Longrightarrow> result_ok r"
  unfolding service_checks_def set_simps insert_iff empty_iff
  by (elim disjE; (simp only:)?)
    (use kyt.runOne_ok sanctions.runOne_ok structuring.runOne_ok issuer.runOne_ok field_of_kinds in \<open>fastforce simp only: result_ok_def\<close>)+

lemma run_from_all:
  "(\<And>env c raw r raw'. c \<in> set cs \<Longrightarrow> runOne env timeout c p raw = (r, raw') \<Longrightarrow> Q r)
     \<Longrightarrow> list_all Q (fst (run_from envs timeout i cs p raw))"
proof (induction cs arbitrary: i raw)
  case (Cons c cs)
  obtain r raw1 where r: "runOne (envs i) timeout c p raw = (r, raw1)" by (cases "runOne (envs i) timeout c p raw") auto
  then have "Q r" using Cons.prems by force
  moreover have "list_all Q (fst (run_from envs timeout (Suc i) cs p raw1))"
    using Cons.prems by (intro Cons.IH) (meson list.set_intros(2))
  ultimately show ?case using r by (auto split: prod.splits)
qed simp

lemma RunAll_kinds: "map Res_Kind (fst (RunAll env cs p timeout raw)) = map CKind cs"
  by (simp add: RunAll_def run_from_kinds)

text \<open>A line that outgrows the scanner's buffer ends the list without an error: every entry behind it is
  silently not screened.\<close>

lemma long_line_truncates:
  assumes "65536 \<le> length l" and "CHR 0x0A \<notin> set l"
  shows "list_entries (l @ CHR 0x0A # rest) = []"
proof -
  have "split_on CHR 0x0A (l @ CHR 0x0A # rest) = l # split_on CHR 0x0A rest"
    by (rule split_on_append [OF assms(2)])
  moreover obtain x xs where "split_on CHR 0x0A rest = x # xs" by (cases "split_on CHR 0x0A rest") auto
  ultimately show ?thesis using assms(1) by (simp add: list_entries_def)
qed

section \<open>Properties\<close>

text \<open>A token amount prints exactly: the decimal string reads back as the amount divided by the
  token's unit, whatever its number of decimals.\<close>

theorem amount_prints_exactly: "0 \<le> a \<Longrightarrow> rat_set (FormatUnits a d) = Some (of_int a / 10 ^ unat d)"
  by (rule FormatUnits_value)

theorem amount_prints_exactly_witness: "rat_set (FormatUnits 1234567 6) = Some (1234567 / 10 ^ 6)"
  using amount_prints_exactly [of 1234567 6] by simp

text \<open>C31 The EUR value of a payment is within half a cent of amount times rate, and what is printed reads
  back as a non-negative number.\<close>

theorem eur_within_half_a_cent:
  "0 \<le> a \<Longrightarrow> rat_set rate = Some r \<Longrightarrow> 0 \<le> r \<Longrightarrow> EUR a d rate = Inr s
     \<Longrightarrow> \<exists>v. ParseDecimal s = Inr v \<and> \<bar>v - of_int a / 10 ^ unat d * r\<bar> \<le> 1 / 200 \<and> 0 \<le> v"
  by (rule EUR_near)

theorem eur_within_half_a_cent_witness:
  "\<exists>s v. EUR 1000005 6 ''1.00'' = Inr s \<and> ParseDecimal s = Inr v \<and> \<bar>v - 1000005 / 10 ^ 6\<bar> \<le> 1 / 200 \<and> 0 \<le> v"
proof -
  have "rat_set (nat_dec 1 @ CHR ''.'' # ''00'') = Some (of_nat (1 * 10 ^ length ''00'' + dec_nat ''00'') / 10 ^ length ''00'')"
    by (rule rat_set_decimal) (simp_all add: is_digit_def)
  moreover have "nat_dec 1 = ''1''" by code_simp
  ultimately have r: "rat_set ''1.00'' = Some 1" by (simp add: dec_nat_def digit_val_def)
  obtain s where s: "EUR 1000005 6 ''1.00'' = Inr s" using EUR_total [of "''1.00''"] r by auto
  from eur_within_half_a_cent [OF _ r _ s] s show ?thesis by auto
qed

text \<open>No check is ever dropped: whatever fails or times out, the runner returns one result per check,
  in order, each with its check's kind.\<close>

theorem no_check_dropped: "map Res_Kind (fst (RunAll env cs p timeout raw)) = map CKind cs"
  by (rule RunAll_kinds)

text \<open>C26 Whatever the four checks of the service meet (a late answer, an unreadable response, a failed
  call, a full disk), each result's outcome is in its rule field's enumeration, so the rules engine
  always has a value it knows, and its section is plain JSON.\<close>

theorem screening_outcomes_enumerated: "list_all result_ok (fst (RunAll env (service_checks e d now) p timeout raw))"
  unfolding RunAll_def by (rule run_from_all) (rule runOne_service)

text \<open>Raw provider responses stay retrievable: after a run, the store maps every hash it has to bytes
  with that hash, keeps all earlier entries, and has the response of every result that names one.\<close>

theorem raw_responses_retrievable:
  assumes "addressed raw" and "RunAll env cs p timeout raw = (rs, raw')"
    and "\<And>c got. c \<in> set cs \<Longrightarrow> CRun c p = Inr got \<Longrightarrow> Res_Raw (fst got) = []"
  shows "addressed raw' \<and> (\<forall>h. Get raw h \<noteq> None \<longrightarrow> Get raw' h \<noteq> None)
     \<and> (\<forall>r\<in>set rs. Res_Raw r \<noteq> [] \<longrightarrow> (\<exists>b. Get raw' (Res_Raw r) = Some b \<and> SHA b = Res_Raw r))"
proof -
  note a = run_from_addressed [OF assms(1) assms(2) [unfolded RunAll_def] assms(3)]
  then show ?thesis unfolding Get_def addressed_def by fastforce
qed

theorem raw_responses_retrievable_witness:
  "\<exists>rs raw'. RunAll (\<lambda>_. \<lparr> Late = False, Clock = 0, Writable = True, Err_Text = (\<lambda>_. []) \<rparr>)
      [\<lparr> CKind = ''kyt'', CRun = (\<lambda>p. Inr (no_result, Some ''body'', None)) \<rparr>]
      \<lparr> CP_ID = [], CP_Chain = 0, CP_Block = 0, CP_Time = 0, CP_Token = [], CP_Payer = [], CP_Deposit = [], CP_Amount = 0, CP_EUR = [] \<rparr> 1 []
      = (rs, raw') \<and> addressed raw'"
proof -
  let ?env = "\<lambda>_ :: nat. \<lparr> Late = False, Clock = 0, Writable = True, Err_Text = (\<lambda>_. []) \<rparr>"
  let ?cs = "[\<lparr> CKind = ''kyt'', CRun = (\<lambda>p. Inr (no_result, Some ''body'', None)) \<rparr>]"
  let ?p = "\<lparr> CP_ID = [], CP_Chain = 0, CP_Block = 0, CP_Time = 0, CP_Token = [], CP_Payer = [], CP_Deposit = [], CP_Amount = 0, CP_EUR = [] \<rparr>"
  obtain rs raw' where r: "RunAll ?env ?cs ?p 1 [] = (rs, raw')" by (cases "RunAll ?env ?cs ?p 1 []") auto
  have "addressed []" by (simp add: addressed_def)
  moreover have "Res_Raw (fst got) = []" if "c \<in> set ?cs" "CRun c ?p = Inr got" for c got
    using that by (auto simp: no_result_def)
  ultimately have "addressed raw'" using raw_responses_retrievable [OF _ r] by blast
  with r show ?thesis by blast
qed

text \<open>C27 A listed payer is never missed: when a loaded list file has a line with the payer's address, in
  any letter case, with white space around it and a comment behind it, and no line outgrows the scanner's
  buffer, the screening result is a true match.\<close>

theorem listed_payer_matches:
  assumes "load_lists read now cfgs d = (Inr ls, d')" and "cfg \<in> set cfgs" and "read (ListPath cfg) = Some raw"
    and "entry_line us s vs comment \<in> set (scan_lines (split_on CHR 0x0A raw))"
    and "list_all ascii_space us" and "list_all ascii_space vs" and "list_all printable s" and "s \<noteq> []" and "CHR ''#'' \<notin> set s"
    and "to_lower s = to_lower (addr_hex cr (CP_Payer p))" and "SanctionsRun ls cr now' p = (r, b, err)"
  shows "err = None \<and> Res_Outcome r = ''TRUE_MATCH''"
proof -
  obtain i where i: "i < length cfgs" "cfgs ! i = cfg" using assms(2) by (auto simp: in_set_conv_nth)
  have e: "LL_Entries (ls ! i) = list_entries raw" and len: "length ls = length cfgs"
    using load_lists_ok [OF assms(1)] i assms(3) by auto
  have "list_entry (entry_line us s vs comment) = to_lower s"
    using assms(5-9) by (intro list_entry_line)
  moreover have "to_lower s \<noteq> []" using assms(8) by (simp add: to_lower_def)
  ultimately have "to_lower s \<in> set (list_entries raw)" unfolding list_entries_mem using assms(4) by blast
  then have "to_lower (addr_hex cr (CP_Payer p)) \<in> set (LL_Entries (ls ! i))" by (simp only: e assms(10))
  moreover have "ls ! i \<in> set ls" "ls \<noteq> []" using i len by (auto simp: in_set_conv_nth)
  ultimately show ?thesis using SanctionsRun_match [OF _ assms(11)] by auto
qed

theorem listed_payer_matches_witness:
  "\<exists>ls d' r b err. load_lists (\<lambda>_. Some '' 0xAb # drop'') 0 [\<lparr> ListName = ''n'', ListVersion = ''v'', ListPath = ''p'' \<rparr>] empty_db = (Inr ls, d')
     \<and> SanctionsRun ls \<lparr> addr_hex = (\<lambda>a. ''0xaB''), typed_hash = (\<lambda>_. None), sig_to_addr = (\<lambda>_ _. None) \<rparr> 0
         \<lparr> CP_ID = [], CP_Chain = 0, CP_Block = 0, CP_Time = 0, CP_Token = [], CP_Payer = [], CP_Deposit = [], CP_Amount = 0, CP_EUR = [] \<rparr> = (r, b, err)
     \<and> err = None \<and> Res_Outcome r = ''TRUE_MATCH''"
proof -
  let ?c = "\<lparr> ListName = ''n'', ListVersion = ''v'', ListPath = ''p'' \<rparr>"
  let ?cr = "\<lparr> addr_hex = (\<lambda>a. ''0xaB''), typed_hash = (\<lambda>_. None), sig_to_addr = (\<lambda>_ _. None) \<rparr>"
  let ?p = "\<lparr> CP_ID = [], CP_Chain = 0, CP_Block = 0, CP_Time = 0, CP_Token = [], CP_Payer = [], CP_Deposit = [], CP_Amount = 0, CP_EUR = [] \<rparr>"
  let ?l = "entry_line '' '' ''0xAb'' '' '' '' drop''"
  obtain ls d' where l: "load_lists (\<lambda>_. Some '' 0xAb # drop'') 0 [?c] empty_db = (Inr ls, d')"
  proof -
    obtain i loaded d1 where "upsert_list 0 ''n'' ''v'' (SHA '' 0xAb # drop'') (length (list_entries '' 0xAb # drop'')) empty_db = ((i, loaded), d1)"
      by (metis surj_pair)
    then show thesis using that by (simp add: Let_def)
  qed
  obtain r b err where r: "SanctionsRun ls ?cr 0 ?p = (r, b, err)" by (cases "SanctionsRun ls ?cr 0 ?p") auto
  have m: "?l \<in> set (scan_lines (split_on CHR 0x0A '' 0xAb # drop''))" by (simp add: entry_line_def drop_cr_def)
  have "to_lower ''0xAb'' = to_lower ''0xaB''" by code_simp
  then have "err = None \<and> Res_Outcome r = ''TRUE_MATCH''"
    by (intro listed_payer_matches [OF l _ _ m _ _ _ _ _ _ r]) (simp_all add: ascii_space_def printable_def)
  with l r show ?thesis by blast
qed

text \<open>C28 Structuring flags exactly its rule: take the payments of the same payer with a block time after this
  one's less 72 hours and up to this one's, confirmed or this payment itself; their EUR values, with this payment's
  own value added when it is not stored yet in that window, sum to EUR 5,000 or more, or at least three of
  them lie in the band from 900 to below 1,000. Otherwise the check passes.\<close>

theorem structuring_flags_rule:
  assumes "StructuringRun cfg d now p = (r, b, None)"
  shows "\<exists>es own. list_all2 (\<lambda>x e. structuring_eur cfg (P_Chain x) (P_Token x) (P_Amount x) = Inr e)
         (filter (\<lambda>x. P_Payer x = CP_Payer p \<and> CP_Time p - 72 * 3600 * second < P_BlockTime x \<and> P_BlockTime x \<le> CP_Time p
            \<and> (P_Ingest x = Confirmed \<or> P_ID x = CP_ID p)) (payments d)) es
     \<and> (if \<exists>x\<in>set (payments d). P_ID x = CP_ID p \<and> P_Payer x = CP_Payer p \<and> CP_Time p - 72 * 3600 * second < P_BlockTime x
            \<and> P_BlockTime x \<le> CP_Time p
        then own = [] else \<exists>e. ParseDecimal (CP_EUR p) = Inr e \<and> own = [e])
     \<and> (Res_Outcome r = ''FLAG'' \<longleftrightarrow> 5000 \<le> sum_list (es @ own) \<or> 3 \<le> length (filter (\<lambda>e. 900 \<le> e \<and> e < 1000) (es @ own)))
     \<and> (Res_Outcome r = ''PASS'' \<longleftrightarrow> Res_Outcome r \<noteq> ''FLAG'')"
proof -
  obtain st where st: "split_state cfg d p = Inr st" and out: "Res_Outcome r = (if split_flag st then ''FLAG'' else ''PASS'')"
    using assms by (auto simp: StructuringRun_def Let_def split: sum.splits)
  obtain es own where e: "window_eurs cfg d p = Inr es" "aggregate st = sum_list (es @ own)" "band st = length (filter in_band (es @ own))"
    "if \<exists>r\<in>set (window_rows d p). P_ID (fst r) = CP_ID p then own = [] else \<exists>e. ParseDecimal (CP_EUR p) = Inr e \<and> own = [e]"
    using split_state_sum [OF st] by blast
  have "split_flag st \<longleftrightarrow> 5000 \<le> sum_list (es @ own) \<or> 3 \<le> length (filter (\<lambda>e. 900 \<le> e \<and> e < 1000) (es @ own))"
    by (simp only: split_flag_def e splitAggregateEUR_def splitBandCount_def in_band_def [abs_def] splitBandLow_def splitBandHigh_def)
  moreover note window_eurs_all2 [OF e(1)] and e(4) [unfolded window_self]
  ultimately show ?thesis using out by (intro exI [of _ es] exI [of _ own]) simp
qed

definition sample_row :: "hash \<Rightarrow> time \<Rightarrow> ingest \<Rightarrow> nat \<Rightarrow> payment_row" where
  "sample_row i t ing euros = \<lparr> P_ID = i, P_Chain = 1, P_Tx = [], P_LogIndex = 0, P_Block = 0, P_BlockHash = [], P_BlockTime = t,
     P_Token = replicate 20 (char_of (1 :: nat)), P_Payer = ''payer'', P_Deposit = [], P_Amount = int euros * 10 ^ 6, P_Ingest = ing,
     P_Stage = ChecksPending, P_Recon = False \<rparr>"

text \<open>Two payments count, one for EUR 950 just inside the window and the payment itself; one that is exactly 72
  hours old and one that is not confirmed do not.\<close>

definition sample_window :: db where
  "sample_window = empty_db\<lparr>payments := [sample_row ''a'' (- 72 * 3600 * second) Confirmed 3000, sample_row ''b'' (1 - 72 * 3600 * second) Confirmed 950,
     sample_row ''c'' 0 Seen 3000, sample_row ''i'' 0 Seen 4000]\<rparr>"

definition sample_window_payment :: check_payment where
  "sample_window_payment = \<lparr> CP_ID = ''i'', CP_Chain = 1, CP_Block = 0, CP_Time = 0, CP_Token = replicate 20 (char_of (1 :: nat)),
     CP_Payer = ''payer'', CP_Deposit = [], CP_Amount = 4000000000, CP_EUR = ''4000.00'' \<rparr>"

lemma float_string_whole: "rat_set (float_string 2 (of_nat n)) = Some (of_nat n)"
proof -
  have q: "quotient_of (of_nat n) = (int n, 1)" using quotient_of_int [of "int n"] by (simp add: Rat.of_int_def)
  have "round_units n 1 100 = n * 100" by (simp add: round_units_def)
  then show ?thesis using rat_set_float_string [OF _ _ _ q, of 2] by simp
qed

lemma sample_row_eur: "structuring_eur sample_config (P_Chain (sample_row i t ing n)) (P_Token (sample_row i t ing n)) (P_Amount (sample_row i t ing n))
    = Inr (of_nat n)"
proof -
  have "list_all is_digit ''00''" by (simp add: is_digit_def)
  note r = rat_set_decimal [OF this, of 1]
  have "nat_dec 1 = ''1''" by code_simp
  then have r1: "rat_set ''1.00'' = Some 1" using r by (simp add: dec_nat_def digit_val_def)
  have "of_int (int n * 10 ^ 6) / 10 ^ 6 = (of_nat n :: rat)" by simp
  then show ?thesis
    by (simp add: structuring_eur_def sample_row_def sample_config_def Chain_def Token_def EUR_def r1 ParseDecimal_def float_string_whole)
qed

theorem structuring_flags_rule_witness:
  "\<exists>r b. StructuringRun sample_config sample_window 0 sample_window_payment = (r, b, None) \<and> Res_Outcome r = ''PASS''"
proof -
  have w: "window_rows sample_window sample_window_payment = [(sample_row ''b'' (1 - 72 * 3600 * second) Confirmed 950, None), (sample_row ''i'' 0 Seen 4000, None)]"
    by (simp add: window_rows_def sample_window_def sample_window_payment_def sample_row_def splitWindow_def second_def snapshot_of_def empty_db_def)
  have "is_ok (split_state sample_config sample_window sample_window_payment)"
    by (simp add: split_state_def w split_row_def sample_row_eur is_ok_iff Let_def)
      (simp add: sample_window_payment_def sample_row_def)
  then obtain r b where run: "StructuringRun sample_config sample_window 0 sample_window_payment = (r, b, None)"
    by (auto simp: StructuringRun_def is_ok_iff Let_def)
  have f: "filter (\<lambda>x. P_Payer x = CP_Payer sample_window_payment \<and> CP_Time sample_window_payment - 72 * 3600 * second < P_BlockTime x
      \<and> P_BlockTime x \<le> CP_Time sample_window_payment \<and> (P_Ingest x = Confirmed \<or> P_ID x = CP_ID sample_window_payment)) (payments sample_window)
    = [sample_row ''b'' (1 - 72 * 3600 * second) Confirmed 950, sample_row ''i'' 0 Seen 4000]"
    by (simp add: sample_window_def sample_window_payment_def sample_row_def second_def empty_db_def)
  have self: "\<exists>x\<in>set (payments sample_window). P_ID x = CP_ID sample_window_payment \<and> P_Payer x = CP_Payer sample_window_payment
      \<and> CP_Time sample_window_payment - 72 * 3600 * second < P_BlockTime x \<and> P_BlockTime x \<le> CP_Time sample_window_payment"
    by (simp add: sample_window_def sample_window_payment_def sample_row_def second_def)
  from structuring_flags_rule [OF run, unfolded f if_P [OF self]] have "Res_Outcome r = ''PASS''"
    by (auto simp: list_all2_Cons1 sample_row_eur)
  with run show ?thesis by blast
qed

end
