(* ===== verification/Ingest.thy ===== *)
theory Ingest
  imports Checks
begin

text \<open>
  Recording deposits: compliance-backend/internal/ingest (deposit.go, reconciler.go, hint.go). The
  chain client and keccak are parameters: a head block, the logs of a range and the header of a block,
  each possibly an error. Block numbers are \<open>uint64\<close> and wrap as in Go.

  A reconciler step and a hint are functions on the database; \<open>decodeEnvelope\<close> is the JSON the hint
  consumes. The lemmas: the payment id determines the log, a step confirms exactly the deposits the
  chain reports in its range and orphans the rest, the cursor only moves forward, and a hint never
  changes a row that exists.
\<close>

section \<open>Deposits (deposit.go)\<close>

text \<open>\<open>keccak256("Transfer(address,address,uint256)")\<close>.\<close>

definition TransferTopic :: "(string \<Rightarrow> string) \<Rightarrow> hash" where
  "TransferTopic keccak = keccak ''Transfer(address,address,uint256)''"

record deposit_log =
  L_Chain :: "64 word"
  L_Tx :: hash
  L_Index :: "64 word"
  L_Block :: "64 word"
  L_BlockHash :: hash
  L_BlockTime :: time
  L_Token :: address
  L_Payer :: address
  L_To :: address
  L_Amount :: int

text \<open>\<open>big.Int.Bytes\<close> padded to 32 bytes.\<close>

definition uint256 :: "64 word \<Rightarrow> string" where
  "uint256 w = be_bytes 32 (unat w)"

definition payment_preimage :: "64 word \<Rightarrow> hash \<Rightarrow> 64 word \<Rightarrow> string" where
  "payment_preimage chainID tx logIndex = uint256 chainID @ tx @ uint256 logIndex"

definition PaymentID_of :: "(string \<Rightarrow> string) \<Rightarrow> 64 word \<Rightarrow> hash \<Rightarrow> 64 word \<Rightarrow> hash" where
  "PaymentID_of keccak chainID tx logIndex = keccak (payment_preimage chainID tx logIndex)"

definition deposit_id :: "(string \<Rightarrow> string) \<Rightarrow> deposit_log \<Rightarrow> hash" where
  "deposit_id keccak d = PaymentID_of keccak (L_Chain d) (L_Tx d) (L_Index d)"

definition row_of :: "(string \<Rightarrow> string) \<Rightarrow> deposit_log \<Rightarrow> ingest \<Rightarrow> bool \<Rightarrow> payment_row" where
  "row_of keccak d ing recon = \<lparr> P_ID = deposit_id keccak d, P_Chain = L_Chain d, P_Tx = L_Tx d, P_LogIndex = L_Index d,
     P_Block = L_Block d, P_BlockHash = L_BlockHash d, P_BlockTime = L_BlockTime d, P_Token = L_Token d, P_Payer = L_Payer d,
     P_Deposit = L_To d, P_Amount = L_Amount d, P_Ingest = ing, P_Stage = ChecksPending, P_Recon = recon \<rparr>"

text \<open>The conflict clause updates the block and the ingest state, and keeps the rest of the row.\<close>

definition reconfirm :: "deposit_log \<Rightarrow> bool \<Rightarrow> payment_row \<Rightarrow> payment_row" where
  "reconfirm d recon p = p\<lparr>P_Block := L_Block d, P_BlockHash := L_BlockHash d, P_BlockTime := L_BlockTime d,
     P_Ingest := Confirmed, P_Recon := P_Recon p \<or> recon\<rparr>"

definition upsertConfirmed :: "(string \<Rightarrow> string) \<Rightarrow> deposit_log \<Rightarrow> bool \<Rightarrow> db \<Rightarrow> db" where
  "upsertConfirmed keccak d recon s =
     (if payment_by s (deposit_id keccak d) \<noteq> None
      then update_payment (deposit_id keccak d) (reconfirm d recon) s
      else s\<lparr>payments := payments s @ [row_of keccak d Confirmed recon]\<rparr>)"

text \<open>\<open>$5 <= COALESCE(last_reconciled, -1)\<close>.\<close>

definition passed :: "db \<Rightarrow> 64 word \<Rightarrow> 64 word \<Rightarrow> bool" where
  "passed s chainID block = (case map_of (cursors s) chainID of None \<Rightarrow> False | Some c \<Rightarrow> block \<le> LastReconciled c)"

definition upsertSeen :: "(string \<Rightarrow> string) \<Rightarrow> deposit_log \<Rightarrow> db \<Rightarrow> db" where
  "upsertSeen keccak d s =
     (if payment_by s (deposit_id keccak d) \<noteq> None then s
      else s\<lparr>payments := payments s @ [row_of keccak d (if passed s (L_Chain d) (L_Block d) then Orphaned else Seen) False]\<rparr>)"

section \<open>Reading the chain (reconciler.go)\<close>

record eth_log =
  G_Address :: address
  G_Topics :: "hash list"
  G_Data :: string
  G_Block :: "64 word"
  G_Tx :: hash
  G_BlockHash :: hash
  G_Index :: "64 word"
  G_Removed :: bool

record header =
  H_Hash :: hash
  H_Time :: "64 word"

text \<open>The filter of \<open>FilterLogs\<close>: block range, contracts, topic 0 and the recipients of topic 2.\<close>

record log_query =
  Q_From :: "64 word"
  Q_To :: "64 word"
  Q_Addresses :: "address list"
  Q_Topic0 :: hash
  Q_Topic2 :: "hash list"

record eth_client =
  BlockNumber :: "(string, 64 word) res"
  FilterLogs :: "log_query \<Rightarrow> (string, eth_log list) res"
  HeaderByNumber :: "64 word \<Rightarrow> (string, header) res"

datatype ingest_err = RPCFailed string | BlockChanged "64 word" | BadFromBlock

text \<open>\<open>common.BytesToHash\<close> of an address, \<open>common.BytesToAddress\<close> of a topic.\<close>

definition address_topic :: "address \<Rightarrow> hash" where
  "address_topic a = left_pad 32 a"

definition topic_address :: "hash \<Rightarrow> address" where
  "topic_address h = drop (length h - 20) h"

definition log_wellformed :: "eth_log \<Rightarrow> bool" where
  "log_wellformed l \<longleftrightarrow> \<not> G_Removed l \<and> length (G_Topics l) = 3 \<and> length (G_Data l) = 32"

definition deposit_of :: "64 word \<Rightarrow> eth_log \<Rightarrow> header \<Rightarrow> deposit_log" where
  "deposit_of chainID l h = \<lparr> L_Chain = chainID, L_Tx = G_Tx l, L_Index = G_Index l, L_Block = G_Block l, L_BlockHash = G_BlockHash l,
     L_BlockTime = from_unix (sint (H_Time h)), L_Token = G_Address l, L_Payer = topic_address (G_Topics l ! 1),
     L_To = topic_address (G_Topics l ! 2), L_Amount = int (be_nat (G_Data l)) \<rparr>"

text \<open>The loop over the logs with its header cache.\<close>

fun fetch_logs :: "eth_client \<Rightarrow> 64 word \<Rightarrow> (64 word, header) gomap \<Rightarrow> eth_log list \<Rightarrow> (ingest_err, deposit_log list) res" where
  "fetch_logs eth chainID headers [] = Inr []"
| "fetch_logs eth chainID headers (l # ls) =
     (if \<not> log_wellformed l then fetch_logs eth chainID headers ls
      else and_then (case map_of headers (G_Block l) of
            Some h \<Rightarrow> Inr (h, headers)
          | None \<Rightarrow> map_res (\<lambda>h. (h, AList.update (G_Block l) h headers)) (map_err RPCFailed (HeaderByNumber eth (G_Block l))))
        (\<lambda>(h, headers'). if H_Hash h \<noteq> G_BlockHash l then Inl (BlockChanged (G_Block l))
           else map_res ((#) (deposit_of chainID l h)) (fetch_logs eth chainID headers' ls)))"

definition fetch_query :: "(string \<Rightarrow> string) \<Rightarrow> chain \<Rightarrow> 64 word \<Rightarrow> 64 word \<Rightarrow> log_query" where
  "fetch_query keccak ch from to = \<lparr> Q_From = from, Q_To = to, Q_Addresses = map TokenAddress (Tokens ch),
     Q_Topic0 = TransferTopic keccak, Q_Topic2 = map (\<lambda>d. address_topic (DepositAddress d)) (Deposits ch) \<rparr>"

definition fetch :: "(string \<Rightarrow> string) \<Rightarrow> eth_client \<Rightarrow> chain \<Rightarrow> 64 word \<Rightarrow> 64 word \<Rightarrow> (ingest_err, deposit_log list) res" where
  "fetch keccak eth ch from to =
     and_then (map_err RPCFailed (FilterLogs eth (fetch_query keccak ch from to))) (fetch_logs eth (ChainID ch) [])"

section \<open>Backfill and Step\<close>

definition Backfill :: "eth_client \<Rightarrow> chain \<Rightarrow> 64 word \<Rightarrow> db \<Rightarrow> (ingest_err, 64 word \<times> db) res" where
  "Backfill eth ch fromBlock s =
     and_then (map_err RPCFailed (BlockNumber eth)) (\<lambda>head.
     if head < Confirmations ch \<or> fromBlock = 0 then Inl BadFromBlock
     else let until = head - Confirmations ch
          in Inr (until, s\<lparr>cursors := AList.update (ChainID ch) \<lparr> LastReconciled = fromBlock - 1, BackfillUntil = until \<rparr> (cursors s)\<rparr>))"

text \<open>\<open>INSERT ... ON CONFLICT DO NOTHING\<close>, then the cursor as read.\<close>

definition start_cursor :: "64 word \<Rightarrow> 64 word \<Rightarrow> db \<Rightarrow> cursor_row \<times> db" where
  "start_cursor chainID safe s = (case map_of (cursors s) chainID of
     Some c \<Rightarrow> (c, s)
   | None \<Rightarrow> (let c = \<lparr> LastReconciled = safe, BackfillUntil = 0 \<rparr> in (c, s\<lparr>cursors := AList.update chainID c (cursors s)\<rparr>)))"

definition orphan_unconfirmed :: "64 word \<Rightarrow> 64 word \<Rightarrow> 64 word \<Rightarrow> db \<Rightarrow> db" where
  "orphan_unconfirmed chainID from to s = s\<lparr>payments := map (\<lambda>p.
     if P_Chain p = chainID \<and> P_Ingest p = Seen \<and> from \<le> P_Block p \<and> P_Block p \<le> to then p\<lparr>P_Ingest := Orphaned\<rparr> else p) (payments s)\<rparr>"

definition set_cursor :: "64 word \<Rightarrow> 64 word \<Rightarrow> db \<Rightarrow> db" where
  "set_cursor chainID to s = (case map_of (cursors s) chainID of
     None \<Rightarrow> s | Some c \<Rightarrow> s\<lparr>cursors := AList.update chainID (c\<lparr>LastReconciled := to\<rparr>) (cursors s)\<rparr>)"

text \<open>The transaction of a step.\<close>

definition reconcile_range :: "(string \<Rightarrow> string) \<Rightarrow> 64 word \<Rightarrow> deposit_log list \<Rightarrow> 64 word \<Rightarrow> 64 word \<Rightarrow> 64 word \<Rightarrow> db \<Rightarrow> db" where
  "reconcile_range keccak chainID ds backfillUntil from to s =
     set_cursor chainID to (orphan_unconfirmed chainID from to
       (fold (\<lambda>d. upsertConfirmed keccak d (L_Block d \<le> backfillUntil)) ds s))"

text \<open>\<open>Step\<close>: whether more ranges are ready, or the error; the first cursor is kept even on an error.\<close>

definition Step :: "(string \<Rightarrow> string) \<Rightarrow> eth_client \<Rightarrow> chain \<Rightarrow> db \<Rightarrow> (ingest_err, bool) res \<times> db" where
  "Step keccak eth ch s = (case BlockNumber eth of
     Inl e \<Rightarrow> (Inl (RPCFailed e), s)
   | Inr head \<Rightarrow>
       if head < Confirmations ch then (Inr False, s)
       else
         let safe = head - Confirmations ch;
             (c, s1) = start_cursor (ChainID ch) safe s;
             from = LastReconciled c + 1
         in if safe < from then (Inr False, s1)
            else
              let to = min safe (from + Chunk ch - 1)
              in (case fetch keccak eth ch from to of
                    Inl e \<Rightarrow> (Inl e, s1)
                  | Inr ds \<Rightarrow> (Inr (to < safe), reconcile_range keccak (ChainID ch) ds (BackfillUntil c) from to s1)))"

section \<open>Hints (hint.go)\<close>

definition HintDisabled :: string where "HintDisabled = ''disabled''"
definition HintDegraded :: string where "HintDegraded = ''degraded''"
definition HintOK :: string where "HintOK = ''ok''"

definition hint_status :: "config \<Rightarrow> bool \<Rightarrow> string" where
  "hint_status c consuming = (if NATSURL c = [] then HintDisabled else if consuming then HintOK else HintDegraded)"

definition ConsumerName :: "64 word \<Rightarrow> string \<Rightarrow> string" where
  "ConsumerName chainID alias = ''compliance-backend-'' @ nat_dec (unat chainID) @ ''-'' @ alias"

text \<open>
  Decoding the envelope. go-ethereum's \<open>common.Address\<close> and \<open>common.Hash\<close> decode from a JSON string
  with the prefix 0x and exactly the right number of hex digits; unlike the other fields they refuse null.
\<close>

definition strict_field :: "(jval \<Rightarrow> 'a option) \<Rightarrow> 'a \<Rightarrow> string \<Rightarrow> (string \<times> jval) list \<Rightarrow> 'a option" where
  "strict_field dec dflt name m = map_option (\<lambda>vs. if vs = [] then dflt else last vs) (those (map dec (members_for name m)))"

definition fixed_hex :: "nat \<Rightarrow> jval \<Rightarrow> string option" where
  "fixed_hex n v = (case v of
     JStr s \<Rightarrow> if prefix ''0x'' s \<or> prefix ''0X'' s then Option.bind (hex_decode (drop 2 s)) (\<lambda>b. if length b = n then Some b else None) else None
   | _ \<Rightarrow> None)"

definition uint64_of :: "jval \<Rightarrow> 64 word option" where
  "uint64_of v = (case v of
     JNumber s \<Rightarrow> (if s \<noteq> [] \<and> list_all is_digit s \<and> dec_nat s < 2 ^ 64 then Some (word_of_nat (dec_nat s)) else None)
   | _ \<Rightarrow> None)"

text \<open>\<open>[]byte\<close> decodes from standard base64 with padding; \<open>b64\<close> is that decoder.\<close>

definition bytes_of :: "(string \<Rightarrow> string option) \<Rightarrow> jval \<Rightarrow> string option" where
  "bytes_of b64 v = (case v of JStr s \<Rightarrow> b64 s | _ \<Rightarrow> None)"

text \<open>\<open>json.Number\<close>: a number literal, or a string holding one.\<close>

definition number_of :: "jval \<Rightarrow> string option" where
  "number_of v = (case v of
     JNumber s \<Rightarrow> Some s
   | JStr s \<Rightarrow> (if parse_number s = Some (s, []) then Some s else None)
   | _ \<Rightarrow> None)"

definition zero_bytes :: "nat \<Rightarrow> string" where
  "zero_bytes n = replicate n (char_of (0 :: nat))"

record envelope_meta =
  M_Chain :: "64 word"
  M_Contract :: address
  M_Name :: string
  M_Block :: "64 word"
  M_BlockHash :: hash
  M_Tx :: hash
  M_LogIndex :: "64 word"
  M_Timestamp :: int

definition meta_of :: "jval \<Rightarrow> envelope_meta option" where
  "meta_of v = (case v of
     JObj m \<Rightarrow>
       Option.bind (field_of uint64_of 0 ''chain_id'' m) (\<lambda>chain.
       Option.bind (strict_field (fixed_hex 20) (zero_bytes 20) ''contract'' m) (\<lambda>contract.
       Option.bind (field_of str_of [] ''name'' m) (\<lambda>name.
       Option.bind (field_of uint64_of 0 ''block_number'' m) (\<lambda>block.
       Option.bind (strict_field (fixed_hex 32) (zero_bytes 32) ''block_hash'' m) (\<lambda>bh.
       Option.bind (strict_field (fixed_hex 32) (zero_bytes 32) ''tx_hash'' m) (\<lambda>tx.
       Option.bind (field_of uint64_of 0 ''log_index'' m) (\<lambda>li.
       map_option (\<lambda>ts. \<lparr> M_Chain = chain, M_Contract = contract, M_Name = name, M_Block = block, M_BlockHash = bh, M_Tx = tx,
           M_LogIndex = li, M_Timestamp = ts \<rparr>) (field_of go_int_of 0 ''timestamp'' m))))))))
   | _ \<Rightarrow> None)"

definition empty_meta :: envelope_meta where
  "empty_meta = \<lparr> M_Chain = 0, M_Contract = zero_bytes 20, M_Name = [], M_Block = 0, M_BlockHash = zero_bytes 32, M_Tx = zero_bytes 32,
     M_LogIndex = 0, M_Timestamp = 0 \<rparr>"

datatype hint_err = BadEnvelope | NotATransfer string | BadEventData | BadValue string

definition envelope_of :: "(string \<Rightarrow> string option) \<Rightarrow> string \<Rightarrow> (envelope_meta \<times> string) option" where
  "envelope_of b64 raw = (case unmarshal raw of
     Some (JObj m) \<Rightarrow> Option.bind (field_of meta_of empty_meta ''meta'' m) (\<lambda>meta.
        map_option (Pair meta) (field_of (bytes_of b64) [] ''data'' m))
   | Some JNull \<Rightarrow> Some (empty_meta, [])
   | _ \<Rightarrow> None)"

definition transfer_of :: "string \<Rightarrow> (address \<times> address \<times> string) option" where
  "transfer_of data = (case unmarshal data of
     Some (JObj m) \<Rightarrow> Option.bind (strict_field (fixed_hex 20) (zero_bytes 20) ''from'' m) (\<lambda>f.
        Option.bind (strict_field (fixed_hex 20) (zero_bytes 20) ''to'' m) (\<lambda>t.
        map_option (\<lambda>v. (f, t, v)) (field_of number_of [] ''value'' m)))
   | Some JNull \<Rightarrow> Some (zero_bytes 20, zero_bytes 20, [])
   | _ \<Rightarrow> None)"

definition decodeEnvelope :: "(string \<Rightarrow> string option) \<Rightarrow> string \<Rightarrow> (hint_err, deposit_log) res" where
  "decodeEnvelope b64 raw = (case envelope_of b64 raw of
     None \<Rightarrow> Inl BadEnvelope
   | Some (m, data) \<Rightarrow>
       if M_Name m \<noteq> ''Transfer'' then Inl (NotATransfer (M_Name m))
       else (case transfer_of data of
          None \<Rightarrow> Inl BadEventData
        | Some (f, t, v) \<Rightarrow> (case int_set v of
            Some amount \<Rightarrow>
              if amount < 0 then Inl (BadValue v)
              else Inr \<lparr> L_Chain = M_Chain m, L_Tx = M_Tx m, L_Index = M_LogIndex m, L_Block = M_Block m, L_BlockHash = M_BlockHash m,
                L_BlockTime = from_unix (M_Timestamp m), L_Token = M_Contract m, L_Payer = f, L_To = t, L_Amount = amount \<rparr>
          | None \<Rightarrow> Inl (BadValue v))))"

datatype ack = Term | Ack | Nak

text \<open>\<open>handle\<close>: a message is acknowledged only after its row is stored; \<open>db_up\<close> says whether the
  insert went through.\<close>

definition handle :: "(string \<Rightarrow> string option) \<Rightarrow> (string \<Rightarrow> string) \<Rightarrow> chain \<Rightarrow> bool \<Rightarrow> string \<Rightarrow> db \<Rightarrow> ack \<times> db" where
  "handle b64 keccak ch db_up raw s = (case decodeEnvelope b64 raw of
     Inl e \<Rightarrow> (Term, s)
   | Inr d \<Rightarrow>
       if Deposit ch (L_To d) = None \<or> Token ch (L_Token d) = None \<or> L_Chain d \<noteq> ChainID ch then (Ack, s)
       else if \<not> db_up then (Nak, s)
       else (Ack, upsertSeen keccak d s))"

text \<open>The consumers \<open>consume\<close> creates: durable name and filter subject, per chain and token.\<close>

definition consumers :: "config \<Rightarrow> (string \<times> string) list" where
  "consumers c = concat (map (\<lambda>ch. if EventscaleNetwork ch = [] then []
     else concat (map (\<lambda>t. if EventscaleAlias t = [] then []
        else [(ConsumerName (ChainID ch) (EventscaleAlias t),
               ''eventscale.events.'' @ EventscaleNetwork ch @ ''.'' @ EventscaleAlias t @ ''.Transfer'')]) (Tokens ch))) (Chains c))"

section \<open>The payment id\<close>

lemma uint256_inj: "uint256 a = uint256 b \<Longrightarrow> a = b"
proof -
  assume "uint256 a = uint256 b"
  then have "be_nat (be_bytes 32 (unat a)) = be_nat (be_bytes 32 (unat b))" by (simp only: uint256_def)
  moreover have "unat w < 256 ^ 32" for w :: "64 word"
    using unsigned_less [of w, where 'a = nat] by (simp add: order.strict_trans2)
  ultimately have "unat a = unat b" by (simp only: be_nat_be_bytes)
  then show ?thesis by (simp only: word_unat_eq_iff)
qed

lemma length_uint256 [simp]: "length (uint256 w) = 32"
  by (simp add: uint256_def)

lemma payment_preimage_inj:
  "length tx = 32 \<Longrightarrow> length tx' = 32 \<Longrightarrow> payment_preimage c tx i = payment_preimage c' tx' i' \<Longrightarrow> c = c' \<and> tx = tx' \<and> i = i'"
  unfolding payment_preimage_def by (auto dest: uint256_inj)

section \<open>Rows\<close>

definition wf_payments :: "db \<Rightarrow> bool" where
  "wf_payments s \<longleftrightarrow> distinct (map P_ID (payments s))"

lemma find_first_append: "find_first P (xs @ ys) = (case find_first P xs of None \<Rightarrow> find_first P ys | Some x \<Rightarrow> Some x)"
  by (induction xs) auto

lemma find_first_map: "(\<And>x. P (f x) \<longleftrightarrow> P x) \<Longrightarrow> find_first P (map f xs) = map_option f (find_first P xs)"
  by (induction xs) auto

lemma payment_by_append: "payment_by (s\<lparr>payments := payments s @ [r]\<rparr>) i
    = (case payment_by s i of None \<Rightarrow> if P_ID r = i then Some r else None | Some p \<Rightarrow> Some p)"
  by (auto simp: payment_by_def find_first_append split: option.splits)

lemma payment_by_map:
  "(\<And>p. P_ID (f p) = P_ID p) \<Longrightarrow> payment_by (s\<lparr>payments := map f (payments s)\<rparr>) i = map_option f (payment_by s i)"
  by (simp add: payment_by_def find_first_map)

lemma payment_by_update:
  "(\<And>p. P_ID (f p) = P_ID p) \<Longrightarrow>
     payment_by (update_payment j f s) i = (if i = j then map_option f (payment_by s i) else payment_by s i)"
proof -
  assume f: "\<And>p. P_ID (f p) = P_ID p"
  have "payment_by (update_payment j f s) i = map_option (\<lambda>p. if P_ID p = j then f p else p) (payment_by s i)"
    unfolding update_payment_def by (rule payment_by_map) (simp add: f)
  moreover have "payment_by s i = Some p \<Longrightarrow> P_ID p = i" for p by (auto simp: payment_by_def dest: find_first_SomeD)
  ultimately show ?thesis by (cases "payment_by s i") auto
qed

lemma payment_by_ID: "payment_by s i = Some p \<Longrightarrow> P_ID p = i"
  by (auto simp: payment_by_def dest: find_first_SomeD)

lemma reconfirm_ID [simp]: "P_ID (reconfirm d r p) = P_ID p"
  by (simp add: reconfirm_def)

lemma row_of_fields [simp]: "P_ID (row_of k d ing r) = deposit_id k d" "P_Ingest (row_of k d ing r) = ing"
  "P_Block (row_of k d ing r) = L_Block d" "P_Stage (row_of k d ing r) = ChecksPending"
  by (simp_all add: row_of_def)

lemma upsertConfirmed_by:
  "payment_by (upsertConfirmed k d r s) i =
     (if i = deposit_id k d
      then Some (case payment_by s i of None \<Rightarrow> row_of k d Confirmed r | Some p \<Rightarrow> reconfirm d r p)
      else payment_by s i)"
  by (auto simp: upsertConfirmed_def payment_by_append payment_by_update split: option.splits)

lemma upsertSeen_by:
  "payment_by (upsertSeen k d s) i =
     (case payment_by s i of Some p \<Rightarrow> Some p
      | None \<Rightarrow> if i = deposit_id k d then Some (row_of k d (if passed s (L_Chain d) (L_Block d) then Orphaned else Seen) False) else None)"
  by (auto simp: upsertSeen_def payment_by_append split: option.splits)

text \<open>Everything but payments and cursors is left alone.\<close>

definition same_evidence :: "db \<Rightarrow> db \<Rightarrow> bool" where
  "same_evidence s s' \<longleftrightarrow> check_results s' = check_results s \<and> recommendations s' = recommendations s \<and> snapshots s' = snapshots s
     \<and> decisions s' = decisions s \<and> packs s' = packs s \<and> journal_seq s' = journal_seq s \<and> journal_head s' = journal_head s
     \<and> rulesets s' = rulesets s \<and> pendings s' = pendings s \<and> projections s' = projections s"

lemma same_evidence_refl [simp]: "same_evidence s s"
  by (simp add: same_evidence_def)

lemma same_evidence_trans: "same_evidence a b \<Longrightarrow> same_evidence b c \<Longrightarrow> same_evidence a c"
  by (simp add: same_evidence_def)

lemma upsert_evidence: "same_evidence s (upsertConfirmed k d r s)" "same_evidence s (upsertSeen k d s)"
  by (auto simp: same_evidence_def upsertConfirmed_def upsertSeen_def)

lemma upsert_cursors [simp]: "cursors (upsertConfirmed k d r s) = cursors s" "cursors (upsertSeen k d s) = cursors s"
  by (auto simp: upsertConfirmed_def upsertSeen_def)

lemma upserts_by:
  "payment_by (fold (\<lambda>d. upsertConfirmed k d (f d)) ds s) i =
     fold (\<lambda>d p. if deposit_id k d = i then Some (case p of None \<Rightarrow> row_of k d Confirmed (f d) | Some p \<Rightarrow> reconfirm d (f d) p) else p)
       ds (payment_by s i)"
proof (induction ds arbitrary: s)
  case (Cons d ds)
  show ?case by (simp add: Cons upsertConfirmed_by)
qed simp

text \<open>What the deposits of a range make of a row.\<close>

definition confirmed_by :: "(string \<Rightarrow> string) \<Rightarrow> deposit_log list \<Rightarrow> payment_row \<Rightarrow> bool" where
  "confirmed_by k ds p \<longleftrightarrow> P_Ingest p = Confirmed
     \<and> (\<exists>d\<in>set ds. deposit_id k d = P_ID p \<and> P_Block p = L_Block d \<and> P_BlockHash p = L_BlockHash d \<and> P_BlockTime p = L_BlockTime d)"

lemma upserts_confirmed:
  assumes "i \<in> deposit_id k ` set ds"
  shows "\<exists>p. payment_by (fold (\<lambda>d. upsertConfirmed k d (f d)) ds s) i = Some p \<and> confirmed_by k ds p
     \<and> (case payment_by s i of None \<Rightarrow> P_Stage p = ChecksPending
         | Some q \<Rightarrow> P_Stage p = P_Stage q \<and> P_Payer p = P_Payer q \<and> P_Token p = P_Token q \<and> P_Amount p = P_Amount q \<and> P_Deposit p = P_Deposit q)"
  using assms
proof (induction ds rule: rev_induct)
  case (snoc d ds)
  let ?s = "fold (\<lambda>d. upsertConfirmed k d (f d)) ds s"
  show ?case
  proof (cases "i \<in> deposit_id k ` set ds")
    case True
    from snoc.IH [OF True] obtain p where p: "payment_by ?s i = Some p" "confirmed_by k ds p"
      "case payment_by s i of None \<Rightarrow> P_Stage p = ChecksPending
         | Some q \<Rightarrow> P_Stage p = P_Stage q \<and> P_Payer p = P_Payer q \<and> P_Token p = P_Token q \<and> P_Amount p = P_Amount q \<and> P_Deposit p = P_Deposit q"
      by blast
    have i: "P_ID p = i" using payment_by_ID [OF p(1)] .
    show ?thesis
    proof (cases "deposit_id k d = i")
      case same: True
      have "payment_by (upsertConfirmed k d (f d) ?s) i = Some (reconfirm d (f d) p)"
        using p(1) same by (simp add: upsertConfirmed_by)
      then show ?thesis using p(3) same i
        by (intro exI [of _ "reconfirm d (f d) p"]) (auto simp: confirmed_by_def reconfirm_def split: option.splits)
    next
      case False
      then have "payment_by (upsertConfirmed k d (f d) ?s) i = Some p" using p(1) by (simp add: upsertConfirmed_by)
      then show ?thesis using p by (intro exI [of _ p]) (auto simp: confirmed_by_def)
    qed
  next
    case False
    then have i: "deposit_id k d = i" using snoc.prems by auto
    have "payment_by ?s i = payment_by s i"
      using False by (induction ds rule: rev_induct) (auto simp: upsertConfirmed_by)
    then have "payment_by (upsertConfirmed k d (f d) ?s) i
        = Some (case payment_by s i of None \<Rightarrow> row_of k d Confirmed (f d) | Some p \<Rightarrow> reconfirm d (f d) p)"
      using i by (simp add: upsertConfirmed_by)
    then show ?thesis using i payment_by_ID [of s i]
      by (cases "payment_by s i") (auto simp: confirmed_by_def reconfirm_def row_of_def)
  qed
qed simp

lemma upserts_other: "i \<notin> deposit_id k ` set ds \<Longrightarrow> payment_by (fold (\<lambda>d. upsertConfirmed k d (f d)) ds s) i = payment_by s i"
  by (induction ds arbitrary: s) (auto simp: upsertConfirmed_by)

lemma upserts_evidence: "same_evidence s (fold (\<lambda>d. upsertConfirmed k d (f d)) ds s)"
  by (induction ds arbitrary: s) (auto intro: same_evidence_trans upsert_evidence)

lemma upserts_cursors: "cursors (fold (\<lambda>d. upsertConfirmed k d (f d)) ds s) = cursors s"
  by (induction ds arbitrary: s) auto

definition orphan :: "64 word \<Rightarrow> 64 word \<Rightarrow> 64 word \<Rightarrow> payment_row \<Rightarrow> payment_row" where
  "orphan chainID from to p =
     (if P_Chain p = chainID \<and> P_Ingest p = Seen \<and> from \<le> P_Block p \<and> P_Block p \<le> to then p\<lparr>P_Ingest := Orphaned\<rparr> else p)"

lemma orphan_by: "payment_by (orphan_unconfirmed c from to s) i = map_option (orphan c from to) (payment_by s i)"
  unfolding orphan_unconfirmed_def orphan_def [symmetric] by (rule payment_by_map) (simp add: orphan_def)

lemma set_cursor_props: "payment_by (set_cursor c to s) i = payment_by s i" "same_evidence s (set_cursor c to s)"
  "map_of (cursors (set_cursor c to s)) c = map_option (\<lambda>r. r\<lparr>LastReconciled := to\<rparr>) (map_of (cursors s) c)"
  by (auto simp: set_cursor_def payment_by_def same_evidence_def update_conv' split: option.splits)

lemma reconcile_range_by:
  "payment_by (reconcile_range k c ds b from to s) i
    = map_option (orphan c from to) (payment_by (fold (\<lambda>d. upsertConfirmed k d (L_Block d \<le> b)) ds s) i)"
  by (simp add: reconcile_range_def set_cursor_props orphan_by)

lemma reconcile_range_evidence: "same_evidence s (reconcile_range k c ds b from to s)"
  unfolding reconcile_range_def
  by (rule same_evidence_trans [OF upserts_evidence same_evidence_trans [OF _ set_cursor_props(2)]])
    (simp add: same_evidence_def orphan_unconfirmed_def)

lemma reconcile_range_cursor:
  "map_of (cursors (reconcile_range k c ds b from to s)) c = map_option (\<lambda>r. r\<lparr>LastReconciled := to\<rparr>) (map_of (cursors s) c)"
  by (simp add: reconcile_range_def set_cursor_props orphan_unconfirmed_def upserts_cursors)

section \<open>Steps move the cursor forward\<close>

definition cursor_of :: "64 word \<Rightarrow> db \<Rightarrow> 64 word option" where
  "cursor_of c s = map_option LastReconciled (map_of (cursors s) c)"

lemma start_cursor_props:
  assumes "start_cursor c safe s = (r, s1)"
  shows "map_of (cursors s1) c = Some r" and "same_evidence s s1" and "payment_by s1 i = payment_by s i"
    and "cursor_of c s1 = (case cursor_of c s of None \<Rightarrow> Some safe | Some l \<Rightarrow> Some l)"
  using assms
  by (auto simp: start_cursor_def Let_def same_evidence_def payment_by_def update_conv' cursor_of_def split: option.splits)

text \<open>The range a step covers, and what it does with a fetched range.\<close>

lemma Step_cases:
  assumes "Step k eth ch s = (out, s')"
  obtains (stuck) "same_evidence s s'" "\<And>i. payment_by s' i = payment_by s i"
      "cursor_of (ChainID ch) s' = cursor_of (ChainID ch) s \<or> cursor_of (ChainID ch) s = None"
      "\<And>b. out = Inr b \<Longrightarrow> \<not> b"
  | (range) head c s1 ds to where "BlockNumber eth = Inr head" "Confirmations ch \<le> head"
      "start_cursor (ChainID ch) (head - Confirmations ch) s = (c, s1)"
      "LastReconciled c + 1 \<le> head - Confirmations ch"
      "to = min (head - Confirmations ch) (LastReconciled c + 1 + Chunk ch - 1)"
      "fetch k eth ch (LastReconciled c + 1) to = Inr ds" "out = Inr (to < head - Confirmations ch)"
      "s' = reconcile_range k (ChainID ch) ds (BackfillUntil c) (LastReconciled c + 1) to s1"
proof -
  consider e where "BlockNumber eth = Inl e" | head where "BlockNumber eth = Inr head" by (cases "BlockNumber eth") auto
  then show thesis
  proof cases
    case 1
    then show thesis using assms by (intro stuck) (auto simp: Step_def)
  next
    case 2
    show thesis
    proof (cases "head < Confirmations ch")
      case True
      then show thesis using assms 2 by (intro stuck) (auto simp: Step_def)
    next
      case False
      define safe where "safe = head - Confirmations ch"
      obtain c s1 where c: "start_cursor (ChainID ch) safe s = (c, s1)" by (cases "start_cursor (ChainID ch) safe s") auto
      note sc = start_cursor_props [OF c]
      have cur: "cursor_of (ChainID ch) s1 = cursor_of (ChainID ch) s \<or> cursor_of (ChainID ch) s = None"
        using sc(4) by (cases "cursor_of (ChainID ch) s") auto
      show thesis
      proof (cases "safe < LastReconciled c + 1")
        case True
        then have "out = Inr False" "s' = s1" using assms 2 False c by (simp_all add: Step_def safe_def Let_def)
        then show thesis using sc cur by (intro stuck) auto
      next
        case le: False
        let ?to = "min safe (LastReconciled c + 1 + Chunk ch - 1)"
        show thesis
        proof (cases "fetch k eth ch (LastReconciled c + 1) ?to")
          case (Inl e)
          then have "out = Inl e" "s' = s1" using assms 2 False c le by (simp_all add: Step_def safe_def Let_def)
          then show thesis using sc cur by (intro stuck) auto
        next
          case (Inr ds)
          then have "out = Inr (?to < safe)"
            "s' = reconcile_range k (ChainID ch) ds (BackfillUntil c) (LastReconciled c + 1) ?to s1"
            using assms 2 False c le by (simp_all add: Step_def safe_def Let_def)
          then show thesis using 2 False c le Inr unfolding safe_def by (intro range) (auto simp: not_less)
        qed
      qed
    qed
  qed
qed

lemma Step_evidence: "Step k eth ch s = (out, s') \<Longrightarrow> same_evidence s s'"
  by (erule Step_cases) (auto intro: same_evidence_trans start_cursor_props reconcile_range_evidence)

lemma Step_range:
  assumes "start_cursor (ChainID ch) safe s = (c, s1)"
    and "s' = reconcile_range k (ChainID ch) ds b from to s1"
  shows "cursor_of (ChainID ch) s' = Some to"
  using start_cursor_props(1) [OF assms(1)] by (simp add: assms(2) cursor_of_def reconcile_range_cursor)

lemma next_block:
  fixes l safe chunk :: "64 word"
  assumes "l + 1 \<le> safe" and "l < safe" and "chunk \<noteq> 0" and "unat safe + unat chunk < 2 ^ 64"
  shows "l < min safe (l + 1 + chunk - 1)" and "min safe (l + 1 + chunk - 1) \<le> safe"
proof -
  have e: "l + 1 + chunk - 1 = l + chunk" by simp
  have "unat l < unat safe" using assms(2) by (simp add: word_less_nat_alt)
  then have "unat l + unat chunk < 2 ^ 64" using assms(4) by simp
  then have u: "unat (l + chunk) = unat l + unat chunk" by (simp add: unat_word_ariths)
  have "0 < unat chunk" using assms(3) by (simp add: unat_gt_0)
  then have "l < l + chunk" by (simp add: word_less_nat_alt u)
  then show "l < min safe (l + 1 + chunk - 1)" using assms(2) by (simp only: e min_less_iff_conj)
  show "min safe (l + 1 + chunk - 1) \<le> safe" by simp
qed

text \<open>Catching up with a chain whose head stands still.\<close>

fun run_steps :: "(string \<Rightarrow> string) \<Rightarrow> eth_client \<Rightarrow> chain \<Rightarrow> nat \<Rightarrow> db \<Rightarrow> (ingest_err, bool) res \<times> db" where
  "run_steps k eth ch 0 s = (Inr True, s)"
| "run_steps k eth ch (Suc n) s = (case Step k eth ch s of
     (Inr True, s') \<Rightarrow> run_steps k eth ch n s'
   | r \<Rightarrow> r)"

lemma catches_up:
  assumes "BlockNumber eth = Inr head" and "Confirmations ch \<le> head" and "Chunk ch \<noteq> 0"
    and "unat (head - Confirmations ch) + unat (Chunk ch) < 2 ^ 64"
    and "\<And>from to. is_ok (fetch k eth ch from to)"
    and "cursor_of (ChainID ch) s = Some l" and "l \<le> head - Confirmations ch"
    and "unat (head - Confirmations ch) - unat l < n"
  shows "\<exists>s'. run_steps k eth ch n s = (Inr False, s') \<and> cursor_of (ChainID ch) s' = Some (head - Confirmations ch)"
  using assms(6,7,8)
proof (induction n arbitrary: s l)
  case (Suc n)
  let ?safe = "head - Confirmations ch"
  obtain c where c: "map_of (cursors s) (ChainID ch) = Some c" "LastReconciled c = l" using Suc.prems(1) by (auto simp: cursor_of_def)
  have sc: "start_cursor (ChainID ch) ?safe s = (c, s)" using c by (simp add: start_cursor_def)
  show ?case
  proof (cases "?safe < l + 1")
    case True
    have "l = ?safe"
    proof (rule ccontr)
      assume "l \<noteq> ?safe"
      then have "unat l < unat ?safe" using Suc.prems(2) by (simp add: word_less_nat_alt [symmetric] order.not_eq_order_implies_strict)
      then have "unat (l + 1) = unat l + 1" using unsigned_less [of ?safe, where 'a = nat] by (simp add: unat_word_ariths)
      then show False using True \<open>unat l < unat ?safe\<close> by (simp add: word_less_nat_alt)
    qed
    moreover have "Step k eth ch s = (Inr False, s)"
      using True assms(1,2) c sc by (simp add: Step_def Let_def)
    ultimately show ?thesis using Suc.prems(1) by simp
  next
    case False
    then have le: "l + 1 \<le> ?safe" by (simp add: not_less)
    let ?to = "min ?safe (l + 1 + Chunk ch - 1)"
    obtain ds where ds: "fetch k eth ch (l + 1) ?to = Inr ds" using assms(5) by (metis is_ok_iff)
    let ?s' = "reconcile_range k (ChainID ch) ds (BackfillUntil c) (l + 1) ?to s"
    have step: "Step k eth ch s = (Inr (?to < ?safe), ?s')"
      using False assms(1,2) c sc ds by (simp add: Step_def Let_def)
    have cur: "cursor_of (ChainID ch) ?s' = Some ?to" by (rule Step_range [OF sc refl])
    show ?thesis
    proof (cases "?to < ?safe")
      case True
      have ne: "l \<noteq> ?safe"
      proof
        assume "l = ?safe"
        moreover have "0 < unat (Chunk ch)" using assms(3) by (simp add: unat_gt_0)
        ultimately have "unat l + 1 < 2 ^ 64" using assms(4) by simp
        then have "unat (l + 1) = unat l + 1" by (simp add: unat_word_ariths)
        then show False using le \<open>l = ?safe\<close> by (simp add: word_le_nat_alt)
      qed
      then have "l < ?safe" using Suc.prems(2) by simp
      note nb = next_block [OF le this assms(3,4)]
      have "unat ?safe - unat ?to < n"
        using nb Suc.prems(3) unfolding word_less_nat_alt word_le_nat_alt by linarith
      from Suc.IH [OF cur nb(2) this] True step show ?thesis by simp
    next
      case False
      then have "?to = ?safe" by (simp add: not_less min_def split: if_splits)
      then show ?thesis using step cur False by simp
    qed
  qed
qed simp

section \<open>Hints\<close>

lemma handle_cases:
  "snd (handle b64 k ch up raw s) = s \<or> (\<exists>d. decodeEnvelope b64 raw = Inr d \<and> up \<and> Deposit ch (L_To d) \<noteq> None
     \<and> Token ch (L_Token d) \<noteq> None \<and> L_Chain d = ChainID ch \<and> snd (handle b64 k ch up raw s) = upsertSeen k d s)"
  by (auto simp: handle_def split: sum.splits)

lemma handle_evidence: "same_evidence s (snd (handle b64 k ch up raw s))"
  using handle_cases [of b64 k ch up raw s] upsert_evidence(2) by fastforce

lemma upsertSeen_again: "upsertSeen k d (upsertSeen k d s) = upsertSeen k d s"
proof -
  have "payment_by (upsertSeen k d s) (deposit_id k d) \<noteq> None" by (simp add: upsertSeen_by split: option.splits)
  then show ?thesis by (simp only: upsertSeen_def [of k d "upsertSeen k d s"]) simp
qed

text \<open>The fields a hint supplied survive the confirmation, whatever the chain said.\<close>

lemma hint_fields_survive:
  assumes "payment_by s (deposit_id k d) = None" and "deposit_id k d' = deposit_id k d"
  shows "\<exists>p. payment_by (upsertConfirmed k d r (upsertSeen k d' s)) (deposit_id k d) = Some p \<and> P_Ingest p = Confirmed
     \<and> P_Payer p = L_Payer d' \<and> P_Token p = L_Token d' \<and> P_Amount p = L_Amount d'"
  using assms by (simp add: upsertConfirmed_by upsertSeen_by reconfirm_def row_of_def)

text \<open>A backfill may start above the safe head: the blocks in between are never reconciled.\<close>

lemma backfill_beyond_head:
  assumes "BlockNumber eth = Inr head" and "Confirmations ch \<le> head" and "head - Confirmations ch < fromBlock"
  shows "\<exists>s'. Backfill eth ch fromBlock s = Inr (head - Confirmations ch, s') \<and> cursor_of (ChainID ch) s' = Some (fromBlock - 1)"
proof -
  have "fromBlock \<noteq> 0" using assms(3) by auto
  then show ?thesis using assms by (simp add: Backfill_def Let_def cursor_of_def update_conv' not_less [symmetric])
qed

section \<open>Properties\<close>

text \<open>The payment id names one log of one chain: two ids are equal only for the same chain, transaction
  and log index, unless the two encodings are a collision of keccak.\<close>

theorem payment_id_binds:
  "length tx = 32 \<Longrightarrow> length tx' = 32 \<Longrightarrow> PaymentID_of keccak c tx i = PaymentID_of keccak c' tx' i'
     \<Longrightarrow> (c = c' \<and> tx = tx' \<and> i = i')
       \<or> (payment_preimage c tx i \<noteq> payment_preimage c' tx' i'
           \<and> keccak (payment_preimage c tx i) = keccak (payment_preimage c' tx' i'))"
  unfolding PaymentID_of_def using payment_preimage_inj by metis

theorem payment_id_binds_witness:
  "(1 = (1 :: 64 word) \<and> zero_bytes 32 = zero_bytes 32 \<and> 3 = (3 :: 64 word))
     \<or> (payment_preimage 1 (zero_bytes 32) 3 \<noteq> payment_preimage 1 (zero_bytes 32) 3
         \<and> (\<lambda>x. x) (payment_preimage 1 (zero_bytes 32) 3) = (\<lambda>x. x) (payment_preimage 1 (zero_bytes 32) 3))"
  by (rule payment_id_binds [where keccak = "\<lambda>x. x"]) (simp_all add: zero_bytes_def)

text \<open>C22 A reconciled range is the truth: every deposit the chain reported is confirmed with the reported
  block and keeps the progress it had, every other row is unchanged except that an unconfirmed hint of
  the range becomes orphaned; and no evidence is touched. A hint whose deposit the chain reports in another
  block is confirmed with the reported block; openspec/specs/deposit-ingestion/spec.md would have it
  orphaned, the code's comment and the code have it as here.\<close>

theorem reconciled_range_is_truth:
  "(i \<in> deposit_id k ` set ds \<longrightarrow> (\<exists>p. payment_by (reconcile_range k c ds b from to s) i = Some p \<and> confirmed_by k ds p
       \<and> (case payment_by s i of None \<Rightarrow> P_Stage p = ChecksPending | Some q \<Rightarrow> P_Stage p = P_Stage q)))
   \<and> (i \<notin> deposit_id k ` set ds \<longrightarrow>
       payment_by (reconcile_range k c ds b from to s) i = map_option (orphan c from to) (payment_by s i))
   \<and> same_evidence s (reconcile_range k c ds b from to s)"
proof (intro conjI impI)
  assume "i \<in> deposit_id k ` set ds"
  from upserts_confirmed [OF this, of "\<lambda>d. L_Block d \<le> b" s] obtain p where
    p: "payment_by (fold (\<lambda>d. upsertConfirmed k d (L_Block d \<le> b)) ds s) i = Some p" "confirmed_by k ds p"
    and st: "case payment_by s i of None \<Rightarrow> P_Stage p = ChecksPending | Some q \<Rightarrow> P_Stage p = P_Stage q"
    by (auto split: option.splits)
  have "orphan c from to p = p" using p(2) by (simp add: orphan_def confirmed_by_def)
  then show "\<exists>p. payment_by (reconcile_range k c ds b from to s) i = Some p \<and> confirmed_by k ds p
       \<and> (case payment_by s i of None \<Rightarrow> P_Stage p = ChecksPending | Some q \<Rightarrow> P_Stage p = P_Stage q)"
    using p st by (intro exI [of _ p]) (simp add: reconcile_range_by)
next
  assume "i \<notin> deposit_id k ` set ds"
  then show "payment_by (reconcile_range k c ds b from to s) i = map_option (orphan c from to) (payment_by s i)"
    by (simp add: reconcile_range_by upserts_other)
qed (rule reconcile_range_evidence)

definition sample_deposit :: deposit_log where
  "sample_deposit = \<lparr> L_Chain = 1, L_Tx = zero_bytes 32, L_Index = 0, L_Block = 7, L_BlockHash = ''bh'', L_BlockTime = 0,
     L_Token = ''t'', L_Payer = ''p'', L_To = ''d'', L_Amount = 5 \<rparr>"

theorem reconciled_range_is_truth_witness:
  "\<exists>p. payment_by (reconcile_range (\<lambda>x. x) 1 [sample_deposit] 0 5 9 empty_db) (deposit_id (\<lambda>x. x) sample_deposit) = Some p
     \<and> P_Ingest p = Confirmed \<and> P_Block p = 7"
  using reconciled_range_is_truth [of "deposit_id (\<lambda>x. x) sample_deposit" "\<lambda>x. x" "[sample_deposit]" 1 0 5 9 empty_db]
  by (auto simp: confirmed_by_def sample_deposit_def)

text \<open>C30 The reconciler catches up: with a head that stands still and readable ranges, repeated steps end
  with no more ranges ready and the cursor exactly at the safe head, however small the chunks.\<close>

theorem reconciler_catches_up:
  assumes "BlockNumber eth = Inr head" and "Confirmations ch \<le> head" and "Chunk ch \<noteq> 0"
    and "unat (head - Confirmations ch) + unat (Chunk ch) < 2 ^ 64"
    and "\<And>from to. is_ok (fetch k eth ch from to)"
    and "cursor_of (ChainID ch) s = Some l" and "l \<le> head - Confirmations ch"
    and "unat (head - Confirmations ch) - unat l < n"
  shows "\<exists>s'. run_steps k eth ch n s = (Inr False, s') \<and> cursor_of (ChainID ch) s' = Some (head - Confirmations ch)"
  using assms by (rule catches_up)

definition sample_client :: eth_client where
  "sample_client = \<lparr> BlockNumber = Inr 20, FilterLogs = (\<lambda>q. Inr []), HeaderByNumber = (\<lambda>b. Inl ''no'') \<rparr>"

theorem reconciler_catches_up_witness:
  "\<exists>s'. run_steps (\<lambda>x. x) sample_client (hd (Chains sample_config)) 16
      (empty_db\<lparr>cursors := [(1, \<lparr> LastReconciled = 0, BackfillUntil = 0 \<rparr>)]\<rparr>) = (Inr False, s')
     \<and> cursor_of 1 s' = Some 15"
proof -
  let ?ch = "hd (Chains sample_config)"
  have ch: "ChainID ?ch = 1" "Confirmations ?ch = 5" "Chunk ?ch = 10" by (simp_all add: sample_config_def)
  have f: "is_ok (fetch (\<lambda>x. x) sample_client ?ch a b)" for a b by (simp add: fetch_def sample_client_def)
  from reconciler_catches_up [where k = "\<lambda>x. x" and eth = sample_client and head = 20 and ch = ?ch and l = 0 and n = 16
      and s = "empty_db\<lparr>cursors := [(1, \<lparr> LastReconciled = 0, BackfillUntil = 0 \<rparr>)]\<rparr>", unfolded ch, OF _ _ _ _ f]
  show ?thesis by (simp add: sample_client_def cursor_of_def)
qed

text \<open>C29 A hint is only a hint: a message never changes a payment that exists, a redelivered message changes
  nothing more, and hint and confirmation of the same log leave the same database in either order.\<close>

theorem hint_is_only_a_hint:
  "(payment_by s i = Some p \<longrightarrow> payment_by (snd (handle b64 k ch up raw s)) i = Some p)
   \<and> snd (handle b64 k ch up raw (snd (handle b64 k ch up raw s))) = snd (handle b64 k ch up raw s)
   \<and> upsertConfirmed k d r (upsertSeen k d s) = upsertSeen k d (upsertConfirmed k d r s)"
proof (intro conjI impI)
  assume "payment_by s i = Some p"
  then show "payment_by (snd (handle b64 k ch up raw s)) i = Some p"
    using handle_cases [of b64 k ch up raw s] by (auto simp: upsertSeen_by)
next
  show "snd (handle b64 k ch up raw (snd (handle b64 k ch up raw s))) = snd (handle b64 k ch up raw s)"
    using upsertSeen_again by (auto simp: handle_def split: sum.splits)
next
  have present: "payment_by (upsertConfirmed k d r s) (deposit_id k d) \<noteq> None" by (simp add: upsertConfirmed_by)
  have rhs: "upsertSeen k d (upsertConfirmed k d r s) = upsertConfirmed k d r s"
    using present by (simp only: upsertSeen_def) simp
  show "upsertConfirmed k d r (upsertSeen k d s) = upsertSeen k d (upsertConfirmed k d r s)"
  proof (cases "payment_by s (deposit_id k d)")
    case (Some p)
    then have "upsertSeen k d s = s" by (simp add: upsertSeen_def)
    then show ?thesis by (simp only: rhs)
  next
    case None
    let ?ing = "if passed s (L_Chain d) (L_Block d) then Orphaned else Seen"
    have ne: "\<forall>p\<in>set (payments s). P_ID p \<noteq> deposit_id k d"
      using None by (simp add: payment_by_def find_first_None_iff)
    have seen: "upsertSeen k d s = s\<lparr>payments := payments s @ [row_of k d ?ing False]\<rparr>" using None by (simp add: upsertSeen_def)
    have "payment_by (upsertSeen k d s) (deposit_id k d) \<noteq> None" using None by (simp add: upsertSeen_by)
    then have "upsertConfirmed k d r (upsertSeen k d s) = update_payment (deposit_id k d) (reconfirm d r) (upsertSeen k d s)"
      by (simp add: upsertConfirmed_def)
    also have "\<dots> = s\<lparr>payments := payments s @ [row_of k d Confirmed r]\<rparr>"
      using ne by (simp add: seen update_payment_def map_idI reconfirm_def row_of_def)
    also have "\<dots> = upsertConfirmed k d r s" using None by (simp add: upsertConfirmed_def)
    finally show ?thesis by (simp only: rhs)
  qed
qed

theorem hint_is_only_a_hint_witness:
  "payment_by (snd (handle Some (\<lambda>x. x) (hd (Chains sample_config)) True ''{}'' (upsertSeen (\<lambda>x. x) sample_deposit empty_db)))
      (deposit_id (\<lambda>x. x) sample_deposit) = Some (row_of (\<lambda>x. x) sample_deposit Seen False)
   \<and> upsertConfirmed (\<lambda>x. x) sample_deposit True (upsertSeen (\<lambda>x. x) sample_deposit empty_db)
      = upsertSeen (\<lambda>x. x) sample_deposit (upsertConfirmed (\<lambda>x. x) sample_deposit True empty_db)"
proof -
  have "payment_by (upsertSeen (\<lambda>x. x) sample_deposit empty_db) (deposit_id (\<lambda>x. x) sample_deposit)
      = Some (row_of (\<lambda>x. x) sample_deposit Seen False)"
    unfolding upsertSeen_by by (simp add: payment_by_def passed_def empty_db_def)
  then show ?thesis using hint_is_only_a_hint by blast
qed

end
