(* ===== verification/Decide.thy ===== *)
theory Decide
  imports Ingest
begin

text \<open>
  Snapshots, signed decisions and pack versions of one payment: compliance-backend/internal/pipeline
  (snapshot.go, decide.go, and the struct and lookups of pipeline.go). Every function takes the
  database and returns the changed one or an error, on which the transaction is rolled back. A handler
  reads its clock once, as the argument \<open>now\<close>; random bytes are the arguments \<open>rnd\<close> (for the
  pack id) and \<open>fresh\<close> (for salts).

  The lemmas: what a recorded decision adds to the database, and that it adds nothing else.
\<close>

section \<open>The service (pipeline.go)\<close>

record service =
  S_Cfg :: config
  S_Policy :: key_signer
  S_Evidence :: jws_signer
  S_Crypto :: crypto
  S_Engine :: string

datatype internal = SQLError sql_err | CheckError check_err | BuildError build_err | SigError sig_err
  | StoredRuleset string | RulesPanic rpanic | PackWithoutDecision | SignFailure | RawError

datatype conflict = NoSnapshotYet | Refused next_err | NoPending | Superseded | OtherBody | AlreadyApproved | CopyRefused string

datatype perr =
    ErrNotFound string | ErrConflict conflict | ErrForbidden sig_err | ErrBadRequest string | ErrInternal internal

definition token_of :: "service \<Rightarrow> payment_row \<Rightarrow> (perr, chain \<times> token) res" where
  "token_of svc r = (case Chain (S_Cfg svc) (P_Chain r) of
     None \<Rightarrow> Inl (ErrInternal (CheckError (ChainUnconfigured (P_Chain r))))
   | Some ch \<Rightarrow> (case Token ch (P_Token r) of
       None \<Rightarrow> Inl (ErrInternal (CheckError (TokenUnconfigured (P_Token r))))
     | Some t \<Rightarrow> Inr (ch, t)))"

definition amountEUR :: "service \<Rightarrow> payment_row \<Rightarrow> (perr, string) res" where
  "amountEUR svc r = and_then (token_of svc r) (\<lambda>(ch, t).
     map_err (\<lambda>e. ErrInternal (CheckError e)) (EUR (P_Amount r) (Decimals t) (EURRate t)))"

section \<open>The evidence snapshot (snapshot.go)\<close>

definition notCollected :: string where
  "notCollected = ''Not collected: gathered outside Deflow (configuration b, no checkout integration)''"

text \<open>Version 4 and variant bits, then the groups in hex.\<close>

definition uuid4 :: "string \<Rightarrow> string" where
  "uuid4 b = (let b = b[6 := char_of (of_char (b ! 6) mod 16 + 64 :: nat)];
       b = b[8 := char_of (of_char (b ! 8) mod 64 + 128 :: nat)]
     in hex_encode (take 4 b) @ ''-'' @ hex_encode (take 2 (drop 4 b)) @ ''-'' @ hex_encode (take 2 (drop 6 b)) @ ''-''
        @ hex_encode (take 2 (drop 8 b)) @ ''-'' @ hex_encode (drop 10 b))"

definition stored_check :: "check_row list \<Rightarrow> string \<Rightarrow> check_row option" where
  "stored_check cs kind = find_first (\<lambda>c. C_Kind c = kind) cs"

definition check_section :: "check_row list \<Rightarrow> string \<Rightarrow> jval" where
  "check_section cs kind = (case stored_check cs kind of
     None \<Rightarrow> JObj [(''result'', JStr Unavailable), (''error'', JStr ''no result stored'')]
   | Some c \<Rightarrow> JObj (if kind = ''kyt''
       then AList.update ''raw_response_sha256'' (case C_Raw c of Some h \<Rightarrow> JStr h | None \<Rightarrow> JNull) (C_Section c)
       else C_Section c))"

record effective_ruleset =
  F_Rules :: ruleset
  F_Version :: string
  F_Hash :: string
  F_ApprovedBy :: address
  F_From :: time

definition recommendation_section :: "recommendation \<Rightarrow> inputs \<Rightarrow> jval" where
  "recommendation_section rc i = JObj [(''recommendation'', JStr (Recommendation rc)), (''reason_codes'', JStrList (Reasons rc)),
     (''policy_ref'', JStr (PolicyRef rc)), (''inputs'', JObj (inputs_map i)), (''inputs_hash'', JStr (inputs_hash i))]"

definition rules_section :: "service \<Rightarrow> effective_ruleset option \<Rightarrow> recommendation \<Rightarrow> inputs \<Rightarrow> jval" where
  "rules_section svc eff rc i = (case eff of
     None \<Rightarrow> JObj [(''rules_version'', JNull), (''ruleset_hash'', JNull), (''approved_by'', JNull), (''effective_from'', JNull),
       (''engine_version'', JStr (S_Engine svc)), (''thresholds'', JNull), (''recommendation'', recommendation_section rc i)]
   | Some e \<Rightarrow> JObj [(''rules_version'', JStr (F_Version e)), (''ruleset_hash'', JStr (F_Hash e)),
       (''approved_by'', JStr (addr_hex (S_Crypto svc) (F_ApprovedBy e))), (''effective_from'', JStr (rfc3339 (F_From e))),
       (''engine_version'', JStr (S_Engine svc)),
       (''thresholds'', JStr (''See ruleset '' @ F_Version e @ '' (sha256 '' @ F_Hash e @ ''); matched rule '' @ RuleID rc)),
       (''recommendation'', recommendation_section rc i)])"

definition onchain_section :: "service \<Rightarrow> chain \<Rightarrow> token \<Rightarrow> payment_row \<Rightarrow> string \<Rightarrow> jval" where
  "onchain_section svc ch t r eur = (let bt = rfc3339 (P_BlockTime r) in JObj [
     (''chain_name'', JStr (ChainName ch)), (''chain_id'', JUint64 (P_Chain r)), (''token'', JStr (Symbol t)),
     (''token_contract'', JStr (addr_hex (S_Crypto svc) (P_Token r))), (''amount'', JStr (FormatUnits (P_Amount r) (Decimals t))),
     (''fx_rate_eur'', JStr (EURRate t)), (''amount_eur'', JStr eur), (''fx_source'', JStr (FXSource t)), (''fx_at'', JStr bt),
     (''payer_address'', JStr (addr_hex (S_Crypto svc) (P_Payer r))), (''deposit_contract'', JStr (addr_hex (S_Crypto svc) (P_Deposit r))),
     (''tx_hash'', JStr (hash_hex (P_Tx r))), (''block_number'', JUint64 (P_Block r)), (''block_timestamp'', JStr bt),
     (''log_index'', JUint64 (P_LogIndex r)), (''confirmations'', JUint64 (Confirmations ch))])"

definition travel_rule_section :: jval where
  "travel_rule_section = JObj [
     (''standard'', JStr ''IVMS101.2023''), (''collected_at'', JNull), (''collected_before_payment'', JBool False),
     (''originator'', JNull), (''originator_vasp'', JNull), (''protocol'', JNull), (''beneficiary'', JNull),
     (''wallet_type'', JStr ''UNKNOWN''), (''wallet_type_method'', JStr ''not determined''), (''completeness'', JStr ''NOT_COLLECTED''),
     (''note'', JStr notCollected)]"

definition wallet_ownership_section :: jval where
  "wallet_ownership_section = JObj [
     (''required'', JBool False), (''reason'', JStr notCollected), (''method'', JNull), (''message'', JNull),
     (''message_sha256'', JNull), (''domain'', JNull), (''nonce'', JNull), (''chain_id'', JNull), (''issued_at'', JNull),
     (''expires_at'', JNull), (''signature'', JNull), (''result'', JStr ''NOT_COLLECTED''), (''verified_at'', JNull),
     (''verified_block'', JNull), (''prior_pack_id'', JNull)]"

definition sections_of :: "service \<Rightarrow> string \<Rightarrow> chain \<Rightarrow> token \<Rightarrow> payment_row \<Rightarrow> check_row list \<Rightarrow> string \<Rightarrow> effective_ruleset option
    \<Rightarrow> recommendation \<Rightarrow> inputs \<Rightarrow> (string \<times> jval) list" where
  "sections_of svc packID ch t r cs eur eff rc i = [
     (''pack_id'', JStr packID), (''payment_ref'', JStr (hash_hex (P_ID r))), (''onchain'', onchain_section svc ch t r eur),
     (''travel_rule'', travel_rule_section), (''wallet_ownership'', wallet_ownership_section),
     (''kyt'', check_section cs ''kyt''), (''sanctions'', check_section cs ''sanctions''),
     (''structuring'', check_section cs ''structuring''), (''issuer'', check_section cs ''issuer''),
     (''rules'', rules_section svc eff rc i)]"

definition snapshot_for :: "service \<Rightarrow> string \<Rightarrow> (string \<Rightarrow> string) \<Rightarrow> payment_row \<Rightarrow> check_row list \<Rightarrow> string \<Rightarrow> effective_ruleset option
    \<Rightarrow> recommendation \<Rightarrow> inputs \<Rightarrow> (perr, snapshot \<times> string) res" where
  "snapshot_for svc rnd fresh r cs eur eff rc i = and_then (token_of svc r) (\<lambda>(ch, t).
     let packID = uuid4 rnd
     in map_res (\<lambda>snap. (snap, packID))
          (map_err (\<lambda>e. ErrInternal (BuildError e)) (NewSnapshot fresh (sections_of svc packID ch t r cs eur eff rc i))))"

section \<open>Preparing a decision (decide.go)\<close>

definition past_decisions :: "db \<Rightarrow> hash \<Rightarrow> decision_row list" where
  "past_decisions s i = sort_key D_Nonce (filter (\<lambda>d. D_Payment d = i) (decisions s))"

text \<open>\<open>common.HexToHash\<close>: 0x stripped, an odd length padded, decoding up to the first bad digit, the last
  32 bytes left-padded.\<close>

fun hex_prefix :: "string \<Rightarrow> string" where
  "hex_prefix (a # b # cs) = (case (hex_val a, hex_val b) of
     (Some x, Some y) \<Rightarrow> char_of (16 * x + y) # hex_prefix cs | _ \<Rightarrow> [])"
| "hex_prefix _ = []"

definition HexToHash :: "string \<Rightarrow> hash" where
  "HexToHash s = (let t = (if prefix ''0x'' s \<or> prefix ''0X'' s then drop 2 s else s);
       b = hex_prefix (if odd (length t) then CHR ''0'' # t else t)
     in left_pad 32 (drop (length b - 32) b))"

definition prepare :: "service \<Rightarrow> time \<Rightarrow> db \<Rightarrow> payment_row \<Rightarrow> kind \<Rightarrow> (perr, decision \<times> typed_data) res" where
  "prepare svc now s r k = (case snapshot_of s (P_ID r) of
     None \<Rightarrow> Inl (ErrConflict NoSnapshotYet)
   | Some sn \<Rightarrow>
       let past = past_decisions s (P_ID r);
           nonce = foldl max 0 (map D_Nonce past)
       in (case Next (fst (Replay (map D_Kind past))) k of
             Inl e \<Rightarrow> Inl (ErrConflict (Refused e))
           | Inr _ \<Rightarrow>
               let d = \<lparr> PaymentID = P_ID r, DecisionKind = k, DToken = P_Token r, Amount = P_Amount r,
                         DPackHash = HexToHash (snap_root (S_Snap sn)), Nonce = nonce + 1,
                         Deadline = word_of_int (unix_sec (now + DecisionTTL (S_Cfg svc))) \<rparr>
               in Inr (d, TypedData (S_Crypto svc) (P_Chain r) (P_Deposit r) d)))"

section \<open>The sections outside the evidence\<close>

definition zero_time :: time where
  "zero_time = from_unix (day_number 1 1 1 * 86400)"

text \<open>\<open>SELECT max(performed_at)\<close>; without rows the scan fails and the zero time stays.\<close>

definition checks_at :: "db \<Rightarrow> hash \<Rightarrow> time" where
  "checks_at s i = (case map C_At (checks_of s i) of [] \<Rightarrow> zero_time | t # ts \<Rightarrow> foldl max t ts)"

definition decision_event :: "decision_row \<Rightarrow> jval" where
  "decision_event d = JObj [(''at'', JStr (rfc3339 (D_At d))),
     (''event'', JStr (''Decision '' @ Name (D_Kind d) @ '' ('' @ D_Mode d @ ''), nonce '' @ nat_dec (unat (D_Nonce d)))),
     (''ref'', JStr (D_PolicyRef d)), (''source'', JStr ''PROCESSOR'')]"

definition timeline_section :: "service \<Rightarrow> payment_row \<Rightarrow> time \<Rightarrow> rec_row \<Rightarrow> decision_row list \<Rightarrow> jval" where
  "timeline_section svc r checksAt rc past = JObj [
     (''onchain'', JList [JObj [(''at'', JStr (rfc3339 (P_BlockTime r))), (''event'', JStr ''Transfer to deposit address''),
        (''ref'', JStr (hash_hex (P_Tx r))), (''source'', JStr ''CHAIN'')]]),
     (''offchain'', JList ([
        JObj [(''at'', JStr (rfc3339 checksAt)), (''event'', JStr ''Checks completed: KYT, sanctions, structuring, issuer''),
          (''ref'', JNull), (''source'', JStr ''DEFLOW'')],
        JObj [(''at'', JStr (rfc3339 (N_At rc))), (''event'', JStr (''Recommendation '' @ Recommendation (N_Rec rc))),
          (''ref'', JStr (PolicyRef (N_Rec rc))), (''source'', JStr ''DEFLOW'')]] @ map decision_event past))]"

definition decision_section :: "service \<Rightarrow> decision_row \<Rightarrow> bool \<Rightarrow> jval" where
  "decision_section svc d frozen = JObj [
     (''decision'', JStr (Name (D_Kind d))), (''mode'', JStr (D_Mode d)), (''policy_ref'', JStr (D_PolicyRef d)),
     (''reason_codes'', JList (map JStr (D_Reasons d))), (''rationale'', JStr (D_Rationale d)),
     (''officer_id'', case D_Officer d of Some o' \<Rightarrow> JStr o' | None \<Rightarrow> JNull), (''second_reviewer'', JNull),
     (''decided_at'', JStr (rfc3339 (D_At d))), (''nonce'', JUint64 (D_Nonce d)), (''pack_hash'', JStr (D_PackHash d)),
     (''signer_address'', JStr (addr_hex (S_Crypto svc) (D_Signer d))), (''signature'', JStr (''0x'' @ hex_encode (D_Sig d))),
     (''execution_tx'', JStr ''n/a, executed by the processor outside Deflow''), (''return_blocked'', JBool frozen)]"

definition processor_section :: "processor \<Rightarrow> jval" where
  "processor_section p = JObj [(''legal_name'', JStr (LegalName p)), (''lei'', JStr (LEI p)), (''casp_id'', JStr (CASPID p)),
     (''nca'', JStr (NCA p)), (''rfi_channel'', JStr (RFIChannel p)), (''cert_url'', JStr (CertURL p))]"

definition rest_sections :: "service \<Rightarrow> time \<Rightarrow> db \<Rightarrow> payment_row \<Rightarrow> (perr, (string \<times> jval) list) res" where
  "rest_sections svc now s r = and_then (token_of svc r) (\<lambda>(ch, t).
     let merchant = (case Deposit ch (P_Deposit r) of None \<Rightarrow> [] | Some d \<Rightarrow> MerchantID d);
         past = past_decisions s (P_ID r)
     in if past = [] then Inl (ErrInternal PackWithoutDecision)
        else (case recommendation_of s (P_ID r) of
          None \<Rightarrow> Inl (ErrInternal (SQLError NoRows))
        | Some rc \<Rightarrow> Inr [
            (''created_at'', JStr (rfc3339 now)), (''merchant_id'', JStr merchant),
            (''processor'', processor_section (Processor (S_Cfg svc))),
            (''timeline'', timeline_section svc r (checks_at s (P_ID r)) rc past),
            (''decision'', decision_section svc (last past) (Frozen (fst (Replay (map D_Kind past))))),
            (''retention'', JObj [(''until'', JStr (format_date (add_years (RetentionYears (S_Cfg svc)) (P_BlockTime r)))),
               (''legal_hold'', JBool False)]),
            (''reconstruction'', JBool (P_Recon r))]))"

section \<open>Issuing a pack\<close>

definition latest_pack :: "db \<Rightarrow> string \<Rightarrow> pack option" where
  "latest_pack s packID = (case sort_key Version (filter (\<lambda>p. PackID p = packID) (map K_Pack (packs s))) of
     [] \<Rightarrow> None | ps \<Rightarrow> Some (last ps))"

definition issuePack :: "service \<Rightarrow> time \<Rightarrow> (string \<Rightarrow> string) \<Rightarrow> payment_row \<Rightarrow> db \<Rightarrow> (perr, (string \<times> int) \<times> db) res" where
  "issuePack svc now fresh r s = (case snapshot_of s (P_ID r) of
     None \<Rightarrow> Inl (ErrInternal (SQLError NoRows))
   | Some sn \<Rightarrow>
       let (version, prevSalts) = (case latest_pack s (S_PackID sn) of None \<Rightarrow> (1, []) | Some p \<Rightarrow> (Version p + 1, Salts p))
       in and_then (rest_sections svc now s r) (\<lambda>rest.
          and_then (map_err (\<lambda>e. ErrInternal (BuildError e)) (BuildPack fresh (S_Snap sn) version rest prevSalts (journal_head s) (S_Evidence svc))) (\<lambda>pk.
          and_then (map_err (\<lambda>e. ErrInternal (SQLError e))
              (insert_pack \<lparr> K_Payment = P_ID r, K_Seq = Suc (journal_seq s), K_Pack = pk\<lparr>PackID := S_PackID sn\<rparr> \<rparr> s)) (\<lambda>s1.
          Inr ((S_PackID sn, version), s1\<lparr>journal_seq := Suc (journal_seq s), journal_head := PPackHash pk\<rparr>)))))"

section \<open>Recording a decision\<close>

record record_input =
  RI_Mode :: string
  RI_PolicyRef :: string
  RI_Reasons :: "string list"
  RI_Rationale :: string
  RI_Officer :: "string option"
  RI_Signer :: address
  RI_Sig :: string

definition decision_row_of :: "payment_row \<Rightarrow> decision \<Rightarrow> typed_data \<Rightarrow> record_input \<Rightarrow> time \<Rightarrow> decision_row" where
  "decision_row_of r d td inp now = \<lparr> D_Payment = P_ID r, D_Nonce = Nonce d, D_Kind = DecisionKind d, D_Mode = RI_Mode inp,
     D_PolicyRef = RI_PolicyRef inp, D_Reasons = RI_Reasons inp, D_Rationale = RI_Rationale inp, D_Officer = RI_Officer inp,
     D_Signer = RI_Signer inp, D_Sig = RI_Sig inp, D_PackHash = hex_encode (DPackHash d), D_Deadline = Deadline d,
     D_Typed = JSON td, D_At = now \<rparr>"

definition record_decision :: "service \<Rightarrow> time \<Rightarrow> (string \<Rightarrow> string) \<Rightarrow> payment_row \<Rightarrow> decision \<Rightarrow> typed_data \<Rightarrow> record_input \<Rightarrow> db
    \<Rightarrow> (perr, (string \<times> int) \<times> db) res" where
  "record_decision svc now fresh r d td inp s =
     and_then (map_err (\<lambda>e. ErrInternal (SQLError e)) (insert_decision (decision_row_of r d td inp now) s)) (\<lambda>s1.
     map_res (\<lambda>(out, s2). (out, set_stage (P_ID r) (if DecisionKind d = Hold then InReview else Decided) s2))
       (issuePack svc now fresh r s1))"

definition decideAuto :: "service \<Rightarrow> time \<Rightarrow> (string \<Rightarrow> string) \<Rightarrow> payment_row \<Rightarrow> kind \<Rightarrow> recommendation \<Rightarrow> db \<Rightarrow> (perr, db) res" where
  "decideAuto svc now fresh r k rc s =
     and_then (prepare svc now s r k) (\<lambda>(d, td).
     and_then (map_err (\<lambda>e. ErrInternal (SigError e)) (Digest (S_Crypto svc) td)) (\<lambda>digest.
     and_then (of_option (ErrInternal SignFailure) (SignerSign (S_Policy svc) digest)) (\<lambda>sig.
     map_res snd (record_decision svc now fresh r d td
       \<lparr> RI_Mode = ''AUTO_BY_POLICY'', RI_PolicyRef = PolicyRef rc, RI_Reasons = Reasons rc,
         RI_Rationale = ''Automatic under policy '' @ PolicyRef rc, RI_Officer = None,
         RI_Signer = SignerAddress (S_Policy svc), RI_Sig = sig \<rparr> s))))"

section \<open>What a recorded decision adds\<close>

lemma issuePack_parts:
  assumes "issuePack svc now fresh r s = Inr (out, s')"
  obtains sn rest ver prev pk where "snapshot_of s (P_ID r) = Some sn" and "rest_sections svc now s r = Inr rest"
    and "BuildPack fresh (S_Snap sn) ver rest prev (journal_head s) (S_Evidence svc) = Inr pk"
    and "out = (S_PackID sn, ver)" and "(case latest_pack s (S_PackID sn) of None \<Rightarrow> (1, []) | Some p \<Rightarrow> (Version p + 1, Salts p)) = (ver, prev)"
    and "s' = s\<lparr>packs := packs s @ [\<lparr> K_Payment = P_ID r, K_Seq = Suc (journal_seq s),
        K_Pack = pk\<lparr>PackID := S_PackID sn, Data := jsonb (Data pk)\<rparr> \<rparr>],
      journal_seq := Suc (journal_seq s), journal_head := PPackHash pk\<rparr>"
proof (cases "snapshot_of s (P_ID r)")
  case (Some sn)
  obtain ver prev where vp: "(case latest_pack s (S_PackID sn) of None \<Rightarrow> (1, []) | Some p \<Rightarrow> (Version p + 1, Salts p)) = (ver, prev)"
    by fastforce
  show ?thesis
    using assms that [OF Some _ _ _ vp] unfolding issuePack_def Some vp option.case Let_def prod.case
    by (fastforce simp: res_simps insert_pack_def split: if_splits)
qed (use assms in \<open>simp add: issuePack_def\<close>)

definition decided_stage :: "kind \<Rightarrow> stage" where
  "decided_stage k = (if k = Hold then InReview else Decided)"

lemma insert_decision_parts: "insert_decision x s = Inr s' \<Longrightarrow>
    s' = s\<lparr>decisions := decisions s @ [x]\<rparr> \<and> is_kind (D_Kind x) \<and> unat (D_Nonce x) < 2 ^ 63"
  by (auto simp: insert_decision_def is_kind_range Credit_def Return_def split: if_splits)

lemma record_decision_parts:
  assumes "record_decision svc now fresh r d td inp s = Inr (out, s')"
  obtains sn rest ver prev pk where "snapshot_of s (P_ID r) = Some sn"
    and "rest_sections svc now (s\<lparr>decisions := decisions s @ [decision_row_of r d td inp now]\<rparr>) r = Inr rest"
    and "BuildPack fresh (S_Snap sn) ver rest prev (journal_head s) (S_Evidence svc) = Inr pk"
    and "out = (S_PackID sn, ver)" and "is_kind (DecisionKind d)" and "unat (Nonce d) < 2 ^ 63"
    and "(case latest_pack s (S_PackID sn) of None \<Rightarrow> (1, []) | Some p \<Rightarrow> (Version p + 1, Salts p)) = (ver, prev)"
    and "s' = set_stage (P_ID r) (decided_stage (DecisionKind d)) (s\<lparr>
      decisions := decisions s @ [decision_row_of r d td inp now],
      packs := packs s @ [\<lparr> K_Payment = P_ID r, K_Seq = Suc (journal_seq s), K_Pack = pk\<lparr>PackID := S_PackID sn, Data := jsonb (Data pk)\<rparr> \<rparr>],
      journal_seq := Suc (journal_seq s), journal_head := PPackHash pk\<rparr>)"
proof -
  let ?row = "decision_row_of r d td inp now"
  obtain s1 s2 where s1: "insert_decision ?row s = Inr s1" and s2: "issuePack svc now fresh r s1 = Inr (out, s2)"
    and s': "s' = set_stage (P_ID r) (decided_stage (DecisionKind d)) s2"
    using assms unfolding record_decision_def decided_stage_def by (auto simp: res_simps)
  have e: "s1 = s\<lparr>decisions := decisions s @ [?row]\<rparr>" and k: "is_kind (DecisionKind d)" "unat (Nonce d) < 2 ^ 63"
    using insert_decision_parts [OF s1] by (auto simp: decision_row_of_def)
  have same: "snapshot_of s1 i = snapshot_of s i" "latest_pack s1 j = latest_pack s j" "journal_head s1 = journal_head s"
    "journal_seq s1 = journal_seq s" "packs s1 = packs s" for i j
    by (simp_all add: e snapshot_of_def latest_pack_def)
  show ?thesis
    using s2
  proof (rule issuePack_parts)
    fix sn rest ver prev pk
    assume "snapshot_of s1 (P_ID r) = Some sn" "rest_sections svc now s1 r = Inr rest"
      "BuildPack fresh (S_Snap sn) ver rest prev (journal_head s1) (S_Evidence svc) = Inr pk" "out = (S_PackID sn, ver)"
      "(case latest_pack s1 (S_PackID sn) of None \<Rightarrow> (1, []) | Some p \<Rightarrow> (Version p + 1, Salts p)) = (ver, prev)"
      "s2 = s1\<lparr>packs := packs s1 @ [\<lparr> K_Payment = P_ID r, K_Seq = Suc (journal_seq s1),
        K_Pack = pk\<lparr>PackID := S_PackID sn, Data := jsonb (Data pk)\<rparr> \<rparr>],
      journal_seq := Suc (journal_seq s1), journal_head := PPackHash pk\<rparr>"
    then show ?thesis using k unfolding same by (intro that [of sn rest ver prev pk]) (simp_all add: s' e)
  qed
qed

lemma prepare_parts:
  assumes "prepare svc now s r k = Inr (d, td)"
  obtains sn st where "snapshot_of s (P_ID r) = Some sn"
    and "Next (fst (Replay (map D_Kind (past_decisions s (P_ID r))))) k = Inr st"
    and "td = TypedData (S_Crypto svc) (P_Chain r) (P_Deposit r) d"
    and "d = \<lparr> PaymentID = P_ID r, DecisionKind = k, DToken = P_Token r, Amount = P_Amount r,
        DPackHash = HexToHash (snap_root (S_Snap sn)), Nonce = foldl max 0 (map D_Nonce (past_decisions s (P_ID r))) + 1,
        Deadline = word_of_int (unix_sec (now + DecisionTTL (S_Cfg svc))) \<rparr>"
  using assms by (auto simp: prepare_def Let_def split: option.splits sum.splits)

end
