(* ===== verification/Pipeline.thy ===== *)
theory Pipeline
  imports Decide
begin

text \<open>
  The steps of the worker: compliance-backend/internal/pipeline/pipeline.go. \<open>runChecks\<close> and
  \<open>recommendAll\<close> run the steps that are due, one transaction per payment, and stop at the first
  error with the earlier transactions kept; \<open>Tick\<close> is one round of both.

  The lemmas about these steps are in the theories that use them: what they do to the records (Ledger),
  that they go on (Progress), and their place among the steps of the service (Service).
\<close>

section \<open>What is due\<close>

definition due :: "(payment_row \<Rightarrow> bool) \<Rightarrow> db \<Rightarrow> payment_row list" where
  "due P s = take 50 (sort_key P_Block (sort_key P_LogIndex (filter P (payments s))))"

definition checks_due :: "payment_row \<Rightarrow> bool" where
  "checks_due p \<longleftrightarrow> P_Stage p = ChecksPending \<and> (P_Ingest p = Seen \<or> P_Ingest p = Confirmed)"

definition recommend_due :: "payment_row \<Rightarrow> bool" where
  "recommend_due p \<longleftrightarrow> P_Stage p = ChecksDone \<and> P_Ingest p = Confirmed"

section \<open>Running the checks\<close>

definition check_kinds :: "string list" where
  "check_kinds = [''kyt'', ''sanctions'', ''structuring'', ''issuer'']"

definition check_row_of :: "hash \<Rightarrow> result \<Rightarrow> check_row" where
  "check_row_of i r = \<lparr> C_Payment = i, C_Kind = Res_Kind r, C_Provider = Res_Provider r, C_Product = Res_Product r,
     C_Outcome = Res_Outcome r, C_Section = jsonb (Res_Section r), C_Raw = (if Res_Raw r = [] then None else Some (Res_Raw r)),
     C_At = (case Res_At r of None \<Rightarrow> zero_time | Some t \<Rightarrow> t) \<rparr>"

definition insert_check :: "check_row \<Rightarrow> db \<Rightarrow> (sql_err, db) res" where
  "insert_check c s =
     (if C_Kind c \<notin> set check_kinds then Inl (CheckViolation ''check_result'')
      else if list_ex (\<lambda>c'. C_Payment c' = C_Payment c \<and> C_Kind c' = C_Kind c) (check_results s) then Inr s
      else Inr (s\<lparr>check_results := check_results s @ [c]\<rparr>))"

fun insert_checks :: "check_row list \<Rightarrow> db \<Rightarrow> (sql_err, db) res" where
  "insert_checks [] s = Inr s"
| "insert_checks (c # cs) s = and_then (insert_check c s) (insert_checks cs)"

definition checks_done :: "hash \<Rightarrow> db \<Rightarrow> db" where
  "checks_done i = update_payment i (\<lambda>p. if P_Stage p = ChecksPending then p\<lparr>P_Stage := ChecksDone\<rparr> else p)"

definition check_payment_of :: "payment_row \<Rightarrow> string \<Rightarrow> check_payment" where
  "check_payment_of r eur = \<lparr> CP_ID = P_ID r, CP_Chain = P_Chain r, CP_Block = P_Block r, CP_Time = P_BlockTime r, CP_Token = P_Token r,
     CP_Payer = P_Payer r, CP_Deposit = P_Deposit r, CP_Amount = P_Amount r, CP_EUR = eur \<rparr>"

text \<open>One payment: the checks read the database as it is then; \<open>env\<close> is what each check meets.\<close>

definition check_payment_step ::
  "service \<Rightarrow> (db \<Rightarrow> check list) \<Rightarrow> (nat \<Rightarrow> run_env) \<Rightarrow> payment_row \<Rightarrow> db \<times> raw_store \<Rightarrow> (perr, db) res \<times> raw_store" where
  "check_payment_step svc checks env r w = (case amountEUR svc r of
     Inl e \<Rightarrow> (Inl e, snd w)
   | Inr eur \<Rightarrow>
       let (results, raw) = RunAll env (checks (fst w)) (check_payment_of r eur) (CheckTimeout (S_Cfg svc)) (snd w)
       in (map_res (checks_done (P_ID r)) (map_err (\<lambda>e. ErrInternal (SQLError e)) (insert_checks (map (check_row_of (P_ID r)) results) (fst w))), raw))"

fun run_checks_on :: "service \<Rightarrow> (db \<Rightarrow> check list) \<Rightarrow> (hash \<Rightarrow> nat \<Rightarrow> run_env) \<Rightarrow> payment_row list \<Rightarrow> db \<times> raw_store
    \<Rightarrow> perr option \<times> db \<times> raw_store" where
  "run_checks_on svc checks env [] w = (None, w)"
| "run_checks_on svc checks env (r # rs) w = (case check_payment_step svc checks (env (P_ID r)) r w of
     (Inl e, raw) \<Rightarrow> (Some e, fst w, raw)
   | (Inr s', raw) \<Rightarrow> run_checks_on svc checks env rs (s', raw))"

definition runChecks :: "service \<Rightarrow> (db \<Rightarrow> check list) \<Rightarrow> (hash \<Rightarrow> nat \<Rightarrow> run_env) \<Rightarrow> db \<times> raw_store \<Rightarrow> perr option \<times> db \<times> raw_store" where
  "runChecks svc checks env w = run_checks_on svc checks env (due checks_due (fst w)) w"

section \<open>The ruleset in force\<close>

text \<open>
  \<open>ORDER BY effective_from DESC LIMIT 1\<close> over the approved rulesets in force: among rows with the
  same time Postgres may return any, here the one inserted first.
\<close>

definition in_force :: "time \<Rightarrow> ruleset_row \<Rightarrow> bool" where
  "in_force t r = (case R_Approval r of None \<Rightarrow> False | Some a \<Rightarrow> EffectiveFrom a \<le> t)"

definition effective_from :: "ruleset_row \<Rightarrow> time" where
  "effective_from r = (case R_Approval r of None \<Rightarrow> 0 | Some a \<Rightarrow> EffectiveFrom a)"

definition ruleset_row_at :: "db \<Rightarrow> time \<Rightarrow> ruleset_row option" where
  "ruleset_row_at s t = (let rs = filter (in_force t) (rulesets s)
     in find_first (\<lambda>r. list_all (\<lambda>r'. effective_from r' \<le> effective_from r) rs) rs)"

definition rulesetAt :: "db \<Rightarrow> time \<Rightarrow> (perr, effective_ruleset option) res" where
  "rulesetAt s t = (case ruleset_row_at s t of
     None \<Rightarrow> Inr None
   | Some r \<Rightarrow> (case (Parse (R_Canonical r), R_Approval r) of
       (Inr (rs, c, h), Some a) \<Rightarrow> Inr (Some \<lparr> F_Rules = rs, F_Version = R_Version r, F_Hash = R_Hash r, F_ApprovedBy = ApprovedBy a, F_From = EffectiveFrom a \<rparr>)
     | _ \<Rightarrow> Inl (ErrInternal (StoredRuleset (R_Version r)))))"

section \<open>Recommending\<close>

definition outcome :: "check_row list \<Rightarrow> string \<Rightarrow> string" where
  "outcome cs kind = (case stored_check cs kind of None \<Rightarrow> Unavailable | Some c \<Rightarrow> C_Outcome c)"

definition inputs_of :: "check_row list \<Rightarrow> string \<Rightarrow> inputs" where
  "inputs_of cs eur = \<lparr> KYT = outcome cs ''kyt'', Sanctions = outcome cs ''sanctions'', Structuring = outcome cs ''structuring'',
     Issuer = outcome cs ''issuer'', AnyUnavailable = list_ex (\<lambda>k. outcome cs k = Unavailable) check_kinds, AmountEUR = eur \<rparr>"

definition no_ruleset :: recommendation where
  "no_ruleset = \<lparr> Recommendation = ''HOLD'', Reasons = [''NO_RULESET''], PolicyRef = ''none'', RuleID = ''none'', Auto = False \<rparr>"

definition recommendation_for :: "effective_ruleset option \<Rightarrow> inputs \<Rightarrow> (perr, recommendation) res" where
  "recommendation_for eff i = (case eff of
     None \<Rightarrow> Inr no_ruleset
   | Some e \<Rightarrow> map_err (\<lambda>p. ErrInternal (RulesPanic p)) (Recommend (F_Rules e) i))"

definition rec_row_of :: "service \<Rightarrow> time \<Rightarrow> hash \<Rightarrow> effective_ruleset option \<Rightarrow> recommendation \<Rightarrow> inputs \<Rightarrow> rec_row" where
  "rec_row_of svc now i eff rc inp = \<lparr> N_Payment = i, N_Ruleset = map_option F_Version eff, N_Rec = rc, N_Inputs = inp,
     N_InputsHash = inputs_hash inp, N_Engine = S_Engine svc, N_At = now \<rparr>"

definition automatic :: "effective_ruleset option \<Rightarrow> recommendation \<Rightarrow> bool" where
  "automatic eff rc \<longleftrightarrow> eff \<noteq> None \<and> Auto rc \<and> (Kind (Recommendation rc) = Some Credit \<or> Kind (Recommendation rc) = Some Hold)"

text \<open>
  The transaction for one payment, the row \<open>r\<close> read before it. A payment that is no longer waiting
  is left alone.
\<close>

definition recommend :: "service \<Rightarrow> time \<Rightarrow> string \<Rightarrow> (string \<Rightarrow> string) \<Rightarrow> payment_row \<Rightarrow> db \<Rightarrow> (perr, db) res" where
  "recommend svc now rnd fresh r s = (case payment_by s (P_ID r) of
     None \<Rightarrow> Inl (ErrInternal (SQLError NoRows))
   | Some p \<Rightarrow>
       if P_Stage p \<noteq> ChecksDone then Inr s
       else let cs = checks_of s (P_ID r) in
         and_then (amountEUR svc r) (\<lambda>eur.
         let inp = inputs_of cs eur in
         and_then (rulesetAt s (P_BlockTime r)) (\<lambda>eff.
         and_then (recommendation_for eff inp) (\<lambda>rc.
         and_then (map_err (\<lambda>e. ErrInternal (SQLError e)) (insert_recommendation (rec_row_of svc now (P_ID r) eff rc inp) s)) (\<lambda>s1.
         and_then (snapshot_for svc rnd fresh r cs eur eff rc inp) (\<lambda>(snap, packID).
         and_then (map_err (\<lambda>e. ErrInternal (SQLError e)) (insert_snapshot \<lparr> S_Payment = P_ID r, S_PackID = packID, S_Snap = snap \<rparr> s1)) (\<lambda>s2.
         if automatic eff rc then decideAuto svc now fresh r (the (Kind (Recommendation rc))) rc s2
         else Inr (set_stage (P_ID r) InReview s2))))))))"

record step_env =
  T_Now :: time
  T_Rnd :: string
  T_Fresh :: "string \<Rightarrow> string"

fun recommend_on :: "service \<Rightarrow> (hash \<Rightarrow> step_env) \<Rightarrow> payment_row list \<Rightarrow> db \<Rightarrow> perr option \<times> db" where
  "recommend_on svc env [] s = (None, s)"
| "recommend_on svc env (r # rs) s =
     (let e = env (P_ID r) in case recommend svc (T_Now e) (T_Rnd e) (T_Fresh e) r s of
        Inl err \<Rightarrow> (Some err, s) | Inr s' \<Rightarrow> recommend_on svc env rs s')"

definition recommendAll :: "service \<Rightarrow> (hash \<Rightarrow> step_env) \<Rightarrow> db \<Rightarrow> perr option \<times> db" where
  "recommendAll svc env s = recommend_on svc env (due recommend_due s) s"

definition Tick :: "service \<Rightarrow> (db \<Rightarrow> check list) \<Rightarrow> (hash \<Rightarrow> nat \<Rightarrow> run_env) \<Rightarrow> (hash \<Rightarrow> step_env) \<Rightarrow> db \<times> raw_store
    \<Rightarrow> perr option \<times> db \<times> raw_store" where
  "Tick svc checks cenv renv w = (case runChecks svc checks cenv w of
     (Some e, w') \<Rightarrow> (Some e, w')
   | (None, s, raw) \<Rightarrow> (case recommendAll svc renv s of (err, s') \<Rightarrow> (err, s', raw)))"

end
