(* ===== verification/Officer.thy ===== *)
theory Officer
  imports Pipeline
begin

text \<open>
  The officers' and the MLRO's side: compliance-backend/internal/pipeline/officer.go and rulesets.go.
  A signature is only accepted over the document kept pending for the payment and the decision, and a
  ruleset runs only after the MLRO signed it.
\<close>

section \<open>Officer decisions (officer.go)\<close>

definition officerRequestTTL :: duration where
  "officerRequestTTL = 15 * 60 * second"

definition lockPayment :: "db \<Rightarrow> hash \<Rightarrow> (perr, payment_row) res" where
  "lockPayment s i = of_option (ErrNotFound (hash_hex i)) (payment_by s i)"

definition upsert_pending :: "hash \<Rightarrow> kind \<Rightarrow> pending_row \<Rightarrow> db \<Rightarrow> (sql_err, db) res" where
  "upsert_pending i k q s =
     (if 2 ^ 63 \<le> unat (Q_Nonce q) \<or> 2 ^ 63 \<le> unat (Q_Deadline q) then Inl (CheckViolation ''bigint'')
      else Inr (s\<lparr>pendings := AList.update (i, k) q (pendings s)\<rparr>))"

definition OfficerTypedData :: "service \<Rightarrow> time \<Rightarrow> hash \<Rightarrow> kind \<Rightarrow> db \<Rightarrow> (perr, (string \<times> jval) list \<times> db) res" where
  "OfficerTypedData svc now i k s =
     and_then (lockPayment s i) (\<lambda>r. and_then (prepare svc now s r k) (\<lambda>(d, td).
     map_res (Pair (JSON td)) (map_err (\<lambda>e. ErrInternal (SQLError e)) (upsert_pending i k
       \<lparr> Q_Nonce = Nonce d, Q_Deadline = Deadline d, Q_Typed = JSON td, Q_Expires = now + officerRequestTTL \<rparr> s))))"

definition live_pending :: "time \<Rightarrow> db \<Rightarrow> hash \<Rightarrow> kind \<Rightarrow> (perr, pending_row) res" where
  "live_pending now s i k = (case map_of (pendings s) (i, k) of
     None \<Rightarrow> Inl (ErrConflict NoPending)
   | Some q \<Rightarrow> if Q_Expires q < now then Inl (ErrConflict NoPending) else Inr q)"

definition recommendationReasons :: "db \<Rightarrow> hash \<Rightarrow> (perr, string list \<times> string) res" where
  "recommendationReasons s i = (case recommendation_of s i of
     None \<Rightarrow> Inl (ErrInternal (SQLError NoRows)) | Some rc \<Rightarrow> Inr (Reasons (N_Rec rc), PolicyRef (N_Rec rc)))"

definition drop_pending :: "hash \<Rightarrow> db \<Rightarrow> db" where
  "drop_pending i s = s\<lparr>pendings := filter (\<lambda>((j, k), q). j \<noteq> i) (pendings s)\<rparr>"

definition OfficerDecide :: "service \<Rightarrow> time \<Rightarrow> (string \<Rightarrow> string) \<Rightarrow> hash \<Rightarrow> kind \<Rightarrow> string \<Rightarrow> string \<Rightarrow> db
    \<Rightarrow> (perr, (string \<times> int) \<times> db) res" where
  "OfficerDecide svc now fresh i k sig rationale s =
     (if blank rationale then Inl (ErrBadRequest ''a rationale is required'')
      else and_then (lockPayment s i) (\<lambda>r.
        and_then (live_pending now s i k) (\<lambda>q.
        and_then (prepare svc now s r k) (\<lambda>(d0, td0).
        if Nonce d0 \<noteq> Q_Nonce q then Inl (ErrConflict Superseded)
        else
          let d = d0\<lparr>Deadline := Q_Deadline q\<rparr>; td = TypedData (S_Crypto svc) (P_Chain r) (P_Deposit r) d in
          and_then (map_err ErrForbidden (VerifyOfficer (S_Crypto svc) td sig k (Officers (S_Cfg svc)))) (\<lambda>officer.
          and_then (recommendationReasons s i) (\<lambda>(reasons, ref).
          map_res (\<lambda>(out, s'). (out, drop_pending i s'))
            (record_decision svc now fresh r d td
               \<lparr> RI_Mode = ''OFFICER_REVIEW'', RI_PolicyRef = ref, RI_Reasons = reasons, RI_Rationale = rationale,
                 RI_Officer = Some (OfficerID officer), RI_Signer = OfficerAddress officer, RI_Sig = sig \<rparr> s)))))))"

section \<open>Rulesets (rulesets.go)\<close>

definition ImportRuleset :: "string \<Rightarrow> db \<Rightarrow> (perr, (string \<times> string) \<times> db) res" where
  "ImportRuleset raw s = (case Parse raw of
     Inl e \<Rightarrow> Inl (ErrBadRequest ''invalid ruleset'')
   | Inr (rs, canonical, h) \<Rightarrow>
       (case ruleset_by s (RVersion rs) of
          None \<Rightarrow>
            if list_ex (\<lambda>r. R_Hash r = h) (rulesets s) then Inl (ErrInternal (SQLError (UniqueViolation ''ruleset'')))
            else Inr ((RVersion rs, h), s\<lparr>rulesets := rulesets s
              @ [\<lparr> R_Version = RVersion rs, R_Canonical = canonical, R_Hash = h, R_Approval = None \<rparr>]\<rparr>)
        | Some r \<Rightarrow>
            and_then (map_err (\<lambda>e. ErrInternal (SQLError e)) (update_ruleset (RVersion rs) (\<lambda>r. r) s)) (\<lambda>s'.
            if R_Hash r \<noteq> h then Inl (ErrConflict OtherBody) else Inr ((RVersion rs, h), s'))))"

definition ApprovalTypedData :: "db \<Rightarrow> string \<Rightarrow> time \<Rightarrow> (perr, (string \<times> jval) list) res" where
  "ApprovalTypedData s version effectiveFrom = (case ruleset_by s version of
     None \<Rightarrow> Inl (ErrNotFound version)
   | Some r \<Rightarrow> Inr (JSON (RulesetApproval (HexToHash (R_Hash r)) version (word_of_int (unix_sec effectiveFrom)))))"

definition ApproveRuleset :: "service \<Rightarrow> time \<Rightarrow> string \<Rightarrow> time \<Rightarrow> string \<Rightarrow> db \<Rightarrow> (perr, address \<times> db) res" where
  "ApproveRuleset svc now version effectiveFrom sig s = (case ruleset_by s version of
     None \<Rightarrow> Inl (ErrNotFound version)
   | Some r \<Rightarrow>
       if R_Approval r \<noteq> None then Inl (ErrConflict AlreadyApproved)
       else and_then (map_err ErrForbidden (VerifyApproval (S_Crypto svc)
              (RulesetApproval (HexToHash (R_Hash r)) version (word_of_int (unix_sec effectiveFrom))) sig (MLRO (S_Cfg svc)))) (\<lambda>by_addr.
         map_res (Pair by_addr) (map_err (\<lambda>e. ErrInternal (SQLError e)) (update_ruleset version
           (\<lambda>r. r\<lparr>R_Approval := Some \<lparr> ApprovedBy = by_addr, ApprovalSig = sig, EffectiveFrom = from_unix (unix_sec effectiveFrom),
              ApprovedAt = now \<rparr>\<rparr>) s))))"

end
