(* ===== verification/Rfc3339.thy ===== *)
theory Rfc3339
  imports GoTime
begin

text \<open>
  The rest of Go's \<open>time\<close> the HTTP interface uses: RFC 3339 with nanoseconds as
  \<open>time.Time\<close> marshals, a time with its zone offset as \<open>Format\<close> prints it, and
  \<open>time.Parse(time.RFC3339, s)\<close> with the stricter form of \<open>Time.UnmarshalJSON\<close>. A parsed
  time is its instant and its offset in seconds east of UTC.

  The samples check printing and parsing at offsets, fractions and bad dates.
\<close>

section \<open>Printing\<close>

definition trim_fraction :: "string \<Rightarrow> string" where
  "trim_fraction ds = rev (dropWhile (\<lambda>c. c = CHR ''0'') (rev ds))"

definition rfc3339_nano :: "time \<Rightarrow> string" where
  "rfc3339_nano t = (let n = t mod 10 ^ 9 in
     if n = 0 then rfc3339 t else butlast (rfc3339 t) @ ''.'' @ trim_fraction (pad_int 9 n) @ ''Z'')"

definition offset_text :: "int \<Rightarrow> string" where
  "offset_text off = (if off = 0 then ''Z''
     else (if off < 0 then ''-'' else ''+'') @ pad_int 2 (\<bar>off\<bar> div 3600) @ '':'' @ pad_int 2 (\<bar>off\<bar> mod 3600 div 60))"

definition rfc3339_in :: "time \<times> int \<Rightarrow> string" where
  "rfc3339_in t = butlast (rfc3339 (fst t + snd t * 10 ^ 9)) @ offset_text (snd t)"

section \<open>Parsing\<close>

text \<open>\<open>getnum\<close>: two digits, or one when the field is not fixed.\<close>

definition num2 :: "string \<Rightarrow> (int \<times> string) option" where
  "num2 s = (case s of
     a # b # r \<Rightarrow> if is_digit a \<and> is_digit b then Some (int (dec_nat [a, b]), r) else None
   | _ \<Rightarrow> None)"

definition num12 :: "string \<Rightarrow> (int \<times> string) option" where
  "num12 s = (case s of
     a # r \<Rightarrow> (case r of
         b # r' \<Rightarrow> if is_digit a then (if is_digit b then Some (int (dec_nat [a, b]), r') else Some (int (dec_nat [a]), r)) else None
       | [] \<Rightarrow> if is_digit a then Some (int (dec_nat [a]), r) else None)
   | [] \<Rightarrow> None)"

definition num4 :: "string \<Rightarrow> (int \<times> string) option" where
  "num4 s = (if 4 \<le> length s \<and> list_all is_digit (take 4 s) then Some (int (dec_nat (take 4 s)), drop 4 s) else None)"

definition below_lim :: "int \<Rightarrow> (int \<times> string) option \<Rightarrow> (int \<times> string) option" where
  "below_lim n r = Option.bind r (\<lambda>(i, s). if i < n then Some (i, s) else None)"

definition lit :: "char \<Rightarrow> string \<Rightarrow> string option" where
  "lit c s = (case s of a # r \<Rightarrow> if a = c then Some r else None | [] \<Rightarrow> None)"

text \<open>A fraction after the seconds: nine digits count.\<close>

definition fraction :: "bool \<Rightarrow> string \<Rightarrow> (int \<times> string) option" where
  "fraction strict s = (case s of
     c # d # r \<Rightarrow>
       if (c = CHR ''.'' \<or> c = CHR '','') \<and> is_digit d
       then if strict \<and> c = CHR '','' then None
         else let ds = take 9 (takeWhile is_digit (d # r))
              in Some (int (dec_nat ds) * 10 ^ (9 - length ds), dropWhile is_digit (d # r))
       else Some (0, s)
   | _ \<Rightarrow> Some (0, s))"

definition offset :: "bool \<Rightarrow> string \<Rightarrow> int option" where
  "offset strict s = (if s = ''Z'' then Some 0
     else (case s of
       g # r \<Rightarrow> Option.bind (num2 r) (\<lambda>(h, r1). Option.bind (lit CHR '':'' r1) (\<lambda>r2. Option.bind (num2 r2) (\<lambda>(m, r3).
         if r3 \<noteq> [] \<or> 24 < h \<or> 60 < m \<or> strict \<and> (24 \<le> h \<or> 60 \<le> m) then None
         else if g = CHR ''+'' then Some (h * 3600 + m * 60)
         else if g = CHR ''-'' then Some (- (h * 3600 + m * 60))
         else None)))
     | [] \<Rightarrow> None))"

definition days_in :: "int \<Rightarrow> int \<Rightarrow> int" where
  "days_in y m = (if m = 12 then 31 else day_number y (m + 1) 1 - day_number y m 1)"

definition parse_rfc3339 :: "bool \<Rightarrow> string \<Rightarrow> (time \<times> int) option" where
  "parse_rfc3339 strict s =
     Option.bind (num4 s) (\<lambda>(y, s). Option.bind (lit CHR ''-'' s) (\<lambda>s.
     Option.bind (below_lim 13 (num2 s)) (\<lambda>(mo, s). Option.bind (lit CHR ''-'' s) (\<lambda>s.
     Option.bind (num2 s) (\<lambda>(d, s). Option.bind (lit CHR ''T'' s) (\<lambda>s.
     Option.bind (below_lim 24 (if strict then num2 s else num12 s)) (\<lambda>(h, s). Option.bind (lit CHR '':'' s) (\<lambda>s.
     Option.bind (below_lim 60 (num2 s)) (\<lambda>(mi, s). Option.bind (lit CHR '':'' s) (\<lambda>s.
     Option.bind (below_lim 60 (num2 s)) (\<lambda>(sec, s).
     Option.bind (fraction strict s) (\<lambda>(ns, s).
     Option.bind (offset strict s) (\<lambda>off.
       if mo < 1 \<or> d < 1 \<or> days_in y mo < d then None
       else Some ((day_number y mo d * 86400 + h * 3600 + mi * 60 + sec - off) * 10 ^ 9 + ns, off))))))))))))))"

section \<open>Samples\<close>

lemma rfc3339_samples:
  "rfc3339_nano (from_unix 1791331200 + 12) = ''2026-10-07T00:00:00.000000012Z''"
  "rfc3339_in (from_unix 1791331200, 7200) = ''2026-10-07T02:00:00+02:00''"
  "parse_rfc3339 True ''2026-10-07T02:00:00+02:00'' = Some (from_unix 1791331200, 7200)"
  "parse_rfc3339 True ''2026-10-07T00:00:00.12Z'' = Some (from_unix 1791331200 + 120000000, 0)"
  "parse_rfc3339 True ''2026-02-30T00:00:00Z'' = None"
  "parse_rfc3339 True ''2026-10-07T2:00:00Z'' = None"
  "parse_rfc3339 False ''2026-10-07T2:00:00Z'' = Some (from_unix 1791338400, 0)"
  by code_simp+

end
