(* ===== verification/Queries.thy ===== *)
theory Queries
  imports Officer Rfc3339
begin

text \<open>
  What the interface reads: compliance-backend/internal/pipeline/queries.go. \<open>Cases\<close> is the
  officers' worklist, \<open>Payment\<close> everything stored about one payment, \<open>LoadPack\<close> a stored pack
  version, and \<open>ProjectPack\<close> (Pipeline.Project) issues a recipient's copy and logs it. The
  service reads times in UTC.

  The lemmas: a copy is only issued of a stored pack whose profile is not refused, it is logged with
  the hash the recipient can recompute, and nothing else changes.
\<close>

section \<open>The worklist\<close>

record officer_case =
  CasePaymentRef :: string
  CaseChainID :: "64 word"
  CasePayer :: string
  CaseDeposit :: string
  CaseAmount :: string
  CaseRecommendation :: string
  CaseReasons :: "string list"
  CasePolicyRef :: string
  CaseLast :: "string option"
  CaseBlockTime :: time

definition last_decision :: "db \<Rightarrow> hash \<Rightarrow> decision_row option" where
  "last_decision s i = (case past_decisions s i of [] \<Rightarrow> None | ds \<Rightarrow> Some (last ds))"

definition in_worklist :: "payment_row \<Rightarrow> bool" where
  "in_worklist p \<longleftrightarrow> P_Stage p = InReview \<and> P_Ingest p = Confirmed"

definition case_of :: "crypto \<Rightarrow> db \<Rightarrow> payment_row \<Rightarrow> officer_case option" where
  "case_of cr s p = map_option (\<lambda>rc. \<lparr> CasePaymentRef = hash_hex (P_ID p), CaseChainID = P_Chain p,
       CasePayer = addr_hex cr (P_Payer p), CaseDeposit = addr_hex cr (P_Deposit p), CaseAmount = int_dec (P_Amount p),
       CaseRecommendation = Recommendation (N_Rec rc), CaseReasons = Reasons (N_Rec rc), CasePolicyRef = PolicyRef (N_Rec rc),
       CaseLast = map_option (\<lambda>d. Name (D_Kind d)) (last_decision s (P_ID p)), CaseBlockTime = P_BlockTime p \<rparr>)
     (recommendation_of s (P_ID p))"

definition Cases :: "service \<Rightarrow> db \<Rightarrow> officer_case list" where
  "Cases svc s = List.map_filter (case_of (S_Crypto svc) s) (sort_key P_BlockTime (filter in_worklist (payments s)))"

section \<open>One payment\<close>

definition ingest_text :: "ingest \<Rightarrow> string" where
  "ingest_text g = (case g of Seen \<Rightarrow> ''seen'' | Confirmed \<Rightarrow> ''confirmed'' | Orphaned \<Rightarrow> ''orphaned'')"

definition stage_text :: "stage \<Rightarrow> string" where
  "stage_text g = (case g of ChecksPending \<Rightarrow> ''checks_pending'' | ChecksDone \<Rightarrow> ''checks_done'' | InReview \<Rightarrow> ''in_review''
     | Decided \<Rightarrow> ''decided'')"

definition opt_str :: "string option \<Rightarrow> jval" where
  "opt_str x = (case x of None \<Rightarrow> JNull | Some s \<Rightarrow> JStr s)"

text \<open>\<open>ORDER BY kind\<close> over the four kinds.\<close>

definition check_view :: "check_row \<Rightarrow> jval" where
  "check_view c = JObj [(''kind'', JStr (C_Kind c)), (''provider'', JStr (C_Provider c)), (''product'', JStr (C_Product c)),
     (''outcome'', JStr (C_Outcome c)), (''result'', JObj (C_Section c)), (''raw_sha256'', opt_str (C_Raw c)),
     (''performed_at'', JStr (rfc3339_nano (C_At c)))]"

definition recommendation_view :: "rec_row \<Rightarrow> jval" where
  "recommendation_view rc = JObj [(''recommendation'', JStr (Recommendation (N_Rec rc))), (''reason_codes'', JStrList (Reasons (N_Rec rc))),
     (''policy_ref'', JStr (PolicyRef (N_Rec rc))), (''auto'', JBool (Auto (N_Rec rc))), (''inputs_hash'', JStr (N_InputsHash rc))]"

definition decision_view :: "crypto \<Rightarrow> decision_row \<Rightarrow> jval" where
  "decision_view cr d = JObj [(''decision'', JStr (Name (D_Kind d))), (''nonce'', JUint64 (D_Nonce d)), (''mode'', JStr (D_Mode d)),
     (''policy_ref'', JStr (D_PolicyRef d)), (''officer_id'', opt_str (D_Officer d)), (''signer'', JStr (addr_hex cr (D_Signer d))),
     (''pack_hash'', JStr (D_PackHash d)), (''decided_at'', JStr (rfc3339_nano (D_At d)))]"

definition pack_view :: "pack \<Rightarrow> jval" where
  "pack_view p = JObj [(''pack_id'', JStr (PackID p)), (''pack_version'', JNumber (int_dec (Version p))),
     (''master_root'', JStr (PMasterRoot p)), (''evidence_root'', JStr (PEvidenceRoot p))]"

definition payment_packs :: "db \<Rightarrow> hash \<Rightarrow> pack list" where
  "payment_packs s i = sort_key Version (map K_Pack (filter (\<lambda>k. K_Payment k = i) (packs s)))"

definition Payment :: "service \<Rightarrow> db \<Rightarrow> hash \<Rightarrow> (perr, (string \<times> jval) list) res" where
  "Payment svc s i = (let cr = S_Crypto svc in map_res (\<lambda>p.
     [(''payment_ref'', JStr (hash_hex i)), (''ingest'', JStr (ingest_text (P_Ingest p))), (''stage'', JStr (stage_text (P_Stage p))),
      (''chain_id'', JUint64 (P_Chain p)), (''block_number'', JUint64 (P_Block p)), (''payer'', JStr (addr_hex cr (P_Payer p))),
      (''deposit'', JStr (addr_hex cr (P_Deposit p))), (''token'', JStr (addr_hex cr (P_Token p))), (''tx_hash'', JStr (hash_hex (P_Tx p))),
      (''amount'', JStr (int_dec (P_Amount p))), (''reconstruction'', JBool (P_Recon p)),
      (''checks'', JList (map check_view (sort_key C_Kind (checks_of s i))))]
     @ (case recommendation_of s i of None \<Rightarrow> [] | Some rc \<Rightarrow> [(''recommendation'', recommendation_view rc)])
     @ [(''decisions'', JList (map (decision_view cr) (past_decisions s i))),
        (''packs'', JList (map pack_view (payment_packs s i)))])
   (lockPayment s i))"

section \<open>Packs and their copies\<close>

text \<open>\<open>uuidRE\<close>: five groups of lower-case hex digits.\<close>

definition uuidRE :: "string \<Rightarrow> bool" where
  "uuidRE s \<longleftrightarrow> map length (split_on CHR ''-'' s) = [8, 4, 4, 4, 12]
     \<and> list_all (list_all (\<lambda>c. c \<in> set ''0123456789abcdef'')) (split_on CHR ''-'' s)"

text \<open>The table does not keep the key id: a loaded pack names the key the service runs with.\<close>

definition LoadPack :: "service \<Rightarrow> db \<Rightarrow> string \<Rightarrow> int \<Rightarrow> (perr, pack) res" where
  "LoadPack svc s packID version =
     (if \<not> uuidRE packID then Inl (ErrNotFound packID)
      else (case sort_key Version (filter (\<lambda>p. PackID p = packID \<and> (0 < version \<longrightarrow> Version p = version)) (map K_Pack (packs s))) of
        [] \<Rightarrow> Inl (ErrNotFound packID)
      | ps \<Rightarrow> Inr ((last ps)\<lparr>PackKID := KID (S_Evidence svc)\<rparr>)))"

definition stated_hash :: "(string \<times> jval) list \<Rightarrow> string" where
  "stated_hash copy = (case map_of copy ''integrity'' of
     Some (JObj m) \<Rightarrow> (case map_of m ''projection_hash'' of Some (JStr h) \<Rightarrow> h | _ \<Rightarrow> [])
   | _ \<Rightarrow> [])"

definition ProjectPack :: "service \<Rightarrow> time \<Rightarrow> string \<Rightarrow> recipient \<Rightarrow> db \<Rightarrow> (perr, (string \<times> jval) list \<times> db) res" where
  "ProjectPack svc now packID r s =
     (if map_of Profiles (Profile r) = None then Inl (ErrBadRequest (''unknown profile''))
      else and_then (LoadPack svc s packID 0) (\<lambda>pk.
        case map_of (RefusedProfiles pk) (Profile r) of
          Some why \<Rightarrow> Inl (ErrConflict (CopyRefused why))
        | None \<Rightarrow>
            map_res (\<lambda>copy. (copy, s\<lparr>projections := projections s @ [\<lparr> J_PackID = packID, J_Version = Version pk,
                J_Profile = Profile r, J_For = PreparedFor r, J_Purpose = Purpose r, J_Hash = stated_hash copy \<rparr>]\<rparr>))
              (map_err (\<lambda>e. ErrBadRequest ''projection'') (Project pk r (rfc3339 now)))))"

section \<open>What a disclosure leaves behind\<close>

lemma sort_key_last: "x \<in> set xs \<Longrightarrow> f x \<le> f (last (sort_key f xs))" for f :: "'a \<Rightarrow> 'b :: linorder"
proof -
  assume x: "x \<in> set xs"
  then have ne: "sort_key f xs \<noteq> []" by (metis in_set_conv_nth length_sort less_nat_zero_code list.size(3))
  from x obtain i where "i < length (sort_key f xs)" "sort_key f xs ! i = x" by (metis in_set_conv_nth set_sort)
  then show "f x \<le> f (last (sort_key f xs))"
    using sorted_nth_mono [OF sorted_sort_key [of f xs], of i "length xs - 1"] ne
    by (simp add: last_conv_nth nth_map)
qed

lemma LoadPack_latest:
  assumes "LoadPack svc s packID 0 = Inr pk"
  obtains k where "k \<in> set (packs s)" and "PackID (K_Pack k) = packID" and "pk = (K_Pack k)\<lparr>PackKID := KID (S_Evidence svc)\<rparr>"
    and "\<And>k'. k' \<in> set (packs s) \<Longrightarrow> PackID (K_Pack k') = packID \<Longrightarrow> Version (K_Pack k') \<le> Version (K_Pack k)"
proof -
  let ?ps = "sort_key Version (filter (\<lambda>p. PackID p = packID) (map K_Pack (packs s)))"
  have ne: "?ps \<noteq> []" and pk: "pk = (last ?ps)\<lparr>PackKID := KID (S_Evidence svc)\<rparr>"
    using assms by (auto simp: LoadPack_def split: if_splits list.splits)
  have "last ?ps \<in> set ?ps" using ne by (rule last_in_set)
  then obtain k where k: "k \<in> set (packs s)" "PackID (K_Pack k) = packID" "last ?ps = K_Pack k" by auto
  have "Version (K_Pack k') \<le> Version (last ?ps)" if "k' \<in> set (packs s)" "PackID (K_Pack k') = packID" for k'
    by (rule sort_key_last) (use that in auto)
  then show ?thesis using that k pk by (metis (no_types, lifting))
qed

lemma copy_without_integrity:
  "filter (\<lambda>(f, _). f \<noteq> ''integrity'') (copy_body p r now data s @ [(''integrity'', JObj m)]) = copy_body p r now data s"
  "map_of (copy_body p r now data s @ [(''integrity'', JObj m)]) ''integrity'' = Some (JObj m)"
  by (simp_all add: copy_body_def)

lemma Project_stated_hash:
  assumes "Project p r now = Inr copy"
  obtains b where "canon (JObj (filter (\<lambda>(f, _). f \<noteq> ''integrity'') copy)) = Inr b" and "stated_hash copy = SHA b"
  using assms
proof (rule Project_parts)
  fix paths data s b
  assume b: "canon (JObj (copy_body p r now data s)) = Inr b"
    and c: "copy = copy_body p r now data s @ [(''integrity'', JObj (integrity_block p (SHA b)))]"
  show ?thesis
    by (rule that [of b]) (simp_all only: b c copy_without_integrity stated_hash_def, simp add: integrity_block_def)
qed

lemma ProjectPack_parts:
  assumes "ProjectPack svc now packID r s = Inr (copy, s')"
  obtains pk where "LoadPack svc s packID 0 = Inr pk" and "map_of (RefusedProfiles pk) (Profile r) = None"
    and "Project pk r (rfc3339 now) = Inr copy"
    and "s' = s\<lparr>projections := projections s @ [\<lparr> J_PackID = packID, J_Version = Version pk,
      J_Profile = Profile r, J_For = PreparedFor r, J_Purpose = Purpose r, J_Hash = stated_hash copy \<rparr>]\<rparr>"
  using assms unfolding ProjectPack_def by (auto simp: res_simps split: if_splits option.splits)

lemma RefusedProfiles_KID [simp]: "RefusedProfiles (p\<lparr>PackKID := x\<rparr>) = RefusedProfiles p"
  by (simp add: RefusedProfiles_def)

lemma copy_renderable:
  assumes "Project p r now = Inr copy"
  shows "\<exists>b. canon (JObj copy) = Inr b"
  using assms
proof (rule Project_parts)
  fix paths data s b
  assume b: "canon (JObj (copy_body p r now data s)) = Inr b"
    and c: "copy = copy_body p r now data s @ [(''integrity'', JObj (integrity_block p (SHA b)))]"
  have "renderable (JObj (copy_body p r now data s))" using b by (auto simp: canon_def write_ok_iff [symmetric])
  then have "renderable (JObj copy)" by (simp add: c integrity_block_def)
  then show ?thesis by (simp add: canon_def write_ok_iff [symmetric] is_ok_iff)
qed

end
