(* ===== verification/Api.thy ===== *)
theory Api
  imports Queries
begin

text \<open>
  The HTTP interface: compliance-backend/internal/api/api.go over net/http's \<open>ServeMux\<close>. A request
  has its method, the segments of its path, the Authorization header, the query parameters and the body;
  a handler returns the response and the database. The service value holds the pipeline, the API token,
  the health report (a function of the database, given in theory Process) and the texts of the pipeline's errors. The clock is read once per request.

  The lemmas: what each endpoint answers when the pipeline fails, and that a failed request leaves the
  database as it was.
\<close>

section \<open>Requests and responses\<close>

record request =
  RqMethod :: string
  RqPath :: "string list"
  RqAuth :: string
  RqQuery :: "(string, string) gomap"
  RqBody :: string

datatype reply = Body jval | CanonBytes string | Text string

datatype response = Resp (status_code: nat) (reply_of: reply)

record server =
  SrvPipeline :: service
  SrvToken :: string
  SrvHealth :: "db \<Rightarrow> jval"
  ErrText :: "perr \<Rightarrow> string"

record req_env =
  E_Now :: time
  E_Fresh :: "string \<Rightarrow> string"

definition write_json :: "nat \<Rightarrow> (string \<times> jval) list \<Rightarrow> response" where
  "write_json status v = Resp status (Body (JObj v))"

definition fail :: "nat \<Rightarrow> string \<Rightarrow> string \<Rightarrow> response" where
  "fail status code detail = write_json status [(''error'', JStr code), (''detail'', JStr detail)]"

definition failErr :: "server \<Rightarrow> perr \<Rightarrow> response" where
  "failErr srv e = (case e of
     ErrNotFound _ \<Rightarrow> fail 404 ''not_found'' (ErrText srv e)
   | ErrConflict _ \<Rightarrow> fail 409 ''conflict'' (ErrText srv e)
   | ErrForbidden _ \<Rightarrow> fail 403 ''forbidden'' (ErrText srv e)
   | ErrBadRequest _ \<Rightarrow> fail 400 ''bad_request'' (ErrText srv e)
   | ErrInternal _ \<Rightarrow> fail 500 ''internal'' ''internal error'')"

definition bad_request :: "string \<Rightarrow> response" where
  "bad_request detail = fail 400 ''bad_request'' detail"

definition query :: "request \<Rightarrow> string \<Rightarrow> string" where
  "query rq k = (case map_of (RqQuery rq) k of None \<Rightarrow> [] | Some v \<Rightarrow> v)"

section \<open>Reading the request\<close>

text \<open>\<open>hexutil.Decode\<close> and the JSON form of \<open>hexutil.Bytes\<close>, where the empty string is no bytes.\<close>

definition hexutil_Decode :: "string \<Rightarrow> string option" where
  "hexutil_Decode s = (if prefix ''0x'' s \<or> prefix ''0X'' s then hex_decode (drop 2 s) else None)"

definition hexutil_Bytes :: "jval \<Rightarrow> string option" where
  "hexutil_Bytes v = (case v of JStr s \<Rightarrow> if s = [] then Some [] else hexutil_Decode s | _ \<Rightarrow> None)"

definition json_time :: "jval \<Rightarrow> time option" where
  "json_time v = (case v of JStr s \<Rightarrow> map_option fst (parse_rfc3339 True s) | _ \<Rightarrow> None)"

definition limited :: "string \<Rightarrow> string" where
  "limited b = take (2 ^ 20) b"

definition decodeBody :: "string list \<Rightarrow> string \<Rightarrow> (string \<times> jval) list option" where
  "decodeBody tags b = (case decode (limited b) of
     Some (JObj m) \<Rightarrow> if known_fields tags m then Some m else None
   | Some JNull \<Rightarrow> Some []
   | _ \<Rightarrow> None)"

definition paymentRef :: "string \<Rightarrow> hash option" where
  "paymentRef ref = Option.bind (hexutil_Decode ref) (\<lambda>b. if length b = 32 then Some b else None)"

definition invalid_body :: response where
  "invalid_body = bad_request ''invalid JSON body''"

definition bad_ref :: response where
  "bad_ref = bad_request ''payment ref must be a 0x-prefixed 32-byte payment id''"

section \<open>Handlers\<close>

text \<open>A pipeline operation that changes the database, answered with \<open>ok\<close>.\<close>

definition answer :: "server \<Rightarrow> ('a \<Rightarrow> response) \<Rightarrow> db \<Rightarrow> (perr, 'a \<times> db) res \<Rightarrow> response \<times> db" where
  "answer srv ok s r = (case r of Inl e \<Rightarrow> (failErr srv e, s) | Inr (x, s') \<Rightarrow> (ok x, s'))"

definition case_json :: "officer_case \<Rightarrow> jval" where
  "case_json c = JObj [(''payment_ref'', JStr (CasePaymentRef c)), (''chain_id'', JUint64 (CaseChainID c)),
     (''payer'', JStr (CasePayer c)), (''deposit'', JStr (CaseDeposit c)), (''amount'', JStr (CaseAmount c)),
     (''recommendation'', JStr (CaseRecommendation c)), (''reason_codes'', JStrList (CaseReasons c)),
     (''policy_ref'', JStr (CasePolicyRef c)), (''last_decision'', opt_str (CaseLast c)),
     (''block_time'', JStr (rfc3339_nano (CaseBlockTime c)))]"

definition cases_handler :: "server \<Rightarrow> db \<Rightarrow> response \<times> db" where
  "cases_handler srv s = (write_json 200 [(''cases'', JList (map case_json (Cases (SrvPipeline srv) s)))], s)"

definition payment_handler :: "server \<Rightarrow> string \<Rightarrow> db \<Rightarrow> response \<times> db" where
  "payment_handler srv ref s = (case paymentRef ref of
     None \<Rightarrow> (bad_ref, s)
   | Some i \<Rightarrow> answer srv (write_json 200) s (map_res (\<lambda>v. (v, s)) (Payment (SrvPipeline srv) s i)))"

definition typedData :: "server \<Rightarrow> req_env \<Rightarrow> request \<Rightarrow> string \<Rightarrow> db \<Rightarrow> response \<times> db" where
  "typedData srv env rq ref s = (case paymentRef ref of
     None \<Rightarrow> (bad_ref, s)
   | Some i \<Rightarrow> (case Kind (query rq ''decision'') of
       None \<Rightarrow> (bad_request ''decision must be CREDIT, HOLD, FREEZE or RETURN'', s)
     | Some k \<Rightarrow> answer srv (write_json 200) s (OfficerTypedData (SrvPipeline srv) (E_Now env) i k s)))"

definition decide_body :: "string \<Rightarrow> (string \<times> string \<times> string) option" where
  "decide_body b = Option.bind (decodeBody [''decision'', ''signature'', ''rationale''] b) (\<lambda>m.
     Option.bind (field_of str_of [] ''decision'' m) (\<lambda>k. Option.bind (strict_field hexutil_Bytes [] ''signature'' m) (\<lambda>sig.
     map_option (\<lambda>r. (k, sig, r)) (field_of str_of [] ''rationale'' m))))"

definition decide :: "server \<Rightarrow> req_env \<Rightarrow> request \<Rightarrow> string \<Rightarrow> db \<Rightarrow> response \<times> db" where
  "decide srv env rq ref s = (case paymentRef ref of
     None \<Rightarrow> (bad_ref, s)
   | Some i \<Rightarrow> (case decide_body (RqBody rq) of
       None \<Rightarrow> (invalid_body, s)
     | Some (name, sig, rationale) \<Rightarrow> (case Kind name of
         None \<Rightarrow> (bad_request (''unknown decision''), s)
       | Some k \<Rightarrow> answer srv (\<lambda>(packID, version). write_json 201 [(''pack_id'', JStr packID), (''pack_version'', JNumber (int_dec version))]) s
           (OfficerDecide (SrvPipeline srv) (E_Now env) (E_Fresh env) i k sig rationale s))))"

definition effective_param :: "req_env \<Rightarrow> request \<Rightarrow> (time \<times> int) option" where
  "effective_param env rq = (let q = query rq ''effective_from'' in if q = [] then Some (E_Now env, 0) else parse_rfc3339 False q)"

definition importRuleset :: "server \<Rightarrow> req_env \<Rightarrow> request \<Rightarrow> db \<Rightarrow> response \<times> db" where
  "importRuleset srv env rq s = (case effective_param env rq of
     None \<Rightarrow> (bad_request ''effective_from must be RFC 3339'', s)
   | Some ef \<Rightarrow> (case ImportRuleset (limited (RqBody rq)) s of
       Inl e \<Rightarrow> (failErr srv e, s)
     | Inr ((version, h), s1) \<Rightarrow> answer srv (\<lambda>doc. write_json 201 [(''version'', JStr version), (''ruleset_hash'', JStr h),
           (''effective_from'', JStr (rfc3339_in ef)), (''approval_typed_data'', JObj doc)]) s1
         (map_res (\<lambda>doc. (doc, s1)) (ApprovalTypedData s1 version (fst ef)))))"

definition approve_body :: "string \<Rightarrow> (time \<times> string) option" where
  "approve_body b = Option.bind (decodeBody [''effective_from'', ''signature''] b) (\<lambda>m.
     Option.bind (field_of json_time zero_time ''effective_from'' m) (\<lambda>t.
     map_option (Pair t) (strict_field hexutil_Bytes [] ''signature'' m)))"

definition approveRuleset :: "server \<Rightarrow> req_env \<Rightarrow> request \<Rightarrow> string \<Rightarrow> db \<Rightarrow> response \<times> db" where
  "approveRuleset srv env rq version s = (case approve_body (RqBody rq) of
     None \<Rightarrow> (invalid_body, s)
   | Some (ef, sig) \<Rightarrow> answer srv (\<lambda>a. write_json 200 [(''version'', JStr version),
         (''approved_by'', JStr (addr_hex (S_Crypto (SrvPipeline srv)) a))]) s
       (ApproveRuleset (SrvPipeline srv) (E_Now env) version ef sig s))"

definition project_body :: "string \<Rightarrow> recipient option" where
  "project_body b = Option.bind (decodeBody [''profile'', ''prepared_for'', ''purpose''] b) (\<lambda>m.
     Option.bind (field_of str_of [] ''profile'' m) (\<lambda>p. Option.bind (field_of str_of [] ''prepared_for'' m) (\<lambda>f.
     map_option (\<lambda>u. \<lparr> Profile = p, PreparedFor = f, Purpose = u \<rparr>) (field_of str_of [] ''purpose'' m))))"

definition project_handler :: "server \<Rightarrow> req_env \<Rightarrow> request \<Rightarrow> string \<Rightarrow> db \<Rightarrow> response \<times> db" where
  "project_handler srv env rq packID s = (case project_body (RqBody rq) of
     None \<Rightarrow> (invalid_body, s)
   | Some r \<Rightarrow> (case ProjectPack (SrvPipeline srv) (E_Now env) packID r s of
       Inl e \<Rightarrow> (failErr srv e, s)
     | Inr (copy, s1) \<Rightarrow> (case canon (JObj copy) of
         Inl _ \<Rightarrow> (failErr srv (ErrInternal RawError), s1)
       | Inr b \<Rightarrow> (Resp 201 (CanonBytes b), s1))))"

section \<open>Routing and authentication\<close>

datatype endpoint = Healthz | EndCases | EndPayment string | EndTypedData string | EndDecide string | EndImport
  | EndApprove string | EndProject string

text \<open>Each path has one method; a wildcard matches one segment that is not empty.\<close>

definition route :: "string list \<Rightarrow> (string \<times> endpoint) option" where
  "route path = (case path of
     [a] \<Rightarrow> if a = ''healthz'' then Some (''GET'', Healthz) else None
   | [a, b] \<Rightarrow> if a \<noteq> ''v1'' then None
       else if b = ''cases'' then Some (''GET'', EndCases)
       else if b = ''rulesets'' then Some (''POST'', EndImport) else None
   | [a, b, x] \<Rightarrow> if a = ''v1'' \<and> b = ''payments'' \<and> x \<noteq> [] then Some (''GET'', EndPayment x) else None
   | [a, b, x, c] \<Rightarrow> if a \<noteq> ''v1'' \<or> x = [] then None
       else if b = ''payments'' \<and> c = ''typed-data'' then Some (''GET'', EndTypedData x)
       else if b = ''payments'' \<and> c = ''decisions'' then Some (''POST'', EndDecide x)
       else if b = ''rulesets'' \<and> c = ''approve'' then Some (''POST'', EndApprove x)
       else if b = ''packs'' \<and> c = ''projections'' then Some (''POST'', EndProject x) else None
   | _ \<Rightarrow> None)"

definition serve :: "server \<Rightarrow> req_env \<Rightarrow> request \<Rightarrow> endpoint \<Rightarrow> db \<Rightarrow> response \<times> db" where
  "serve srv env rq e s = (case e of
     Healthz \<Rightarrow> (Resp 200 (Body (SrvHealth srv s)), s)
   | EndCases \<Rightarrow> cases_handler srv s
   | EndPayment ref \<Rightarrow> payment_handler srv ref s
   | EndTypedData ref \<Rightarrow> typedData srv env rq ref s
   | EndDecide ref \<Rightarrow> decide srv env rq ref s
   | EndImport \<Rightarrow> importRuleset srv env rq s
   | EndApprove version \<Rightarrow> approveRuleset srv env rq version s
   | EndProject packID \<Rightarrow> project_handler srv env rq packID s)"

definition auth :: "server \<Rightarrow> request \<Rightarrow> (db \<Rightarrow> response \<times> db) \<Rightarrow> db \<Rightarrow> response \<times> db" where
  "auth srv rq h s = (case cut_prefix ''Bearer '' (RqAuth rq) of
     Some got \<Rightarrow> if got = SrvToken srv then h s else (fail 401 ''unauthorized'' ''a valid bearer token is required'', s)
   | None \<Rightarrow> (fail 401 ''unauthorized'' ''a valid bearer token is required'', s))"

definition Handler :: "server \<Rightarrow> req_env \<Rightarrow> request \<Rightarrow> db \<Rightarrow> response \<times> db" where
  "Handler srv env rq s = (case route (RqPath rq) of
     None \<Rightarrow> (Resp 404 (Text ''404 page not found''), s)
   | Some (m, e) \<Rightarrow>
       if RqMethod rq = m \<or> m = ''GET'' \<and> RqMethod rq = ''HEAD''
       then (if e = Healthz then serve srv env rq e s else auth srv rq (serve srv env rq e) s)
       else (Resp 405 (Text ''Method Not Allowed''), s))"

section \<open>Who gets an answer, and what a failure leaves\<close>

lemma auth_refused: "RqAuth rq \<noteq> ''Bearer '' @ SrvToken srv
    \<Longrightarrow> auth srv rq h s = (fail 401 ''unauthorized'' ''a valid bearer token is required'', s)"
  by (auto simp: auth_def cut_prefix_def prefix_def)

lemma auth_granted: "RqAuth rq = ''Bearer '' @ SrvToken srv \<Longrightarrow> auth srv rq h s = h s"
  unfolding auth_def by (simp only: cut_prefix_append) simp

text \<open>An answer is fine when an error status leaves the database and an internal error tells nothing.\<close>

definition clean_failure :: "db \<Rightarrow> response \<times> db \<Rightarrow> bool" where
  "clean_failure s r \<longleftrightarrow> (400 \<le> status_code (fst r) \<longrightarrow> snd r = s)
     \<and> (500 \<le> status_code (fst r) \<longrightarrow> fst r = fail 500 ''internal'' ''internal error'')"

named_theorems clean_simps

lemma clean_fail [clean_simps]: "code < 500 \<Longrightarrow> clean_failure s (fail code c d, s)"
  by (simp add: clean_failure_def fail_def write_json_def)

lemma clean_bad [clean_simps]: "clean_failure s (bad_request d, s)" "clean_failure s (bad_ref, s)" "clean_failure s (invalid_body, s)"
  unfolding bad_request_def bad_ref_def invalid_body_def by (simp_all add: clean_fail)

lemma clean_err [clean_simps]: "clean_failure s (failErr srv e, s)"
  by (cases e) (simp_all add: failErr_def clean_failure_def fail_def write_json_def)

lemma clean_ok [clean_simps]: "code < 400 \<Longrightarrow> clean_failure s (Resp code b, s')" "code < 400 \<Longrightarrow> clean_failure s (write_json code v, s')"
  by (simp_all add: clean_failure_def write_json_def)

lemma clean_answer [clean_simps]: "(\<And>x. status_code (ok x) < 400) \<Longrightarrow> clean_failure s (answer srv ok s r)"
proof (cases r)
  case (Inr x)
  assume ok: "\<And>x. status_code (ok x) < 400"
  show ?thesis using ok [of "fst x"] by (cases x) (simp add: Inr answer_def clean_failure_def)
qed (simp add: answer_def clean_err)

lemma update_ruleset_id: "update_ruleset v (\<lambda>r. r) s = Inr s' \<Longrightarrow> s' = s"
  by (auto simp: update_ruleset_def split: if_splits)

lemma ImportRuleset_stored:
  assumes "ImportRuleset raw s = Inr ((v, h), s1)"
  shows "\<exists>r. ruleset_by s1 v = Some r"
proof (cases "Parse raw")
  case (Inr p)
  obtain rs c h' where p: "p = (rs, c, h')" by (cases p)
  show ?thesis
  proof (cases "ruleset_by s (RVersion rs)")
    case None
    then have "v = RVersion rs" "s1 = s\<lparr>rulesets := rulesets s @ [\<lparr> R_Version = RVersion rs, R_Canonical = c, R_Hash = h', R_Approval = None \<rparr>]\<rparr>"
      using assms by (auto simp: ImportRuleset_def Inr p split: if_splits)
    then show ?thesis by (simp add: ruleset_by_def find_first_append split: option.splits)
  next
    case (Some r)
    then have "v = RVersion rs" "s1 = s"
      using assms by (auto simp: ImportRuleset_def Inr p res_simps split: if_splits dest: update_ruleset_id)
    then show ?thesis using Some by simp
  qed
qed (use assms in \<open>simp add: ImportRuleset_def\<close>)

lemma import_clean: "clean_failure s (importRuleset srv env rq s)"
proof (cases "effective_param env rq")
  case (Some ef)
  show ?thesis
  proof (cases "ImportRuleset (limited (RqBody rq)) s")
    case (Inr x)
    then obtain v h s1 where x: "x = ((v, h), s1)" by (metis surj_pair)
    obtain r where "ruleset_by s1 v = Some r" using ImportRuleset_stored Inr x by blast
    then show ?thesis by (simp add: importRuleset_def Some Inr x ApprovalTypedData_def answer_def clean_ok)
  qed (simp add: importRuleset_def Some clean_err)
qed (simp add: importRuleset_def clean_bad)

lemma project_clean: "clean_failure s (project_handler srv env rq packID s)"
proof (cases "project_body (RqBody rq)")
  case (Some r)
  show ?thesis
  proof (cases "ProjectPack (SrvPipeline srv) (E_Now env) packID r s")
    case (Inr x)
    then obtain copy s1 where x: "x = (copy, s1)" by (cases x)
    obtain b where "canon (JObj copy) = Inr b"
      using Inr x by (auto elim!: ProjectPack_parts dest!: copy_renderable)
    then show ?thesis by (simp add: project_handler_def Some Inr x clean_ok)
  qed (simp add: project_handler_def Some clean_err)
qed (simp add: project_handler_def clean_bad)

lemma serve_clean: "clean_failure s (serve srv env rq e s)"
  by (cases e) (auto simp: serve_def cases_handler_def payment_handler_def typedData_def decide_def approveRuleset_def clean_simps
      import_clean project_clean write_json_def split_def split: option.splits)

lemma route_healthz: "route path = Some (m, Healthz) \<Longrightarrow> path = [''healthz'']"
  by (auto simp: route_def split: list.splits if_splits)

text \<open>Without the token only the health report depends on the database.\<close>

lemma Handler_refused:
  "RqAuth rq \<noteq> ''Bearer '' @ SrvToken srv
     \<Longrightarrow> snd (Handler srv env rq s) = s
       \<and> (RqPath rq \<noteq> [''healthz''] \<longrightarrow> status_code (fst (Handler srv env rq s)) \<in> {401, 404, 405})
       \<and> (RqPath rq \<noteq> [''healthz''] \<or> SrvHealth srv s' = SrvHealth srv s \<longrightarrow> fst (Handler srv env rq s') = fst (Handler srv env rq s))"
  using route_healthz [of "RqPath rq"]
  by (auto simp: Handler_def auth_refused serve_def fail_def write_json_def split: option.splits)

lemma Handler_clean: "clean_failure s (Handler srv env rq s)"
  using serve_clean by (cases "RqAuth rq = ''Bearer '' @ SrvToken srv")
    (auto simp: Handler_def auth_granted auth_refused clean_simps clean_failure_def [of s "(Resp _ _, s)"] split: option.splits)

end
