(* ===== verification/Ledger.thy ===== *)
theory Ledger
  imports Api
begin

text \<open>
  What every operation of the service does to the database, in the terms the invariants need: which
  tables grow, which payment rows keep their origin, and what the history of a payment, the journal of
  packs and the approval of rulesets look like before and after. The operations are the ones of the
  component theories; nothing of the code is modelled here.

  The lemmas: one per operation and invariant, from ingest steps (which touch no evidence) to a recorded
  decision (which adds one row to the decisions, one to the packs, and moves the journal head).
\<close>

section \<open>Payments keep their origin\<close>

definition same_origin :: "payment_row \<Rightarrow> payment_row \<Rightarrow> bool" where
  "same_origin p q \<longleftrightarrow> P_ID q = P_ID p \<and> P_Chain q = P_Chain p \<and> P_Tx q = P_Tx p \<and> P_LogIndex q = P_LogIndex p
     \<and> P_Token q = P_Token p \<and> P_Payer q = P_Payer p \<and> P_Deposit q = P_Deposit p \<and> P_Amount q = P_Amount p"

lemma same_origin_refl [simp]: "same_origin p p"
  by (simp add: same_origin_def)

lemma same_origin_trans: "same_origin p q \<Longrightarrow> same_origin q r \<Longrightarrow> same_origin p r"
  by (simp add: same_origin_def)

lemma same_origin_reconfirm [simp]: "same_origin p (reconfirm d r p)"
  by (simp add: same_origin_def reconfirm_def)

lemma same_origin_orphan [simp]: "same_origin p (orphan c from to p)" "P_Stage (orphan c from to p) = P_Stage p"
  by (simp_all add: same_origin_def orphan_def)

text \<open>One payment between two databases of which the second is later, by ingest alone.\<close>

definition ingested :: "payment_row option \<Rightarrow> payment_row option \<Rightarrow> bool" where
  "ingested x y = (case x of
     Some p \<Rightarrow> (case y of Some q \<Rightarrow> same_origin p q \<and> P_Stage q = P_Stage p | None \<Rightarrow> False)
   | None \<Rightarrow> (case y of Some q \<Rightarrow> P_Stage q = ChecksPending | None \<Rightarrow> True))"

definition ingest_step :: "db \<Rightarrow> db \<Rightarrow> bool" where
  "ingest_step s s' \<longleftrightarrow> same_evidence s s' \<and> (\<forall>i. ingested (payment_by s i) (payment_by s' i))"

lemma ingested_refl [simp]: "ingested x x"
  by (simp add: ingested_def split: option.splits)

lemma ingested_trans: "ingested x y \<Longrightarrow> ingested y z \<Longrightarrow> ingested x z"
  by (auto simp: ingested_def split: option.splits intro: same_origin_trans)

lemma ingest_step_same: "same_evidence s s' \<Longrightarrow> (\<And>i. payment_by s' i = payment_by s i) \<Longrightarrow> ingest_step s s'"
  by (simp add: ingest_step_def)

lemma ingest_step_trans: "ingest_step s s' \<Longrightarrow> ingest_step s' s'' \<Longrightarrow> ingest_step s s''"
  by (auto simp: ingest_step_def intro: same_evidence_trans ingested_trans)

lemma row_of_stage [simp]: "P_Stage (row_of k d g r) = ChecksPending"
  by (simp add: row_of_def)

lemma reconfirm_stage [simp]: "P_Stage (reconfirm d r p) = P_Stage p"
  by (simp add: reconfirm_def)

lemma upsert_ingest: "ingest_step s (upsertConfirmed k d r s)" "ingest_step s (upsertSeen k d s)"
  by (auto simp: ingest_step_def upsert_evidence upsertConfirmed_by upsertSeen_by ingested_def split: option.splits)

lemma upserts_ingest: "ingest_step s (fold (\<lambda>d. upsertConfirmed k d (f d)) ds s)"
  by (induction ds arbitrary: s) (auto intro: ingest_step_same ingest_step_trans upsert_ingest)

lemma reconcile_ingest: "ingest_step s (reconcile_range k c ds b from to s)"
proof -
  let ?s1 = "fold (\<lambda>d. upsertConfirmed k d (L_Block d \<le> b)) ds s"
  have "ingested (payment_by ?s1 i) (payment_by (reconcile_range k c ds b from to s) i)" for i
    unfolding reconcile_range_by by (simp add: ingested_def split: option.splits)
  moreover have "ingested (payment_by s i) (payment_by ?s1 i)" for i using upserts_ingest by (simp add: ingest_step_def)
  ultimately show ?thesis using reconcile_range_evidence by (auto simp: ingest_step_def intro: ingested_trans)
qed

lemma handle_ingest: "ingest_step s (snd (handle b64 k ch up raw s))"
  using handle_cases [of b64 k ch up raw s] by (auto intro: upsert_ingest ingest_step_same)

lemma Step_ingest: "ingest_step s (snd (Step k eth ch s))"
proof (rule Step_cases [of k eth ch s "fst (Step k eth ch s)" "snd (Step k eth ch s)"])
  fix head c s1 ds to
  assume "start_cursor (ChainID ch) (head - Confirmations ch) s = (c, s1)"
    and e: "snd (Step k eth ch s) = reconcile_range k (ChainID ch) ds (BackfillUntil c) (LastReconciled c + 1) to s1"
  from start_cursor_props(2,3) [OF this(1)] have "ingest_step s s1" by (intro ingest_step_same) auto
  then show ?thesis unfolding e using reconcile_ingest ingest_step_trans by blast
qed (auto intro: ingest_step_same)

lemma Backfill_ingest: "Backfill eth ch from' s = Inr (until, s') \<Longrightarrow> ingest_step s s'"
  by (auto simp: Backfill_def Let_def res_simps same_evidence_def payment_by_def split: if_splits intro!: ingest_step_same)

section \<open>Tables that only grow\<close>


text \<open>The append-only tables of the migration.\<close>

definition append_only :: "db \<Rightarrow> db \<Rightarrow> bool" where
  "append_only s s' \<longleftrightarrow> prefix (check_results s) (check_results s') \<and> prefix (recommendations s) (recommendations s')
     \<and> prefix (snapshots s) (snapshots s') \<and> prefix (decisions s) (decisions s') \<and> prefix (packs s) (packs s')
     \<and> prefix (projections s) (projections s')"

lemma append_only_refl [simp]: "append_only s s"
  by (simp add: append_only_def)

lemma append_only_trans: "append_only s s' \<Longrightarrow> append_only s' s'' \<Longrightarrow> append_only s s''"
  by (auto simp: append_only_def)

lemma ingest_append_only: "ingest_step s s' \<Longrightarrow> append_only s s'"
  by (simp add: ingest_step_def same_evidence_def append_only_def)

section \<open>Roots and their hex\<close>

lemma hex_prefix_encode [simp]: "hex_prefix (hex_encode b) = b"
proof (induction b)
  case (Cons c b)
  have "of_char c div 16 < (16 :: nat)" using of_char_less_256 [of c] by linarith
  then show ?case using Cons by (simp add: hex_byte_def)
qed simp

lemma hex_digit_not_x: "d < 16 \<Longrightarrow> hex_digit d \<noteq> CHR ''x'' \<and> hex_digit d \<noteq> CHR ''X''"
  using hex_val_digit [of d] by (auto simp: hex_val_def split: if_splits)

lemma HexToHash_hex: "length b = 32 \<Longrightarrow> HexToHash (hex_encode b) = b"
proof -
  assume l: "length b = 32"
  then obtain c cs where b: "b = c # cs" by (cases b) auto
  have "of_char c mod 16 < (16 :: nat)" by simp
  from hex_digit_not_x [OF this] have "\<not> prefix ''0x'' (hex_encode b) \<and> \<not> prefix ''0X'' (hex_encode b)"
    by (auto simp: b hex_byte_def)
  then show ?thesis using l by (simp add: HexToHash_def left_pad_def)
qed

lemma HexToHash_SHA: "hex_encode (HexToHash (SHA m)) = SHA m"
  by (simp add: SHA_def HexToHash_hex)

lemma NewSnapshot_root: "NewSnapshot fresh m = Inr snap \<Longrightarrow> \<exists>b. snap_root snap = SHA b"
  by (auto simp: NewSnapshot_def EvidenceRoot_def Let_def res_simps split: option.splits if_splits)

section \<open>The history of a payment\<close>

definition decisions_of :: "db \<Rightarrow> hash \<Rightarrow> decision_row list" where
  "decisions_of s i = filter (\<lambda>d. D_Payment d = i) (decisions s)"

definition history :: "db \<Rightarrow> hash \<Rightarrow> kind list" where
  "history s i = map D_Kind (decisions_of s i)"

text \<open>Nonces count from one in the order of the decisions, and fit the column.\<close>

definition numbered :: "decision_row list \<Rightarrow> bool" where
  "numbered ds \<longleftrightarrow> map (\<lambda>d. unat (D_Nonce d)) ds = [1..<Suc (length ds)] \<and> (\<forall>d\<in>set ds. unat (D_Nonce d) < 2 ^ 63)"

lemma numbered_sorted: "numbered ds \<Longrightarrow> sort_key D_Nonce ds = ds"
proof (rule sort_key_id_if_sorted)
  assume "numbered ds"
  then have "sorted (map (\<lambda>d. unat (D_Nonce d)) ds)" by (simp only: numbered_def sorted_upt)
  then show "sorted (map D_Nonce ds)" by (simp add: sorted_map word_le_nat_alt)
qed

lemma numbered_snoc: "numbered ds \<Longrightarrow> unat (D_Nonce d) = Suc (length ds) \<Longrightarrow> unat (D_Nonce d) < 2 ^ 63 \<Longrightarrow> numbered (ds @ [d])"
  by (simp add: numbered_def)

lemma numbered_init: "numbered (ds @ [d]) \<Longrightarrow> numbered ds"
  by (simp add: numbered_def)

lemma numbered_max: "numbered ds \<Longrightarrow> unat (foldl max 0 (map D_Nonce ds)) = length ds"
proof (induction ds rule: rev_induct)
  case (snoc d ds)
  have "unat (foldl max 0 (map D_Nonce ds)) = length ds" using snoc.IH snoc.prems numbered_init by blast
  moreover have "unat (D_Nonce d) = Suc (length ds)" using snoc.prems by (simp add: numbered_def)
  ultimately have "foldl max 0 (map D_Nonce ds) \<le> D_Nonce d" by (simp add: word_le_nat_alt)
  then show ?case using \<open>unat (D_Nonce d) = Suc (length ds)\<close> by (simp add: max_absorb2)
qed simp

lemma numbered_bound: "numbered ds \<Longrightarrow> length ds < 2 ^ 63"
proof (cases ds rule: rev_cases)
  case (snoc xs d)
  assume n: "numbered ds"
  then have "unat (D_Nonce d) = length ds" by (simp add: numbered_def snoc)
  then show ?thesis using n by (simp add: numbered_def snoc)
qed simp

lemma numbered_next:
  assumes "numbered ds"
  shows "unat (foldl max 0 (map D_Nonce ds) + 1) = Suc (length ds)"
  using numbered_max [OF assms] numbered_bound [OF assms] by (simp add: unat_word_ariths)

lemma past_is_history: "numbered (decisions_of s i) \<Longrightarrow> past_decisions s i = decisions_of s i"
  by (simp add: past_decisions_def decisions_of_def [symmetric] numbered_sorted)

definition lawful :: "db \<Rightarrow> bool" where
  "lawful s \<longleftrightarrow> (\<forall>i. numbered (decisions_of s i) \<and> snd (Replay (history s i)) = None)"

lemma decisions_of_snoc: "decisions s' = decisions s @ [d] \<Longrightarrow>
    decisions_of s' i = (if i = D_Payment d then decisions_of s i @ [d] else decisions_of s i)"
  by (simp add: decisions_of_def)

text \<open>A decision that was prepared on the database it is recorded in extends a lawful history.\<close>

lemma lawful_snoc:
  assumes "lawful s" and "prepare svc now s r k = Inr (d0, td0)" and "decisions s' = decisions s @ [row]"
    and "D_Payment row = P_ID r" and "D_Kind row = k" and "D_Nonce row = Nonce d0" and "unat (Nonce d0) < 2 ^ 63"
  shows "lawful s'"
  using assms(2)
proof (rule prepare_parts)
  fix sn st
  assume n: "Next (fst (Replay (map D_Kind (past_decisions s (P_ID r))))) k = Inr st"
    and d: "d0 = \<lparr> PaymentID = P_ID r, DecisionKind = k, DToken = P_Token r, Amount = P_Amount r,
        DPackHash = HexToHash (snap_root (S_Snap sn)), Nonce = foldl max 0 (map D_Nonce (past_decisions s (P_ID r))) + 1,
        Deadline = word_of_int (unix_sec (now + DecisionTTL (S_Cfg svc))) \<rparr>"
  let ?i = "P_ID r"
  have l: "numbered (decisions_of s ?i)" "snd (Replay (history s ?i)) = None" using assms(1) by (simp_all add: lawful_def)
  have p: "past_decisions s ?i = decisions_of s ?i" by (rule past_is_history [OF l(1)])
  have u: "unat (D_Nonce row) = Suc (length (decisions_of s ?i))" using numbered_next [OF l(1)] by (simp add: assms(6) d p)
  have "Replay (history s ?i @ [k]) = (st, None)" using Next_extends [OF _ l(2)] n by (simp add: history_def p)
  then have "snd (Replay (history s' ?i)) = None" by (simp add: history_def decisions_of_snoc [OF assms(3)] assms(4,5))
  moreover have "numbered (decisions_of s' ?i)"
    using numbered_snoc [OF l(1) u] assms(6,7) by (simp add: decisions_of_snoc [OF assms(3)] assms(4))
  moreover have "decisions_of s' j = decisions_of s j" if "j \<noteq> ?i" for j using that by (simp add: decisions_of_snoc [OF assms(3)] assms(4))
  ultimately show ?thesis using assms(1) unfolding lawful_def history_def by (metis (no_types))
qed

section \<open>The journal of packs\<close>

definition journal_ok :: "db \<Rightarrow> bool" where
  "journal_ok s \<longleftrightarrow> map K_Payment (packs s) = map D_Payment (decisions s)
     \<and> map K_Seq (packs s) = [1..<Suc (length (packs s))] \<and> journal_seq s = length (packs s)
     \<and> map (\<lambda>k. PrevPackHash (K_Pack k)) (packs s) @ [journal_head s] = ZeroHash # map (\<lambda>k. PPackHash (K_Pack k)) (packs s)
     \<and> chain_hash ZeroHash (map (\<lambda>k. PMasterRoot (K_Pack k)) (packs s)) = Inr (journal_head s)"

definition packs_of :: "db \<Rightarrow> hash \<Rightarrow> pack list" where
  "packs_of s i = map K_Pack (filter (\<lambda>k. K_Payment k = i) (packs s))"

text \<open>Everything stored about a payment is about its one snapshot.\<close>

definition bound :: "db \<Rightarrow> bool" where
  "bound s \<longleftrightarrow> (\<forall>sn\<in>set (snapshots s). \<exists>b. snap_root (S_Snap sn) = SHA b) \<and> distinct (map S_PackID (snapshots s))
     \<and> (\<forall>k\<in>set (packs s). \<exists>sn. snapshot_of s (K_Payment k) = Some sn \<and> PackID (K_Pack k) = S_PackID sn
          \<and> PEvidenceRoot (K_Pack k) = snap_root (S_Snap sn))
     \<and> (\<forall>d\<in>set (decisions s). \<exists>sn. snapshot_of s (D_Payment d) = Some sn \<and> D_PackHash d = snap_root (S_Snap sn))"

definition versioned :: "db \<Rightarrow> bool" where
  "versioned s \<longleftrightarrow> (\<forall>i. map Version (packs_of s i) = map int [1..<Suc (length (packs_of s i))])"

lemma numbers_snoc: "map int [1..<Suc (Suc n)] = map int [1..<Suc n] @ [1 + int n]"
  by simp

lemma snapshot_ofD: "snapshot_of s i = Some sn \<Longrightarrow> sn \<in> set (snapshots s) \<and> S_Payment sn = i"
  by (auto simp: snapshot_of_def dest: find_first_SomeD)

lemma bound_packs:
  assumes "bound s" and "snapshot_of s i = Some sn"
  shows "filter (\<lambda>p. PackID p = S_PackID sn) (map K_Pack (packs s)) = packs_of s i"
proof -
  have "PackID (K_Pack k) = S_PackID sn \<longleftrightarrow> K_Payment k = i" if k: "k \<in> set (packs s)" for k
  proof
    assume e: "PackID (K_Pack k) = S_PackID sn"
    obtain sn' where sn': "snapshot_of s (K_Payment k) = Some sn'" "PackID (K_Pack k) = S_PackID sn'"
      using assms(1) k by (auto simp: bound_def)
    have "sn' = sn"
      using assms(1) e sn' snapshot_ofD [OF sn'(1)] snapshot_ofD [OF assms(2)] by (auto simp: bound_def distinct_map inj_on_def)
    then show "K_Payment k = i" using snapshot_ofD [OF sn'(1)] snapshot_ofD [OF assms(2)] by simp
  next
    assume "K_Payment k = i"
    then show "PackID (K_Pack k) = S_PackID sn" using assms k by (auto simp: bound_def)
  qed
  then show ?thesis by (simp add: packs_of_def filter_map comp_def cong: filter_cong)
qed

lemma versioned_latest:
  assumes "bound s" and "versioned s" and "snapshot_of s i = Some sn"
  shows "(case latest_pack s (S_PackID sn) of None \<Rightarrow> (1, x) | Some p \<Rightarrow> (Version p + 1, Salts p))
    = (int (Suc (length (packs_of s i))), if packs_of s i = [] then x else Salts (last (packs_of s i)))"
proof -
  let ?ps = "packs_of s i"
  have v: "map Version ?ps = map int [1..<Suc (length ?ps)]" using assms(2) by (simp only: versioned_def)
  have "sorted (map Version ?ps)" unfolding v by (simp add: sorted_map del: upt_Suc)
  then have sk: "sort_key Version ?ps = ?ps" by (rule sort_key_id_if_sorted)
  have l: "latest_pack s (S_PackID sn) = (if ?ps = [] then None else Some (last ?ps))"
    unfolding latest_pack_def bound_packs [OF assms(1,3)] sk by (simp split: list.split)
  have "Version (last ?ps) = int (length ?ps)" if "?ps \<noteq> []"
    using v that by (cases ?ps rule: rev_cases) simp_all
  then show ?thesis by (simp add: l)
qed

lemma BuildPack_links:
  assumes "BuildPack fresh snap ver rest prev h signer = Inr pk"
  shows "PEvidenceRoot pk = snap_root snap" and "PackHash h (PMasterRoot pk) = Inr (PPackHash pk)" and "PrevPackHash pk = h"
    and "Version pk = ver"
  using assms by (auto elim!: BuildPack_parts)

text \<open>The tables after a recorded decision.\<close>

lemma record_keeps:
  assumes rec: "record_decision svc now fresh r d td inp s = Inr (out, s')"
    and j: "journal_ok s" and b: "bound s" and v: "versioned s"
    and root: "\<And>sn. snapshot_of s (P_ID r) = Some sn \<Longrightarrow> DPackHash d = HexToHash (snap_root (S_Snap sn))"
  shows "journal_ok s'" and "bound s'" and "versioned s'"
proof -
  obtain sn rest ver prev pk where sn: "snapshot_of s (P_ID r) = Some sn"
    and pk: "BuildPack fresh (S_Snap sn) ver rest prev (journal_head s) (S_Evidence svc) = Inr pk"
    and ver: "(case latest_pack s (S_PackID sn) of None \<Rightarrow> (1, []) | Some p \<Rightarrow> (Version p + 1, Salts p)) = (ver, prev)"
    and s': "s' = set_stage (P_ID r) (decided_stage (DecisionKind d)) (s\<lparr>
      decisions := decisions s @ [decision_row_of r d td inp now],
      packs := packs s @ [\<lparr> K_Payment = P_ID r, K_Seq = Suc (journal_seq s), K_Pack = pk\<lparr>PackID := S_PackID sn, Data := jsonb (Data pk)\<rparr> \<rparr>],
      journal_seq := Suc (journal_seq s), journal_head := PPackHash pk\<rparr>)"
    using rec by (rule record_decision_parts)
  note links = BuildPack_links [OF pk]
  have same: "decisions s' = decisions s @ [decision_row_of r d td inp now]" "snapshots s' = snapshots s"
    "packs s' = packs s @ [\<lparr> K_Payment = P_ID r, K_Seq = Suc (journal_seq s), K_Pack = pk\<lparr>PackID := S_PackID sn, Data := jsonb (Data pk)\<rparr> \<rparr>]"
    "journal_seq s' = Suc (journal_seq s)" "journal_head s' = PPackHash pk"
    by (simp_all add: s' set_stage_def update_payment_def)
  show "journal_ok s'"
    using j links by (simp add: journal_ok_def same chain_snoc decision_row_of_def)
  have snap: "snapshot_of s' i = snapshot_of s i" for i by (simp add: snapshot_of_def same)
  obtain m where m: "snap_root (S_Snap sn) = SHA m" using b snapshot_ofD [OF sn] by (auto simp: bound_def)
  have "D_PackHash (decision_row_of r d td inp now) = snap_root (S_Snap sn)"
    by (simp add: decision_row_of_def root [OF sn] m HexToHash_SHA)
  then show "bound s'"
    using b links sn by (auto simp: bound_def snap same decision_row_of_def)
  have p: "packs_of s' i = (if i = P_ID r then packs_of s i @ [pk\<lparr>PackID := S_PackID sn, Data := jsonb (Data pk)\<rparr>] else packs_of s i)" for i
    by (simp add: packs_of_def same)
  have "ver = int (Suc (length (packs_of s (P_ID r))))" using versioned_latest [OF b v sn, of "[]"] ver by simp
  then show "versioned s'"
    using v links(4) numbers_snoc by (auto simp: versioned_def p simp del: upt_Suc)
qed

end
