(* ===== verification/Service.thy ===== *)
theory Service
  imports Ledger
begin

text \<open>
  The service as a state machine: its database steps by hints, reconciliation, backfill, list loading,
  checks, recommendations, officer decisions, ruleset imports and approvals, and disclosures, in any
  order. A step takes a payment row that may have been read earlier (the worker reads the due rows
  before it runs them), as long as it is of the same origin as the stored one. The operations are those
  of the component theories.

  The lemmas: every step keeps the invariant \<open>service_inv\<close> and what is on record stays on record
  (\<open>later\<close>); a tick of the worker and an HTTP request are sequences of steps. The properties
  follow by induction over the runs that start with the empty database.
\<close>

section \<open>Who may sign\<close>

definition signed_doc :: "service \<Rightarrow> payment_row \<Rightarrow> decision_row \<Rightarrow> typed_data" where
  "signed_doc svc p d = TypedData (S_Crypto svc) (P_Chain p) (P_Deposit p)
     \<lparr> PaymentID = D_Payment d, DecisionKind = D_Kind d, DToken = P_Token p, Amount = P_Amount p,
       DPackHash = HexToHash (D_PackHash d), Nonce = D_Nonce d, Deadline = D_Deadline d \<rparr>"

definition signed_by :: "crypto \<Rightarrow> typed_data \<Rightarrow> string \<Rightarrow> address \<Rightarrow> bool" where
  "signed_by cr td sig a \<longleftrightarrow> (\<exists>h. typed_hash cr td = Some h \<and> Recover cr h sig = Inr a)"

definition by_officer :: "service \<Rightarrow> decision_row \<Rightarrow> bool" where
  "by_officer svc d \<longleftrightarrow> D_Mode d = ''OFFICER_REVIEW'' \<and> \<not> blank (D_Rationale d)
     \<and> (\<exists>o'\<in>set (Officers (S_Cfg svc)). OfficerAddress o' = D_Signer d \<and> Permits (Mask o') (D_Kind d)
          \<and> D_Officer d = Some (OfficerID o'))"

definition approved :: "db \<Rightarrow> string \<Rightarrow> bool" where
  "approved s v \<longleftrightarrow> (\<exists>r\<in>set (rulesets s). R_Version r = v \<and> R_Approval r \<noteq> None)"

definition by_policy :: "service \<Rightarrow> db \<Rightarrow> decision_row \<Rightarrow> bool" where
  "by_policy svc s d \<longleftrightarrow> D_Mode d = ''AUTO_BY_POLICY'' \<and> D_Signer d = SignerAddress (S_Policy svc)
     \<and> (D_Kind d = Credit \<or> D_Kind d = Hold) \<and> D_Nonce d = 1
     \<and> (\<exists>rc v. recommendation_of s (D_Payment d) = Some rc \<and> Auto (N_Rec rc) \<and> N_Ruleset rc = Some v \<and> approved s v
          \<and> Kind (Recommendation (N_Rec rc)) = Some (D_Kind d))"

definition authorised :: "service \<Rightarrow> db \<Rightarrow> decision_row \<Rightarrow> bool" where
  "authorised svc s d \<longleftrightarrow>
     (\<exists>p. payment_by s (D_Payment d) = Some p \<and> signed_by (S_Crypto svc) (signed_doc svc p d) (D_Sig d) (D_Signer d))
     \<and> (by_officer svc d \<or> by_policy svc s d)"

definition ruleset_signed :: "service \<Rightarrow> ruleset_row \<Rightarrow> bool" where
  "ruleset_signed svc r \<longleftrightarrow> R_Hash r = SHA (R_Canonical r)
     \<and> (case R_Approval r of None \<Rightarrow> True
        | Some a \<Rightarrow> ApprovedBy a \<in> set (MLRO (S_Cfg svc))
            \<and> signed_by (S_Crypto svc) (RulesetApproval (HexToHash (R_Hash r)) (R_Version r) (word_of_int (unix_sec (EffectiveFrom a))))
                (ApprovalSig a) (ApprovedBy a))"

definition rulesets_ok :: "service \<Rightarrow> db \<Rightarrow> bool" where
  "rulesets_ok svc s \<longleftrightarrow> distinct (map R_Version (rulesets s)) \<and> (\<forall>r\<in>set (rulesets s). ruleset_signed svc r)"

section \<open>Stages\<close>

definition untouched :: "db \<Rightarrow> hash \<Rightarrow> bool" where
  "untouched s i \<longleftrightarrow> recommendation_of s i = None \<and> snapshot_of s i = None \<and> decisions_of s i = []"

definition recommended :: "db \<Rightarrow> hash \<Rightarrow> bool" where
  "recommended s i \<longleftrightarrow> recommendation_of s i \<noteq> None \<and> snapshot_of s i \<noteq> None"

definition stage_ok :: "db \<Rightarrow> hash \<Rightarrow> stage \<Rightarrow> bool" where
  "stage_ok s i st = (case st of
     ChecksPending \<Rightarrow> untouched s i
   | ChecksDone \<Rightarrow> untouched s i
   | InReview \<Rightarrow> recommended s i \<and> (decisions_of s i = [] \<or> D_Kind (last (decisions_of s i)) = Hold)
   | Decided \<Rightarrow> recommended s i \<and> decisions_of s i \<noteq> [] \<and> D_Kind (last (decisions_of s i)) \<noteq> Hold)"

definition staged_at :: "db \<Rightarrow> hash \<Rightarrow> bool" where
  "staged_at s i \<longleftrightarrow> (case payment_by s i of None \<Rightarrow> untouched s i | Some p \<Rightarrow> stage_ok s i (P_Stage p))"

lemma staged_at_cong:
  assumes "payment_by s' i = payment_by s i" and "recommendation_of s' i = recommendation_of s i"
    and "snapshot_of s' i = snapshot_of s i" and "decisions_of s' i = decisions_of s i"
  shows "staged_at s' i = staged_at s i"
proof -
  have "untouched s' i = untouched s i" "recommended s' i = recommended s i"
    using assms by (simp_all add: untouched_def recommended_def)
  then have "stage_ok s' i st = stage_ok s i st" for st using assms(4) by (cases st) (simp_all add: stage_ok_def)
  then show ?thesis using assms(1) \<open>untouched s' i = untouched s i\<close> by (cases "payment_by s i") (simp_all add: staged_at_def)
qed

definition ledger_inv :: "service \<Rightarrow> db \<Rightarrow> bool" where
  "ledger_inv svc s \<longleftrightarrow> wf_payments s \<and> lawful s \<and> journal_ok s \<and> bound s \<and> versioned s
     \<and> (\<forall>d\<in>set (decisions s). authorised svc s d) \<and> rulesets_ok svc s"

definition service_inv :: "service \<Rightarrow> db \<Rightarrow> bool" where
  "service_inv svc s \<longleftrightarrow> ledger_inv svc s \<and> (\<forall>i. staged_at s i)"

lemma service_inv_empty: "service_inv svc empty_db"
  by (simp add: service_inv_def ledger_inv_def wf_payments_def lawful_def journal_ok_def bound_def versioned_def staged_at_def
      rulesets_ok_def empty_db_def decisions_of_def history_def packs_of_def numbered_def payment_by_def untouched_def
      recommendation_of_def snapshot_of_def Replay_def)

section \<open>What stays on record\<close>

definition later :: "db \<Rightarrow> db \<Rightarrow> bool" where
  "later s s' \<longleftrightarrow> append_only s s'
     \<and> (\<forall>i p. payment_by s i = Some p \<longrightarrow> (\<exists>q. payment_by s' i = Some q \<and> same_origin p q))
     \<and> (\<forall>r\<in>set (rulesets s). R_Approval r \<noteq> None \<longrightarrow> r \<in> set (rulesets s'))"

lemma later_refl [simp]: "later s s"
  by (auto simp: later_def)

lemma later_trans: "later s s' \<Longrightarrow> later s' s'' \<Longrightarrow> later s s''"
  unfolding later_def by (blast intro: append_only_trans same_origin_trans)

lemma find_first_prefix: "prefix xs ys \<Longrightarrow> find_first P xs = Some x \<Longrightarrow> find_first P ys = Some x"
  by (auto simp: prefix_def find_first_append)

lemma later_recommendation: "later s s' \<Longrightarrow> recommendation_of s i = Some rc \<Longrightarrow> recommendation_of s' i = Some rc"
  by (auto simp: later_def append_only_def recommendation_of_def intro: find_first_prefix)

lemma later_approved: "later s s' \<Longrightarrow> approved s v \<Longrightarrow> approved s' v"
  unfolding later_def approved_def by blast

lemma signed_doc_origin: "same_origin p q \<Longrightarrow> signed_doc svc q d = signed_doc svc p d"
  by (simp add: signed_doc_def same_origin_def)

lemma later_authorised:
  assumes "later s s'" and "authorised svc s d"
  shows "authorised svc s' d"
proof -
  obtain p where p: "payment_by s (D_Payment d) = Some p" "signed_by (S_Crypto svc) (signed_doc svc p d) (D_Sig d) (D_Signer d)"
    using assms(2) by (auto simp: authorised_def)
  then obtain q where "payment_by s' (D_Payment d) = Some q" "same_origin p q" using assms(1) unfolding later_def by blast
  moreover have "by_policy svc s d \<Longrightarrow> by_policy svc s' d"
    unfolding by_policy_def using later_recommendation [OF assms(1)] later_approved [OF assms(1)] by blast
  ultimately show ?thesis using assms(2) p(2) by (auto simp: authorised_def signed_doc_origin)
qed

section \<open>Steps that touch no ledger table\<close>

definition same_ledger :: "db \<Rightarrow> db \<Rightarrow> bool" where
  "same_ledger s s' \<longleftrightarrow> recommendations s' = recommendations s \<and> snapshots s' = snapshots s \<and> decisions s' = decisions s
     \<and> packs s' = packs s \<and> journal_seq s' = journal_seq s \<and> journal_head s' = journal_head s \<and> rulesets s' = rulesets s"

definition quiet_row :: "payment_row option \<Rightarrow> payment_row option \<Rightarrow> bool" where
  "quiet_row x y \<longleftrightarrow> (case x of
     None \<Rightarrow> (\<forall>q. y = Some q \<longrightarrow> P_Stage q = ChecksPending \<or> P_Stage q = ChecksDone)
   | Some p \<Rightarrow> (\<exists>q. y = Some q \<and> same_origin p q \<and> (P_Stage q = P_Stage p \<or> P_Stage p = ChecksPending \<and> P_Stage q = ChecksDone)))"

definition quiet :: "db \<Rightarrow> db \<Rightarrow> bool" where
  "quiet s s' \<longleftrightarrow> same_ledger s s' \<and> prefix (check_results s) (check_results s') \<and> prefix (projections s) (projections s')
     \<and> (wf_payments s \<longrightarrow> wf_payments s') \<and> (\<forall>i. quiet_row (payment_by s i) (payment_by s' i))"

lemma quiet_row_Some: "quiet_row (Some p) y \<Longrightarrow> \<exists>q. y = Some q \<and> same_origin p q"
  by (auto simp: quiet_row_def)

lemma quiet_later: "quiet s s' \<Longrightarrow> later s s'"
  unfolding quiet_def later_def same_ledger_def append_only_def using quiet_row_Some by (metis prefix_order.refl)

lemma ledger_lookups:
  assumes "same_ledger s s'"
  shows "recommendation_of s' i = recommendation_of s i" "snapshot_of s' i = snapshot_of s i" "decisions_of s' i = decisions_of s i"
    "history s' i = history s i" "packs_of s' i = packs_of s i" "untouched s' i = untouched s i" "recommended s' i = recommended s i"
  using assms by (simp_all add: same_ledger_def recommendation_of_def snapshot_of_def decisions_of_def history_def packs_of_def
      untouched_def recommended_def)

lemma ledger_stage: "same_ledger s s' \<Longrightarrow> stage_ok s' i st = stage_ok s i st"
  by (cases st) (simp_all add: stage_ok_def ledger_lookups)

lemma quiet_inv:
  assumes q: "quiet s s'" and inv: "service_inv svc s"
  shows "service_inv svc s'"
proof -
  have l: "same_ledger s s'" using q by (simp only: quiet_def)
  note lk = ledger_lookups [OF l]
  have "staged_at s' i" for i
  proof -
    have qr: "quiet_row (payment_by s i) (payment_by s' i)" using q by (simp only: quiet_def)
    have "staged_at s i" using inv by (simp only: service_inv_def)
    then show ?thesis
      using qr by (cases "payment_by s i"; cases "payment_by s' i")
        (auto simp: staged_at_def lk ledger_stage [OF l] quiet_row_def, auto simp: stage_ok_def lk)
  qed
  moreover have "wf_payments s'" using q inv by (simp add: quiet_def service_inv_def ledger_inv_def)
  moreover have "\<forall>d\<in>set (decisions s'). authorised svc s' d"
    using inv l later_authorised [OF quiet_later [OF q]] by (simp add: service_inv_def ledger_inv_def same_ledger_def)
  ultimately show ?thesis
    using inv l by (simp add: service_inv_def ledger_inv_def lawful_def journal_ok_def bound_def versioned_def rulesets_ok_def lk
        same_ledger_def)
qed

subsection \<open>Ingest, lists and checks\<close>

lemma wf_update_payment: "(\<And>p. P_ID (f p) = P_ID p) \<Longrightarrow> wf_payments (update_payment i f s) = wf_payments s"
proof -
  assume "\<And>p. P_ID (f p) = P_ID p"
  then have "map P_ID (payments (update_payment i f s)) = map P_ID (payments s)" by (simp add: update_payment_def)
  then show ?thesis by (simp only: wf_payments_def)
qed

lemma wf_append: "wf_payments s \<Longrightarrow> payment_by s (P_ID r) = None \<Longrightarrow> wf_payments (s\<lparr>payments := payments s @ [r]\<rparr>)"
  by (auto simp: wf_payments_def payment_by_def find_first_None_iff)

lemma row_of_ID [simp]: "P_ID (row_of k d g r) = deposit_id k d"
  by (simp add: row_of_def)

lemma wf_upserts: "wf_payments s \<Longrightarrow> wf_payments (upsertConfirmed k d r s)" "wf_payments s \<Longrightarrow> wf_payments (upsertSeen k d s)"
  by (auto simp: upsertConfirmed_def upsertSeen_def wf_update_payment reconfirm_ID wf_append)

lemma wf_fold: "wf_payments s \<Longrightarrow> wf_payments (fold (\<lambda>d. upsertConfirmed k d (f d)) ds s)"
  by (induction ds arbitrary: s) (auto intro: wf_upserts)

lemma wf_reconcile: "wf_payments s \<Longrightarrow> wf_payments (reconcile_range k c ds b from to s)"
proof -
  assume "wf_payments s"
  then have "wf_payments (fold (\<lambda>d. upsertConfirmed k d (L_Block d \<le> b)) ds s)" by (rule wf_fold)
  moreover have "map P_ID (payments (set_cursor c to (orphan_unconfirmed c from to x))) = map P_ID (payments x)" for x
    by (simp add: set_cursor_def orphan_unconfirmed_def split: option.split)
  ultimately show ?thesis by (simp only: reconcile_range_def wf_payments_def)
qed

lemma wf_Step: "wf_payments s \<Longrightarrow> wf_payments (snd (Step k eth ch s))"
proof -
  assume w: "wf_payments s"
  have sc: "payments (snd (start_cursor c safe s)) = payments s" for c safe by (simp add: start_cursor_def Let_def split: option.split)
  then have "wf_payments (snd (start_cursor c safe s))" for c safe using w by (simp add: wf_payments_def)
  then show ?thesis using w wf_reconcile
    by (auto simp: Step_def Let_def split: sum.split prod.split if_splits) (metis snd_conv)+
qed

lemma quiet_ingest: "ingest_step s s' \<Longrightarrow> (wf_payments s \<Longrightarrow> wf_payments s') \<Longrightarrow> quiet s s'"
proof -
  assume st: "ingest_step s s'" and w: "wf_payments s \<Longrightarrow> wf_payments s'"
  have "quiet_row (payment_by s i) (payment_by s' i)" for i
  proof -
    have "ingested (payment_by s i) (payment_by s' i)" using st by (simp add: ingest_step_def)
    then show ?thesis by (cases "payment_by s i"; cases "payment_by s' i") (auto simp: ingested_def quiet_row_def)
  qed
  moreover have "same_evidence s s'" using st by (simp only: ingest_step_def)
  ultimately show ?thesis using w by (simp add: quiet_def same_evidence_def same_ledger_def)
qed

lemma quiet_handle: "quiet s (snd (handle b64 k ch up raw s))"
  using handle_cases [of b64 k ch up raw s] by (intro quiet_ingest handle_ingest) (auto intro: wf_upserts)

lemma quiet_Step: "quiet s (snd (Step k eth ch s))"
  by (intro quiet_ingest Step_ingest wf_Step)

lemma quiet_Backfill: "Backfill eth ch from' s = Inr (until, s') \<Longrightarrow> quiet s s'"
  by (rule quiet_ingest, erule Backfill_ingest)
    (auto simp: Backfill_def Let_def res_simps wf_payments_def split: if_splits)

text \<open>Nothing but other tables changes.\<close>

lemma quiet_same:
  "same_ledger s s' \<Longrightarrow> payments s' = payments s \<Longrightarrow> prefix (check_results s) (check_results s')
     \<Longrightarrow> prefix (projections s) (projections s') \<Longrightarrow> quiet s s'"
  by (auto simp: quiet_def wf_payments_def payment_by_def quiet_row_def split: option.split)

lemma quiet_trans: "quiet s s' \<Longrightarrow> quiet s' s'' \<Longrightarrow> quiet s s''"
proof -
  assume q: "quiet s s'" "quiet s' s''"
  have "quiet_row (payment_by s i) (payment_by s'' i)" for i
  proof -
    have "quiet_row (payment_by s i) (payment_by s' i)" "quiet_row (payment_by s' i) (payment_by s'' i)" using q by (simp_all only: quiet_def)
    then show ?thesis
      by (cases "payment_by s i"; cases "payment_by s' i"; cases "payment_by s'' i") (auto simp: quiet_row_def intro: same_origin_trans)
  qed
  then show ?thesis using q by (auto simp: quiet_def same_ledger_def)
qed

lemma quiet_upsert_list: "quiet s (snd (upsert_list now n v h c s))"
  by (rule quiet_same) (auto simp: upsert_list_def Let_def same_ledger_def split: option.split)

lemma quiet_load_lists: "quiet s (snd (load_lists read now cfgs s))"
proof (induction cfgs arbitrary: s)
  case Nil
  show ?case by (rule quiet_same) (simp_all add: same_ledger_def)
next
  case (Cons c cfgs)
  show ?case
  proof (cases "read (ListPath c)")
    case None
    then show ?thesis by (auto intro!: quiet_same simp: same_ledger_def)
  next
    case (Some raw)
    let ?u = "upsert_list now (ListName c) (ListVersion c) (SHA raw) (length (list_entries raw)) s"
    have "snd (load_lists read now (c # cfgs) s) = snd (load_lists read now cfgs (snd ?u))"
      by (simp add: Some Let_def split_def)
    then show ?thesis using quiet_trans [OF quiet_upsert_list Cons.IH] by metis
  qed
qed

lemma quiet_insert_checks: "insert_checks cs s = Inr s' \<Longrightarrow> quiet s s' \<and> payments s' = payments s"
proof (induction cs arbitrary: s)
  case Nil
  then show ?case by (auto intro!: quiet_same simp: same_ledger_def)
next
  case (Cons c cs)
  then obtain s1 where s1: "insert_check c s = Inr s1" "insert_checks cs s1 = Inr s'" by (auto simp: res_simps)
  have "quiet s s1 \<and> payments s1 = payments s"
    using s1(1) by (auto simp: insert_check_def same_ledger_def intro!: quiet_same split: if_splits)
  then show ?case using Cons.IH [OF s1(2)] quiet_trans by auto
qed

lemma quiet_checks_done: "quiet s (checks_done i s)"
proof -
  have "quiet_row (payment_by s j) (payment_by (checks_done i s) j)" for j
    by (auto simp: checks_done_def payment_by_update quiet_row_def same_origin_def split: option.split)
  moreover have "wf_payments s \<longrightarrow> wf_payments (checks_done i s)" by (simp add: checks_done_def wf_update_payment)
  ultimately show ?thesis by (auto simp: quiet_def checks_done_def update_payment_def same_ledger_def)
qed

lemma quiet_check_step: "check_payment_step svc checks env r (s, raw) = (Inr s', raw') \<Longrightarrow> quiet s s'"
  by (auto simp: check_payment_step_def res_simps split: sum.splits prod.splits
      dest!: quiet_insert_checks intro: quiet_trans quiet_checks_done)

subsection \<open>Pending requests and disclosures\<close>

lemma quiet_typed: "OfficerTypedData svc now i k s = Inr (doc, s') \<Longrightarrow> quiet s s'"
  by (auto simp: OfficerTypedData_def upsert_pending_def res_simps same_ledger_def intro!: quiet_same split: if_splits)

lemma quiet_project: "ProjectPack svc now packID r s = Inr (copy, s') \<Longrightarrow> quiet s s'"
  by (erule ProjectPack_parts) (auto simp: same_ledger_def intro!: quiet_same)

section \<open>Rulesets\<close>

lemma inv_rulesets:
  assumes "service_inv svc s" and "later s (s\<lparr>rulesets := rs\<rparr>)" and "rulesets_ok svc (s\<lparr>rulesets := rs\<rparr>)"
  shows "service_inv svc (s\<lparr>rulesets := rs\<rparr>)"
proof -
  let ?s = "s\<lparr>rulesets := rs\<rparr>"
  have "\<forall>d\<in>set (decisions ?s). authorised svc ?s d"
    using assms(1) later_authorised [OF assms(2)] by (simp add: service_inv_def ledger_inv_def)
  moreover have "staged_at ?s i = staged_at s i" for i
    by (rule staged_at_cong) (simp_all add: payment_by_def recommendation_of_def snapshot_of_def decisions_of_def)
  moreover have "lawful ?s = lawful s" "journal_ok ?s = journal_ok s" "versioned ?s = versioned s" "wf_payments ?s = wf_payments s"
    "bound ?s = bound s"
    by (simp_all add: lawful_def history_def decisions_of_def journal_ok_def versioned_def packs_of_def wf_payments_def bound_def snapshot_of_def)
  ultimately show ?thesis using assms(1,3) by (simp add: service_inv_def ledger_inv_def)
qed

lemma later_rulesets:
  "(\<And>r. r \<in> set (rulesets s) \<Longrightarrow> R_Approval r \<noteq> None \<Longrightarrow> r \<in> set rs) \<Longrightarrow> later s (s\<lparr>rulesets := rs\<rparr>)"
  by (auto simp: later_def append_only_def payment_by_def)

lemma import_cases:
  assumes "ImportRuleset raw s = Inr ((v, h), s')"
  obtains "s' = s"
  | c where "ruleset_by s v = None" and "h = SHA c"
    and "s' = s\<lparr>rulesets := rulesets s @ [\<lparr> R_Version = v, R_Canonical = c, R_Hash = h, R_Approval = None \<rparr>]\<rparr>"
proof (cases "Parse raw")
  case (Inr p)
  obtain rs c h' where p: "p = (rs, c, h')" by (cases p)
  show ?thesis
  proof (cases "ruleset_by s (RVersion rs)")
    case None
    then show ?thesis using assms Parse_ok [of raw rs c h'] that(2) [of c] by (auto simp: ImportRuleset_def Inr p split: if_splits)
  next
    case (Some r)
    then have "s' = s" using assms by (auto simp: ImportRuleset_def Inr p res_simps split: if_splits dest: update_ruleset_id)
    then show ?thesis by (rule that(1))
  qed
qed (use assms in \<open>simp add: ImportRuleset_def\<close>)

lemma import_inv:
  assumes "ImportRuleset raw s = Inr ((v, h), s')" and "service_inv svc s"
  shows "service_inv svc s' \<and> later s s'"
  using assms(1)
proof (rule import_cases)
  fix c
  assume n: "ruleset_by s v = None" and h: "h = SHA c"
    and s': "s' = s\<lparr>rulesets := rulesets s @ [\<lparr> R_Version = v, R_Canonical = c, R_Hash = h, R_Approval = None \<rparr>]\<rparr>"
  have l: "later s s'" unfolding s' by (rule later_rulesets) simp
  have "rulesets_ok svc s" using assms(2) by (simp only: service_inv_def ledger_inv_def)
  then have "rulesets_ok svc s'"
    using n by (auto simp: s' rulesets_ok_def ruleset_signed_def h ruleset_by_def find_first_None_iff)
  then show ?thesis using inv_rulesets [OF assms(2) l [unfolded s']] l by (simp add: s')
qed (use assms(2) in simp)

lemma unix_from_unix [simp]: "unix_sec (from_unix x) = x"
  by (simp add: unix_sec_def from_unix_def)

lemma approve_parts:
  assumes "ApproveRuleset svc now v ef sig s = Inr (a, s')"
  obtains r where "ruleset_by s v = Some r" and "R_Approval r = None" and "a \<in> set (MLRO (S_Cfg svc))"
    and "signed_by (S_Crypto svc) (RulesetApproval (HexToHash (R_Hash r)) v (word_of_int (unix_sec ef))) sig a"
    and "\<not> list_ex (\<lambda>r. R_Version r = v \<and> R_Approval r \<noteq> None) (rulesets s)"
    and "s' = s\<lparr>rulesets := map (\<lambda>r. if R_Version r = v then r\<lparr>R_Approval := Some \<lparr> ApprovedBy = a, ApprovalSig = sig,
        EffectiveFrom = from_unix (unix_sec ef), ApprovedAt = now \<rparr>\<rparr> else r) (rulesets s)\<rparr>"
proof (cases "ruleset_by s v")
  case (Some r)
  then show ?thesis
    using assms that [of r] by (auto simp: ApproveRuleset_def res_simps VerifyApproval_iff update_ruleset_def signed_by_def split: if_splits)
qed (use assms in \<open>simp add: ApproveRuleset_def\<close>)

lemma approve_inv:
  assumes "ApproveRuleset svc now v ef sig s = Inr (a, s')" and inv: "service_inv svc s"
  shows "service_inv svc s' \<and> later s s'"
  using assms(1)
proof (rule approve_parts)
  fix r
  let ?a = "Some \<lparr> ApprovedBy = a, ApprovalSig = sig, EffectiveFrom = from_unix (unix_sec ef), ApprovedAt = now \<rparr>"
  let ?f = "\<lambda>r. if R_Version r = v then r\<lparr>R_Approval := ?a\<rparr> else r"
  assume r: "ruleset_by s v = Some r" and m: "a \<in> set (MLRO (S_Cfg svc))"
    and sg: "signed_by (S_Crypto svc) (RulesetApproval (HexToHash (R_Hash r)) v (word_of_int (unix_sec ef))) sig a"
    and n: "\<not> list_ex (\<lambda>r. R_Version r = v \<and> R_Approval r \<noteq> None) (rulesets s)"
    and s': "s' = s\<lparr>rulesets := map ?f (rulesets s)\<rparr>"
  have ok: "distinct (map R_Version (rulesets s))" "\<forall>r\<in>set (rulesets s). ruleset_signed svc r"
    using inv by (simp_all add: service_inv_def ledger_inv_def rulesets_ok_def)
  have "x \<in> set (map ?f (rulesets s))" if "x \<in> set (rulesets s)" "R_Approval x \<noteq> None" for x
    using that n by (auto simp: list_ex_iff image_iff intro!: bexI [of _ x])
  then have l: "later s s'" unfolding s' by (rule later_rulesets)
  have "ruleset_signed svc (?f x)" if x: "x \<in> set (rulesets s)" for x
  proof (cases "R_Version x = v")
    case True
    have "r \<in> set (rulesets s)" "R_Version r = v" using r by (auto simp: ruleset_by_def dest: find_first_SomeD)
    then have "x = r" using ok(1) x True by (auto simp: distinct_map inj_on_def)
    then show ?thesis using ok(2) x True sg m by (simp add: ruleset_signed_def)
  qed (use ok(2) x in simp)
  then have "\<forall>r\<in>set (map ?f (rulesets s)). ruleset_signed svc r" unfolding set_map by (intro ballI) (erule imageE, simp only:)
  moreover have "map R_Version (map ?f (rulesets s)) = map R_Version (rulesets s)" by simp
  moreover have "rulesets s' = map ?f (rulesets s)" unfolding s' by simp
  ultimately have "rulesets_ok svc s'" using ok(1) by (simp only: rulesets_ok_def)
  then show ?thesis using inv_rulesets [OF inv l [unfolded s']] l by (simp add: s')
qed

section \<open>Recorded decisions\<close>

lemma payment_by_set_stage: "payment_by (set_stage i st s) j
    = (if j = i then map_option (\<lambda>p. p\<lparr>P_Stage := st\<rparr>) (payment_by s j) else payment_by s j)"
  by (simp add: set_stage_def payment_by_update)

lemma wf_set_stage: "wf_payments (set_stage i st s) = wf_payments s"
  by (simp add: set_stage_def wf_update_payment)

lemma same_origin_stage [simp]: "same_origin p (p\<lparr>P_Stage := st\<rparr>)"
  by (simp add: same_origin_def)

lemma payment_by_tables [simp]:
  "payment_by (s\<lparr>decisions := x\<rparr>) i = payment_by s i" "payment_by (s\<lparr>packs := y\<rparr>) i = payment_by s i"
  "payment_by (s\<lparr>journal_seq := n\<rparr>) i = payment_by s i" "payment_by (s\<lparr>journal_head := h\<rparr>) i = payment_by s i"
  "payment_by (s\<lparr>recommendations := rs\<rparr>) i = payment_by s i" "payment_by (s\<lparr>snapshots := ss\<rparr>) i = payment_by s i"
  "payment_by (s\<lparr>pendings := qs\<rparr>) i = payment_by s i"
  by (simp_all add: payment_by_def)

text \<open>What a recorded decision leaves as it was, and the row it adds.\<close>

lemma record_effect:
  assumes "record_decision svc now fresh r d td inp s = Inr (out, s')"
  shows "decisions s' = decisions s @ [decision_row_of r d td inp now]" and "rulesets s' = rulesets s"
    and "recommendations s' = recommendations s" and "snapshots s' = snapshots s"
    and "payment_by s' j = (if j = P_ID r then map_option (\<lambda>p. p\<lparr>P_Stage := decided_stage (DecisionKind d)\<rparr>) (payment_by s j) else payment_by s j)"
    and "append_only s s'" and "wf_payments s' = wf_payments s" and "unat (Nonce d) < 2 ^ 63" and "recommended s' j = recommended s j"
proof -
  obtain sn :: snap_row and pk where n: "unat (Nonce d) < 2 ^ 63" and s': "s' = set_stage (P_ID r) (decided_stage (DecisionKind d)) (s\<lparr>
      decisions := decisions s @ [decision_row_of r d td inp now],
      packs := packs s @ [\<lparr> K_Payment = P_ID r, K_Seq = Suc (journal_seq s), K_Pack = pk\<lparr>PackID := S_PackID sn, Data := jsonb (Data pk)\<rparr> \<rparr>],
      journal_seq := Suc (journal_seq s), journal_head := PPackHash pk\<rparr>)"
    using assms by (elim record_decision_parts) (rule that)
  show "payment_by s' j = (if j = P_ID r then map_option (\<lambda>p. p\<lparr>P_Stage := decided_stage (DecisionKind d)\<rparr>) (payment_by s j) else payment_by s j)"
    by (simp add: s' payment_by_set_stage)
  show "wf_payments s' = wf_payments s" by (simp add: s' wf_set_stage) (simp add: wf_payments_def)
  show "recommended s' j = recommended s j" by (simp add: s' recommended_def recommendation_of_def snapshot_of_def set_stage_def)
  show "decisions s' = decisions s @ [decision_row_of r d td inp now]" "rulesets s' = rulesets s"
    "recommendations s' = recommendations s" "snapshots s' = snapshots s" "append_only s s'" "unat (Nonce d) < 2 ^ 63"
    using n by (simp_all add: s' append_only_def set_stage_def)
qed

lemma record_later: "record_decision svc now fresh r d td inp s = Inr (out, s') \<Longrightarrow> later s s'"
proof -
  assume rec: "record_decision svc now fresh r d td inp s = Inr (out, s')"
  note e = record_effect [OF rec]
  have "\<exists>q. payment_by s' i = Some q \<and> same_origin p q" if "payment_by s i = Some p" for i p
    using that by (auto simp: e(5))
  then show ?thesis using e(2,6) by (simp add: later_def)
qed

text \<open>A decision prepared on the database it is recorded in, under a signature that holds for its row.\<close>

lemma record_inv:
  assumes inv: "ledger_inv svc s" and prep: "prepare svc now s r k = Inr (d0, td0)"
    and rec: "record_decision svc now fresh r (d0\<lparr>Deadline := dl\<rparr>) td inp s = Inr (out, s')"
    and auth: "authorised svc s (decision_row_of r (d0\<lparr>Deadline := dl\<rparr>) td inp now)"
  shows "ledger_inv svc s'"
proof -
  let ?d = "d0\<lparr>Deadline := dl\<rparr>" and ?row = "decision_row_of r (d0\<lparr>Deadline := dl\<rparr>) td inp now"
  note e = record_effect [OF rec] and l = record_later [OF rec]
  obtain sn where sn: "snapshot_of s (P_ID r) = Some sn" and h: "DPackHash d0 = HexToHash (snap_root (S_Snap sn))" and k: "DecisionKind d0 = k"
    using prep by (rule prepare_parts) auto
  have keep: "journal_ok s'" "bound s'" "versioned s'"
    using record_keeps [OF rec] inv sn h by (simp_all add: ledger_inv_def)
  have "lawful s'"
    using inv e(8) by (intro lawful_snoc [OF _ prep e(1)]) (simp_all add: ledger_inv_def decision_row_of_def k)
  moreover have "\<forall>d\<in>set (decisions s'). authorised svc s' d"
    using inv auth later_authorised [OF l] by (auto simp: e(1) ledger_inv_def)
  moreover have "rulesets_ok svc s'" using inv by (simp add: ledger_inv_def rulesets_ok_def e(2))
  ultimately show ?thesis using inv keep e(7) by (simp add: ledger_inv_def)
qed

lemma record_staged:
  assumes rec: "record_decision svc now fresh r d td inp s = Inr (out, s')"
    and others: "\<And>i. i \<noteq> P_ID r \<Longrightarrow> staged_at s i" and p: "payment_by s (P_ID r) = Some p" and rc: "recommended s (P_ID r)"
  shows "staged_at s' i"
proof (cases "i = P_ID r")
  case True
  note e = record_effect [OF rec]
  have "decisions_of s' i = decisions_of s i @ [decision_row_of r d td inp now]"
    by (simp add: decisions_of_def e(1) True decision_row_of_def)
  moreover have "D_Kind (decision_row_of r d td inp now) = DecisionKind d" by (simp add: decision_row_of_def)
  ultimately show ?thesis
    using p rc True e(9) [of i] by (simp add: staged_at_def e(5) stage_ok_def decided_stage_def)
next
  case False
  note e = record_effect [OF rec]
  have "staged_at s' i = staged_at s i"
    by (rule staged_at_cong) (use False in \<open>simp_all add: e(1-5) recommendation_of_def snapshot_of_def decisions_of_def decision_row_of_def\<close>)
  then show ?thesis using others [OF False] by simp
qed

section \<open>Officers decide\<close>

lemma inv_pendings: "service_inv svc (s\<lparr>pendings := q\<rparr>) = service_inv svc s" "later s (t\<lparr>pendings := q\<rparr>) = later s t"
proof -
  have "quiet s (s\<lparr>pendings := q\<rparr>)" "quiet (s\<lparr>pendings := q\<rparr>) s" by (auto intro!: quiet_same simp: same_ledger_def)
  then show "service_inv svc (s\<lparr>pendings := q\<rparr>) = service_inv svc s" using quiet_inv by blast
  show "later s (t\<lparr>pendings := q\<rparr>) = later s t" by (simp add: later_def append_only_def)
qed

lemma OfficerDecide_parts:
  assumes "OfficerDecide svc now fresh i k sig rationale s = Inr (out, s')"
  obtains r d0 td0 d td reasons ref s1 and q :: pending_row and o' :: officer where "\<not> blank rationale" and "payment_by s i = Some r" and "prepare svc now s r k = Inr (d0, td0)"
    and "d = d0\<lparr>Deadline := Q_Deadline q\<rparr>" and "td = TypedData (S_Crypto svc) (P_Chain r) (P_Deposit r) d"
    and "VerifyOfficer (S_Crypto svc) td sig k (Officers (S_Cfg svc)) = Inr o'" and "recommendation_of s i \<noteq> None"
    and "record_decision svc now fresh r d td \<lparr> RI_Mode = ''OFFICER_REVIEW'', RI_PolicyRef = ref, RI_Reasons = reasons,
      RI_Rationale = rationale, RI_Officer = Some (OfficerID o'), RI_Signer = OfficerAddress o', RI_Sig = sig \<rparr> s = Inr (out, s1)"
    and "s' = s1\<lparr>pendings := filter (\<lambda>((j, k), q). j \<noteq> i) (pendings s1)\<rparr>"
proof -
  obtain r d0 td0 and q :: pending_row where b: "\<not> blank rationale" and r: "payment_by s i = Some r" and q: "live_pending now s i k = Inr q"
    and p: "prepare svc now s r k = Inr (d0, td0)" and n: "Nonce d0 = Q_Nonce q"
    using assms by (auto simp: OfficerDecide_def lockPayment_def res_simps split: if_splits)
  let ?d = "d0\<lparr>Deadline := Q_Deadline q\<rparr>"
  let ?td = "TypedData (S_Crypto svc) (P_Chain r) (P_Deposit r) ?d"
  let ?inp = "\<lambda>o' rc. \<lparr> RI_Mode = ''OFFICER_REVIEW'', RI_PolicyRef = PolicyRef (N_Rec rc), RI_Reasons = Reasons (N_Rec rc),
      RI_Rationale = rationale, RI_Officer = Some (OfficerID o'), RI_Signer = OfficerAddress o', RI_Sig = sig \<rparr>"
  obtain o' :: officer where o': "VerifyOfficer (S_Crypto svc) ?td sig k (Officers (S_Cfg svc)) = Inr o'"
    using assms b n by (auto simp: OfficerDecide_def lockPayment_def r q p Let_def res_simps)
  obtain rc where rc: "recommendation_of s i = Some rc"
    using assms b n by (auto simp: OfficerDecide_def lockPayment_def r q p o' Let_def res_simps recommendationReasons_def split: option.splits)
  have "map_res (\<lambda>(out, s'). (out, drop_pending i s')) (record_decision svc now fresh r ?d ?td (?inp o' rc) s) = Inr (out, s')"
    using assms b n by (simp add: OfficerDecide_def lockPayment_def r q p o' rc Let_def recommendationReasons_def)
  then obtain s1 where "record_decision svc now fresh r ?d ?td (?inp o' rc) s = Inr (out, s1)" "s' = drop_pending i s1"
    by (auto simp: res_simps)
  then show ?thesis using rc by (intro that [OF b r p refl refl o']) (simp_all add: drop_pending_def)
qed

lemma officer_inv:
  assumes "OfficerDecide svc now fresh i k sig rationale s = Inr (out, s')" and inv: "service_inv svc s"
  shows "service_inv svc s' \<and> later s s'"
  using assms(1)
proof (rule OfficerDecide_parts)
  fix r d0 td0 d td reasons ref s1 and q :: pending_row and o' :: officer
  let ?inp = "\<lparr> RI_Mode = ''OFFICER_REVIEW'', RI_PolicyRef = ref, RI_Reasons = reasons,
      RI_Rationale = rationale, RI_Officer = Some (OfficerID o'), RI_Signer = OfficerAddress o', RI_Sig = sig \<rparr>"
  assume b: "\<not> blank rationale" and r: "payment_by s i = Some r" and p: "prepare svc now s r k = Inr (d0, td0)"
    and d: "d = d0\<lparr>Deadline := Q_Deadline q\<rparr>" and td: "td = TypedData (S_Crypto svc) (P_Chain r) (P_Deposit r) d"
    and o': "VerifyOfficer (S_Crypto svc) td sig k (Officers (S_Cfg svc)) = Inr o'" and rc: "recommendation_of s i \<noteq> None"
    and rec: "record_decision svc now fresh r d td ?inp s = Inr (out, s1)"
    and s': "s' = s1\<lparr>pendings := filter (\<lambda>((j, k), q). j \<noteq> i) (pendings s1)\<rparr>"
  have i: "P_ID r = i" by (rule payment_by_ID [OF r])
  obtain sn where sn: "snapshot_of s i = Some sn" and d0: "d0 = \<lparr> PaymentID = i, DecisionKind = k, DToken = P_Token r, Amount = P_Amount r,
        DPackHash = HexToHash (snap_root (S_Snap sn)), Nonce = foldl max 0 (map D_Nonce (past_decisions s (P_ID r))) + 1,
        Deadline = word_of_int (unix_sec (now + DecisionTTL (S_Cfg svc))) \<rparr>"
    using p by (rule prepare_parts) (simp add: i)
  obtain m where m: "snap_root (S_Snap sn) = SHA m"
    using inv snapshot_ofD [OF sn] by (auto simp: service_inv_def ledger_inv_def bound_def)
  have td': "signed_doc svc r (decision_row_of r d td ?inp now) = td"
    by (simp add: signed_doc_def decision_row_of_def td d d0 i m HexToHash_SHA)
  let ?row = "decision_row_of r d td ?inp now"
  have f: "D_Payment ?row = i" "D_Sig ?row = sig" "D_Signer ?row = OfficerAddress o'" by (simp_all add: decision_row_of_def i)
  have "signed_by (S_Crypto svc) (signed_doc svc r ?row) sig (OfficerAddress o')"
    unfolding td' using o' by (auto simp: signed_by_def VerifyOfficer_iff)
  moreover have "by_officer svc ?row"
    using o' b by (auto simp: by_officer_def decision_row_of_def VerifyOfficer_iff d d0 dest: find_first_SomeD)
  ultimately have "authorised svc s ?row" unfolding authorised_def f using r by blast
  then have "ledger_inv svc s1" using record_inv [OF _ p rec [unfolded d]] inv by (simp add: service_inv_def d)
  moreover have "staged_at s1 j" for j
    using inv r sn rc by (intro record_staged [OF rec]) (auto simp: service_inv_def recommended_def i)
  ultimately show ?thesis using record_later [OF rec] by (simp add: s' inv_pendings service_inv_def [of svc s1])
qed

section \<open>Recommendations\<close>

lemma rulesetAt_approved:
  assumes "rulesetAt s t = Inr (Some e)"
  shows "approved s (F_Version e)"
proof -
  obtain r where r: "ruleset_row_at s t = Some r"
    using assms by (auto simp: rulesetAt_def split: option.splits)
  then obtain a where a: "R_Approval r = Some a" and e: "F_Version e = R_Version r"
    using assms by (auto simp: rulesetAt_def split: sum.splits option.splits)
  have "r \<in> set (filter (in_force t) (rulesets s))"
    using r unfolding ruleset_row_at_def Let_def by (auto dest: find_first_SomeD)
  then show ?thesis unfolding approved_def using a e by auto
qed

text \<open>The database once recommendation and snapshot are stored.\<close>

definition stored :: "rec_row \<Rightarrow> snap_row \<Rightarrow> db \<Rightarrow> db" where
  "stored rc sn s = s\<lparr>recommendations := recommendations s @ [rc], snapshots := snapshots s @ [sn]\<rparr>"

lemma stored_lookups:
  assumes "untouched s i" and "N_Payment rc = i" and "S_Payment sn = i"
  shows "recommendation_of (stored rc sn s) j = (if j = i then Some rc else recommendation_of s j)"
    and "snapshot_of (stored rc sn s) j = (if j = i then Some sn else snapshot_of s j)"
    and "decisions_of (stored rc sn s) j = decisions_of s j" and "payment_by (stored rc sn s) j = payment_by s j"
    and "recommended (stored rc sn s) i"
  using assms
  by (auto simp: stored_def recommendation_of_def snapshot_of_def decisions_of_def payment_by_def untouched_def recommended_def
      find_first_append split: option.split)

lemma stored_later: "later s (stored rc sn s)"
  by (simp add: later_def append_only_def stored_def payment_by_def)

lemma stored_ledger:
  assumes inv: "ledger_inv svc s" and u: "untouched s i" and i: "N_Payment rc = i" "S_Payment sn = i"
    and root: "\<exists>b. snap_root (S_Snap sn) = SHA b" and fresh: "S_PackID sn \<notin> set (map S_PackID (snapshots s))"
  shows "ledger_inv svc (stored rc sn s)"
proof -
  let ?s = "stored rc sn s"
  note l = stored_lookups [OF u i]
  have same: "decisions ?s = decisions s" "packs ?s = packs s" "rulesets ?s = rulesets s" "snapshots ?s = snapshots s @ [sn]"
    "journal_seq ?s = journal_seq s" "journal_head ?s = journal_head s" "payments ?s = payments s"
    by (simp_all add: stored_def)
  have kept: "snapshot_of ?s j = Some x" if "snapshot_of s j = Some x" for j x
    using that u by (simp add: l(2) untouched_def) auto
  have b: "bound s" using inv by (simp only: ledger_inv_def)
  have "bound ?s"
    unfolding bound_def same
  proof (intro conjI ballI)
    fix x assume "x \<in> set (snapshots s @ [sn])"
    then show "\<exists>b. snap_root (S_Snap x) = SHA b" using b root by (auto simp: bound_def)
  next
    show "distinct (map S_PackID (snapshots s @ [sn]))" using b fresh by (simp add: bound_def)
  next
    fix k assume "k \<in> set (packs s)"
    then show "\<exists>x. snapshot_of ?s (K_Payment k) = Some x \<and> PackID (K_Pack k) = S_PackID x \<and> PEvidenceRoot (K_Pack k) = snap_root (S_Snap x)"
      using b kept unfolding bound_def by blast
  next
    fix d assume "d \<in> set (decisions s)"
    then show "\<exists>x. snapshot_of ?s (D_Payment d) = Some x \<and> D_PackHash d = snap_root (S_Snap x)"
      using b kept unfolding bound_def by blast
  qed
  moreover have "\<forall>d\<in>set (decisions ?s). authorised svc ?s d"
    using inv later_authorised [OF stored_later] by (simp add: same ledger_inv_def)
  moreover have "wf_payments ?s" using inv by (simp add: ledger_inv_def wf_payments_def same)
  ultimately show ?thesis
    using inv by (simp add: ledger_inv_def lawful_def history_def journal_ok_def versioned_def packs_of_def rulesets_ok_def same l(3))
qed

text \<open>What a recommendation stores before it decides or leaves the payment to an officer.\<close>

lemma insert_snapshot_ok: "insert_snapshot x s = Inr s' \<longleftrightarrow>
    \<not> list_ex (\<lambda>y. S_Payment y = S_Payment x \<or> S_PackID y = S_PackID x) (snapshots s)
    \<and> s' = s\<lparr>snapshots := snapshots s @ [x\<lparr>S_Snap := (S_Snap x)\<lparr>snap_data := jsonb (snap_data (S_Snap x))\<rparr>\<rparr>]\<rparr>"
  by (auto simp: insert_snapshot_def)

lemma recommend_parts:
  assumes "recommend svc now rnd fresh r s = Inr s'"
  obtains "s' = s" and "\<And>p. payment_by s (P_ID r) = Some p \<Longrightarrow> P_Stage p \<noteq> ChecksDone"
  | p eur eff rc inp snap packID sn s2 where "payment_by s (P_ID r) = Some p" and "P_Stage p = ChecksDone"
    and "snapshot_for svc rnd fresh r (checks_of s (P_ID r)) eur eff rc inp = Inr (snap, packID)"
    and "sn = \<lparr> S_Payment = P_ID r, S_PackID = packID, S_Snap = snap\<lparr>snap_data := jsonb (snap_data snap)\<rparr> \<rparr>"
    and "rulesetAt s (P_BlockTime r) = Inr eff" and "recommendation_for eff inp = Inr rc"
    and "S_Payment sn = P_ID r" and "\<exists>b. snap_root (S_Snap sn) = SHA b" and "S_PackID sn \<notin> set (map S_PackID (snapshots s))"
    and "s2 = stored (rec_row_of svc now (P_ID r) eff rc inp) sn s"
    and "if automatic eff rc then decideAuto svc now fresh r (the (Kind (Recommendation rc))) rc s2 = Inr s'
         else s' = set_stage (P_ID r) InReview s2"
proof (cases "payment_by s (P_ID r)")
  case (Some p)
  show ?thesis
  proof (cases "P_Stage p = ChecksDone")
    case True
    let ?cs = "checks_of s (P_ID r)"
    obtain eur eff rc s1 where eur: "amountEUR svc r = Inr eur" and eff: "rulesetAt s (P_BlockTime r) = Inr eff"
      and rc: "recommendation_for eff (inputs_of ?cs eur) = Inr rc"
      and s1: "insert_recommendation (rec_row_of svc now (P_ID r) eff rc (inputs_of ?cs eur)) s = Inr s1"
      using assms True by (auto simp: recommend_def Some Let_def res_simps)
    obtain snap packID s2 where sn: "snapshot_for svc rnd fresh r ?cs eur eff rc (inputs_of ?cs eur) = Inr (snap, packID)"
      and s2: "insert_snapshot \<lparr> S_Payment = P_ID r, S_PackID = packID, S_Snap = snap \<rparr> s1 = Inr s2"
      using assms True by (auto simp: recommend_def Some Let_def res_simps eur eff rc s1)
    let ?sn = "\<lparr> S_Payment = P_ID r, S_PackID = packID, S_Snap = snap\<lparr>snap_data := jsonb (snap_data snap)\<rparr> \<rparr>"
    have "\<exists>b. snap_root (S_Snap ?sn) = SHA b"
      using sn by (auto simp: snapshot_for_def res_simps Let_def split: prod.splits dest: NewSnapshot_root)
    moreover have "S_PackID ?sn \<notin> set (map S_PackID (snapshots s))"
      using s1 s2 by (auto simp: insert_snapshot_ok insert_recommendation_ok list_ex_iff)
    moreover have "s2 = stored (rec_row_of svc now (P_ID r) eff rc (inputs_of ?cs eur)) ?sn s"
      using s1 s2 by (auto simp: insert_snapshot_ok insert_recommendation_ok stored_def)
    moreover have "if automatic eff rc then decideAuto svc now fresh r (the (Kind (Recommendation rc))) rc s2 = Inr s'
         else s' = set_stage (P_ID r) InReview s2"
      using assms True by (auto simp: recommend_def Some Let_def eur eff rc s1 sn s2)
    ultimately show ?thesis using Some True eff rc by (intro that(2) [OF _ _ sn]) simp_all
  next
    case False
    then have "s' = s" using assms Some by (simp add: recommend_def)
    then show ?thesis using False Some by (intro that(1)) simp_all
  qed
qed (use assms in \<open>simp add: recommend_def\<close>)

lemma decideAuto_parts:
  assumes "decideAuto svc now fresh r k rc s = Inr s'"
  obtains d td h sig out where "prepare svc now s r k = Inr (d, td)" and "typed_hash (S_Crypto svc) td = Some h"
    and "SignerSign (S_Policy svc) h = Some sig"
    and "record_decision svc now fresh r d td
       \<lparr> RI_Mode = ''AUTO_BY_POLICY'', RI_PolicyRef = PolicyRef rc, RI_Reasons = Reasons rc,
         RI_Rationale = ''Automatic under policy '' @ PolicyRef rc, RI_Officer = None,
         RI_Signer = SignerAddress (S_Policy svc), RI_Sig = sig \<rparr> s = Inr (out, s')"
  using assms by (auto simp: decideAuto_def Digest_def res_simps)

text \<open>An automatic decision is the first of its payment, under the recommendation stored for it.\<close>

lemma auto_authorised:
  assumes pol: "signs_for (S_Crypto svc) (S_Policy svc)" and inv: "ledger_inv svc s"
    and p: "payment_by s (P_ID r) = Some p" and o': "same_origin r p"
    and prep: "prepare svc now s r k = Inr (d, td)" and h: "typed_hash (S_Crypto svc) td = Some h"
    and sig: "SignerSign (S_Policy svc) h = Some sig" and first: "decisions_of s (P_ID r) = []"
    and rc: "recommendation_of s (P_ID r) = Some x" "Auto (N_Rec x)" "N_Ruleset x = Some v" "approved s v"
      "Kind (Recommendation (N_Rec x)) = Some k" "k = Credit \<or> k = Hold"
    and inp: "RI_Mode inp = ''AUTO_BY_POLICY''" "RI_Signer inp = SignerAddress (S_Policy svc)" "RI_Sig inp = sig"
  shows "authorised svc s (decision_row_of r d td inp now)"
proof -
  let ?row = "decision_row_of r d td inp now"
  obtain sn where sn: "snapshot_of s (P_ID r) = Some sn" and d: "d = \<lparr> PaymentID = P_ID r, DecisionKind = k, DToken = P_Token r,
        Amount = P_Amount r, DPackHash = HexToHash (snap_root (S_Snap sn)),
        Nonce = foldl max 0 (map D_Nonce (past_decisions s (P_ID r))) + 1,
        Deadline = word_of_int (unix_sec (now + DecisionTTL (S_Cfg svc))) \<rparr>"
    and td: "td = TypedData (S_Crypto svc) (P_Chain r) (P_Deposit r) d"
    using prep by (rule prepare_parts)
  obtain m where m: "snap_root (S_Snap sn) = SHA m" using inv snapshot_ofD [OF sn] by (auto simp: ledger_inv_def bound_def)
  have td': "signed_doc svc p ?row = td"
    using o' by (simp add: signed_doc_def decision_row_of_def td d m HexToHash_SHA same_origin_def)
  have f: "D_Payment ?row = P_ID r" "D_Sig ?row = sig" "D_Signer ?row = SignerAddress (S_Policy svc)" "D_Kind ?row = k"
    "D_Mode ?row = ''AUTO_BY_POLICY''"
    by (simp_all add: decision_row_of_def inp d)
  have "past_decisions s (P_ID r) = []" using first by (simp add: past_decisions_def decisions_of_def)
  then have "D_Nonce ?row = 1" by (simp add: decision_row_of_def d)
  then have "by_policy svc s ?row" unfolding by_policy_def f using rc by blast
  moreover have "signed_by (S_Crypto svc) (signed_doc svc p ?row) sig (SignerAddress (S_Policy svc))"
    unfolding td' signed_by_def using h Recover_SignerSign [OF pol sig] by blast
  ultimately show ?thesis unfolding authorised_def f using p by blast
qed

lemma recommend_inv:
  assumes rec: "recommend svc now rnd fresh r s = Inr s'" and inv: "service_inv svc s"
    and pol: "signs_for (S_Crypto svc) (S_Policy svc)" and o': "\<And>p. payment_by s (P_ID r) = Some p \<Longrightarrow> same_origin r p"
  shows "service_inv svc s' \<and> later s s'"
  using rec
proof (rule recommend_parts)
  fix p eff rc inp sn s2
  let ?rr = "rec_row_of svc now (P_ID r) eff rc inp"
  assume p: "payment_by s (P_ID r) = Some p" "P_Stage p = ChecksDone" and eff: "rulesetAt s (P_BlockTime r) = Inr eff"
    and sn: "S_Payment sn = P_ID r" "\<exists>b. snap_root (S_Snap sn) = SHA b" "S_PackID sn \<notin> set (map S_PackID (snapshots s))"
    and s2: "s2 = stored ?rr sn s"
    and fin: "if automatic eff rc then decideAuto svc now fresh r (the (Kind (Recommendation rc))) rc s2 = Inr s'
         else s' = set_stage (P_ID r) InReview s2"
  have "staged_at s (P_ID r)" using inv by (simp only: service_inv_def)
  then have u: "untouched s (P_ID r)" using p by (simp add: staged_at_def stage_ok_def)
  have ri: "N_Payment ?rr = P_ID r" by (simp add: rec_row_of_def)
  note l = stored_lookups [OF u ri sn(1), folded s2]
  have led: "ledger_inv svc s2"
    unfolding s2 by (rule stored_ledger [OF _ u ri sn]) (use inv in \<open>simp only: service_inv_def\<close>)
  have lat: "later s s2" unfolding s2 by (rule stored_later)
  have others: "staged_at s2 i" if "i \<noteq> P_ID r" for i
    using inv that staged_at_cong [of s2 i s] by (simp add: l service_inv_def)
  have none: "decisions_of s2 (P_ID r) = []" using u by (simp add: l untouched_def)
  show ?thesis
  proof (cases "automatic eff rc")
    case True
    then obtain e where e: "eff = Some e" "Auto rc" by (auto simp: automatic_def)
    obtain k where k: "Kind (Recommendation rc) = Some k" "k = Credit \<or> k = Hold" using True by (auto simp: automatic_def)
    have d: "decideAuto svc now fresh r k rc s2 = Inr s'" using fin True k by simp
    have ap: "approved s2 (F_Version e)" using later_approved [OF lat] rulesetAt_approved eff e by blast
    show ?thesis
      using d
    proof (rule decideAuto_parts)
      fix d td h sig out
      let ?inp = "\<lparr> RI_Mode = ''AUTO_BY_POLICY'', RI_PolicyRef = PolicyRef rc, RI_Reasons = Reasons rc,
         RI_Rationale = ''Automatic under policy '' @ PolicyRef rc, RI_Officer = None,
         RI_Signer = SignerAddress (S_Policy svc), RI_Sig = sig \<rparr>"
      assume prep: "prepare svc now s2 r k = Inr (d, td)" and h: "typed_hash (S_Crypto svc) td = Some h"
        and sig: "SignerSign (S_Policy svc) h = Some sig"
        and rd: "record_decision svc now fresh r d td ?inp s2 = Inr (out, s')"
      have "authorised svc s2 (decision_row_of r d td ?inp now)"
        by (rule auto_authorised [OF pol led _ o' [OF p(1)] prep h sig none, where x = ?rr and v = "F_Version e"])
          (use p e k ap in \<open>simp_all add: l rec_row_of_def\<close>)
      then have "ledger_inv svc s'" using record_inv [OF led prep, where dl = "Deadline d"] rd by simp
      moreover have "staged_at s' i" for i using others p(1) l(5) by (intro record_staged [OF rd]) (simp_all add: l)
      ultimately show ?thesis using later_trans [OF lat record_later [OF rd]] by (simp add: service_inv_def)
    qed
  next
    case False
    then have s': "s' = set_stage (P_ID r) InReview s2" using fin by simp
    have same: "recommendation_of s' i = recommendation_of s2 i" "snapshot_of s' i = snapshot_of s2 i" "decisions_of s' i = decisions_of s2 i" for i
      by (simp_all add: s' recommendation_of_def snapshot_of_def decisions_of_def set_stage_def)
    have "staged_at s' i" for i
    proof (cases "i = P_ID r")
      case True
      have "recommended s' i" using l(5) by (simp add: recommended_def same True)
      then show ?thesis using p(1) none by (simp add: staged_at_def stage_ok_def s' payment_by_set_stage l True same [unfolded s'])
    next
      case False
      then have "staged_at s' i = staged_at s2 i" by (intro staged_at_cong) (simp_all add: same, simp add: s' payment_by_set_stage)
      then show ?thesis using others [OF False] by simp
    qed
    moreover have lat': "later s2 s'"
      by (auto simp: s' later_def append_only_def payment_by_set_stage) (auto simp: set_stage_def)
    moreover have "ledger_inv svc s'"
    proof -
      have t: "decisions s' = decisions s2" "packs s' = packs s2" "rulesets s' = rulesets s2" "snapshots s' = snapshots s2"
        "journal_seq s' = journal_seq s2" "journal_head s' = journal_head s2"
        by (simp_all add: s' set_stage_def)
      have "lawful s' = lawful s2" "journal_ok s' = journal_ok s2" "versioned s' = versioned s2" "bound s' = bound s2"
        "rulesets_ok svc s' = rulesets_ok svc s2"
        by (simp_all only: lawful_def history_def same journal_ok_def bound_def versioned_def packs_of_def rulesets_ok_def t)
      moreover have "\<forall>d\<in>set (decisions s'). authorised svc s' d"
        using led later_authorised [OF lat'] by (simp add: ledger_inv_def t)
      moreover have "wf_payments s'" using led by (simp add: ledger_inv_def s' wf_set_stage)
      ultimately show ?thesis using led by (simp only: ledger_inv_def)
    qed
    ultimately show ?thesis using later_trans [OF lat lat'] by (simp add: service_inv_def)
  qed
qed (use inv in simp)

section \<open>The steps of the service\<close>

text \<open>
  One rule per operation that changes the database. \<open>keccak\<close> and \<open>b64\<close> are the libraries'
  functions; clocks, random bytes, chain clients, files, requests and signatures are whatever a rule is
  instantiated with. A worker's row may be older than the stored one, but is of the same origin.
\<close>

inductive pstep :: "service \<Rightarrow> (string \<Rightarrow> string) \<Rightarrow> (string \<Rightarrow> string option) \<Rightarrow> db \<Rightarrow> db \<Rightarrow> bool"
  for svc keccak b64 where
  hint: "pstep svc keccak b64 s (snd (handle b64 keccak ch up raw s))"
| reconcile: "pstep svc keccak b64 s (snd (Step keccak eth ch s))"
| backfill: "Backfill eth ch from' s = Inr (until, s') \<Longrightarrow> pstep svc keccak b64 s s'"
| lists: "pstep svc keccak b64 s (snd (load_lists read now cfgs s))"
| check: "check_payment_step svc (\<lambda>d. service_checks e d now) env r (s, raw) = (Inr s', raw') \<Longrightarrow> pstep svc keccak b64 s s'"
| recommendation: "recommend svc now rnd fresh r s = Inr s' \<Longrightarrow> payment_by s (P_ID r) = Some p \<Longrightarrow> same_origin r p
    \<Longrightarrow> pstep svc keccak b64 s s'"
| typed: "OfficerTypedData svc now i kd s = Inr (doc, s') \<Longrightarrow> pstep svc keccak b64 s s'"
| decision: "OfficerDecide svc now fresh i kd sig rationale s = Inr (out, s') \<Longrightarrow> pstep svc keccak b64 s s'"
| import: "ImportRuleset raw s = Inr (out, s') \<Longrightarrow> pstep svc keccak b64 s s'"
| approval: "ApproveRuleset svc now v ef sig s = Inr (a, s') \<Longrightarrow> pstep svc keccak b64 s s'"
| projection: "ProjectPack svc now packID r s = Inr (copy, s') \<Longrightarrow> pstep svc keccak b64 s s'"

definition reachable :: "service \<Rightarrow> (string \<Rightarrow> string) \<Rightarrow> (string \<Rightarrow> string option) \<Rightarrow> db \<Rightarrow> bool" where
  "reachable svc keccak b64 s \<longleftrightarrow> (pstep svc keccak b64)\<^sup>*\<^sup>* empty_db s"

lemma recommend_later: "recommend svc now rnd fresh r s = Inr s' \<Longrightarrow> later s s'"
proof (erule recommend_parts)
  fix p eff rc inp sn s2
  assume s2: "s2 = stored (rec_row_of svc now (P_ID r) eff rc inp) sn s"
    and fin: "if automatic eff rc then decideAuto svc now fresh r (the (Kind (Recommendation rc))) rc s2 = Inr s'
         else s' = set_stage (P_ID r) InReview s2"
  have l: "later s s2" unfolding s2 by (rule stored_later)
  show "later s s'"
  proof (cases "automatic eff rc")
    case True
    then have "decideAuto svc now fresh r (the (Kind (Recommendation rc))) rc s2 = Inr s'" using fin by simp
    then show ?thesis using later_trans [OF l record_later] by (elim decideAuto_parts) blast
  next
    case False
    then have "later s2 s'" using fin by (auto simp: later_def append_only_def payment_by_set_stage) (auto simp: set_stage_def)
    then show ?thesis by (rule later_trans [OF l])
  qed
qed simp

lemma officer_later: "OfficerDecide svc now fresh i k sig rationale s = Inr (out, s') \<Longrightarrow> later s s'"
  by (erule OfficerDecide_parts) (auto simp: inv_pendings dest: record_later)

lemma import_later: "ImportRuleset raw s = Inr ((v, h), s') \<Longrightarrow> later s s'"
  by (erule import_cases) (auto intro: later_rulesets)

lemma approve_later: "ApproveRuleset svc now v ef sig s = Inr (a, s') \<Longrightarrow> later s s'"
proof (erule approve_parts, simp only:, rule later_rulesets)
  fix r x :: ruleset_row
  assume "\<not> list_ex (\<lambda>r. R_Version r = v \<and> R_Approval r \<noteq> None) (rulesets s)" "x \<in> set (rulesets s)" "R_Approval x \<noteq> None"
  then show "x \<in> set (map (\<lambda>r. if R_Version r = v then r\<lparr>R_Approval := Some \<lparr> ApprovedBy = a, ApprovalSig = sig,
        EffectiveFrom = from_unix (unix_sec ef), ApprovedAt = now \<rparr>\<rparr> else r) (rulesets s))"
    by (auto simp: list_ex_iff image_iff intro!: bexI [of _ x])
qed

lemmas quiet_steps = quiet_handle quiet_Step quiet_Backfill quiet_load_lists quiet_check_step quiet_typed quiet_project

lemma pstep_later: "pstep svc keccak b64 s s' \<Longrightarrow> later s s'"
proof (induction rule: pstep.cases)
  case (import raw s out s')
  then show ?case using import_later by (cases out) auto
qed (auto intro: quiet_later quiet_steps recommend_later officer_later approve_later)

lemma pstep_inv: "pstep svc keccak b64 s s' \<Longrightarrow> signs_for (S_Crypto svc) (S_Policy svc) \<Longrightarrow> service_inv svc s \<Longrightarrow> service_inv svc s'"
proof (induction rule: pstep.cases)
  case (import raw s out s')
  then show ?case using import_inv by (cases out) auto
next
  case (recommendation now rnd fresh r s s' p)
  then show ?case using recommend_inv [of svc now rnd fresh r s s'] by auto
qed (auto intro: quiet_inv quiet_steps dest: officer_inv approve_inv)

section \<open>Runs\<close>

text \<open>A system whose steps keep an invariant and only go forward in an order.\<close>

locale forward_system =
  fixes step :: "'s \<Rightarrow> 's \<Rightarrow> bool" and good :: "'s \<Rightarrow> bool" and before :: "'s \<Rightarrow> 's \<Rightarrow> bool"
  assumes step_good: "step s s' \<Longrightarrow> good s \<Longrightarrow> good s'"
    and step_before: "step s s' \<Longrightarrow> before s s'"
    and before_refl: "before s s"
    and before_trans: "before s s' \<Longrightarrow> before s' s'' \<Longrightarrow> before s s''"
begin

lemma run_good: "step\<^sup>*\<^sup>* s s' \<Longrightarrow> good s \<Longrightarrow> good s'"
  by (induction rule: rtranclp_induct) (auto intro: step_good)

lemma run_before: "step\<^sup>*\<^sup>* s s' \<Longrightarrow> before s s'"
  by (induction rule: rtranclp_induct) (auto intro: before_refl before_trans step_before)

lemma run_keeps:
  assumes "step\<^sup>*\<^sup>* s s'" and "\<And>t t'. before t t' \<Longrightarrow> P t \<Longrightarrow> P t'" and "P s"
  shows "P s'"
  using assms run_before by blast

end

interpretation service_run: forward_system "pstep svc keccak b64"
    "\<lambda>s. signs_for (S_Crypto svc) (S_Policy svc) \<longrightarrow> service_inv svc s" later
  for svc keccak b64
  by unfold_locales (auto intro: pstep_inv pstep_later later_trans)

lemma reachable_inv: "reachable svc keccak b64 s \<Longrightarrow> signs_for (S_Crypto svc) (S_Policy svc) \<Longrightarrow> service_inv svc s"
  using service_run.run_good service_inv_empty unfolding reachable_def by blast

section \<open>The worker and the interface only take steps\<close>

lemma run_checks_steps: "(pstep svc keccak b64)\<^sup>*\<^sup>* (fst w) (fst (snd (run_checks_on svc (\<lambda>d. service_checks e d now) env rs w)))"
proof (induction rs arbitrary: w)
  case (Cons r rs)
  obtain res raw where c: "check_payment_step svc (\<lambda>d. service_checks e d now) (env (P_ID r)) r w = (res, raw)" by fastforce
  show ?case
  proof (cases res)
    case (Inr s')
    then have "pstep svc keccak b64 (fst w) s'" using c by (intro pstep.check [of svc e now _ r _ "snd w"]) (simp add: Inr)
    then show ?thesis using Cons.IH [of "(s', raw)"] by (simp add: c Inr converse_rtranclp_into_rtranclp)
  qed (simp add: c)
qed simp

text \<open>A row read before the run: the stored one may have moved on, but keeps its origin.\<close>

definition read_rows :: "db \<Rightarrow> payment_row list \<Rightarrow> bool" where
  "read_rows s rs \<longleftrightarrow> (\<forall>r\<in>set rs. \<exists>p. payment_by s (P_ID r) = Some p \<and> same_origin r p)"

lemma read_rows_later: "later s s' \<Longrightarrow> read_rows s rs \<Longrightarrow> read_rows s' rs"
  unfolding read_rows_def later_def by (meson same_origin_trans)

lemma find_first_distinct: "distinct (map f xs) \<Longrightarrow> x \<in> set xs \<Longrightarrow> find_first (\<lambda>y. f y = f x) xs = Some x"
  by (induction xs) (auto simp: image_iff)

lemma due_read: "wf_payments s \<Longrightarrow> read_rows s (due P s)"
proof -
  assume wf: "wf_payments s"
  have "payment_by s (P_ID r) = Some r" if "r \<in> set (payments s)" for r
    using that wf find_first_distinct unfolding payment_by_def wf_payments_def by fast
  moreover have "set (due P s) \<subseteq> set (payments s)" unfolding due_def using set_take_subset by fastforce
  ultimately show ?thesis unfolding read_rows_def by fastforce
qed

lemma recommend_on_steps:
  "read_rows s rs \<Longrightarrow> (pstep svc keccak b64)\<^sup>*\<^sup>* s (snd (recommend_on svc env rs s))"
proof (induction rs arbitrary: s)
  case (Cons r rs)
  let ?e = "env (P_ID r)"
  show ?case
  proof (cases "recommend svc (T_Now ?e) (T_Rnd ?e) (T_Fresh ?e) r s")
    case (Inr s')
    obtain p where "payment_by s (P_ID r) = Some p" "same_origin r p" using Cons.prems by (auto simp: read_rows_def)
    then have "pstep svc keccak b64 s s'" using Inr by (rule pstep.recommendation [rotated])
    moreover have "read_rows s rs" using Cons.prems by (simp add: read_rows_def)
    then have "read_rows s' rs" by (rule read_rows_later [OF recommend_later [OF Inr]])
    ultimately show ?thesis using Cons.IH by (simp add: Inr Let_def converse_rtranclp_into_rtranclp)
  qed (simp add: Let_def)
qed simp

lemma recommendAll_steps: "wf_payments s \<Longrightarrow> (pstep svc keccak b64)\<^sup>*\<^sup>* s (snd (recommendAll svc env s))"
  unfolding recommendAll_def by (intro recommend_on_steps due_read)

lemma recommend_wf: "recommend svc now rnd fresh r s = Inr s' \<Longrightarrow> wf_payments s \<Longrightarrow> wf_payments s'"
proof (erule recommend_parts)
  fix p eff rc inp sn s2
  assume s2: "s2 = stored (rec_row_of svc now (P_ID r) eff rc inp) sn s" and wf: "wf_payments s"
    and fin: "if automatic eff rc then decideAuto svc now fresh r (the (Kind (Recommendation rc))) rc s2 = Inr s'
         else s' = set_stage (P_ID r) InReview s2"
  have w2: "wf_payments s2" using wf by (simp add: s2 stored_def wf_payments_def)
  show "wf_payments s'"
    using fin w2 by (cases "automatic eff rc") (auto elim!: decideAuto_parts simp: record_effect(7) wf_set_stage)
qed simp

lemma approve_wf: "ApproveRuleset svc now v ef sig s = Inr (a, s') \<Longrightarrow> wf_payments s \<Longrightarrow> wf_payments s'"
  by (erule approve_parts) (simp add: wf_payments_def)

lemma wf_pendings: "wf_payments (s\<lparr>pendings := q\<rparr>) = wf_payments s"
  by (simp add: wf_payments_def)

lemma officer_wf: "OfficerDecide svc now fresh i k sig rationale s = Inr (out, s') \<Longrightarrow> wf_payments s \<Longrightarrow> wf_payments s'"
  by (erule OfficerDecide_parts) (simp add: record_effect(7) wf_pendings)

lemma quiet_wf: "quiet s s' \<Longrightarrow> wf_payments s \<Longrightarrow> wf_payments s'"
  by (simp add: quiet_def)

lemma pstep_wf: "pstep svc keccak b64 s s' \<Longrightarrow> wf_payments s \<Longrightarrow> wf_payments s'"
proof (induction rule: pstep.cases)
  case (import raw s out s')
  obtain v h where "out = (v, h)" by (cases out)
  then show ?case using import by (auto elim!: import_cases simp: wf_payments_def)
qed (auto intro: quiet_wf quiet_steps recommend_wf officer_wf approve_wf)

interpretation wf_run: forward_system "pstep svc keccak b64" wf_payments later
  for svc keccak b64
  by unfold_locales (auto intro: pstep_wf pstep_later later_trans)

lemma Tick_steps:
  assumes "wf_payments s"
  shows "(pstep svc keccak b64)\<^sup>*\<^sup>* s (fst (snd (Tick svc (\<lambda>d. service_checks e d now) cenv renv (s, raw))))"
proof -
  obtain err s1 raw1 where r: "runChecks svc (\<lambda>d. service_checks e d now) cenv (s, raw) = (err, s1, raw1)" by (metis surj_pair)
  then have 1: "(pstep svc keccak b64)\<^sup>*\<^sup>* s s1"
    using run_checks_steps [of svc keccak b64 "(s, raw)" e now cenv "due checks_due s"] by (simp add: runChecks_def)
  show ?thesis
  proof (cases err)
    case None
    have "wf_payments s1" using wf_run.run_good 1 assms by blast
    then have "(pstep svc keccak b64)\<^sup>*\<^sup>* s1 (snd (recommendAll svc renv s1))" by (rule recommendAll_steps)
    then show ?thesis using 1 by (simp add: Tick_def r None case_prod_beta)
  qed (simp add: Tick_def r 1)
qed

lemma answer_effect: "answer srv ok s r = (resp, s') \<Longrightarrow> s' = s \<or> (\<exists>x. r = Inr (x, s'))"
  by (cases r) (auto simp: answer_def split: prod.splits)

lemma import_step: "importRuleset srv env rq s = (resp, s') \<Longrightarrow> s' = s \<or> pstep svc keccak b64 s s'"
proof -
  assume h: "importRuleset srv env rq s = (resp, s')"
  show ?thesis
  proof (cases "effective_param env rq")
    case (Some ef)
    show ?thesis
    proof (cases "ImportRuleset (limited (RqBody rq)) s")
      case (Inr x)
      obtain v hh s1 where x: "x = ((v, hh), s1)" by (metis surj_pair)
      have "s' = s1"
        using h by (cases "ApprovalTypedData s1 v (fst ef)") (auto simp: importRuleset_def Some Inr x answer_def)
      then show ?thesis using pstep.import Inr x by blast
    qed (use h in \<open>simp add: importRuleset_def Some\<close>)
  qed (use h in \<open>simp add: importRuleset_def\<close>)
qed

lemma project_step: "project_handler srv env rq packID s = (resp, s') \<Longrightarrow> s' = s \<or> pstep (SrvPipeline srv) keccak b64 s s'"
  by (auto simp: project_handler_def split: option.splits sum.splits intro: pstep.projection)

lemma payment_step: "payment_handler srv ref s = (resp, s') \<Longrightarrow> s' = s"
  by (cases "paymentRef ref") (auto simp: payment_handler_def res_simps dest!: answer_effect)

lemma typed_step: "typedData srv env rq ref s = (resp, s') \<Longrightarrow> s' = s \<or> pstep (SrvPipeline srv) keccak b64 s s'"
  by (auto simp: typedData_def dest!: answer_effect intro: pstep.typed split: option.splits)

lemma decide_step: "decide srv env rq ref s = (resp, s') \<Longrightarrow> s' = s \<or> pstep (SrvPipeline srv) keccak b64 s s'"
  unfolding decide_def by (auto dest!: answer_effect intro: pstep.decision split: option.splits)

lemma approve_step: "approveRuleset srv env rq v s = (resp, s') \<Longrightarrow> s' = s \<or> pstep (SrvPipeline srv) keccak b64 s s'"
  by (auto simp: approveRuleset_def dest!: answer_effect intro: pstep.approval split: option.splits)

lemmas handler_steps = payment_step typed_step decide_step import_step approve_step project_step

lemma serve_step: "serve srv env rq e s = (resp, s') \<Longrightarrow> s' = s \<or> pstep (SrvPipeline srv) keccak b64 s s'"
  by (cases e) (auto simp: serve_def cases_handler_def dest: handler_steps)

lemma Handler_step: "Handler srv env rq s = (resp, s') \<Longrightarrow> s' = s \<or> pstep (SrvPipeline srv) keccak b64 s s'"
  by (cases "RqAuth rq = ''Bearer '' @ SrvToken srv")
    (auto simp: Handler_def auth_granted auth_refused dest: serve_step split: option.splits if_splits)

end
