(* ===== verification/Evidence.thy ===== *)
theory Evidence
  imports Service
begin

text \<open>
  The evidence on record. The sections the pipeline builds are plain JSON trees, so a snapshot is always
  made of them and a pack always built; check rows, snapshots and packs are stored as they were built,
  and every step of the service keeps them so (\<open>evidence_inv\<close>). Nothing of the code is modelled here.
\<close>

section \<open>Sections the pipeline builds\<close>

lemma section_parts: "section_ok m \<Longrightarrow> wf_json (JObj m)" "section_ok m \<Longrightarrow> tree_ok (JObj m)"
  by (simp_all add: section_ok_def)

lemma normal_wf: "wf_json v \<Longrightarrow> wf_json (normal v)"
proof (induction v rule: normal.induct)
  case (7 kvs)
  let ?n = "sort_key fst (map (\<lambda>(k, v). (k, normal v)) kvs)"
  have d: "distinct (keys kvs)" and m: "\<forall>(k, v)\<in>set kvs. valid_utf8 k \<and> wf_json v"
    using 7(2) by (simp_all add: wf_map_def list_all_iff)
  have "distinct (keys ?n)" using sorted_entries(2) [of "\<lambda>k. k" kvs normal] d by simp
  moreover have "\<forall>(k, v)\<in>set ?n. valid_utf8 k \<and> wf_json v" using 7(1) m unfolding sorted_entries(1) by fastforce
  ultimately show ?case by (simp add: wf_map_def list_all_iff)
qed (auto simp: list_all_iff parse_number_int_dec parse_number_nat_dec)

lemma section_jsonb: "section_ok m \<Longrightarrow> section_ok (jsonb m)"
proof (rule section_okI)
  assume m: "section_ok m"
  then show "distinct (keys (jsonb m))" "list_all plain_key (keys (jsonb m))" "length (jsonb m) \<noteq> 1"
    by (simp_all add: section_ok_def wf_map_def) (simp add: jsonb_def)
  have "list_all (\<lambda>(k, v). wf_json v \<and> tree_ok v) m"
    using m unfolding section_ok_def tree_ok_obj wf_json.simps by (auto simp: list_all_iff)
  then show "list_all (\<lambda>(k, v). wf_json v \<and> tree_ok v) (jsonb m)"
    unfolding jsonb_def by (auto simp: list_all_iff intro: normal_wf normal_tree_ok)
qed

lemma section_update:
  assumes "section_ok m" and "plain_key k" and "k \<noteq> withheld_key" and "wf_json v" and "tree_ok v"
  shows "wf_json (JObj (AList.update k v m)) \<and> tree_ok (JObj (AList.update k v m))"
proof -
  let ?m = "AList.update k v m"
  have d: "distinct (keys m)" and pk: "list_all plain_key (keys m)"
    and mv: "\<forall>(k, v)\<in>set m. wf_json v \<and> tree_ok v" and l: "length m \<noteq> 1"
    using assms(1) unfolding section_ok_def tree_ok_obj wf_json.simps by (auto simp: list_all_iff wf_map_def)
  have d': "distinct (keys ?m)" using d by (simp add: distinct_update)
  have sub: "set ?m \<subseteq> insert (k, v) (set m)" by (induction m) auto
  have pk': "list_all plain_key (keys ?m)" using pk assms(2) sub by (fastforce simp: list_all_iff)
  have mv': "\<forall>(k, v)\<in>set ?m. wf_json v \<and> tree_ok v" using mv assms(4,5) sub by fastforce
  have seg: "map first_segment (keys ?m) = keys ?m"
    using pk' by (intro map_idI first_segment_nodot) (auto simp: list_all_iff plain_key_def)
  have "\<not> marker_like ?m"
  proof
    assume "marker_like ?m"
    then have "keys ?m = [withheld_key]" by (simp only: marker_like_def)
    moreover have "k \<in> set (keys ?m)" by (induction m) auto
    ultimately show False using assms(3) by simp
  qed
  moreover have "list_all (\<lambda>(k, v). k \<noteq> [] \<and> tree_ok v) ?m" "list_all (\<lambda>(k, v). valid_utf8 k \<and> wf_json v) ?m"
    using pk' mv' by (fastforce simp: list_all_iff plain_key_def ascii_valid)+
  ultimately show ?thesis using d' unfolding tree_ok_obj wf_json.simps wf_map_def seg by blast
qed

text \<open>The keys of the sections, and that they are plain.\<close>

lemma objI: "section_ok m \<Longrightarrow> wf_json (JObj m) \<and> tree_ok (JObj m)"
  by (rule section_ok_obj)

lemma inputs_obj: "wf_json (JObj (inputs_map i)) \<and> tree_ok (JObj (inputs_map i))"
proof -
  have "distinct (map first_segment (keys (inputs_map i)))"
    unfolding inputs_map_def by (simp only: list.map fst_conv) (simp add: first_segment_def)
  moreover have "\<not> marker_like (inputs_map i)" unfolding marker_like_def inputs_map_def by simp
  ultimately show ?thesis using inputs_map_wf unfolding tree_ok_obj by (simp add: inputs_map_def)
qed

lemma recommendation_obj: "wf_json (recommendation_section rc i) \<and> tree_ok (recommendation_section rc i)"
proof -
  have "list_all plain_key [''recommendation'', ''reason_codes'', ''policy_ref'', ''inputs'', ''inputs_hash'']" by (simp_all add: literals)
  then show ?thesis unfolding recommendation_section_def using inputs_obj by (intro objI section_okI) simp_all
qed

lemma rules_obj: "wf_json (rules_section svc eff rc i) \<and> tree_ok (rules_section svc eff rc i)"
proof -
  have "list_all plain_key [''rules_version'', ''ruleset_hash'', ''approved_by'', ''effective_from'', ''engine_version'', ''thresholds'',
      ''recommendation'']" by (simp_all add: literals)
  then show ?thesis
    unfolding rules_section_def using recommendation_obj by (cases eff) (simp_all only: option.case; intro objI section_okI; simp)+
qed

lemma onchain_obj: "wf_json (onchain_section svc ch t r eur) \<and> tree_ok (onchain_section svc ch t r eur)"
proof -
  have "list_all plain_key [''chain_name'', ''chain_id'', ''token'', ''token_contract'', ''amount'', ''fx_rate_eur'', ''amount_eur'',
      ''fx_source'', ''fx_at'', ''payer_address'', ''deposit_contract'', ''tx_hash'', ''block_number'', ''block_timestamp'', ''log_index'',
      ''confirmations'']" by (simp_all add: literals)
  then show ?thesis unfolding onchain_section_def Let_def by (intro objI section_okI) simp_all
qed

lemma not_collected_obj: "wf_json travel_rule_section \<and> tree_ok travel_rule_section"
  "wf_json wallet_ownership_section \<and> tree_ok wallet_ownership_section"
proof -
  have "list_all plain_key [''standard'', ''collected_at'', ''collected_before_payment'', ''originator'', ''originator_vasp'', ''protocol'',
      ''beneficiary'', ''wallet_type'', ''wallet_type_method'', ''completeness'', ''note'']"
    and "list_all plain_key [''required'', ''reason'', ''method'', ''message'', ''message_sha256'', ''domain'', ''nonce'', ''chain_id'',
      ''issued_at'', ''expires_at'', ''signature'', ''result'', ''verified_at'', ''verified_block'', ''prior_pack_id'']"
    by (simp_all add: literals)
  then show "wf_json travel_rule_section \<and> tree_ok travel_rule_section"
    "wf_json wallet_ownership_section \<and> tree_ok wallet_ownership_section"
    unfolding travel_rule_section_def wallet_ownership_section_def by (intro objI section_okI; simp)+
qed

text \<open>What the checks stored is fit for a snapshot.\<close>

definition check_rows_ok :: "check_row list \<Rightarrow> bool" where
  "check_rows_ok cs \<longleftrightarrow> (\<forall>c\<in>set cs. section_ok (C_Section c) \<and> C_Outcome c \<in> set (outcomes_of (field_of_kind (C_Kind c))))"

lemma check_obj: "check_rows_ok cs \<Longrightarrow> wf_json (check_section cs kind) \<and> tree_ok (check_section cs kind)"
proof (cases "stored_check cs kind")
  case None
  have "list_all plain_key [''result'', ''error'']" by (simp_all add: literals)
  then show ?thesis unfolding check_section_def None option.case by (intro objI section_okI) simp_all
next
  case (Some c)
  assume "check_rows_ok cs"
  then have m: "section_ok (C_Section c)" using Some by (auto simp: stored_check_def check_rows_ok_def dest: find_first_SomeD)
  have k: "plain_key ''raw_response_sha256''" "''raw_response_sha256'' \<noteq> withheld_key" by (simp_all add: literals withheld_key_def)
  have v: "wf_json (case C_Raw c of Some h \<Rightarrow> JStr h | None \<Rightarrow> JNull)" "tree_ok (case C_Raw c of Some h \<Rightarrow> JStr h | None \<Rightarrow> JNull)"
    by (simp_all split: option.split)
  show ?thesis
    unfolding check_section_def Some option.case using section_update [OF m k v] objI [OF m] by simp
qed

lemma sections_sound:
  assumes "check_rows_ok cs"
  shows "evidence_sections (sections_of svc packID ch t r cs eur eff rc i) \<and> tree_ok (JObj (sections_of svc packID ch t r cs eur eff rc i))"
proof -
  let ?m = "sections_of svc packID ch t r cs eur eff rc i"
  have k: "keys ?m = EvidenceKeys" by (simp add: sections_of_def EvidenceKeys_def)
  have "section_ok ?m"
  proof (rule section_okI)
    show "distinct (keys ?m)" "list_all plain_key (keys ?m)" unfolding k by (simp_all add: EvidenceKeys_def literals)
    show "length ?m \<noteq> 1" by (simp add: sections_of_def)
    show "list_all (\<lambda>(k, v). wf_json v \<and> tree_ok v) ?m"
      using check_obj [OF assms] rules_obj onchain_obj not_collected_obj by (simp add: sections_of_def)
  qed
  then show ?thesis using section_parts by (simp add: evidence_sections_def k)
qed

lemma timeline_obj: "wf_json (timeline_section svc r ca rc past) \<and> tree_ok (timeline_section svc r ca rc past)"
proof -
  have k: "list_all plain_key [''at'', ''event'', ''ref'', ''source'']" "list_all plain_key [''onchain'', ''offchain'']" by (simp_all add: literals)
  have e: "wf_json (JObj [(''at'', JStr a), (''event'', JStr b), (''ref'', x), (''source'', JStr c)])
      \<and> tree_ok (JObj [(''at'', JStr a), (''event'', JStr b), (''ref'', x), (''source'', JStr c)])"
    if "wf_json x" "tree_ok x" for a b c x
    using k that by (intro objI section_okI) simp_all
  have d: "wf_json (decision_event y) \<and> tree_ok (decision_event y)" for y
    unfolding decision_event_def by (rule e) simp_all
  have arr: "wf_json (JList vs) \<and> tree_ok (JList vs)" if "\<forall>v\<in>set vs. wf_json v \<and> tree_ok v" for vs
    using that by (simp add: list_all_iff)
  have two: "wf_json (JObj [(''onchain'', x), (''offchain'', y)]) \<and> tree_ok (JObj [(''onchain'', x), (''offchain'', y)])"
    if "wf_json x \<and> tree_ok x" "wf_json y \<and> tree_ok y" for x y
    using k that by (intro objI section_okI) simp_all
  show ?thesis
    unfolding timeline_section_def
    by (rule two; rule arr) (use d e in \<open>auto simp del: wf_json.simps(3)\<close>)
qed

lemma decision_obj: "wf_json (decision_section svc d f) \<and> tree_ok (decision_section svc d f)"
proof -
  have "list_all plain_key [''decision'', ''mode'', ''policy_ref'', ''reason_codes'', ''rationale'', ''officer_id'', ''second_reviewer'',
      ''decided_at'', ''nonce'', ''pack_hash'', ''signer_address'', ''signature'', ''execution_tx'', ''return_blocked'']" by (simp_all add: literals)
  then show ?thesis
    unfolding decision_section_def by (intro objI section_okI) (simp_all add: list_all_iff split: option.split)
qed

lemma processor_obj: "wf_json (processor_section p) \<and> tree_ok (processor_section p)"
proof -
  have "list_all plain_key [''legal_name'', ''lei'', ''casp_id'', ''nca'', ''rfi_channel'', ''cert_url'']" by (simp_all add: literals)
  then show ?thesis unfolding processor_section_def by (intro objI section_okI) simp_all
qed

lemma rest_sound:
  assumes "rest_sections svc now s r = Inr rest"
  shows "section_ok rest"
proof -
  obtain ch t rc where t: "token_of svc r = Inr (ch, t)" and rc: "recommendation_of s (P_ID r) = Some rc" and p: "past_decisions s (P_ID r) \<noteq> []"
    using assms by (auto simp: rest_sections_def res_simps Let_def split: option.splits if_splits)
  have k: "list_all plain_key [''created_at'', ''merchant_id'', ''processor'', ''timeline'', ''decision'', ''retention'', ''reconstruction'']"
    and u: "list_all plain_key [''until'', ''legal_hold'']" by (simp_all add: literals)
  have retention: "wf_json (JObj [(''until'', JStr x), (''legal_hold'', JBool b)]) \<and> tree_ok (JObj [(''until'', JStr x), (''legal_hold'', JBool b)])" for x b
    using u by (intro objI section_okI) simp_all
  have "rest = [
            (''created_at'', JStr (rfc3339 now)), (''merchant_id'', JStr (case Deposit ch (P_Deposit r) of None \<Rightarrow> [] | Some d \<Rightarrow> MerchantID d)),
            (''processor'', processor_section (Processor (S_Cfg svc))),
            (''timeline'', timeline_section svc r (checks_at s (P_ID r)) rc (past_decisions s (P_ID r))),
            (''decision'', decision_section svc (last (past_decisions s (P_ID r))) (Frozen (fst (Replay (map D_Kind (past_decisions s (P_ID r))))))),
            (''retention'', JObj [(''until'', JStr (format_date (add_years (RetentionYears (S_Cfg svc)) (P_BlockTime r)))),
               (''legal_hold'', JBool False)]),
            (''reconstruction'', JBool (P_Recon r))]"
    using assms p by (simp add: rest_sections_def t rc Let_def)
  then show ?thesis
    using k retention timeline_obj decision_obj processor_obj by (intro section_okI) (simp_all del: wf_json.simps(3))
qed

lemma section_plain: "section_ok m \<Longrightarrow> plain_keys m"
  by (auto simp: section_ok_def plain_keys_def list_all_iff plain_key_def)

lemma rest_total:
  assumes "token_of svc r = Inr x" and "recommendation_of s (P_ID r) \<noteq> None" and "past_decisions s (P_ID r) \<noteq> []"
  shows "\<exists>rest. rest_sections svc now s r = Inr rest"
  using assms by (cases x) (auto simp: rest_sections_def Let_def)

section \<open>What the stored evidence is like\<close>

definition normal_entries :: "(string \<times> jval) list \<Rightarrow> bool" where
  "normal_entries m \<longleftrightarrow> list_all (\<lambda>(k, v). normal v = v) m"

definition snap_stored :: "snapshot \<Rightarrow> bool" where
  "snap_stored sn \<longleftrightarrow> snapshot_ok sn \<and> tree_ok (JObj (snap_data sn)) \<and> normal_entries (snap_data sn)"

definition pack_stored :: "pack \<Rightarrow> bool" where
  "pack_stored pk \<longleftrightarrow> pack_sound pk \<and> salts_hex (Salts pk)"

definition evidence_inv :: "db \<Rightarrow> bool" where
  "evidence_inv s \<longleftrightarrow> check_rows_ok (check_results s) \<and> (\<forall>sn\<in>set (snapshots s). snap_stored (S_Snap sn))
     \<and> (\<forall>k\<in>set (packs s). pack_stored (K_Pack k)) \<and> digest_hex (journal_head s)"

lemma evidence_inv_empty: "evidence_inv empty_db"
  by (simp add: evidence_inv_def empty_db_def check_rows_ok_def)

text \<open>Both are stored with the data they were built with.\<close>

lemma jsonb_normal_entries: "normal_entries m \<Longrightarrow> jsonb m = m"
  by (rule jsonb_id) (simp add: normal_entries_def list_all_iff)

lemma normalize_entries: "normalize m = Inr r \<Longrightarrow> wf_json (JObj m) \<Longrightarrow> normal_entries r"
  using normalize_normal [of m r] by (simp add: normal_entries_def list_all_iff)

lemma update_normal_entries: "normal_entries m \<Longrightarrow> normal x = x \<Longrightarrow> normal_entries (AList.update k x m)"
  by (induction m) (auto simp: normal_entries_def)

lemma merge_normal_entries: "normal_entries m \<Longrightarrow> normal_entries m' \<Longrightarrow> normal_entries (AList.merge m m')"
proof (induction m')
  case (Cons kv m')
  then have "normal_entries m'" "normal (snd kv) = snd kv" by (simp_all add: normal_entries_def split_beta)
  then show ?case using Cons by (cases kv) (simp add: update_normal_entries)
qed simp

lemma ascii_int_dec: "ascii (int_dec i)"
proof -
  have "is_digit c \<Longrightarrow> (of_char c :: nat) < 128" for c by (simp add: is_digit_def)
  then have "ascii (nat_dec n)" for n unfolding ascii_def using nat_dec_digits by blast
  moreover have "ascii [CHR ''-'']" by (simp add: ascii_def)
  ultimately show ?thesis using ascii_append [of "[CHR ''-'']"] by (simp add: int_dec_def)
qed

lemma normal_ascii: "ascii s \<Longrightarrow> normal (JStr s) = JStr s"
  using ascii_valid [of s] by (simp add: valid_utf8_def)

lemma pack_data_normal:
  assumes "snap_stored snap" and "normal_entries r"
  shows "jsonb (pack_data snap version r) = pack_data snap version r"
proof (rule jsonb_normal_entries)
  have "ascii SchemaVersion" by (simp add: SchemaVersion_def ascii_def)
  then show "normal_entries (pack_data snap version r)"
    unfolding pack_data_def using assms
    by (intro update_normal_entries merge_normal_entries normal_ascii ascii_int_dec) (simp_all add: snap_stored_def)
qed

lemma built_pack_stored:
  assumes "snap_stored snap" and "section_ok rest" and "salts_hex prev"
    and b: "BuildPack fresh snap ver rest prev h signer = Inr pk"
  shows "pack_stored (pk\<lparr>PackID := x, Data := jsonb (Data pk)\<rparr>) \<and> digest_hex (PPackHash pk)"
  using b
proof (rule BuildPack_parts)
  fix r
  assume r: "normalize rest = Inr r" "Data pk = pack_data snap ver r" "Salts pk = pack_salts fresh snap prev (Data pk)"
    and h: "PackHash h (PMasterRoot pk) = Inr (PPackHash pk)"
  note sn = assms(1) [unfolded snap_stored_def] and rest = section_parts [OF assms(2)]
  have "pack_sound pk" using sn rest section_plain [OF assms(2)] by (intro built_pack_sound [OF _ _ _ _ _ b]) simp_all
  moreover have "jsonb (Data pk) = Data pk"
    unfolding r(2) by (rule pack_data_normal [OF assms(1) normalize_entries [OF r(1) rest(1)]])
  moreover have "salts_hex (snap_salts snap)" using sn by (simp add: snapshot_ok_def)
  then have "salts_hex (Salts pk)" unfolding r(3) pack_salts_def by (rule fold_salt_section_hex [OF _ assms(3)])
  moreover have "digest_hex (PPackHash pk)" using h by (auto simp: PackHash_Inr)
  ultimately show ?thesis by (simp add: pack_stored_def pack_sound_def)
qed

section \<open>Every step keeps the evidence as it is built\<close>

definition same_proof :: "db \<Rightarrow> db \<Rightarrow> bool" where
  "same_proof s s' \<longleftrightarrow> check_results s' = check_results s \<and> snapshots s' = snapshots s \<and> packs s' = packs s \<and> journal_head s' = journal_head s"

lemma evidence_same: "same_proof s s' \<Longrightarrow> evidence_inv s' = evidence_inv s"
  by (simp add: same_proof_def evidence_inv_def)

lemma same_proof_refl [simp]: "same_proof s s"
  by (simp add: same_proof_def)

lemma same_proof_trans: "same_proof s s' \<Longrightarrow> same_proof s' s'' \<Longrightarrow> same_proof s s''"
  by (simp add: same_proof_def)

lemma same_proof_ingest: "ingest_step s s' \<Longrightarrow> same_proof s s'"
  by (simp add: ingest_step_def same_evidence_def same_proof_def)

lemma same_proof_load_lists: "same_proof s (snd (load_lists read now cfgs s))"
proof (induction cfgs arbitrary: s)
  case (Cons c cfgs)
  show ?case
  proof (cases "read (ListPath c)")
    case (Some raw)
    let ?u = "snd (upsert_list now (ListName c) (ListVersion c) (SHA raw) (length (list_entries raw)) s)"
    have u: "same_proof s ?u" by (auto simp: upsert_list_def Let_def same_proof_def split: option.split)
    have "snd (load_lists read now (c # cfgs) s) = snd (load_lists read now cfgs ?u)"
      by (simp add: Some Let_def split_def)
    then show ?thesis using same_proof_trans [OF u Cons.IH] by simp
  qed simp
qed simp

lemma same_proof_typed: "OfficerTypedData svc now i k s = Inr (doc, s') \<Longrightarrow> same_proof s s'"
  by (auto simp: OfficerTypedData_def upsert_pending_def res_simps same_proof_def split: if_splits)

lemma same_proof_project: "ProjectPack svc now packID r s = Inr (copy, s') \<Longrightarrow> same_proof s s'"
  by (erule ProjectPack_parts) (simp add: same_proof_def)

lemma same_proof_import: "ImportRuleset raw s = Inr (out, s') \<Longrightarrow> same_proof s s'"
proof (cases out)
  case (Pair v h)
  assume "ImportRuleset raw s = Inr (out, s')"
  then show ?thesis unfolding Pair by (elim import_cases) (simp_all add: same_proof_def)
qed

lemma same_proof_approve: "ApproveRuleset svc now v ef sig s = Inr (a, s') \<Longrightarrow> same_proof s s'"
  by (erule approve_parts) (simp add: same_proof_def)

text \<open>The rows of a check run.\<close>

lemma insert_checks_rows:
  "insert_checks cs s = Inr s' \<Longrightarrow> set (check_results s') \<subseteq> set (check_results s) \<union> set cs
     \<and> snapshots s' = snapshots s \<and> packs s' = packs s \<and> journal_head s' = journal_head s"
proof (induction cs arbitrary: s)
  case (Cons c cs)
  then obtain s1 where s1: "insert_check c s = Inr s1" "insert_checks cs s1 = Inr s'" by (auto simp: res_simps)
  have "set (check_results s1) \<subseteq> insert c (set (check_results s)) \<and> snapshots s1 = snapshots s \<and> packs s1 = packs s
      \<and> journal_head s1 = journal_head s"
    using s1(1) by (auto simp: insert_check_def split: if_splits)
  then show ?case using Cons.IH [OF s1(2)] by auto
qed simp

lemma check_row_ok: "result_ok res \<Longrightarrow> check_rows_ok [check_row_of i res]"
  by (simp add: check_rows_ok_def check_row_of_def result_ok_def section_jsonb)

lemma evidence_check:
  assumes "check_payment_step svc (\<lambda>d. service_checks e d now) env r (s, raw) = (Inr s', raw')" and inv: "evidence_inv s"
  shows "evidence_inv s'"
proof -
  obtain eur results raw1 where r: "RunAll env (service_checks e s now) (check_payment_of r eur) (CheckTimeout (S_Cfg svc)) raw = (results, raw1)"
    and c: "map_res (checks_done (P_ID r)) (map_err (\<lambda>e. ErrInternal (SQLError e)) (insert_checks (map (check_row_of (P_ID r)) results) s)) = Inr s'"
    using assms(1) by (auto simp: check_payment_step_def Let_def split: sum.splits prod.splits)
  then obtain s1 where s1: "insert_checks (map (check_row_of (P_ID r)) results) s = Inr s1" and s': "s' = checks_done (P_ID r) s1"
    by (auto simp: res_simps)
  have "list_all result_ok (fst (RunAll env (service_checks e s now) (check_payment_of r eur) (CheckTimeout (S_Cfg svc)) raw))"
    unfolding RunAll_def by (rule run_from_all) (rule runOne_service)
  then have "list_all result_ok results" by (simp add: r)
  then have "check_rows_ok (map (check_row_of (P_ID r)) results)"
    using check_row_ok by (auto simp: list_all_iff check_rows_ok_def)
  then have "check_rows_ok (check_results s1)"
    using inv insert_checks_rows [OF s1] unfolding check_rows_ok_def evidence_inv_def by blast
  moreover have "same_proof s1 s'" by (simp add: s' checks_done_def update_payment_def same_proof_def)
  ultimately show ?thesis using inv insert_checks_rows [OF s1] by (simp add: evidence_inv_def same_proof_def)
qed

text \<open>A recorded decision adds one pack.\<close>

lemma latest_salts:
  assumes "evidence_inv s" and "(case latest_pack s i of None \<Rightarrow> (1, []) | Some p \<Rightarrow> (Version p + 1, Salts p)) = (ver, prev)"
  shows "salts_hex prev"
proof (cases "latest_pack s i")
  case None
  then show ?thesis using assms(2) by (simp add: salts_hex_def)
next
  case (Some p)
  let ?ps = "sort_key Version (filter (\<lambda>p. PackID p = i) (map K_Pack (packs s)))"
  have "?ps \<noteq> []" "p = last ?ps" using Some by (auto simp: latest_pack_def split: list.splits)
  then have "p \<in> set ?ps" using last_in_set by blast
  then show ?thesis using assms Some by (auto simp: evidence_inv_def pack_stored_def)
qed

lemma snapshot_stored: "evidence_inv s \<Longrightarrow> snapshot_of s i = Some sn \<Longrightarrow> snap_stored (S_Snap sn)"
  by (auto simp: evidence_inv_def dest: snapshot_ofD)

lemma evidence_record:
  assumes "record_decision svc now fresh r d td inp s = Inr (out, s')" and inv: "evidence_inv s"
  shows "evidence_inv s'"
  using assms(1)
proof (rule record_decision_parts)
  fix sn rest ver prev pk
  assume sn: "snapshot_of s (P_ID r) = Some sn"
    and rest: "rest_sections svc now (s\<lparr>decisions := decisions s @ [decision_row_of r d td inp now]\<rparr>) r = Inr rest"
    and pk: "BuildPack fresh (S_Snap sn) ver rest prev (journal_head s) (S_Evidence svc) = Inr pk"
    and prev: "(case latest_pack s (S_PackID sn) of None \<Rightarrow> (1, []) | Some p \<Rightarrow> (Version p + 1, Salts p)) = (ver, prev)"
    and s': "s' = set_stage (P_ID r) (decided_stage (DecisionKind d)) (s\<lparr>
      decisions := decisions s @ [decision_row_of r d td inp now],
      packs := packs s @ [\<lparr> K_Payment = P_ID r, K_Seq = Suc (journal_seq s), K_Pack = pk\<lparr>PackID := S_PackID sn, Data := jsonb (Data pk)\<rparr> \<rparr>],
      journal_seq := Suc (journal_seq s), journal_head := PPackHash pk\<rparr>)"
  have "pack_stored (pk\<lparr>PackID := S_PackID sn, Data := jsonb (Data pk)\<rparr>) \<and> digest_hex (PPackHash pk)"
    using pk by (rule built_pack_stored [OF snapshot_stored [OF inv sn] rest_sound [OF rest] latest_salts [OF inv prev]])
  then show ?thesis using inv by (simp add: s' evidence_inv_def set_stage_def update_payment_def)
qed

lemma snapshot_for_stored:
  assumes "snapshot_for svc rnd fresh r cs eur eff rc i = Inr (snap, packID)" and "check_rows_ok cs"
  shows "snap_stored snap"
proof -
  obtain ch t where n: "NewSnapshot fresh (sections_of svc packID ch t r cs eur eff rc i) = Inr snap"
    using assms(1) by (auto simp: snapshot_for_def res_simps Let_def split: prod.splits)
  note sec = sections_sound [OF assms(2), of svc packID ch t r eur eff rc i]
  have wf: "wf_json (JObj (sections_of svc packID ch t r cs eur eff rc i))" using sec by (simp only: evidence_sections_def)
  have "snapshot_ok snap" using NewSnapshot_ok sec n by (metis sum.inject(2))
  moreover have "tree_ok (JObj (snap_data snap))" using normalize_tree_ok [OF wf _ NewSnapshot_data [OF n]] sec by blast
  moreover have "normal_entries (snap_data snap)" by (rule normalize_entries [OF NewSnapshot_data [OF n] wf])
  ultimately show ?thesis by (simp add: snap_stored_def)
qed

lemma evidence_recommend:
  assumes "recommend svc now rnd fresh r s = Inr s'" and inv: "evidence_inv s"
  shows "evidence_inv s'"
  using assms(1)
proof (rule recommend_parts)
  fix eur eff rc inp snap packID sn s2
  assume sf: "snapshot_for svc rnd fresh r (checks_of s (P_ID r)) eur eff rc inp = Inr (snap, packID)"
    and sn: "sn = \<lparr> S_Payment = P_ID r, S_PackID = packID, S_Snap = snap\<lparr>snap_data := jsonb (snap_data snap)\<rparr> \<rparr>"
    and s2: "s2 = stored (rec_row_of svc now (P_ID r) eff rc inp) sn s"
    and fin: "if automatic eff rc then decideAuto svc now fresh r (the (Kind (Recommendation rc))) rc s2 = Inr s'
         else s' = set_stage (P_ID r) InReview s2"
  have "check_rows_ok (checks_of s (P_ID r))" using inv by (auto simp: evidence_inv_def check_rows_ok_def checks_of_def)
  then have st: "snap_stored snap" by (rule snapshot_for_stored [OF sf])
  then have "jsonb (snap_data snap) = snap_data snap" by (simp add: snap_stored_def jsonb_normal_entries)
  then have i2: "evidence_inv s2" using inv st by (simp add: s2 sn stored_def evidence_inv_def)
  show ?thesis
  proof (cases "automatic eff rc")
    case True
    then show ?thesis using fin i2 by (auto elim!: decideAuto_parts dest: evidence_record)
  next
    case False
    moreover have "same_proof s2 (set_stage (P_ID r) InReview s2)" by (simp add: same_proof_def set_stage_def update_payment_def)
    ultimately show ?thesis using fin i2 evidence_same by simp
  qed
qed (use inv in simp)

lemma evidence_officer: "OfficerDecide svc now fresh i k sig rationale s = Inr (out, s') \<Longrightarrow> evidence_inv s \<Longrightarrow> evidence_inv s'"
proof (erule OfficerDecide_parts)
  fix r d td inp s1
  assume rec: "record_decision svc now fresh r d td inp s = Inr (out, s1)" and inv: "evidence_inv s"
    and s': "s' = s1\<lparr>pendings := filter (\<lambda>((j, k), q). j \<noteq> i) (pendings s1)\<rparr>"
  have "evidence_inv s1" using rec inv by (rule evidence_record)
  moreover have "same_proof s1 s'" by (simp add: s' same_proof_def)
  ultimately show ?thesis using evidence_same by simp
qed

lemma evidence_keep: "same_proof s s' \<Longrightarrow> evidence_inv s \<Longrightarrow> evidence_inv s'"
  by (simp add: evidence_same)

lemmas same_proof_steps = handle_ingest [THEN same_proof_ingest] Step_ingest [THEN same_proof_ingest]
  Backfill_ingest [THEN same_proof_ingest] same_proof_load_lists same_proof_typed same_proof_project same_proof_import
  same_proof_approve

lemma pstep_evidence: "pstep svc keccak b64 s s' \<Longrightarrow> evidence_inv s \<Longrightarrow> evidence_inv s'"
proof (induction rule: pstep.cases)
  case (check e now env r s raw s' raw')
  then show ?case using evidence_check by blast
next
  case (decision now fresh i kd sig rationale s out s')
  then show ?case using evidence_officer by blast
qed (auto intro: evidence_keep same_proof_steps evidence_recommend)

interpretation evidence_run: forward_system "pstep svc keccak b64" evidence_inv later
  for svc keccak b64
  by unfold_locales (auto intro: pstep_evidence pstep_later later_trans)

lemma reachable_evidence: "reachable svc keccak b64 s \<Longrightarrow> evidence_inv s"
  unfolding reachable_def using evidence_run.run_good evidence_inv_empty by blast

end
