(* ===== verification/Progress.thy ===== *)
theory Progress
  imports Evidence
begin

text \<open>
  What the steps of the service owe each other to go on. From the invariants of the ledger and of the
  evidence: a decision that is legal is recorded, a payment whose checks are done is recommended and
  moves on, a tick of the worker leaves no confirmed payment waiting when at most fifty are (however many
  decided ones are stored), and an officer's two requests go
  through. Nothing of the code is modelled here.
\<close>

section \<open>A decision that can be taken is recorded\<close>

definition can_issue :: "service \<Rightarrow> payment_row \<Rightarrow> db \<Rightarrow> bool" where
  "can_issue svc r s \<longleftrightarrow> signer_total (S_Evidence svc) \<and> is_ok (token_of svc r) \<and> snapshot_of s (P_ID r) \<noteq> None
     \<and> recommendation_of s (P_ID r) \<noteq> None"

lemma is_okE: "is_ok x \<Longrightarrow> (\<And>y. x = Inr y \<Longrightarrow> P) \<Longrightarrow> P"
  by (auto simp: is_ok_iff)

lemma insert_decision_total:
  assumes "lawful s" and "prepare svc now s r k = Inr (d0, td0)" and "is_kind k" and "unat dl < 2 ^ 63"
    and "Suc (length (decisions_of s (P_ID r))) < 2 ^ 63"
  shows "insert_decision (decision_row_of r (d0\<lparr>Deadline := dl\<rparr>) td inp at') s
    = Inr (s\<lparr>decisions := decisions s @ [decision_row_of r (d0\<lparr>Deadline := dl\<rparr>) td inp at']\<rparr>)"
  using assms(2)
proof (rule prepare_parts)
  fix sn
  assume d0: "d0 = \<lparr> PaymentID = P_ID r, DecisionKind = k, DToken = P_Token r, Amount = P_Amount r,
        DPackHash = HexToHash (snap_root (S_Snap sn)), Nonce = foldl max 0 (map D_Nonce (past_decisions s (P_ID r))) + 1,
        Deadline = word_of_int (unix_sec (now + DecisionTTL (S_Cfg svc))) \<rparr>"
  let ?ds = "decisions_of s (P_ID r)"
  have n: "numbered ?ds" using assms(1) by (simp add: lawful_def)
  have u: "unat (Nonce d0) = Suc (length ?ds)" using numbered_next [OF n] by (simp add: d0 past_is_history [OF n])
  have new: "unat (D_Nonce x) \<noteq> Suc (length ?ds)" if "x \<in> set ?ds" for x
  proof -
    have "unat (D_Nonce x) \<in> set (map (\<lambda>d. unat (D_Nonce d)) ?ds)" using that by simp
    then show ?thesis using n unfolding numbered_def by (metis Suc_n_not_le_n atLeastLessThan_iff le_Suc_eq less_Suc_eq_le set_upt)
  qed
  have "\<not> (D_Payment x = P_ID r \<and> D_Nonce x = Nonce d0)" if "x \<in> set (decisions s)" for x
    using new [of x] that u by (auto simp: decisions_of_def simp del: One_nat_def)
  then have "\<not> list_ex (\<lambda>x. D_Payment x = P_ID r \<and> D_Nonce x = Nonce d0) (decisions s)" by (simp add: list_ex_iff)
  moreover have "1 \<le> k \<and> k \<le> 4" using assms(3) by (simp add: is_kind_range Credit_def Return_def)
  moreover have "DecisionKind d0 = k" by (simp add: d0)
  ultimately show ?thesis using assms(4,5) u by (simp add: insert_decision_def decision_row_of_def)
qed


lemma issuePack_total:
  assumes inv: "bound s" "versioned s" "journal_ok s" "evidence_inv s" and c: "can_issue svc r s"
    and snoc: "decisions s' = decisions s @ [x]" "D_Payment x = P_ID r"
    and same: "\<And>i. snapshot_of s' i = snapshot_of s i" "packs s' = packs s" "journal_seq s' = journal_seq s"
      "journal_head s' = journal_head s" "\<And>i. recommendation_of s' i = recommendation_of s i"
  shows "is_ok (issuePack svc now fresh r s')"
proof -
  obtain sn where sn: "snapshot_of s (P_ID r) = Some sn" using c by (auto simp: can_issue_def)
  obtain ver prev where v: "(case latest_pack s (S_PackID sn) of None \<Rightarrow> (1, []) | Some p \<Rightarrow> (Version p + 1, Salts p)) = (ver, prev)"
    by (metis surj_pair)
  have lp: "latest_pack s' (S_PackID sn) = latest_pack s (S_PackID sn)" by (simp add: latest_pack_def same)
  have "x \<in> set (past_decisions s' (P_ID r))" by (simp add: past_decisions_def snoc)
  then have "past_decisions s' (P_ID r) \<noteq> []" by auto
  moreover obtain y where "token_of svc r = Inr y" "recommendation_of s' (P_ID r) \<noteq> None" using c by (auto simp: can_issue_def is_ok_iff same)
  ultimately obtain rest where rest: "rest_sections svc now s' r = Inr rest" using rest_total by blast
  note ok = rest_sound [OF rest] and st = snapshot_stored [OF inv(4) sn]
  obtain pk where pk: "BuildPack fresh (S_Snap sn) ver rest prev (journal_head s) (S_Evidence svc) = Inr pk"
    using pack_built [of "S_Snap sn" rest prev "journal_head s" "S_Evidence svc"] st section_parts [OF ok] section_plain [OF ok]
      latest_salts [OF inv(4) v] inv(4) c
    unfolding snap_stored_def evidence_inv_def can_issue_def by blast
  have "ver = int (Suc (length (packs_of s (P_ID r))))" using versioned_latest [OF inv(1,2) sn, of "[]"] v by simp
  moreover have "Version p \<noteq> int (Suc (length (packs_of s (P_ID r))))" if "p \<in> set (packs_of s (P_ID r))" for p
  proof -
    have "Version p \<in> set (map Version (packs_of s (P_ID r)))" using that by simp
    then show ?thesis using inv(2) unfolding versioned_def by (auto simp del: upt_Suc)
  qed
  moreover have "K_Pack k \<in> set (packs_of s (P_ID r))" if "k \<in> set (packs s)" "PackID (K_Pack k) = S_PackID sn" for k
    unfolding bound_packs [OF inv(1) sn, symmetric] using that by simp
  moreover have "Version pk = ver" by (rule BuildPack_links(4) [OF pk])
  moreover have "K_Seq k \<noteq> Suc (journal_seq s)" if "k \<in> set (packs s)" for k
  proof -
    have "K_Seq k \<in> set (map K_Seq (packs s))" using that by simp
    then show ?thesis using inv(3) unfolding journal_ok_def by (auto simp del: upt_Suc)
  qed
  ultimately have "\<not> list_ex (\<lambda>k'. K_Seq k' = Suc (journal_seq s) \<or> PackID (K_Pack k') = S_PackID sn \<and> Version (K_Pack k') = Version pk) (packs s)"
    by (auto simp: list_ex_iff)
  then show ?thesis
    by (simp add: issuePack_def same sn lp v rest pk insert_pack_def is_ok_iff)
qed

lemma record_total:
  assumes inv: "ledger_inv svc s" "evidence_inv s" and prep: "prepare svc now0 s r k = Inr (d0, td0)" and k: "is_kind k"
    and dl: "unat dl < 2 ^ 63" and len: "Suc (length (decisions_of s (P_ID r))) < 2 ^ 63" and c: "can_issue svc r s"
  shows "is_ok (record_decision svc now fresh r (d0\<lparr>Deadline := dl\<rparr>) td inp s)"
proof -
  let ?row = "decision_row_of r (d0\<lparr>Deadline := dl\<rparr>) td inp now"
  let ?s = "s\<lparr>decisions := decisions s @ [?row]\<rparr>"
  have l: "lawful s" "bound s" "versioned s" "journal_ok s" using inv(1) by (simp_all add: ledger_inv_def)
  have "insert_decision ?row s = Inr ?s" by (rule insert_decision_total [OF l(1) prep k dl len])
  moreover have "is_ok (issuePack svc now fresh r ?s)"
    by (rule issuePack_total [OF l(2-4) inv(2) c, where x = ?row])
      (simp_all add: decision_row_of_def snapshot_of_def recommendation_of_def)
  ultimately show ?thesis by (simp add: record_decision_def is_ok_map_res)
qed

section \<open>A payment whose checks are done does not stay there\<close>

definition equipped :: "service \<Rightarrow> bool" where
  "equipped svc \<longleftrightarrow> signer_total (S_Evidence svc) \<and> (\<forall>d. raw_sign (S_Policy svc) d \<noteq> None) \<and> (\<forall>td. typed_hash (S_Crypto svc) td \<noteq> None)"

definition ttl_fits :: "service \<Rightarrow> time \<Rightarrow> bool" where
  "ttl_fits svc now \<longleftrightarrow> unat (word_of_int (unix_sec (now + DecisionTTL (S_Cfg svc))) :: 64 word) < 2 ^ 63"

lemma decideAuto_total:
  assumes inv: "ledger_inv svc s" "evidence_inv s" and e: "equipped svc" and ttl: "ttl_fits svc now"
    and first: "decisions_of s (P_ID r) = []" and k: "k = Credit \<or> k = Hold" and c: "can_issue svc r s"
  shows "is_ok (decideAuto svc now fresh r k rc s)"
proof -
  have "past_decisions s (P_ID r) = []" using first by (simp add: past_decisions_def decisions_of_def)
  then have "is_ok (prepare svc now s r k)"
    using c k by (auto simp: prepare_def can_issue_def Replay_def initial_def Next_def Let_def is_ok_iff)
  then obtain d td where p: "prepare svc now s r k = Inr (d, td)" by (auto simp: is_ok_iff)
  then have dl: "unat (Deadline d) < 2 ^ 63" using ttl by (auto elim!: prepare_parts simp: ttl_fits_def)
  obtain h where h: "typed_hash (S_Crypto svc) td = Some h" using e by (auto simp: equipped_def)
  obtain sig where sig: "SignerSign (S_Policy svc) h = Some sig" using e unfolding equipped_def SignerSign_def by blast
  have "is_kind k" using k by (auto simp: is_kind_def)
  then have "is_ok (record_decision svc now fresh r (d\<lparr>Deadline := Deadline d\<rparr>) td inp s)" for inp
    by (intro record_total [OF inv p _ dl _ c]) (simp_all add: first)
  then show ?thesis by (simp add: decideAuto_def p h sig Digest_def is_ok_map_res)
qed

lemma recommendation_for_total:
  assumes "rulesetAt s t = Inr eff"
  shows "\<exists>rc. recommendation_for eff i = Inr rc"
proof (cases eff)
  case (Some e)
  obtain raw c h where "Parse raw = Inr (F_Rules e, c, h)"
    using assms Some by (auto simp: rulesetAt_def split: option.splits sum.splits)
  then have "ruleset_ok (F_Rules e)" using Parse_ok by blast
  then show ?thesis using Recommend_sound [of "F_Rules e" i] by (auto simp: recommendation_for_def Some)
qed (simp add: recommendation_for_def)

lemma snapshot_for_total:
  assumes "token_of svc r = Inr x" and "check_rows_ok cs"
  shows "\<exists>snap. snapshot_for svc rnd fresh r cs eur eff rc i = Inr (snap, uuid4 rnd)"
proof (cases x)
  case (Pair ch t)
  have "\<exists>snap. NewSnapshot fresh (sections_of svc (uuid4 rnd) ch t r cs eur eff rc i) = Inr snap"
    using NewSnapshot_ok sections_sound [OF assms(2)] by blast
  then show ?thesis using assms(1) by (auto simp: snapshot_for_def Pair Let_def)
qed


lemma insert_recommendation_total:
  "recommendation_of s (N_Payment x) = None \<Longrightarrow> insert_recommendation x s = Inr (s\<lparr>recommendations := recommendations s @ [x]\<rparr>)"
  by (auto simp: insert_recommendation_def recommendation_of_def list_ex_iff find_first_None_iff)

lemma recommend_unfold:
  assumes p: "payment_by s (P_ID r) = Some p" "P_Stage p = ChecksDone" and u: "untouched s (P_ID r)"
    and eur: "amountEUR svc r = Inr eur" and eff: "rulesetAt s (P_BlockTime r) = Inr eff"
    and rc: "recommendation_for eff (inputs_of (checks_of s (P_ID r)) eur) = Inr rc"
    and sf: "snapshot_for svc rnd fresh r (checks_of s (P_ID r)) eur eff rc (inputs_of (checks_of s (P_ID r)) eur) = Inr (snap, packID)"
    and fresh: "packID \<notin> set (map S_PackID (snapshots s))"
  shows "recommend svc now rnd fresh r s =
    (let s2 = stored (rec_row_of svc now (P_ID r) eff rc (inputs_of (checks_of s (P_ID r)) eur))
          \<lparr> S_Payment = P_ID r, S_PackID = packID, S_Snap = snap\<lparr>snap_data := jsonb (snap_data snap)\<rparr> \<rparr> s
     in if automatic eff rc then decideAuto svc now fresh r (the (Kind (Recommendation rc))) rc s2
        else Inr (set_stage (P_ID r) InReview s2))"
proof -
  let ?rr = "rec_row_of svc now (P_ID r) eff rc (inputs_of (checks_of s (P_ID r)) eur)"
  have i: "insert_recommendation ?rr s = Inr (s\<lparr>recommendations := recommendations s @ [?rr]\<rparr>)"
    using u by (intro insert_recommendation_total) (simp add: untouched_def rec_row_of_def)
  have "\<not> list_ex (\<lambda>y. S_Payment y = P_ID r \<or> S_PackID y = packID) (snapshots s)"
    using u fresh by (auto simp: list_ex_iff untouched_def snapshot_of_def find_first_None_iff)
  then have "insert_snapshot \<lparr> S_Payment = P_ID r, S_PackID = packID, S_Snap = snap \<rparr> (s\<lparr>recommendations := recommendations s @ [?rr]\<rparr>)
      = Inr (stored ?rr \<lparr> S_Payment = P_ID r, S_PackID = packID, S_Snap = snap\<lparr>snap_data := jsonb (snap_data snap)\<rparr> \<rparr> s)"
    by (simp add: insert_snapshot_ok stored_def)
  then show ?thesis by (simp add: recommend_def p eur eff rc i sf Let_def)
qed

lemma recommend_total:
  assumes inv: "service_inv svc s" "evidence_inv s" and e: "equipped svc" and ttl: "ttl_fits svc now"
    and p: "payment_by s (P_ID r) = Some p" "P_Stage p = ChecksDone"
    and eur: "amountEUR svc r = Inr eur" and eff: "rulesetAt s (P_BlockTime r) = Inr eff"
    and fresh: "uuid4 rnd \<notin> set (map S_PackID (snapshots s))"
  shows "is_ok (recommend svc now rnd fresh r s)"
proof -
  let ?cs = "checks_of s (P_ID r)" and ?i = "inputs_of (checks_of s (P_ID r)) eur"
  have u: "untouched s (P_ID r)" using inv(1) p by (auto simp: service_inv_def staged_at_def stage_ok_def dest: spec [of _ "P_ID r"])
  obtain rc where rc: "recommendation_for eff ?i = Inr rc" using recommendation_for_total [OF eff] by blast
  obtain x where x: "token_of svc r = Inr x" using eur by (auto simp: amountEUR_def res_simps)
  have cs: "check_rows_ok ?cs" using inv(2) by (auto simp: evidence_inv_def check_rows_ok_def checks_of_def)
  obtain snap where sf: "snapshot_for svc rnd fresh r ?cs eur eff rc ?i = Inr (snap, uuid4 rnd)"
    using snapshot_for_total [OF x cs] by blast
  let ?rr = "rec_row_of svc now (P_ID r) eff rc ?i"
  let ?sn = "\<lparr> S_Payment = P_ID r, S_PackID = uuid4 rnd, S_Snap = snap\<lparr>snap_data := jsonb (snap_data snap)\<rparr> \<rparr>"
  let ?s2 = "stored ?rr ?sn s"
  have ids: "N_Payment ?rr = P_ID r" "S_Payment ?sn = P_ID r" by (simp_all add: rec_row_of_def)
  note l = stored_lookups [OF u ids]
  have st: "snap_stored snap" by (rule snapshot_for_stored [OF sf cs])
  then have id: "jsonb (snap_data snap) = snap_data snap" by (simp add: snap_stored_def jsonb_normal_entries)
  have e2: "evidence_inv ?s2" using inv(2) st by (simp add: stored_def evidence_inv_def id)
  have root: "\<exists>b. snap_root (S_Snap ?sn) = SHA b"
    using sf by (auto simp: snapshot_for_def res_simps Let_def split: prod.splits dest: NewSnapshot_root)
  have l2: "ledger_inv svc ?s2"
    using inv(1) fresh by (intro stored_ledger [OF _ u ids root]) (simp_all add: service_inv_def)
  have "is_ok (decideAuto svc now fresh r (the (Kind (Recommendation rc))) rc ?s2)" if "automatic eff rc"
  proof (rule decideAuto_total [OF l2 e2 e ttl])
    show "decisions_of ?s2 (P_ID r) = []" using u by (simp add: l untouched_def)
    show "the (Kind (Recommendation rc)) = Credit \<or> the (Kind (Recommendation rc)) = Hold" using that by (auto simp: automatic_def)
    show "can_issue svc r ?s2" using e x l by (simp add: can_issue_def equipped_def is_ok_iff)
  qed
  then show ?thesis unfolding recommend_unfold [OF p u eur eff rc sf fresh] by (simp add: Let_def is_ok_iff)
qed

lemma recommend_moves:
  assumes "recommend svc now rnd fresh r s = Inr s'" and p: "payment_by s (P_ID r) = Some p" "P_Stage p = ChecksDone"
  shows "\<exists>q. payment_by s' (P_ID r) = Some q \<and> (P_Stage q = InReview \<or> P_Stage q = Decided) \<and> same_origin p q"
  using assms(1)
proof (rule recommend_parts)
  fix eff rc inp sn s2
  assume s2: "s2 = stored (rec_row_of svc now (P_ID r) eff rc inp) sn s"
    and fin: "if automatic eff rc then decideAuto svc now fresh r (the (Kind (Recommendation rc))) rc s2 = Inr s'
         else s' = set_stage (P_ID r) InReview s2"
  have p2: "payment_by s2 (P_ID r) = Some p" using p by (simp add: s2 stored_def payment_by_def)
  show ?thesis
  proof (cases "automatic eff rc")
    case True
    then show ?thesis using fin p2
      by (auto elim!: decideAuto_parts simp: record_effect(5) decided_stage_def)
  next
    case False
    then show ?thesis using fin p2 by (simp add: payment_by_set_stage)
  qed
qed (use p in simp)

section \<open>One round of the worker serves everything that is due\<close>

lemma recommend_frame:
  assumes "recommend svc now rnd fresh r s = Inr s'"
  shows "rulesets s' = rulesets s \<and> set (map S_PackID (snapshots s')) \<subseteq> insert (uuid4 rnd) (set (map S_PackID (snapshots s)))
    \<and> (j \<noteq> P_ID r \<longrightarrow> payment_by s' j = payment_by s j)"
  using assms
proof (rule recommend_parts)
  fix eur eff rc inp snap packID sn s2
  assume sf: "snapshot_for svc rnd fresh r (checks_of s (P_ID r)) eur eff rc inp = Inr (snap, packID)"
    and sn: "sn = \<lparr> S_Payment = P_ID r, S_PackID = packID, S_Snap = snap\<lparr>snap_data := jsonb (snap_data snap)\<rparr> \<rparr>"
    and s2: "s2 = stored (rec_row_of svc now (P_ID r) eff rc inp) sn s"
    and fin: "if automatic eff rc then decideAuto svc now fresh r (the (Kind (Recommendation rc))) rc s2 = Inr s'
         else s' = set_stage (P_ID r) InReview s2"
  have "packID = uuid4 rnd" using sf by (auto simp: snapshot_for_def Let_def res_simps split: prod.splits)
  then have "rulesets s2 = rulesets s \<and> set (map S_PackID (snapshots s2)) \<subseteq> insert (uuid4 rnd) (set (map S_PackID (snapshots s)))
      \<and> payment_by s2 j = payment_by s j"
    by (auto simp: s2 sn stored_def payment_by_def)
  moreover have "rulesets s' = rulesets s2 \<and> snapshots s' = snapshots s2 \<and> (j \<noteq> P_ID r \<longrightarrow> payment_by s' j = payment_by s2 j)"
  proof (cases "automatic eff rc")
    case True
    then show ?thesis using fin by (auto elim!: decideAuto_parts simp: record_effect(2,4,5))
  next
    case False
    then show ?thesis using fin by (simp add: payment_by_set_stage) (simp add: set_stage_def)
  qed
  ultimately show ?thesis by auto
qed auto

lemma rulesetAt_cong: "rulesets s' = rulesets s \<Longrightarrow> rulesetAt s' t = rulesetAt s t"
  by (simp add: rulesetAt_def ruleset_row_at_def)

text \<open>What the environment owes a round: clocks and rates that fit, rulesets that still parse, pack ids
  that are new and differ from each other.\<close>

definition round_ok :: "service \<Rightarrow> (hash \<Rightarrow> step_env) \<Rightarrow> payment_row list \<Rightarrow> db \<Rightarrow> bool" where
  "round_ok svc env rs s \<longleftrightarrow> distinct (map P_ID rs) \<and> distinct (map (\<lambda>r. uuid4 (T_Rnd (env (P_ID r)))) rs)
     \<and> (\<forall>r\<in>set rs. ttl_fits svc (T_Now (env (P_ID r))) \<and> is_ok (amountEUR svc r) \<and> is_ok (rulesetAt s (P_BlockTime r))
          \<and> uuid4 (T_Rnd (env (P_ID r))) \<notin> set (map S_PackID (snapshots s)))"

definition awaiting :: "db \<Rightarrow> payment_row list \<Rightarrow> bool" where
  "awaiting s rs \<longleftrightarrow> (\<forall>r\<in>set rs. \<exists>p. payment_by s (P_ID r) = Some p \<and> same_origin r p \<and> P_Stage p = ChecksDone)"

definition moved_on :: "db \<Rightarrow> hash \<Rightarrow> bool" where
  "moved_on s i \<longleftrightarrow> (\<exists>q. payment_by s i = Some q \<and> (P_Stage q = InReview \<or> P_Stage q = Decided))"

lemma recommend_on_total:
  assumes "round_ok svc env rs s" and "awaiting s rs" and e: "equipped svc" "signs_for (S_Crypto svc) (S_Policy svc)"
    and "service_inv svc s" and "evidence_inv s" and "recommend_on svc env rs s = (err, s')"
  shows "err = None \<and> (\<forall>r\<in>set rs. moved_on s' (P_ID r)) \<and> (\<forall>i. i \<notin> P_ID ` set rs \<longrightarrow> payment_by s' i = payment_by s i)"
  using assms(1,2,5-7)
proof (induction rs arbitrary: s)
  case (Cons r rs)
  let ?e = "env (P_ID r)"
  have r: "ttl_fits svc (T_Now ?e)" "uuid4 (T_Rnd ?e) \<notin> set (map S_PackID (snapshots s))"
    using Cons.prems(1) by (simp_all add: round_ok_def)
  obtain eur eff where eur: "amountEUR svc r = Inr eur" and eff: "rulesetAt s (P_BlockTime r) = Inr eff"
    using Cons.prems(1) by (auto simp: round_ok_def is_ok_iff)
  obtain p where p: "payment_by s (P_ID r) = Some p" "same_origin r p" "P_Stage p = ChecksDone" using Cons.prems(2) by (auto simp: awaiting_def)
  obtain s1 where s1: "recommend svc (T_Now ?e) (T_Rnd ?e) (T_Fresh ?e) r s = Inr s1"
    using recommend_total [OF Cons.prems(3,4) e(1) r(1) p(1,3) eur eff r(2)] by (auto simp: is_ok_iff)
  have rest: "recommend_on svc env rs s1 = (err, s')" using Cons.prems(5) by (simp add: s1 Let_def)
  note fr = recommend_frame [OF s1]
  have i1: "service_inv svc s1" using recommend_inv [OF s1 Cons.prems(3) e(2)] p by simp
  have e1: "evidence_inv s1" by (rule evidence_recommend [OF s1 Cons.prems(4)])
  have new: "P_ID r \<notin> P_ID ` set rs" using Cons.prems(1) by (simp add: round_ok_def)
  have "uuid4 (T_Rnd (env (P_ID x))) \<notin> set (map S_PackID (snapshots s1))" if x: "x \<in> set rs" for x
  proof -
    have "uuid4 (T_Rnd ?e) \<notin> (\<lambda>r. uuid4 (T_Rnd (env (P_ID r)))) ` set rs" using Cons.prems(1) by (simp add: round_ok_def)
    then have "uuid4 (T_Rnd (env (P_ID x))) \<noteq> uuid4 (T_Rnd ?e)" using x by (metis image_eqI)
    moreover have "uuid4 (T_Rnd (env (P_ID x))) \<notin> set (map S_PackID (snapshots s))"
      using Cons.prems(1) x by (simp add: round_ok_def)
    ultimately show ?thesis using fr by blast
  qed
  moreover have "rulesetAt s1 t = rulesetAt s t" for t using fr by (intro rulesetAt_cong) simp
  ultimately have "round_ok svc env rs s1" using Cons.prems(1) by (simp add: round_ok_def)
  moreover have "awaiting s1 rs" unfolding awaiting_def
  proof
    fix x assume x: "x \<in> set rs"
    then have "P_ID x \<noteq> P_ID r" using new by (metis imageI)
    then have "payment_by s1 (P_ID x) = payment_by s (P_ID x)" using recommend_frame [OF s1, of "P_ID x"] by simp
    then show "\<exists>p. payment_by s1 (P_ID x) = Some p \<and> same_origin x p \<and> P_Stage p = ChecksDone"
      using Cons.prems(2) x by (simp add: awaiting_def)
  qed
  ultimately have IH: "err = None \<and> (\<forall>r\<in>set rs. moved_on s' (P_ID r)) \<and> (\<forall>i. i \<notin> P_ID ` set rs \<longrightarrow> payment_by s' i = payment_by s1 i)"
    using Cons.IH i1 e1 rest by blast
  have "moved_on s1 (P_ID r)" using recommend_moves [OF s1 p(1,3)] by (auto simp: moved_on_def)
  then have "moved_on s' (P_ID r)" using IH new by (simp add: moved_on_def)
  moreover have "payment_by s' i = payment_by s i" if "i \<notin> P_ID ` set (r # rs)" for i
    using IH that recommend_frame [OF s1, of i] by simp
  ultimately show ?case using IH by simp
qed simp

lemma distinct_due: "wf_payments s \<Longrightarrow> distinct (map P_ID (due P s))"
proof -
  assume "wf_payments s"
  then have d: "distinct (map P_ID (payments s))" by (simp add: wf_payments_def)
  have "distinct (map P_ID (sort_key P_Block (sort_key P_LogIndex (filter P (payments s)))))"
    using distinct_map_filter [OF d, of P] by (simp add: distinct_map)
  then show ?thesis by (simp add: due_def take_map [symmetric] distinct_take)
qed

lemma awaiting_due: "wf_payments s \<Longrightarrow> awaiting s (due recommend_due s)"
proof -
  assume wf: "wf_payments s"
  have "payment_by s (P_ID r) = Some r \<and> P_Stage r = ChecksDone" if "r \<in> set (due recommend_due s)" for r
  proof -
    have "r \<in> set (payments s)" "recommend_due r" using that unfolding due_def by (auto dest: in_set_takeD)
    then show ?thesis using wf find_first_distinct unfolding payment_by_def wf_payments_def recommend_due_def by fast
  qed
  then show ?thesis by (simp add: awaiting_def)
qed

text \<open>The checks always reach the database.\<close>

lemma insert_checks_total: "list_all (\<lambda>c. C_Kind c \<in> set check_kinds) cs \<Longrightarrow> is_ok (insert_checks cs s)"
proof (induction cs arbitrary: s)
  case (Cons c cs)
  have "is_ok (insert_check c s)" using Cons.prems by (simp add: insert_check_def is_ok_iff)
  then obtain s1 where "insert_check c s = Inr s1" by (auto simp: is_ok_iff)
  then show ?case using Cons by simp
qed (simp add: is_ok_iff)

lemma insert_checks_frame: "insert_checks cs s = Inr s' \<Longrightarrow> payments s' = payments s \<and> rulesets s' = rulesets s \<and> snapshots s' = snapshots s"
proof (induction cs arbitrary: s)
  case (Cons c cs)
  then obtain s1 where s1: "insert_check c s = Inr s1" "insert_checks cs s1 = Inr s'" by (auto simp: res_simps)
  then show ?case using Cons.IH [OF s1(2)] by (auto simp: insert_check_def split: if_splits)
qed simp

definition checked :: "hash \<Rightarrow> payment_row list \<Rightarrow> payment_row list" where
  "checked i = map (\<lambda>p. if P_ID p = i \<and> P_Stage p = ChecksPending then p\<lparr>P_Stage := ChecksDone\<rparr> else p)"

lemma check_total:
  assumes "is_ok (amountEUR svc r)"
  shows "\<exists>s' raw'. check_payment_step svc (\<lambda>d. service_checks e d now) env r (s, raw) = (Inr s', raw')
    \<and> payments s' = checked (P_ID r) (payments s) \<and> rulesets s' = rulesets s \<and> snapshots s' = snapshots s"
proof -
  obtain eur where eur: "amountEUR svc r = Inr eur" using assms by (auto simp: is_ok_iff)
  obtain results raw1 where r: "RunAll env (service_checks e s now) (check_payment_of r eur) (CheckTimeout (S_Cfg svc)) raw = (results, raw1)"
    by fastforce
  have "map CKind (service_checks e s now) = check_kinds" by (simp add: service_checks_def check_kinds_def)
  then have "map Res_Kind results = check_kinds" using RunAll_kinds r by (metis fst_conv)
  then have "list_all (\<lambda>x. Res_Kind x \<in> set check_kinds) results"
    unfolding list_all_iff by (metis image_eqI list.set_map)
  then have "is_ok (insert_checks (map (check_row_of (P_ID r)) results) s)"
    by (intro insert_checks_total) (simp add: list_all_iff check_row_of_def)
  then obtain s1 where s1: "insert_checks (map (check_row_of (P_ID r)) results) s = Inr s1" by (auto simp: is_ok_iff)
  have "payments (checks_done i s1) = checked i (payments s1)" for i
    by (simp add: checks_done_def update_payment_def checked_def)
  moreover have "rulesets (checks_done i s1) = rulesets s1" "snapshots (checks_done i s1) = snapshots s1" for i
    by (simp_all add: checks_done_def update_payment_def)
  ultimately show ?thesis
    using insert_checks_frame [OF s1] by (simp add: check_payment_step_def eur r s1 Let_def)
qed

definition all_checked :: "hash set \<Rightarrow> payment_row list \<Rightarrow> payment_row list" where
  "all_checked I = map (\<lambda>p. if P_ID p \<in> I \<and> P_Stage p = ChecksPending then p\<lparr>P_Stage := ChecksDone\<rparr> else p)"

lemma all_checked_step: "all_checked I (checked i ps) = all_checked (insert i I) ps"
  by (auto simp: all_checked_def checked_def)

lemma all_checked_none: "all_checked {} ps = ps"
  by (simp add: all_checked_def)

lemma run_checks_total:
  assumes "\<forall>r\<in>set rs. is_ok (amountEUR svc r)"
  shows "\<exists>s' raw'. run_checks_on svc (\<lambda>d. service_checks e d now) env rs (s, raw) = (None, s', raw')
    \<and> payments s' = all_checked (P_ID ` set rs) (payments s) \<and> rulesets s' = rulesets s \<and> snapshots s' = snapshots s"
  using assms
proof (induction rs arbitrary: s raw)
  case (Cons r rs)
  obtain s1 raw1 where s1: "check_payment_step svc (\<lambda>d. service_checks e d now) (env (P_ID r)) r (s, raw) = (Inr s1, raw1)"
    "payments s1 = checked (P_ID r) (payments s)" "rulesets s1 = rulesets s" "snapshots s1 = snapshots s"
    using check_total [of svc r e now "env (P_ID r)" s raw] Cons.prems by auto
  then show ?case using Cons.IH [of s1 raw1] Cons.prems by (auto simp: all_checked_step)
qed (simp add: all_checked_none)

text \<open>The backlog: the payments some step of the worker is due for. The others (decided, in review,
  orphaned) do not count against the batch of 50.\<close>

definition waiting :: "payment_row \<Rightarrow> bool" where
  "waiting p \<longleftrightarrow> checks_due p \<or> recommend_due p"

definition backlog :: "db \<Rightarrow> payment_row list" where
  "backlog s = filter waiting (payments s)"

lemma due_all:
  assumes "length (backlog s) \<le> 50" and sub: "\<And>p. P p \<Longrightarrow> waiting p"
  shows "set (due P s) = {p \<in> set (payments s). P p}"
proof -
  have "filter P (payments s) = filter P (backlog s)" by (auto simp: backlog_def intro!: filter_cong dest: sub)
  then have "length (filter P (payments s)) \<le> 50" using le_trans [OF length_filter_le assms(1)] by (simp only:)
  then show ?thesis by (simp add: due_def)
qed

lemma waiting_due: "checks_due p \<Longrightarrow> waiting p" "recommend_due p \<Longrightarrow> waiting p"
  by (simp_all add: waiting_def)

lemmas checks_all = due_all [of _ checks_due, OF _ waiting_due(1)]
lemmas recommend_all = due_all [of _ recommend_due, OF _ waiting_due(2)]

text \<open>What a tick needs of the configuration and of its clocks and random bytes, for its backlog.\<close>

definition tick_ok :: "service \<Rightarrow> (hash \<Rightarrow> step_env) \<Rightarrow> db \<Rightarrow> bool" where
  "tick_ok svc env s \<longleftrightarrow> (\<forall>p\<in>set (backlog s). is_ok (amountEUR svc p) \<and> is_ok (rulesetAt s (P_BlockTime p)) \<and> ttl_fits svc (T_Now (env (P_ID p)))
       \<and> uuid4 (T_Rnd (env (P_ID p))) \<notin> set (map S_PackID (snapshots s)))
     \<and> distinct (map (\<lambda>p. uuid4 (T_Rnd (env (P_ID p)))) (backlog s))"

lemma amountEUR_stage [simp]: "amountEUR svc (p\<lparr>P_Stage := st\<rparr>) = amountEUR svc p"
  by (simp add: amountEUR_def token_of_def cong: option.case_cong)

lemma filter_map_sub:
  assumes "\<And>p. f (g p) = f p" and "\<And>p. P (g p) \<Longrightarrow> P p"
  shows "set (map f (filter P (map g ps))) \<subseteq> set (map f (filter P ps))"
    and "distinct (map f (filter P ps)) \<Longrightarrow> distinct (map f (filter P (map g ps)))"
    and "length (filter P (map g ps)) \<le> length (filter P ps)"
proof -
  show sub: "set (map f (filter P (map g ps))) \<subseteq> set (map f (filter P ps))" for ps
    using assms by (induction ps) auto
  show "distinct (map f (filter P ps)) \<Longrightarrow> distinct (map f (filter P (map g ps)))"
  proof (induction ps)
    case (Cons p ps)
    have "f p \<notin> set (map f (filter P (map g ps)))" if "P (g p)"
      using sub [of ps] Cons.prems assms(2) [OF that] by auto
    then show ?case using Cons assms(2) [of p] by (cases "P (g p)"; cases "P p") (simp_all add: assms(1))
  qed simp
  show "length (filter P (map g ps)) \<le> length (filter P ps)"
    using assms(2) by (induction ps) auto
qed

text \<open>The checks bring nobody new into the backlog.\<close>

definition advance :: "hash set \<Rightarrow> payment_row \<Rightarrow> payment_row" where
  "advance I p = (if P_ID p \<in> I \<and> P_Stage p = ChecksPending then p\<lparr>P_Stage := ChecksDone\<rparr> else p)"

lemma all_checked_advance: "all_checked I ps = map (advance I) ps"
  by (simp add: all_checked_def advance_def)

lemma advance_id: "P_ID (advance I p) = P_ID p"
  by (simp add: advance_def)

lemma waiting_advance: "waiting (advance I p) \<Longrightarrow> waiting p"
  by (auto simp: advance_def waiting_def checks_due_def recommend_due_def split: if_splits)

lemma backlog_checked:
  assumes "payments s1 = all_checked I (payments s)"
  shows "length (backlog s1) \<le> length (backlog s)"
    and "q \<in> set (backlog s1) \<Longrightarrow> \<exists>p\<in>set (backlog s). q = p \<or> q = p\<lparr>P_Stage := ChecksDone\<rparr>"
proof -
  show "length (backlog s1) \<le> length (backlog s)"
    unfolding backlog_def assms all_checked_advance
    by (rule filter_map_sub(3) [where f = P_ID]) (simp_all add: advance_id waiting_advance)
  assume "q \<in> set (backlog s1)"
  then obtain p where p: "p \<in> set (payments s)" "q = advance I p" "waiting (advance I p)"
    by (auto simp: backlog_def assms all_checked_advance)
  then have "p \<in> set (backlog s)" by (simp add: backlog_def waiting_advance)
  then show "\<exists>p\<in>set (backlog s). q = p \<or> q = p\<lparr>P_Stage := ChecksDone\<rparr>" unfolding p(2) advance_def by auto
qed

lemma tick_ok_checked:
  assumes "tick_ok svc env s" and "payments s1 = all_checked I (payments s)" and "rulesets s1 = rulesets s" and "snapshots s1 = snapshots s"
  shows "tick_ok svc env s1"
proof -
  have "distinct (map (\<lambda>p. uuid4 (T_Rnd (env (P_ID p)))) (backlog s1))"
    using assms(1) unfolding tick_ok_def backlog_def assms(2) all_checked_advance
    by (intro filter_map_sub(2)) (simp_all add: advance_id waiting_advance)
  moreover have "is_ok (amountEUR svc q) \<and> is_ok (rulesetAt s1 (P_BlockTime q)) \<and> ttl_fits svc (T_Now (env (P_ID q)))
      \<and> uuid4 (T_Rnd (env (P_ID q))) \<notin> set (map S_PackID (snapshots s1))" if q: "q \<in> set (backlog s1)" for q
  proof -
    obtain p where p: "p \<in> set (backlog s)" "q = p \<or> q = p\<lparr>P_Stage := ChecksDone\<rparr>"
      using backlog_checked(2) [OF assms(2) q] by blast
    then show ?thesis using assms(1) unfolding tick_ok_def rulesetAt_cong [OF assms(3)] assms(4) by fastforce
  qed
  ultimately show ?thesis by (simp add: tick_ok_def)
qed

lemma tick_round:
  assumes "tick_ok svc env s" and wf: "wf_payments s"
  shows "round_ok svc env (due recommend_due s) s"
proof -
  have sub: "set (due recommend_due s) \<subseteq> set (backlog s)"
    unfolding due_def backlog_def by (auto simp: waiting_def dest!: in_set_takeD)
  have "inj_on (\<lambda>p. uuid4 (T_Rnd (env (P_ID p)))) (set (backlog s))" using assms(1) by (simp add: tick_ok_def distinct_map)
  then have "inj_on (\<lambda>p. uuid4 (T_Rnd (env (P_ID p)))) (set (due recommend_due s))" using sub by (rule inj_on_subset)
  moreover have d: "distinct (map P_ID (due recommend_due s))" by (rule distinct_due [OF wf])
  ultimately show ?thesis using assms(1) sub by (auto simp: round_ok_def tick_ok_def distinct_map)
qed

lemma member_by: "wf_payments s \<Longrightarrow> p \<in> set (payments s) \<longleftrightarrow> payment_by s (P_ID p) = Some p"
  using find_first_distinct [of P_ID "payments s" p] find_first_SomeD [of "\<lambda>x. P_ID x = P_ID p" "payments s" p]
  unfolding payment_by_def wf_payments_def by blast

lemma recommendAll_wf:
  assumes "wf_payments s"
  shows "wf_payments (snd (recommendAll svc env s))"
  using wf_run.run_good [OF recommendAll_steps [OF assms]] assms by blast

definition settled :: "payment_row \<Rightarrow> bool" where
  "settled p \<longleftrightarrow> P_Ingest p \<noteq> Confirmed \<or> P_Stage p = InReview \<or> P_Stage p = Decided"

lemma recommendAll_settles:
  assumes t: "tick_ok svc env s" and e: "equipped svc" "signs_for (S_Crypto svc) (S_Policy svc)"
    and inv: "service_inv svc s" "evidence_inv s" and small: "length (backlog s) \<le> 50"
    and pend: "\<And>p. p \<in> set (payments s) \<Longrightarrow> P_Ingest p = Confirmed \<Longrightarrow> P_Stage p \<noteq> ChecksPending"
    and r: "recommendAll svc env s = (err, s')"
  shows "err = None \<and> (\<forall>p\<in>set (payments s'). moved_on s' (P_ID p) \<or> P_Ingest p \<noteq> Confirmed)"
proof -
  let ?rs = "due recommend_due s"
  have wf: "wf_payments s" using inv(1) by (simp add: service_inv_def ledger_inv_def)
  have wf': "wf_payments s'" using recommendAll_wf [OF wf, of svc env] by (simp add: r)
  have on: "recommend_on svc env ?rs s = (err, s')" using r by (simp add: recommendAll_def)
  note dn = recommend_on_total [OF tick_round [OF t wf] awaiting_due [OF wf] e inv on]
  have "moved_on s' (P_ID p) \<or> P_Ingest p \<noteq> Confirmed" if p: "p \<in> set (payments s')" for p
  proof (cases "P_ID p \<in> P_ID ` set ?rs")
    case True
    then obtain x where "x \<in> set ?rs" "P_ID p = P_ID x" by blast
    then show ?thesis using dn by simp
  next
    case False
    then have s: "payment_by s (P_ID p) = Some p" using dn p wf' by (simp add: member_by)
    then have m: "p \<in> set (payments s)" using wf by (simp add: member_by)
    then have "\<not> recommend_due p" using False recommend_all [OF small] by blast
    then show ?thesis
      using pend [OF m] dn False s by (cases "P_Stage p") (auto simp: recommend_due_def moved_on_def)
  qed
  then show ?thesis using dn by blast
qed

lemma checks_leave_none:
  assumes "length (backlog s) \<le> 50" and "p \<in> set (all_checked (P_ID ` set (due checks_due s)) (payments s))" and "P_Ingest p = Confirmed"
  shows "P_Stage p \<noteq> ChecksPending"
  using assms(2,3) checks_all [OF assms(1)] by (auto simp: all_checked_def checks_due_def split: if_splits)

lemma tick_settles:
  assumes "service_inv svc s" and "evidence_inv s" and "signs_for (S_Crypto svc) (S_Policy svc)" and "equipped svc" and "tick_ok svc env s"
    and "length (backlog s) \<le> 50"
  shows "\<exists>s' raw'. Tick svc (\<lambda>d. service_checks e d now) cenv env (s, raw) = (None, s', raw')
    \<and> (\<forall>p\<in>set (payments s'). P_Ingest p = Confirmed \<longrightarrow> P_Stage p = InReview \<or> P_Stage p = Decided)"
proof -
  let ?I = "P_ID ` set (due checks_due s)" and ?ck = "\<lambda>d. service_checks e d now"
  have "\<forall>r\<in>set (due checks_due s). is_ok (amountEUR svc r)"
    using assms(5) checks_all [OF assms(6)] by (simp add: tick_ok_def backlog_def waiting_def)
  then obtain s1 raw1 where c: "run_checks_on svc ?ck cenv (due checks_due s) (s, raw) = (None, s1, raw1)"
    and s1: "payments s1 = all_checked ?I (payments s)" "rulesets s1 = rulesets s" "snapshots s1 = snapshots s"
    using run_checks_total by blast
  have steps: "(pstep svc id Some)\<^sup>*\<^sup>* s s1"
    using run_checks_steps [of svc id Some "(s, raw)" e now cenv "due checks_due s"] by (simp add: c)
  have inv: "service_inv svc s1" "evidence_inv s1"
    using service_run.run_good [OF steps] evidence_run.run_good [OF steps] assms(1-3) by blast+
  obtain err s2 where r: "recommendAll svc env s1 = (err, s2)" by fastforce
  have "length (backlog s1) \<le> 50" using assms(6) backlog_checked(1) [OF s1(1)] by simp
  moreover have "P_Stage p \<noteq> ChecksPending" if "p \<in> set (payments s1)" "P_Ingest p = Confirmed" for p
    using checks_leave_none [OF assms(6)] that by (simp add: s1(1))
  ultimately have d: "err = None \<and> (\<forall>p\<in>set (payments s2). moved_on s2 (P_ID p) \<or> P_Ingest p \<noteq> Confirmed)"
    using recommendAll_settles [OF tick_ok_checked [OF assms(5) s1] assms(4,3) inv _ _ r] by blast
  have "wf_payments s2" using recommendAll_wf [of s1 svc env] inv(1) r by (simp add: service_inv_def ledger_inv_def)
  then have "\<forall>p\<in>set (payments s2). P_Ingest p = Confirmed \<longrightarrow> P_Stage p = InReview \<or> P_Stage p = Decided"
    using d by (auto simp: moved_on_def member_by)
  then show ?thesis using d by (simp add: Tick_def runChecks_def c r)
qed

section \<open>An officer who may decide can\<close>

lemma Next_is_kind: "Next st k = Inr st' \<Longrightarrow> is_kind k"
  by (auto simp: Next_def is_kind_def split: if_splits)

definition decidable :: "service \<Rightarrow> payment_row \<Rightarrow> kind \<Rightarrow> db \<Rightarrow> bool" where
  "decidable svc r k s \<longleftrightarrow> payment_by s (P_ID r) = Some r \<and> can_issue svc r s \<and> is_ok (Next (fst (Replay (history s (P_ID r)))) k)
     \<and> Suc (length (decisions_of s (P_ID r))) < 2 ^ 63"

definition offer :: "service \<Rightarrow> time \<Rightarrow> payment_row \<Rightarrow> kind \<Rightarrow> db \<Rightarrow> decision" where
  "offer svc now r k s = \<lparr> PaymentID = P_ID r, DecisionKind = k, DToken = P_Token r, Amount = P_Amount r,
     DPackHash = (case snapshot_of s (P_ID r) of None \<Rightarrow> [] | Some sn \<Rightarrow> HexToHash (snap_root (S_Snap sn))),
     Nonce = of_nat (Suc (length (decisions_of s (P_ID r)))), Deadline = word_of_int (unix_sec (now + DecisionTTL (S_Cfg svc))) \<rparr>"

lemma prepare_offer:
  assumes "lawful s" and "decidable svc r k s"
  shows "prepare svc now s r k = Inr (offer svc now r k s, TypedData (S_Crypto svc) (P_Chain r) (P_Deposit r) (offer svc now r k s))"
proof -
  let ?ds = "decisions_of s (P_ID r)"
  have n: "numbered ?ds" using assms(1) by (simp add: lawful_def)
  have past: "past_decisions s (P_ID r) = ?ds" by (rule past_is_history [OF n])
  have "foldl max 0 (map D_Nonce ?ds) + 1 = (of_nat (Suc (length ?ds)) :: 64 word)"
    by (simp flip: numbered_next [OF n])
  moreover obtain sn where "snapshot_of s (P_ID r) = Some sn" using assms(2) by (auto simp: decidable_def can_issue_def)
  moreover obtain st where "Next (fst (Replay (map D_Kind ?ds))) k = Inr st"
    using assms(2) by (auto simp: decidable_def history_def is_ok_iff)
  ultimately show ?thesis by (simp add: prepare_def past Let_def offer_def add.commute)
qed

lemma offer_later [simp]: "offer svc now' r k s\<lparr>Deadline := Deadline (offer svc now r k s)\<rparr> = offer svc now r k s"
  by (simp add: offer_def)

lemma offer_nonce: "Suc (length (decisions_of s (P_ID r))) < 2 ^ 63 \<Longrightarrow> unat (Nonce (offer svc now r k s)) < 2 ^ 63"
proof -
  assume "Suc (length (decisions_of s (P_ID r))) < 2 ^ 63"
  then have "unat (of_nat (Suc (length (decisions_of s (P_ID r)))) :: 64 word) = Suc (length (decisions_of s (P_ID r)))"
    by (simp only: unat_of_nat) (simp add: take_bit_nat_eq_self)
  then show ?thesis using \<open>Suc _ < _\<close> by (simp add: offer_def)
qed

lemma pendings_lookups [simp]:
  "snapshot_of (s\<lparr>pendings := q\<rparr>) i = snapshot_of s i" "recommendation_of (s\<lparr>pendings := q\<rparr>) i = recommendation_of s i"
  "decisions_of (s\<lparr>pendings := q\<rparr>) i = decisions_of s i" "history (s\<lparr>pendings := q\<rparr>) i = history s i"
  "offer svc now r k (s\<lparr>pendings := q\<rparr>) = offer svc now r k s" "can_issue svc r (s\<lparr>pendings := q\<rparr>) = can_issue svc r s"
  "decidable svc r k (s\<lparr>pendings := q\<rparr>) = decidable svc r k s"
  by (simp_all add: snapshot_of_def recommendation_of_def decisions_of_def history_def offer_def can_issue_def decidable_def)

lemma evidence_pendings: "evidence_inv (s\<lparr>pendings := q\<rparr>) = evidence_inv s"
  by (simp add: evidence_inv_def)

lemma typed_data_offered:
  assumes "service_inv svc s" and d: "decidable svc r k s" and ttl: "ttl_fits svc now"
  shows "OfficerTypedData svc now (P_ID r) k s = Inr (JSON (TypedData (S_Crypto svc) (P_Chain r) (P_Deposit r) (offer svc now r k s)),
    s\<lparr>pendings := AList.update (P_ID r, k) \<lparr> Q_Nonce = Nonce (offer svc now r k s), Q_Deadline = Deadline (offer svc now r k s),
      Q_Typed = JSON (TypedData (S_Crypto svc) (P_Chain r) (P_Deposit r) (offer svc now r k s)), Q_Expires = now + officerRequestTTL \<rparr> (pendings s)\<rparr>)"
proof -
  have "lawful s" using assms(1) by (simp add: service_inv_def ledger_inv_def)
  moreover have "unat (Nonce (offer svc now r k s)) < 2 ^ 63" using d by (intro offer_nonce) (simp add: decidable_def)
  moreover have "unat (Deadline (offer svc now r k s)) < 2 ^ 63" using ttl by (simp add: offer_def ttl_fits_def)
  moreover have "payment_by s (P_ID r) = Some r" using d by (simp add: decidable_def)
  ultimately show ?thesis
    by (simp add: OfficerTypedData_def lockPayment_def prepare_offer [OF _ d] upsert_pending_def)
qed

lemma officer_accepted:
  assumes "service_inv svc s" and "evidence_inv s" and d: "decidable svc r k s" and ttl: "ttl_fits svc now"
    and q: "live_pending now' s (P_ID r) k = Inr q" and n: "Q_Nonce q = Nonce (offer svc now r k s)"
      "Q_Deadline q = Deadline (offer svc now r k s)"
    and o': "VerifyOfficer (S_Crypto svc) (TypedData (S_Crypto svc) (P_Chain r) (P_Deposit r) (offer svc now r k s)) sig k (Officers (S_Cfg svc)) = Inr o'"
    and b: "\<not> blank rationale"
  shows "\<exists>out s' row. OfficerDecide svc now' fresh (P_ID r) k sig rationale s = Inr (out, s') \<and> decisions s' = decisions s @ [row]
    \<and> D_Payment row = P_ID r \<and> D_Kind row = k \<and> D_Officer row = Some (OfficerID o') \<and> D_Sig row = sig"
proof -
  have led: "ledger_inv svc s" and law: "lawful s" using assms(1) by (simp_all add: service_inv_def ledger_inv_def)
  note prep = prepare_offer [OF law d, of now']
  have p: "payment_by s (P_ID r) = Some r" and c: "can_issue svc r s" and len: "Suc (length (decisions_of s (P_ID r))) < 2 ^ 63"
    and k: "is_kind k"
    using d Next_is_kind by (auto simp: decidable_def is_ok_iff)
  obtain rc where rc: "recommendation_of s (P_ID r) = Some rc" using c by (auto simp: can_issue_def)
  have dl: "unat (Deadline (offer svc now r k s)) < 2 ^ 63" using ttl by (simp add: offer_def ttl_fits_def)
  let ?td = "TypedData (S_Crypto svc) (P_Chain r) (P_Deposit r) (offer svc now r k s)"
  let ?inp = "\<lparr> RI_Mode = ''OFFICER_REVIEW'', RI_PolicyRef = PolicyRef (N_Rec rc), RI_Reasons = Reasons (N_Rec rc),
      RI_Rationale = rationale, RI_Officer = Some (OfficerID o'), RI_Signer = OfficerAddress o', RI_Sig = sig \<rparr>"
  obtain out s1 where rec: "record_decision svc now' fresh r (offer svc now r k s) ?td ?inp s = Inr (out, s1)"
    using record_total [OF led assms(2) prep k dl len c, of now' fresh ?td ?inp] by (auto simp: is_ok_iff)
  have "Nonce (offer svc now' r k s) = Q_Nonce q" by (simp add: n offer_def)
  then have "OfficerDecide svc now' fresh (P_ID r) k sig rationale s = Inr (out, drop_pending (P_ID r) s1)"
    by (simp add: OfficerDecide_def b lockPayment_def p q prep Let_def n o' recommendationReasons_def rc rec)
  moreover have "decisions (drop_pending (P_ID r) s1) = decisions s @ [decision_row_of r (offer svc now r k s) ?td ?inp now']"
    using record_effect(1) [OF rec] by (simp add: drop_pending_def)
  ultimately show ?thesis by (simp add: decision_row_of_def offer_def)
qed

lemma officer_completes:
  assumes inv: "service_inv svc s" "evidence_inv s" and d: "decidable svc r k s" and ttl: "ttl_fits svc now"
    and fresh: "now' \<le> now + officerRequestTTL" and b: "\<not> blank rationale"
    and td: "td = TypedData (S_Crypto svc) (P_Chain r) (P_Deposit r) (offer svc now r k s)"
    and o': "VerifyOfficer (S_Crypto svc) td sig k (Officers (S_Cfg svc)) = Inr o'"
  shows "\<exists>s1 out s2 row. OfficerTypedData svc now (P_ID r) k s = Inr (JSON td, s1)
    \<and> OfficerDecide svc now' new (P_ID r) k sig rationale s1 = Inr (out, s2)
    \<and> decisions s2 = decisions s @ [row] \<and> D_Payment row = P_ID r \<and> D_Kind row = k \<and> D_Officer row = Some (OfficerID o') \<and> D_Sig row = sig"
proof -
  let ?q = "\<lparr> Q_Nonce = Nonce (offer svc now r k s), Q_Deadline = Deadline (offer svc now r k s), Q_Typed = JSON td,
    Q_Expires = now + officerRequestTTL \<rparr>"
  let ?s1 = "s\<lparr>pendings := AList.update (P_ID r, k) ?q (pendings s)\<rparr>"
  have t: "OfficerTypedData svc now (P_ID r) k s = Inr (JSON td, ?s1)" unfolding td by (rule typed_data_offered [OF inv(1) d ttl])
  have "live_pending now' ?s1 (P_ID r) k = Inr ?q" using fresh by (simp add: live_pending_def update_conv)
  moreover have "service_inv svc ?s1" "evidence_inv ?s1" using inv by (simp_all add: inv_pendings evidence_pendings)
  ultimately have "\<exists>out s' row. OfficerDecide svc now' new (P_ID r) k sig rationale ?s1 = Inr (out, s') \<and> decisions s' = decisions ?s1 @ [row]
      \<and> D_Payment row = P_ID r \<and> D_Kind row = k \<and> D_Officer row = Some (OfficerID o') \<and> D_Sig row = sig"
    using d ttl b o' by (intro officer_accepted [where now = now and q = ?q]) (simp_all add: td)
  then show ?thesis using t by auto
qed

end
