(* ===== verification/Sample.thy ===== *)
theory Sample
  imports Progress
begin

text \<open>
  One run of the service with the sample configuration, from the empty database: the reconciler finds a
  transfer, the worker checks it and puts it before an officer, the officer credits it. The lemmas
  evaluate or construct each step; the properties are shown on the databases of this run.
\<close>

section \<open>A service with the sample configuration\<close>

definition sample_crypto :: crypto where
  "sample_crypto = \<lparr> addr_hex = hash_hex, typed_hash = (\<lambda>td. Some (replicate 32 (char_of (0 :: nat)))),
     sig_to_addr = (\<lambda>d sig. Some (replicate 20 (sig ! 0))) \<rparr>"

definition sample_service :: service where
  "sample_service = \<lparr> S_Cfg = sample_config,
     S_Policy = \<lparr> SignerAddress = replicate 20 (char_of (9 :: nat)), raw_sign = (\<lambda>d. Some (replicate 64 (char_of (9 :: nat)) @ [char_of (0 :: nat)])) \<rparr>,
     S_Evidence = \<lparr> KID = ''k'', ecdsa_sign = (\<lambda>d. Some (1, 1)) \<rparr>, S_Crypto = sample_crypto, S_Engine = ''deflow-core@dev'' \<rparr>"

lemma sample_signs: "signs_for (S_Crypto sample_service) (S_Policy sample_service)"
  by (simp add: signs_for_def sample_service_def sample_crypto_def nth_append)

lemma sample_equipped: "equipped sample_service"
  by (simp add: equipped_def sample_service_def sample_crypto_def signer_total_def)

definition officer_sig :: string where
  "officer_sig = replicate 64 (char_of (3 :: nat)) @ [char_of (27 :: nat)]"

lemma officer_sig_accepted:
  "VerifyOfficer (S_Crypto sample_service) td officer_sig Credit (Officers (S_Cfg sample_service))
    = Inr \<lparr> OfficerAddress = replicate 20 (char_of (3 :: nat)), OfficerID = ''o'', Mask = 15 \<rparr>"
proof -
  have "Permits 15 Credit" by code_simp
  moreover have "Recover sample_crypto d officer_sig = Inr (replicate 20 (char_of (3 :: nat)))" for d
    by (simp add: Recover_def officer_sig_def sample_crypto_def normal_v_def Let_def nth_append)
  ultimately show ?thesis
    by (simp add: VerifyOfficer_iff sample_service_def sample_config_def) (simp add: sample_crypto_def)
qed

section \<open>A payment arrives\<close>

definition sample_chain :: chain where
  "sample_chain = hd (Chains sample_config)"

definition sample_log :: eth_log where
  "sample_log = \<lparr> G_Address = replicate 20 (char_of (1 :: nat)),
     G_Topics = [replicate 32 (char_of (0 :: nat)), replicate 32 (char_of (7 :: nat)), address_topic (replicate 20 (char_of (2 :: nat)))],
     G_Data = replicate 31 (char_of (0 :: nat)) @ [char_of (5 :: nat)], G_Block = 7, G_Tx = zero_bytes 32, G_BlockHash = ''b'', G_Index = 0,
     G_Removed = False \<rparr>"

definition sample_eth :: "64 word \<Rightarrow> eth_client" where
  "sample_eth head = \<lparr> BlockNumber = Inr head, FilterLogs = (\<lambda>q. Inr [sample_log]), HeaderByNumber = (\<lambda>b. Inr \<lparr> H_Hash = ''b'', H_Time = 0 \<rparr>) \<rparr>"

definition arrived_log :: deposit_log where
  "arrived_log = deposit_of 1 sample_log \<lparr> H_Hash = ''b'', H_Time = 0 \<rparr>"

definition arrived :: payment_row where
  "arrived = row_of id arrived_log Confirmed False"

text \<open>The first step starts the cursor at block 5, the second reads blocks 6 to 15.\<close>

definition watching :: db where
  "watching = snd (Step id (sample_eth 10) sample_chain empty_db)"

definition after_arrival :: db where
  "after_arrival = snd (Step id (sample_eth 20) sample_chain watching)"

lemma sample_chain_sel: "ChainID sample_chain = 1" "Confirmations sample_chain = 5" "Chunk sample_chain = 10"
  by (simp_all add: sample_chain_def sample_config_def)

lemma watching_is: "watching = empty_db\<lparr>cursors := [(1, \<lparr> LastReconciled = 5, BackfillUntil = 0 \<rparr>)]\<rparr>"
  by (simp add: watching_def Step_def sample_eth_def sample_chain_sel start_cursor_def empty_db_def Let_def)

lemma fetch_arrived: "fetch id (sample_eth 20) sample_chain a b = Inr [arrived_log]"
  by (simp add: fetch_def sample_eth_def log_wellformed_def sample_log_def arrived_log_def sample_chain_sel)

lemma after_arrival_is: "after_arrival = empty_db\<lparr>cursors := [(1, \<lparr> LastReconciled = 15, BackfillUntil = 0 \<rparr>)], payments := [arrived]\<rparr>"
proof -
  have "L_Block arrived_log = 7" by (simp add: arrived_log_def deposit_of_def sample_log_def)
  then have r: "reconcile_range id 1 [arrived_log] 0 6 15 watching
      = empty_db\<lparr>cursors := [(1, \<lparr> LastReconciled = 15, BackfillUntil = 0 \<rparr>)], payments := [arrived]\<rparr>"
    by (simp add: reconcile_range_def watching_is upsertConfirmed_def payment_by_def orphan_unconfirmed_def set_cursor_def arrived_def row_of_def
        empty_db_def)
  show ?thesis using r [unfolded watching_is]
    by (simp add: after_arrival_def Step_def sample_eth_def [of 20] sample_chain_sel start_cursor_def fetch_arrived [unfolded sample_eth_def] Let_def
      watching_is)
qed

lemma arrived_reachable: "(pstep sample_service id Some)\<^sup>*\<^sup>* empty_db after_arrival"
proof -
  have "pstep sample_service id Some empty_db watching" "pstep sample_service id Some watching after_arrival"
    unfolding watching_def after_arrival_def by (rule pstep.reconcile)+
  then show ?thesis by (meson r_into_rtranclp rtranclp_trans)
qed

section \<open>It is checked, recommended and put before an officer\<close>

lemma sample_rate_1: "rat_set ''1.00'' = Some 1"
proof -
  have "rat_set (nat_dec 1 @ CHR ''.'' # ''00'') = Some (of_nat (1 * 10 ^ length ''00'' + dec_nat ''00'') / 10 ^ length ''00'')"
    by (rule rat_set_decimal) (simp_all add: is_digit_def)
  moreover have "nat_dec 1 = ''1''" by code_simp
  ultimately show ?thesis by (simp add: dec_nat_def digit_val_def)
qed

lemma arrived_sel: "P_Chain arrived = 1" "P_Token arrived = replicate 20 (char_of (1 :: nat))" "P_Stage arrived = ChecksPending"
  "P_Ingest arrived = Confirmed" "P_Amount arrived = 5"
proof -
  have "be_nat (replicate 31 (char_of (0 :: nat)) @ [char_of (5 :: nat)]) = 5" by code_simp
  then show "P_Chain arrived = 1" "P_Token arrived = replicate 20 (char_of (1 :: nat))" "P_Stage arrived = ChecksPending"
    "P_Ingest arrived = Confirmed" "P_Amount arrived = 5"
    by (simp_all add: arrived_def row_of_def arrived_log_def deposit_of_def sample_log_def)
qed

lemma arrived_token: "is_ok (token_of sample_service arrived)"
  by (simp add: token_of_def sample_service_def sample_config_def Chain_def Token_def arrived_sel is_ok_iff)

lemma arrived_eur: "is_ok (amountEUR sample_service arrived)"
proof -
  obtain ch t where t: "token_of sample_service arrived = Inr (ch, t)" using arrived_token by (auto simp: is_ok_iff)
  then have "EURRate t = ''1.00''"
    by (auto simp: token_of_def sample_service_def sample_config_def Chain_def Token_def arrived_sel split: option.splits if_splits)
  then show ?thesis by (simp add: amountEUR_def t EUR_def sample_rate_1 is_ok_iff)
qed

definition sample_time :: time where
  "sample_time = 0"

lemma sample_ttl: "ttl_fits sample_service sample_time"
  by (simp add: ttl_fits_def sample_time_def sample_service_def sample_config_def unix_sec_def second_def)

definition in_review :: payment_row where
  "in_review = arrived\<lparr>P_Stage := InReview\<rparr>"

lemma sample_invariants:
  assumes "(pstep sample_service id Some)\<^sup>*\<^sup>* empty_db s"
  shows "service_inv sample_service s" "evidence_inv s"
  using reachable_inv [of sample_service id Some s] reachable_evidence [of sample_service id Some s] assms sample_signs
  by (simp_all add: reachable_def)

definition sample_pack_id :: string where
  "sample_pack_id = uuid4 (replicate 16 CHR ''a'')"

lemma sample_reviewed:
  "\<exists>s. (pstep sample_service id Some)\<^sup>*\<^sup>* empty_db s \<and> payment_by s (P_ID in_review) = Some in_review \<and> decisions s = []
     \<and> recommended s (P_ID in_review) \<and> payments s = [in_review]
     \<and> (\<forall>sn\<in>set (snapshots s). S_PackID sn = sample_pack_id)"
proof -
  obtain s1 raw1 where c: "check_payment_step sample_service (\<lambda>d. service_checks undefined d sample_time) undefined arrived (after_arrival, [])
      = (Inr s1, raw1)"
    and s1: "payments s1 = checked (P_ID arrived) (payments after_arrival)" "rulesets s1 = []" "snapshots s1 = []"
    using check_total [OF arrived_eur, of undefined sample_time undefined after_arrival "[]"] by (auto simp: after_arrival_is empty_db_def)
  have 1: "pstep sample_service id Some after_arrival s1" using c by (rule pstep.check)
  have reach: "(pstep sample_service id Some)\<^sup>*\<^sup>* empty_db s1" using arrived_reachable 1 by (rule rtranclp.rtrancl_into_rtrancl)
  note inv = sample_invariants [OF reach]
  have ps: "payments s1 = [arrived\<lparr>P_Stage := ChecksDone\<rparr>]" by (simp add: s1 checked_def after_arrival_is arrived_sel)
  let ?r = "arrived\<lparr>P_Stage := ChecksDone\<rparr>"
  have p: "payment_by s1 (P_ID ?r) = Some ?r" by (simp add: payment_by_def ps)
  have eff: "rulesetAt s1 (P_BlockTime ?r) = Inr None" by (simp add: rulesetAt_def ruleset_row_at_def s1 Let_def)
  obtain eur where eur: "amountEUR sample_service ?r = Inr eur" using arrived_eur by (auto simp: is_ok_iff)
  obtain s2 where s2: "recommend sample_service sample_time (replicate 16 CHR ''a'') id ?r s1 = Inr s2"
    using recommend_total [OF inv sample_equipped sample_ttl p _ eur eff, of "replicate 16 CHR ''a''" id] by (auto simp: s1 is_ok_iff)
  have 2: "pstep sample_service id Some s1 s2" using s2 p by (rule pstep.recommendation) simp
  have reach2: "(pstep sample_service id Some)\<^sup>*\<^sup>* empty_db s2" using reach 2 by (rule rtranclp.rtrancl_into_rtrancl)
  have dec: "decisions s1 = []"
  proof -
    have "decisions_of s1 i = []" for i
      using inv(1) by (cases "i = P_ID ?r")
        (auto simp: service_inv_def staged_at_def payment_by_def ps stage_ok_def untouched_def dest: spec [of _ i] split: if_splits)
    then show ?thesis unfolding decisions_of_def by (metis (mono_tags) filter_empty_conv list.set_intros(1) neq_Nil_conv)
  qed
  from s2 have "payments s2 = [in_review] \<and> decisions s2 = []"
  proof (rule recommend_parts)
    fix eff' rc inp sn s3
    assume e: "rulesetAt s1 (P_BlockTime ?r) = Inr eff'" and s3: "s3 = stored (rec_row_of sample_service sample_time (P_ID ?r) eff' rc inp) sn s1"
      and fin: "if automatic eff' rc then decideAuto sample_service sample_time id ?r (the (Kind (Recommendation rc))) rc s3 = Inr s2
         else s2 = set_stage (P_ID ?r) InReview s3"
    have "eff' = None" using e eff by simp
    then have "s2 = set_stage (P_ID ?r) InReview s3" using fin by (simp add: automatic_def)
    then show ?thesis by (simp add: s3 stored_def set_stage_def update_payment_def ps in_review_def dec)
  qed (use p in simp)
  then have ps2: "payments s2 = [in_review]" "decisions s2 = []" by simp_all
  then have p2: "payment_by s2 (P_ID in_review) = Some in_review" by (simp add: payment_by_def)
  have "staged_at s2 (P_ID in_review)" using sample_invariants(1) [OF reach2] by (simp add: service_inv_def)
  then have "recommended s2 (P_ID in_review)" unfolding staged_at_def p2 by (simp add: stage_ok_def in_review_def)
  moreover have "\<forall>sn\<in>set (snapshots s2). S_PackID sn = sample_pack_id"
    using recommend_frame [OF s2] by (auto simp: s1(3) sample_pack_id_def)
  ultimately show ?thesis using reach2 ps2 p2 by blast
qed


lemma sample_decidable:
  assumes "payment_by s (P_ID in_review) = Some in_review" and "decisions s = []" and "recommended s (P_ID in_review)"
  shows "decidable sample_service in_review Credit s"
proof -
  have "token_of sample_service in_review = token_of sample_service arrived" by (simp add: token_of_def in_review_def cong: option.case_cong)
  then have "can_issue sample_service in_review s"
    using assms(3) arrived_token sample_equipped by (simp add: can_issue_def equipped_def recommended_def)
  moreover have "is_ok (Next (fst (Replay [])) Credit)" by code_simp
  ultimately show ?thesis using assms(1,2) by (simp add: decidable_def history_def decisions_of_def)
qed

lemma sample_rationale: "\<not> blank ''ok''"
  by (simp add: not_blank_letter ascii_def)

lemma sample_decided:
  "\<exists>s s'. reachable sample_service id Some s \<and> (pstep sample_service id Some)\<^sup>*\<^sup>* s s' \<and> reachable sample_service id Some s'
     \<and> payments s = [in_review] \<and> decisions s = [] \<and> (\<exists>d. decisions s' = [d] \<and> D_Payment d = P_ID in_review \<and> D_Kind d = Credit)
     \<and> recommended s (P_ID in_review) \<and> (\<forall>sn\<in>set (snapshots s). S_PackID sn = sample_pack_id)"
proof -
  obtain s where s: "(pstep sample_service id Some)\<^sup>*\<^sup>* empty_db s" "payment_by s (P_ID in_review) = Some in_review" "decisions s = []"
    "recommended s (P_ID in_review)" "payments s = [in_review]" "\<forall>sn\<in>set (snapshots s). S_PackID sn = sample_pack_id"
    using sample_reviewed by blast
  note inv = sample_invariants [OF s(1)] and d = sample_decidable [OF s(2-4)]
  have "sample_time \<le> sample_time + officerRequestTTL" by (simp add: officerRequestTTL_def second_def)
  then obtain s1 doc out s2 row where 1: "OfficerTypedData sample_service sample_time (P_ID in_review) Credit s = Inr (doc, s1)"
    and 2: "OfficerDecide sample_service sample_time id (P_ID in_review) Credit officer_sig ''ok'' s1 = Inr (out, s2)"
    and row: "decisions s2 = decisions s @ [row]" "D_Payment row = P_ID in_review" "D_Kind row = Credit"
    using officer_completes [OF inv d sample_ttl _ sample_rationale refl officer_sig_accepted] by blast
  have "(pstep sample_service id Some)\<^sup>*\<^sup>* s s2"
    using pstep.typed [OF 1, of id Some] pstep.decision [OF 2, of id Some] by (meson r_into_rtranclp rtranclp_trans)
  moreover have "reachable sample_service id Some s2" using calculation s(1) unfolding reachable_def by (meson rtranclp_trans)
  moreover have "decisions s2 = [row]" using row(1) s(3) by simp
  ultimately show ?thesis using s row(2,3) unfolding reachable_def by blast
qed

text \<open>Its one pack has the id drawn for the snapshot.\<close>

lemma later_snapshot: "later s s' \<Longrightarrow> snapshot_of s i = Some sn \<Longrightarrow> snapshot_of s' i = Some sn"
  by (auto simp: later_def append_only_def snapshot_of_def intro: find_first_prefix)

lemma sample_pack:
  "\<exists>s k. reachable sample_service id Some s \<and> packs s = [k] \<and> PackID (K_Pack k) = sample_pack_id"
proof -
  obtain s s' d where s: "(pstep sample_service id Some)\<^sup>*\<^sup>* s s'" "reachable sample_service id Some s'" "decisions s' = [d]"
    "D_Payment d = P_ID in_review" "recommended s (P_ID in_review)" "\<forall>sn\<in>set (snapshots s). S_PackID sn = sample_pack_id"
    using sample_decided by blast
  have inv: "bound s'" "journal_ok s'"
    using reachable_inv [OF s(2) sample_signs] by (simp_all add: service_inv_def ledger_inv_def)
  obtain sn where sn: "snapshot_of s (P_ID in_review) = Some sn" using s(5) by (auto simp: recommended_def)
  then have id: "S_PackID sn = sample_pack_id" using s(6) by (auto dest: snapshot_ofD)
  have sn': "snapshot_of s' (P_ID in_review) = Some sn" by (rule later_snapshot [OF service_run.run_before [OF s(1)] sn])
  have "map K_Payment (packs s') = [P_ID in_review]" using inv(2) by (simp add: journal_ok_def s)
  then obtain k where k: "packs s' = [k]" "K_Payment k = P_ID in_review" by (auto simp: map_eq_Cons_conv)
  then have "PackID (K_Pack k) = S_PackID sn" using inv(1) sn' by (simp add: bound_def)
  then show ?thesis using s(2) k(1) id by auto
qed

end
