(* ===== verification/Loading.thy ===== *)
theory Loading
  imports Ingest Jws
begin

text \<open>
  What the service reads when it starts: the configuration file (compliance-backend/internal/config/config.go),
  the two key files (internal/decision/decision.go, internal/evidence/jws.go) and the schema migrations
  (internal/store/store.go). The file system, the key parsers of the libraries and the float64 product in
  \<open>time.ParseDuration\<close> are parameters.

  The lemmas: a duration never leaves int64 and a whole number of a unit reads as written; whatever file
  loads gives a configuration that is ready to run; every writable configuration has a file that loads as
  exactly it; the evidence signer only ever holds a P-256 key of its file.
\<close>

section \<open>Durations (time.ParseDuration)\<close>

text \<open>
  A sequence of decimal numbers with units. The uint64 sums never wrap: every bound is checked before.
  \<open>fr\<close> is the float64 product of a fraction, \<open>uint64(float64(f) * (float64(unit) / scale))\<close>; a duration
  without a decimal point does not use it.
\<close>

fun leadingInt :: "nat \<Rightarrow> string \<Rightarrow> (nat \<times> string) option" where
  "leadingInt x [] = Some (x, [])"
| "leadingInt x (c # s) =
     (if \<not> is_digit c then Some (x, c # s)
      else if 2 ^ 63 div 10 < x then None
      else let y = 10 * x + digit_val c in if 2 ^ 63 < y then None else leadingInt y s)"

fun leadingFraction :: "nat \<Rightarrow> nat \<Rightarrow> bool \<Rightarrow> string \<Rightarrow> nat \<times> nat \<times> string" where
  "leadingFraction x sc overflow [] = (x, sc, [])"
| "leadingFraction x sc overflow (c # s) =
     (if \<not> is_digit c then (x, sc, c # s)
      else if overflow then leadingFraction x sc True s
      else if (2 ^ 63 - 1) div 10 < x then leadingFraction x sc True s
      else let y = 10 * x + digit_val c in
        if 2 ^ 63 < y then leadingFraction x sc True s else leadingFraction y (sc * 10) False s)"

definition unitMap :: "(string, nat) gomap" where
  "unitMap = [(''ns'', 1), (''us'', 10 ^ 3), ([char_of (0xC2 :: nat), char_of (0xB5 :: nat), CHR ''s''], 10 ^ 3),
     ([char_of (0xCE :: nat), char_of (0xBC :: nat), CHR ''s''], 10 ^ 3), (''ms'', 10 ^ 6), (''s'', 10 ^ 9),
     (''m'', 60 * 10 ^ 9), (''h'', 3600 * 10 ^ 9)]"

definition numeric :: "char \<Rightarrow> bool" where
  "numeric c \<longleftrightarrow> c = CHR ''.'' \<or> is_digit c"

definition fraction_part :: "string \<Rightarrow> nat \<times> nat \<times> string \<times> bool" where
  "fraction_part s = (case s of
     c # t \<Rightarrow> if c = CHR ''.'' then (case leadingFraction 0 1 False t of (f, sc, r) \<Rightarrow> (f, sc, r, length r \<noteq> length t)) else (0, 1, s, False)
   | [] \<Rightarrow> (0, 1, s, False))"

definition duration_part :: "(nat \<Rightarrow> nat \<Rightarrow> nat \<Rightarrow> nat) \<Rightarrow> string \<Rightarrow> (nat \<times> string) option" where
  "duration_part fr s =
     (if s = [] \<or> \<not> numeric (hd s) then None
      else Option.bind (leadingInt 0 s) (\<lambda>(v, s1).
        case fraction_part s1 of (f, sc, s2, post) \<Rightarrow>
          let u = takeWhile (\<lambda>c. \<not> numeric c) s2; rest = dropWhile (\<lambda>c. \<not> numeric c) s2
          in if (length s1 = length s \<and> \<not> post) \<or> u = [] then None
             else (case map_of unitMap u of
               None \<Rightarrow> None
             | Some unit \<Rightarrow>
                 if 2 ^ 63 div unit < v then None
                 else let w = v * unit + (if 0 < f then fr f unit sc else 0)
                      in if 0 < f \<and> 2 ^ 63 < w then None else Some (w, rest))))"

lemma leadingInt_length: "leadingInt x s = Some (v, r) \<Longrightarrow> length r \<le> length s"
  by (induction x s rule: leadingInt.induct) (auto simp: Let_def split: if_splits)

lemma leadingFraction_length: "leadingFraction x sc b s = (f, sc', r) \<Longrightarrow> length r \<le> length s"
  by (induction x sc b s rule: leadingFraction.induct) (auto simp: Let_def split: if_splits)

lemma fraction_part_length: "fraction_part s = (f, sc, r, p) \<Longrightarrow> length r \<le> length s"
  by (auto simp: fraction_part_def split: list.splits if_splits prod.splits dest: leadingFraction_length)

lemma duration_part_length: "duration_part fr s = Some (v, r) \<Longrightarrow> length r < length s"
proof -
  assume d: "duration_part fr s = Some (v, r)"
  then obtain v1 s1 where 1: "leadingInt 0 s = Some (v1, s1)"
    by (auto simp: duration_part_def bind_eq_Some_conv split: if_splits)
  obtain f sc s2 p where 2: "fraction_part s1 = (f, sc, s2, p)" by (cases "fraction_part s1")
  let ?u = "takeWhile (\<lambda>c. \<not> numeric c) s2"
  have "?u \<noteq> [] \<and> r = dropWhile (\<lambda>c. \<not> numeric c) s2"
    using d by (auto simp: duration_part_def 1 2 Let_def split: if_splits option.splits)
  moreover have "length ?u + length (dropWhile (\<lambda>c. \<not> numeric c) s2) = length s2"
    by (metis length_append takeWhile_dropWhile_id)
  ultimately have "length r < length s2" by (cases ?u) auto
  then show ?thesis using leadingInt_length [OF 1] fraction_part_length [OF 2] by linarith
qed

function duration_parts :: "(nat \<Rightarrow> nat \<Rightarrow> nat \<Rightarrow> nat) \<Rightarrow> nat \<Rightarrow> string \<Rightarrow> nat option" where
  "duration_parts fr d s =
     (if s = [] then Some d
      else case duration_part fr s of
        None \<Rightarrow> None
      | Some (v, rest) \<Rightarrow> if 2 ^ 63 < d + v then None else duration_parts fr (d + v) rest)"
  by pat_completeness auto
termination
  by (relation "measure (\<lambda>(fr, d, s). length s)") (auto dest: duration_part_length)

declare duration_parts.simps [simp del]

definition ParseDuration :: "(nat \<Rightarrow> nat \<Rightarrow> nat \<Rightarrow> nat) \<Rightarrow> string \<Rightarrow> duration option" where
  "ParseDuration fr s =
     (let neg = (s \<noteq> [] \<and> hd s = CHR ''-''); t = (if s \<noteq> [] \<and> (hd s = CHR ''-'' \<or> hd s = CHR ''+'') then tl s else s)
      in if t = ''0'' then Some 0
         else if t = [] then None
         else Option.bind (duration_parts fr 0 t) (\<lambda>d.
           if neg then Some (- int d) else if 2 ^ 63 - 1 < d then None else Some (int d)))"

lemma duration_parts_bound: "duration_parts fr d s = Some n \<Longrightarrow> d \<le> 2 ^ 63 \<Longrightarrow> n \<le> 2 ^ 63"
proof (induction fr d s rule: duration_parts.induct)
  case (1 fr d s)
  then show ?case
    by (cases "duration_part fr s") (auto simp: duration_parts.simps [of fr d s] split: if_splits)
qed

lemma ParseDuration_bound: "ParseDuration fr s = Some d \<Longrightarrow> - (2 ^ 63) \<le> d \<and> d < 2 ^ 63"
  by (auto simp: ParseDuration_def Let_def bind_eq_Some_conv split: if_splits dest: duration_parts_bound)

text \<open>Digits are read as the number they spell.\<close>

lemma leadingInt_digits:
  assumes "list_all is_digit ds" and "foldl (\<lambda>n c. 10 * n + digit_val c) x ds \<le> 2 ^ 63" and "t = [] \<or> \<not> is_digit (hd t)"
  shows "leadingInt x (ds @ t) = Some (foldl (\<lambda>n c. 10 * n + digit_val c) x ds, t)"
  using assms
proof (induction ds arbitrary: x)
  case Nil
  then show ?case by (cases t) auto
next
  case (Cons c ds)
  let ?y = "10 * x + digit_val c"
  have mono: "n \<le> foldl (\<lambda>n c. 10 * n + digit_val c) n ds" for n ds
  proof (induction ds arbitrary: n)
    case (Cons c ds)
    have "n \<le> 10 * n + digit_val c" by simp
    then show ?case using Cons.IH [of "10 * n + digit_val c"] by simp
  qed simp
  have y: "?y \<le> 2 ^ 63" using mono [of ?y ds] Cons.prems(2) by simp
  then have "x \<le> 2 ^ 63 div 10" by linarith
  then show ?case using Cons y by (simp add: Let_def not_less)
qed

lemma units_plain: "(u, k) \<in> set unitMap \<Longrightarrow> u \<noteq> [] \<and> list_all (\<lambda>c. \<not> numeric c) u \<and> map_of unitMap u = Some k \<and> 0 < k"
  by (simp add: unitMap_def numeric_def is_digit_def) (elim disjE conjE; simp add: char_of_eq_iff)

lemma ParseDuration_whole:
  assumes "(u, k) \<in> set unitMap" and "n * k < 2 ^ 63"
  shows "ParseDuration fr (nat_dec n @ u) = Some (int (n * k))"
proof -
  have u: "u \<noteq> []" "list_all (\<lambda>c. \<not> numeric c) u" "map_of unitMap u = Some k" "0 < k" using units_plain [OF assms(1)] by simp_all
  have dig: "list_all is_digit (nat_dec n)" using nat_dec_digits by (auto simp: list_all_iff)
  have nk: "n \<le> n * k" using u(4) by simp
  have hu: "\<not> is_digit (hd u)" "hd u \<noteq> CHR ''.''" using u(1,2) by (cases u; simp add: numeric_def)+
  have n63: "n \<le> 2 ^ 63" using nk assms(2) by linarith
  then have lead: "leadingInt 0 (nat_dec n @ u) = Some (n, u)"
    using leadingInt_digits [OF dig, of 0 u] hu dec_nat_nat_dec [of n] by (simp add: dec_nat_def)
  have fp: "fraction_part u = (0, 1, u, False)" using hu u(1) by (auto simp: fraction_part_def split: list.split)
  have tw: "takeWhile (\<lambda>c. \<not> numeric c) u = u" "dropWhile (\<lambda>c. \<not> numeric c) u = []"
    using u(2) by (auto simp: list_all_iff takeWhile_eq_all_conv)
  obtain c cs where c: "nat_dec n = c # cs" by (cases "nat_dec n") auto
  then have d: "is_digit c" using dig by simp
  have ne: "nat_dec n \<noteq> []" "numeric (hd (nat_dec n @ u))" using c d by (simp_all add: numeric_def)
  have "c \<noteq> CHR ''-''" "c \<noteq> CHR ''+''" using d by (auto simp: is_digit_def)
  moreover have "n \<le> 2 ^ 63 div k" using assms(2) u(4) by (simp add: less_eq_div_iff_mult_less_eq)
  then have "duration_part fr (nat_dec n @ u) = Some (n * k, [])"
    using ne u by (simp add: duration_part_def lead fp tw Let_def not_less)
  then have "duration_parts fr 0 (nat_dec n @ u) = Some (n * k)"
    using assms(2) ne(1) by (simp add: duration_parts.simps [of fr 0 "nat_dec n @ u"] duration_parts.simps [of fr "n * k" "[]"])
  ultimately show ?thesis using c u(1) assms(2) by (auto simp: ParseDuration_def Let_def)
qed

section \<open>The configuration file (config.go)\<close>

text \<open>
  \<open>Decode\<close> with unknown fields refused, into a zero configuration. A null leaves a field as it is, except
  a duration and an address, whose own methods refuse it; an object given twice is decoded into the same
  struct; of an array given twice the model keeps the last (Go decodes it over the elements of the first).
\<close>

definition dur_of :: "(nat \<Rightarrow> nat \<Rightarrow> nat \<Rightarrow> nat) \<Rightarrow> jval \<Rightarrow> duration option" where
  "dur_of fr v = (case v of JStr s \<Rightarrow> ParseDuration fr s | _ \<Rightarrow> None)"

definition json_uint8 :: "jval \<Rightarrow> 8 word option" where
  "json_uint8 v = (case v of
     JNumber s \<Rightarrow> (if s \<noteq> [] \<and> list_all is_digit s \<and> dec_nat s < 2 ^ 8 then Some (word_of_nat (dec_nat s)) else None)
   | _ \<Rightarrow> None)"

definition int_of :: "jval \<Rightarrow> int option" where
  "int_of v = (case v of
     JNumber s \<Rightarrow>
       let neg = (s \<noteq> [] \<and> hd s = CHR ''-''); ds = (if neg then tl s else s); i = (if neg then - int (dec_nat ds) else int (dec_nat ds))
       in if ds \<noteq> [] \<and> list_all is_digit ds \<and> - (2 ^ 63) \<le> i \<and> i < 2 ^ 63 then Some i else None
   | _ \<Rightarrow> None)"

definition decode_struct :: "string list \<Rightarrow> ((string \<times> jval) list \<Rightarrow> 'a option) \<Rightarrow> 'a \<Rightarrow> jval \<Rightarrow> 'a option" where
  "decode_struct tags fill x v = (case v of
     JNull \<Rightarrow> Some x
   | JObj m \<Rightarrow> if known_fields tags m then fill m else None
   | _ \<Rightarrow> None)"

text \<open>A field that is a struct: every object assigned to it is decoded into it.\<close>

definition struct_field :: "('a \<Rightarrow> jval \<Rightarrow> 'a option) \<Rightarrow> 'a \<Rightarrow> string \<Rightarrow> (string \<times> jval) list \<Rightarrow> 'a option" where
  "struct_field dec x name m = foldl (\<lambda>acc v. Option.bind acc (\<lambda>y. dec y v)) (Some x) (members_for name m)"

definition processor_of :: "processor \<Rightarrow> jval \<Rightarrow> processor option" where
  "processor_of x = decode_struct [''legal_name'', ''lei'', ''casp_id'', ''nca'', ''rfi_channel'', ''cert_url''] (\<lambda>m.
     Option.bind (field_of str_of (LegalName x) ''legal_name'' m) (\<lambda>a. Option.bind (field_of str_of (LEI x) ''lei'' m) (\<lambda>b.
     Option.bind (field_of str_of (CASPID x) ''casp_id'' m) (\<lambda>c. Option.bind (field_of str_of (NCA x) ''nca'' m) (\<lambda>d.
     Option.bind (field_of str_of (RFIChannel x) ''rfi_channel'' m) (\<lambda>e. Option.bind (field_of str_of (CertURL x) ''cert_url'' m) (\<lambda>f.
       Some \<lparr> LegalName = a, LEI = b, CASPID = c, NCA = d, RFIChannel = e, CertURL = f \<rparr>))))))) x"

definition token_of_json :: "jval \<Rightarrow> token option" where
  "token_of_json = decode_struct [''symbol'', ''address'', ''decimals'', ''eventscale_alias'', ''eur_rate'', ''fx_source''] (\<lambda>m.
     Option.bind (field_of str_of [] ''symbol'' m) (\<lambda>a. Option.bind (strict_field (fixed_hex 20) zero_address ''address'' m) (\<lambda>b.
     Option.bind (field_of json_uint8 0 ''decimals'' m) (\<lambda>c. Option.bind (field_of str_of [] ''eventscale_alias'' m) (\<lambda>d.
     Option.bind (field_of str_of [] ''eur_rate'' m) (\<lambda>e. Option.bind (field_of str_of [] ''fx_source'' m) (\<lambda>f.
       Some \<lparr> Symbol = a, TokenAddress = b, Decimals = c, EventscaleAlias = d, EURRate = e, FXSource = f \<rparr>)))))))
     \<lparr> Symbol = [], TokenAddress = zero_address, Decimals = 0, EventscaleAlias = [], EURRate = [], FXSource = [] \<rparr>"

definition deposit_of_json :: "jval \<Rightarrow> deposit option" where
  "deposit_of_json = decode_struct [''address'', ''merchant_id''] (\<lambda>m.
     Option.bind (strict_field (fixed_hex 20) zero_address ''address'' m) (\<lambda>a. Option.bind (field_of str_of [] ''merchant_id'' m) (\<lambda>b.
       Some \<lparr> DepositAddress = a, MerchantID = b \<rparr>)))
     \<lparr> DepositAddress = zero_address, MerchantID = [] \<rparr>"

definition chain_of_json :: "(nat \<Rightarrow> nat \<Rightarrow> nat \<Rightarrow> nat) \<Rightarrow> jval \<Rightarrow> chain option" where
  "chain_of_json fr = decode_struct [''chain_id'', ''name'', ''rpc'', ''confirmations'', ''reconcile_interval'', ''chunk'', ''eventscale_network'',
       ''tokens'', ''deposit_addresses''] (\<lambda>m.
     Option.bind (field_of uint64_of 0 ''chain_id'' m) (\<lambda>a. Option.bind (field_of str_of [] ''name'' m) (\<lambda>b.
     Option.bind (field_of str_of [] ''rpc'' m) (\<lambda>c. Option.bind (field_of uint64_of 0 ''confirmations'' m) (\<lambda>d.
     Option.bind (strict_field (dur_of fr) 0 ''reconcile_interval'' m) (\<lambda>e. Option.bind (field_of uint64_of 0 ''chunk'' m) (\<lambda>f.
     Option.bind (field_of str_of [] ''eventscale_network'' m) (\<lambda>g. Option.bind (field_of (list_of token_of_json) [] ''tokens'' m) (\<lambda>h.
     Option.bind (field_of (list_of deposit_of_json) [] ''deposit_addresses'' m) (\<lambda>i.
       Some \<lparr> ChainID = a, ChainName = b, RPC = c, Confirmations = d, ReconcileInterval = e, Chunk = f, EventscaleNetwork = g,
         Tokens = h, Deposits = i \<rparr>))))))))))
     \<lparr> ChainID = 0, ChainName = [], RPC = [], Confirmations = 0, ReconcileInterval = 0, Chunk = 0, EventscaleNetwork = [], Tokens = [],
       Deposits = [] \<rparr>"

definition keys_of :: "string \<times> string \<times> string \<Rightarrow> jval \<Rightarrow> (string \<times> string \<times> string) option" where
  "keys_of x = decode_struct [''policy_key_file'', ''evidence_key_file'', ''evidence_kid''] (\<lambda>m.
     Option.bind (field_of str_of (fst x) ''policy_key_file'' m) (\<lambda>a.
     Option.bind (field_of str_of (fst (snd x)) ''evidence_key_file'' m) (\<lambda>b.
     Option.bind (field_of str_of (snd (snd x)) ''evidence_kid'' m) (\<lambda>c. Some (a, b, c))))) x"

definition officer_of :: "jval \<Rightarrow> officer option" where
  "officer_of = decode_struct [''address'', ''officer_id'', ''mask''] (\<lambda>m.
     Option.bind (strict_field (fixed_hex 20) zero_address ''address'' m) (\<lambda>a. Option.bind (field_of str_of [] ''officer_id'' m) (\<lambda>b.
     Option.bind (field_of json_uint8 0 ''mask'' m) (\<lambda>c. Some \<lparr> OfficerAddress = a, OfficerID = b, Mask = c \<rparr>))))
     \<lparr> OfficerAddress = zero_address, OfficerID = [], Mask = 0 \<rparr>"

definition sanctions_of :: "jval \<Rightarrow> sanctions_cfg option" where
  "sanctions_of = decode_struct [''name'', ''version'', ''path''] (\<lambda>m.
     Option.bind (field_of str_of [] ''name'' m) (\<lambda>a. Option.bind (field_of str_of [] ''version'' m) (\<lambda>b.
     Option.bind (field_of str_of [] ''path'' m) (\<lambda>c. Some \<lparr> ListName = a, ListVersion = b, ListPath = c \<rparr>))))
     \<lparr> ListName = [], ListVersion = [], ListPath = [] \<rparr>"

definition kyt_of :: "string \<Rightarrow> jval \<Rightarrow> string option" where
  "kyt_of x = decode_struct [''goplus_base_url''] (field_of str_of x ''goplus_base_url'') x"

definition config_tags :: "string list" where
  "config_tags = [''database_url'', ''listen'', ''api_token'', ''data_dir'', ''nats_url'', ''processor'', ''chains'', ''keys'', ''officers'', ''mlro'',
     ''sanctions_lists'', ''kyt'', ''check_timeout'', ''decision_ttl'', ''worker_interval'', ''retention_years'']"

definition zero_config :: config where
  "zero_config = \<lparr> DatabaseURL = [], Listen = [], APIToken = [], DataDir = [], NATSURL = [],
     Processor = \<lparr> LegalName = [], LEI = [], CASPID = [], NCA = [], RFIChannel = [], CertURL = [] \<rparr>, Chains = [],
     PolicyKeyFile = [], EvidenceKeyFile = [], EvidenceKID = [], Officers = [], MLRO = [], SanctionsLists = [], GoPlusBaseURL = [],
     CheckTimeout = 0, DecisionTTL = 0, WorkerInterval = 0, RetentionYears = 0 \<rparr>"

definition config_of :: "(nat \<Rightarrow> nat \<Rightarrow> nat \<Rightarrow> nat) \<Rightarrow> jval \<Rightarrow> config option" where
  "config_of fr = decode_struct config_tags (\<lambda>m.
     Option.bind (field_of str_of [] ''database_url'' m) (\<lambda>a. Option.bind (field_of str_of [] ''listen'' m) (\<lambda>b.
     Option.bind (field_of str_of [] ''api_token'' m) (\<lambda>c. Option.bind (field_of str_of [] ''data_dir'' m) (\<lambda>d.
     Option.bind (field_of str_of [] ''nats_url'' m) (\<lambda>e.
     Option.bind (struct_field processor_of (Processor zero_config) ''processor'' m) (\<lambda>f.
     Option.bind (field_of (list_of (chain_of_json fr)) [] ''chains'' m) (\<lambda>g.
     Option.bind (struct_field keys_of ([], [], []) ''keys'' m) (\<lambda>k.
     Option.bind (field_of (list_of officer_of) [] ''officers'' m) (\<lambda>l.
     Option.bind (field_of (list_of (fixed_hex 20)) [] ''mlro'' m) (\<lambda>n.
     Option.bind (field_of (list_of sanctions_of) [] ''sanctions_lists'' m) (\<lambda>p.
     Option.bind (struct_field kyt_of [] ''kyt'' m) (\<lambda>q.
     Option.bind (strict_field (dur_of fr) 0 ''check_timeout'' m) (\<lambda>r. Option.bind (strict_field (dur_of fr) 0 ''decision_ttl'' m) (\<lambda>t.
     Option.bind (strict_field (dur_of fr) 0 ''worker_interval'' m) (\<lambda>u. Option.bind (field_of int_of 0 ''retention_years'' m) (\<lambda>w.
       Some \<lparr> DatabaseURL = a, Listen = b, APIToken = c, DataDir = d, NATSURL = e, Processor = f, Chains = g,
         PolicyKeyFile = fst k, EvidenceKeyFile = fst (snd k), EvidenceKID = snd (snd k), Officers = l, MLRO = n, SanctionsLists = p,
         GoPlusBaseURL = q, CheckTimeout = r, DecisionTTL = t, WorkerInterval = u, RetentionYears = w \<rparr>)))))))))))))))))
     zero_config"

datatype file_err = FileUnreadable string | ConfigUnreadable string | ConfigInvalid "cfg_err list" | KeyInvalid string | NoPEM string | NotECDSA string | NotP256 string

definition LoadConfig :: "(nat \<Rightarrow> nat \<Rightarrow> nat \<Rightarrow> nat) \<Rightarrow> (string \<Rightarrow> string option) \<Rightarrow> string \<Rightarrow> (file_err, config) res" where
  "LoadConfig fr read path = (case read path of
     None \<Rightarrow> Inl (FileUnreadable path)
   | Some raw \<Rightarrow> (case Option.bind (decode raw) (config_of fr) of
       None \<Rightarrow> Inl (ConfigUnreadable path)
     | Some c0 \<Rightarrow> let c = defaults c0 in if Validate c \<noteq> [] then Inl (ConfigInvalid (Validate c)) else Inr c))"

definition config_ready :: "config \<Rightarrow> bool" where
  "config_ready c \<longleftrightarrow> config_ok c \<and> defaults c = c \<and> (\<forall>ch\<in>set (Chains c). Chunk ch \<noteq> 0 \<and> ReconcileInterval ch \<noteq> 0)
     \<and> Listen c \<noteq> [] \<and> CheckTimeout c \<noteq> 0 \<and> DecisionTTL c \<noteq> 0 \<and> WorkerInterval c \<noteq> 0 \<and> RetentionYears c \<noteq> 0"

lemma defaults_ready:
  "Listen (defaults c) \<noteq> [] \<and> CheckTimeout (defaults c) \<noteq> 0 \<and> DecisionTTL (defaults c) \<noteq> 0 \<and> WorkerInterval (defaults c) \<noteq> 0
    \<and> RetentionYears (defaults c) \<noteq> 0 \<and> (\<forall>ch\<in>set (Chains (defaults c)). Chunk ch \<noteq> 0 \<and> ReconcileInterval ch \<noteq> 0)"
  by (auto simp: defaults_def str_default_def dur_default_def second_def chain_defaults_def)

lemma LoadConfig_ready: "LoadConfig fr read path = Inr c \<Longrightarrow> config_ready c"
proof -
  assume "LoadConfig fr read path = Inr c"
  then obtain c0 where c: "c = defaults c0" "Validate c = []" by (auto simp: LoadConfig_def Let_def split: option.splits if_splits)
  then show ?thesis using Validate_ok [OF c(2)] defaults_ready [of c0] by (simp add: config_ready_def defaults_idem)
qed

section \<open>Key files (decision.go, jws.go)\<close>

text \<open>
  \<open>crypto.HexToECDSA\<close>, \<open>pem.Decode\<close> and the two key parsers of \<open>crypto/x509\<close> are parameters: a key is
  what the service can do with it. \<open>os.ReadFile\<close> is the file system \<open>read\<close>.
\<close>

definition LoadFileSigner :: "(string \<Rightarrow> key_signer option) \<Rightarrow> (string \<Rightarrow> string option) \<Rightarrow> string \<Rightarrow> (file_err, key_signer) res" where
  "LoadFileSigner hex read path = (case read path of
     None \<Rightarrow> Inl (FileUnreadable path)
   | Some raw \<Rightarrow>
       let t = TrimSpace raw in
       (case hex (case cut_prefix ''0x'' t of Some r \<Rightarrow> r | None \<Rightarrow> t) of
          None \<Rightarrow> Inl (KeyInvalid path)
        | Some k \<Rightarrow> Inr k))"

record ec_key =
  OnP256 :: bool
  ec_sign :: "string \<Rightarrow> (nat \<times> nat) option"

datatype private_key = ECDSAKey ec_key | OtherKey

record key_parsers =
  pem_block :: "string \<Rightarrow> string option"
  parse_pkcs8 :: "string \<Rightarrow> private_key option"
  parse_sec1 :: "string \<Rightarrow> ec_key option"

definition LoadJWSSigner :: "key_parsers \<Rightarrow> (string \<Rightarrow> string option) \<Rightarrow> string \<Rightarrow> string \<Rightarrow> (file_err, jws_signer) res" where
  "LoadJWSSigner ps read path kid = (case read path of
     None \<Rightarrow> Inl (FileUnreadable path)
   | Some raw \<Rightarrow> (case pem_block ps raw of
       None \<Rightarrow> Inl (NoPEM path)
     | Some blk \<Rightarrow>
         let checked = (\<lambda>k. if OnP256 k then Inr \<lparr> KID = kid, ecdsa_sign = ec_sign k \<rparr> else Inl (NotP256 path)) in
         (case parse_pkcs8 ps blk of
            Some (ECDSAKey k) \<Rightarrow> checked k
          | Some OtherKey \<Rightarrow> Inl (NotECDSA path)
          | None \<Rightarrow> (case parse_sec1 ps blk of
              None \<Rightarrow> Inl (KeyInvalid path)
            | Some k \<Rightarrow> checked k))))"

text \<open>The signer only ever holds a P-256 key, found in the file in one of the two forms.\<close>

definition key_in :: "key_parsers \<Rightarrow> string \<Rightarrow> ec_key \<Rightarrow> bool" where
  "key_in ps raw k \<longleftrightarrow> (\<exists>blk. pem_block ps raw = Some blk
     \<and> (parse_pkcs8 ps blk = Some (ECDSAKey k) \<or> parse_pkcs8 ps blk = None \<and> parse_sec1 ps blk = Some k))"

lemma LoadJWSSigner_key:
  "LoadJWSSigner ps read path kid = Inr js
     \<longleftrightarrow> (\<exists>raw k. read path = Some raw \<and> key_in ps raw k \<and> OnP256 k \<and> js = \<lparr> KID = kid, ecdsa_sign = ec_sign k \<rparr>)"
  by (auto simp: LoadJWSSigner_def key_in_def Let_def split: option.splits private_key.splits if_splits)

lemma LoadFileSigner_around:
  assumes "read path = Some (us @ p @ ds @ vs)" and "list_all ascii_space us" and "list_all ascii_space vs"
    and "p = [] \<or> p = ''0x''" and "list_all printable ds" and "ds \<noteq> []" and "\<not> prefix ''0x'' ds"
  shows "LoadFileSigner hex read path = (case hex ds of None \<Rightarrow> Inl (KeyInvalid path) | Some k \<Rightarrow> Inr k)"
proof -
  have "printable (hd ds)" "printable (last ds)" using assms(5,6) by (simp_all add: list_all_iff)
  moreover have "printable CHR ''0''" by (simp add: printable_def)
  ultimately have "TrimSpace (us @ (p @ ds) @ vs) = p @ ds" using assms(2-4,6) by (intro TrimSpace_around) auto
  then show ?thesis using assms(1,4,7) by (auto simp: LoadFileSigner_def Let_def cut_prefix_def)
qed

section \<open>Opening the store (store.go)\<close>

datatype store_err = StoreUnreachable | MigrationFailed string

definition Open :: "bool \<Rightarrow> (string \<Rightarrow> 's \<Rightarrow> 's option) \<Rightarrow> string list \<Rightarrow> 's \<times> string list \<Rightarrow> ('s \<times> string list) \<times> store_err option" where
  "Open up body files st = (if \<not> up then (st, Some StoreUnreachable)
     else case Migrate body files st of (st', err) \<Rightarrow> (st', map_option MigrationFailed err))"

section \<open>A file for a configuration\<close>

text \<open>
  The document an operator would write for a configuration, its keys in the order of the canonical form:
  durations in nanoseconds, addresses in hex.
\<close>

definition dur_doc :: "duration \<Rightarrow> jval" where
  "dur_doc d = JStr (nat_dec (nat d) @ ''ns'')"

definition addr_doc :: "address \<Rightarrow> jval" where
  "addr_doc a = JStr (''0x'' @ hex_encode a)"

definition byte_doc :: "8 word \<Rightarrow> jval" where
  "byte_doc w = JUint64 (ucast w)"

definition token_doc :: "token \<Rightarrow> jval" where
  "token_doc t = JObj [(''address'', addr_doc (TokenAddress t)), (''decimals'', byte_doc (Decimals t)), (''eur_rate'', JStr (EURRate t)),
     (''eventscale_alias'', JStr (EventscaleAlias t)), (''fx_source'', JStr (FXSource t)), (''symbol'', JStr (Symbol t))]"

definition deposit_doc :: "deposit \<Rightarrow> jval" where
  "deposit_doc d = JObj [(''address'', addr_doc (DepositAddress d)), (''merchant_id'', JStr (MerchantID d))]"

definition chain_doc :: "chain \<Rightarrow> jval" where
  "chain_doc ch = JObj [(''chain_id'', JUint64 (ChainID ch)), (''chunk'', JUint64 (Chunk ch)), (''confirmations'', JUint64 (Confirmations ch)),
     (''deposit_addresses'', JList (map deposit_doc (Deposits ch))), (''eventscale_network'', JStr (EventscaleNetwork ch)),
     (''name'', JStr (ChainName ch)), (''reconcile_interval'', dur_doc (ReconcileInterval ch)), (''rpc'', JStr (RPC ch)),
     (''tokens'', JList (map token_doc (Tokens ch)))]"

definition officer_doc :: "officer \<Rightarrow> jval" where
  "officer_doc x = JObj [(''address'', addr_doc (OfficerAddress x)), (''mask'', byte_doc (Mask x)), (''officer_id'', JStr (OfficerID x))]"

definition sanctions_doc :: "sanctions_cfg \<Rightarrow> jval" where
  "sanctions_doc x = JObj [(''name'', JStr (ListName x)), (''path'', JStr (ListPath x)), (''version'', JStr (ListVersion x))]"

definition processor_doc :: "processor \<Rightarrow> jval" where
  "processor_doc p = JObj [(''casp_id'', JStr (CASPID p)), (''cert_url'', JStr (CertURL p)), (''legal_name'', JStr (LegalName p)),
     (''lei'', JStr (LEI p)), (''nca'', JStr (NCA p)), (''rfi_channel'', JStr (RFIChannel p))]"

definition config_doc :: "config \<Rightarrow> jval" where
  "config_doc c = JObj [(''api_token'', JStr (APIToken c)), (''chains'', JList (map chain_doc (Chains c))),
     (''check_timeout'', dur_doc (CheckTimeout c)), (''data_dir'', JStr (DataDir c)), (''database_url'', JStr (DatabaseURL c)),
     (''decision_ttl'', dur_doc (DecisionTTL c)),
     (''keys'', JObj [(''evidence_key_file'', JStr (EvidenceKeyFile c)), (''evidence_kid'', JStr (EvidenceKID c)),
        (''policy_key_file'', JStr (PolicyKeyFile c))]),
     (''kyt'', JObj [(''goplus_base_url'', JStr (GoPlusBaseURL c))]), (''listen'', JStr (Listen c)),
     (''mlro'', JList (map addr_doc (MLRO c))), (''nats_url'', JStr (NATSURL c)), (''officers'', JList (map officer_doc (Officers c))),
     (''processor'', processor_doc (Processor c)), (''retention_years'', JInt64 (word_of_int (RetentionYears c))),
     (''sanctions_lists'', JList (map sanctions_doc (SanctionsLists c))), (''worker_interval'', dur_doc (WorkerInterval c))]"

text \<open>What a value must satisfy to be written: text in UTF-8, 20-byte addresses, durations that are not negative.\<close>

definition dur_ok :: "duration \<Rightarrow> bool" where
  "dur_ok d \<longleftrightarrow> 0 \<le> d \<and> d < 2 ^ 63"

definition texts_ok :: "string list \<Rightarrow> bool" where
  "texts_ok = list_all valid_utf8"

definition token_writable :: "token \<Rightarrow> bool" where
  "token_writable t \<longleftrightarrow> length (TokenAddress t) = 20 \<and> texts_ok [EURRate t, EventscaleAlias t, FXSource t, Symbol t]"

definition deposit_writable :: "deposit \<Rightarrow> bool" where
  "deposit_writable d \<longleftrightarrow> length (DepositAddress d) = 20 \<and> valid_utf8 (MerchantID d)"

definition chain_writable :: "chain \<Rightarrow> bool" where
  "chain_writable ch \<longleftrightarrow> dur_ok (ReconcileInterval ch) \<and> texts_ok [EventscaleNetwork ch, ChainName ch, RPC ch]
     \<and> list_all token_writable (Tokens ch) \<and> list_all deposit_writable (Deposits ch)"

definition officer_writable :: "officer \<Rightarrow> bool" where
  "officer_writable x \<longleftrightarrow> length (OfficerAddress x) = 20 \<and> valid_utf8 (OfficerID x)"

definition config_writable :: "config \<Rightarrow> bool" where
  "config_writable c \<longleftrightarrow> dur_ok (CheckTimeout c) \<and> dur_ok (DecisionTTL c) \<and> dur_ok (WorkerInterval c)
     \<and> - (2 ^ 63) \<le> RetentionYears c \<and> RetentionYears c < 2 ^ 63
     \<and> texts_ok [APIToken c, DataDir c, DatabaseURL c, EvidenceKeyFile c, EvidenceKID c, PolicyKeyFile c, GoPlusBaseURL c, Listen c, NATSURL c]
     \<and> texts_ok [CASPID (Processor c), CertURL (Processor c), LegalName (Processor c), LEI (Processor c), NCA (Processor c), RFIChannel (Processor c)]
     \<and> list_all chain_writable (Chains c) \<and> list_all officer_writable (Officers c) \<and> list_all (\<lambda>a. length a = 20) (MLRO c)
     \<and> list_all (\<lambda>x. texts_ok [ListName x, ListPath x, ListVersion x]) (SanctionsLists c)"

subsection \<open>Reading one field\<close>

definition lower_keys :: "string list \<Rightarrow> bool" where
  "lower_keys ks \<longleftrightarrow> distinct ks \<and> list_all (\<lambda>k. to_lower k = k) ks"

lemma members_plain: "lower_keys (map fst m) \<Longrightarrow> (name, v) \<in> set m \<Longrightarrow> members_for name m = [v]"
proof (induction m)
  case (Cons x m)
  obtain k w where x: "x = (k, w)" by (cases x)
  have none: "members_for k m = []" if "k \<notin> fst ` set m" "list_all (\<lambda>k. to_lower k = k) (map fst m)" for k
    using that by (force simp: members_for_def list_all_iff filter_empty_conv)
  show ?case
  proof (cases "k = name")
    case True
    then have "name \<notin> fst ` set m" using Cons.prems(1) by (auto simp: x lower_keys_def)
    moreover from this have "v = w" using Cons.prems(2) True x by force
    moreover have "to_lower name = name" "list_all (\<lambda>k. to_lower k = k) (map fst m)" using Cons.prems(1) True by (auto simp: x lower_keys_def)
    ultimately show ?thesis using none True by (simp add: members_for_def x)
  next
    case False
    then have "(name, v) \<in> set m" "lower_keys (map fst m)" "to_lower k = k" using Cons.prems by (auto simp: x lower_keys_def)
    then show ?thesis using Cons.IH False by (simp add: members_for_def x)
  qed
qed simp

lemma field_plain:
  assumes "lower_keys (map fst m)" and "(name, v) \<in> set m"
  shows "strict_field dec x name m = dec v" and "v \<noteq> JNull \<Longrightarrow> field_of dec x name m = dec v"
    and "struct_field dec' y name m = dec' y v"
  using members_plain [OF assms]
  by (auto simp: strict_field_def field_of_def struct_field_def option.map_comp comp_def option.map_ident split: option.splits)

lemma known_plain: "lower_keys (map fst m) \<Longrightarrow> set (map fst m) \<subseteq> set tags \<Longrightarrow> known_fields tags m"
  by (force simp: known_fields_def lower_keys_def list_all_iff)

subsection \<open>Reading one value\<close>

lemma normal_sorted: "sorted (map fst kvs) \<Longrightarrow> normal (JObj kvs) = JObj (map (\<lambda>(k, v). (k, normal v)) kvs)"
  by (simp add: sort_key_id_if_sorted comp_def case_prod_beta')

lemma hex_text_ascii: "ascii (''0x'' @ hex_encode a)"
  using hex_encode_ascii by (auto simp: ascii_def)

lemma read_text: "valid_utf8 s \<Longrightarrow> str_of (normal (JStr s)) = Some s"
  by (simp add: str_of_def valid_utf8_def)

lemma read_addr: "length a = 20 \<Longrightarrow> fixed_hex 20 (normal (addr_doc a)) = Some a"
  using ascii_valid [OF hex_text_ascii [of a]] by (simp add: addr_doc_def fixed_hex_def valid_utf8_def)

lemma read_dur: "dur_ok d \<Longrightarrow> dur_of fr (normal (dur_doc d)) = Some d"
proof -
  assume d: "dur_ok d"
  have "ascii (nat_dec (nat d) @ ''ns'')" using nat_dec_digits [of _ "nat d"] by (fastforce simp: ascii_def is_digit_def)
  then have "normal (dur_doc d) = JStr (nat_dec (nat d) @ ''ns'')" using ascii_valid by (simp add: dur_doc_def valid_utf8_def)
  moreover have "ParseDuration fr (nat_dec (nat d) @ ''ns'') = Some (int (nat d * 1))"
    using d by (intro ParseDuration_whole) (auto simp: unitMap_def dur_ok_def nat_less_iff)
  ultimately show ?thesis using d by (simp add: dur_of_def dur_ok_def)
qed

lemma read_uint64: "uint64_of (normal (JUint64 w)) = Some w"
proof -
  have "unat w < 2 ^ 64" using unsigned_less [of w, where 'a = nat] by simp
  then show ?thesis using nat_dec_digits [of _ "unat w"] by (auto simp: uint64_of_def list_all_iff dec_nat_nat_dec)
qed

lemma read_byte: "json_uint8 (normal (byte_doc w)) = Some w"
proof -
  have w: "unat w < 2 ^ 8" using unsigned_less [of w, where 'a = nat] by simp
  then have "unat (ucast w :: 64 word) = unat w" by (simp add: unsigned_ucast_eq take_bit_nat_eq_self)
  then show ?thesis using w nat_dec_digits [of _ "unat w"] by (auto simp: byte_doc_def json_uint8_def list_all_iff dec_nat_nat_dec)
qed

lemma read_int: "- (2 ^ 63) \<le> i \<Longrightarrow> i < 2 ^ 63 \<Longrightarrow> int_of (normal (JInt64 (word_of_int i))) = Some i"
proof -
  assume i: "- (2 ^ 63) \<le> i" "i < 2 ^ 63"
  then have "sint (word_of_int i :: 64 word) = i" by (simp add: signed_of_int signed_take_bit_int_eq_self)
  moreover have "list_all is_digit (nat_dec n)" for n using nat_dec_digits by (auto simp: list_all_iff)
  moreover have "hd (nat_dec n) \<noteq> CHR ''-''" for n
    using nat_dec_digits [of "hd (nat_dec n)" n] by (cases "nat_dec n") (auto simp: is_digit_def)
  ultimately show ?thesis using i by (auto simp: int_of_def int_dec_def Let_def dec_nat_nat_dec nat_less_iff nat_le_iff)
qed

lemma read_list: "list_all (\<lambda>x. dec (normal (doc x)) = Some x) xs \<Longrightarrow> list_of dec (normal (JList (map doc xs))) = Some xs"
  by (induction xs) (auto simp: list_of_def split: option.splits)

lemma not_null [simp]: "normal (JStr s) \<noteq> JNull" "normal (JUint64 w) \<noteq> JNull" "normal (JInt64 w) \<noteq> JNull" "normal (JList xs) \<noteq> JNull"
  "normal (byte_doc b) \<noteq> JNull"
  by (simp_all add: byte_doc_def)

text \<open>An object with its fields: every tag is a key, in order.\<close>

lemma read_struct:
  assumes "sorted (map fst m)" and "lower_keys (map fst m)" and "set (map fst m) \<subseteq> set tags"
  shows "decode_struct tags fill x (normal (JObj m)) = fill (map (\<lambda>(k, v). (k, normal v)) m)"
proof -
  have "map fst (map (\<lambda>(k, v). (k, normal v)) m) = map fst m" by (simp add: comp_def case_prod_beta')
  then have "known_fields tags (map (\<lambda>(k, v). (k, normal v)) m)" using known_plain assms(2,3) by metis
  then show ?thesis by (simp only: normal_sorted [OF assms(1)] decode_struct_def jval.case if_True)
qed

lemma read_field:
  assumes "lower_keys (map fst m)" and "(name, v) \<in> set m"
  shows "strict_field dec x name (map (\<lambda>(k, v). (k, normal v)) m) = dec (normal v)"
    and "normal v \<noteq> JNull \<Longrightarrow> field_of dec x name (map (\<lambda>(k, v). (k, normal v)) m) = dec (normal v)"
    and "struct_field dec' y name (map (\<lambda>(k, v). (k, normal v)) m) = dec' y (normal v)"
proof -
  have k: "lower_keys (map fst (map (\<lambda>(k, v). (k, normal v)) m))" using assms(1) by (simp add: comp_def case_prod_beta')
  have v: "(name, normal v) \<in> set (map (\<lambda>(k, v). (k, normal v)) m)" using assms(2) by force
  show "strict_field dec x name (map (\<lambda>(k, v). (k, normal v)) m) = dec (normal v)"
    "normal v \<noteq> JNull \<Longrightarrow> field_of dec x name (map (\<lambda>(k, v). (k, normal v)) m) = dec (normal v)"
    "struct_field dec' y name (map (\<lambda>(k, v). (k, normal v)) m) = dec' y (normal v)"
    using field_plain [OF k v] by simp_all
qed

lemma read_deposit: "deposit_writable d \<Longrightarrow> deposit_of_json (normal (deposit_doc d)) = Some d"
proof -
  assume w: "deposit_writable d"
  let ?m = "[(''address'', addr_doc (DepositAddress d)), (''merchant_id'', JStr (MerchantID d))]"
  have k: "lower_keys (map fst ?m)" "sorted (map fst ?m)" by (simp_all add: lower_keys_def literals less_char_def)
  show ?thesis
    unfolding deposit_of_json_def deposit_doc_def using w
    by (simp add: read_struct [OF k(2,1)] read_field [OF k(1)] read_addr read_text deposit_writable_def del: normal.simps list.map)
qed

lemma read_officer: "officer_writable x \<Longrightarrow> officer_of (normal (officer_doc x)) = Some x"
proof -
  assume w: "officer_writable x"
  let ?m = "[(''address'', addr_doc (OfficerAddress x)), (''mask'', byte_doc (Mask x)), (''officer_id'', JStr (OfficerID x))]"
  have k: "lower_keys (map fst ?m)" "sorted (map fst ?m)" by (simp_all add: lower_keys_def literals less_char_def)
  show ?thesis
    unfolding officer_of_def officer_doc_def using w
    by (simp add: read_struct [OF k(2,1)] read_field [OF k(1)] read_addr read_text read_byte officer_writable_def del: normal.simps list.map)
qed

lemma read_token: "token_writable t \<Longrightarrow> token_of_json (normal (token_doc t)) = Some t"
proof -
  assume w: "token_writable t"
  let ?m = "[(''address'', addr_doc (TokenAddress t)), (''decimals'', byte_doc (Decimals t)), (''eur_rate'', JStr (EURRate t)),
     (''eventscale_alias'', JStr (EventscaleAlias t)), (''fx_source'', JStr (FXSource t)), (''symbol'', JStr (Symbol t))]"
  have k: "lower_keys (map fst ?m)" "sorted (map fst ?m)" by (simp_all add: lower_keys_def literals less_char_def)
  show ?thesis
    unfolding token_of_json_def token_doc_def using w
    by (simp add: read_struct [OF k(2,1)] read_field [OF k(1)] read_addr read_text read_byte token_writable_def texts_ok_def
        del: normal.simps list.map)
qed

lemma read_sanctions: "texts_ok [ListName x, ListPath x, ListVersion x] \<Longrightarrow> sanctions_of (normal (sanctions_doc x)) = Some x"
proof -
  assume w: "texts_ok [ListName x, ListPath x, ListVersion x]"
  let ?m = "[(''name'', JStr (ListName x)), (''path'', JStr (ListPath x)), (''version'', JStr (ListVersion x))]"
  have k: "lower_keys (map fst ?m)" "sorted (map fst ?m)" by (simp_all add: lower_keys_def literals less_char_def)
  show ?thesis
    unfolding sanctions_of_def sanctions_doc_def using w
    by (simp add: read_struct [OF k(2,1)] read_field [OF k(1)] read_text texts_ok_def del: normal.simps list.map)
qed

lemma read_chain: "chain_writable ch \<Longrightarrow> chain_of_json fr (normal (chain_doc ch)) = Some ch"
proof -
  assume w: "chain_writable ch"
  let ?m = "[(''chain_id'', JUint64 (ChainID ch)), (''chunk'', JUint64 (Chunk ch)), (''confirmations'', JUint64 (Confirmations ch)),
     (''deposit_addresses'', JList (map deposit_doc (Deposits ch))), (''eventscale_network'', JStr (EventscaleNetwork ch)),
     (''name'', JStr (ChainName ch)), (''reconcile_interval'', dur_doc (ReconcileInterval ch)), (''rpc'', JStr (RPC ch)),
     (''tokens'', JList (map token_doc (Tokens ch)))]"
  have k: "lower_keys (map fst ?m)" "sorted (map fst ?m)" by (simp_all add: lower_keys_def literals less_char_def)
  have t: "list_of token_of_json (normal (JList (map token_doc (Tokens ch)))) = Some (Tokens ch)"
    using w by (intro read_list) (auto simp: chain_writable_def list_all_iff read_token)
  have d: "list_of deposit_of_json (normal (JList (map deposit_doc (Deposits ch)))) = Some (Deposits ch)"
    using w by (intro read_list) (auto simp: chain_writable_def list_all_iff read_deposit)
  show ?thesis
    unfolding chain_of_json_def chain_doc_def using w
    by (simp add: read_struct [OF k(2,1)] read_field [OF k(1)] read_text read_uint64 read_dur t d chain_writable_def texts_ok_def
        del: normal.simps list.map)
qed

lemma read_processor:
  "texts_ok [CASPID p, CertURL p, LegalName p, LEI p, NCA p, RFIChannel p] \<Longrightarrow> processor_of x (normal (processor_doc p)) = Some p"
proof -
  assume w: "texts_ok [CASPID p, CertURL p, LegalName p, LEI p, NCA p, RFIChannel p]"
  let ?m = "[(''casp_id'', JStr (CASPID p)), (''cert_url'', JStr (CertURL p)), (''legal_name'', JStr (LegalName p)),
     (''lei'', JStr (LEI p)), (''nca'', JStr (NCA p)), (''rfi_channel'', JStr (RFIChannel p))]"
  have k: "lower_keys (map fst ?m)" "sorted (map fst ?m)" by (simp_all add: lower_keys_def literals less_char_def)
  show ?thesis
    unfolding processor_of_def processor_doc_def using w
    by (simp add: read_struct [OF k(2,1)] read_field [OF k(1)] read_text texts_ok_def del: normal.simps list.map)
qed

lemma read_keys:
  assumes "texts_ok [e, i, q]"
  shows "keys_of x (normal (JObj [(''evidence_key_file'', JStr e), (''evidence_kid'', JStr i), (''policy_key_file'', JStr q)])) = Some (q, e, i)"
proof -
  let ?m = "[(''evidence_key_file'', JStr e), (''evidence_kid'', JStr i), (''policy_key_file'', JStr q)]"
  have k: "lower_keys (map fst ?m)" "sorted (map fst ?m)" by (simp_all add: lower_keys_def literals less_char_def)
  show ?thesis
    unfolding keys_of_def using assms
    by (simp add: read_struct [OF k(2,1)] read_field [OF k(1)] read_text texts_ok_def del: normal.simps list.map)
qed

lemma read_kyt: "valid_utf8 u \<Longrightarrow> kyt_of x (normal (JObj [(''goplus_base_url'', JStr u)])) = Some u"
proof -
  assume w: "valid_utf8 u"
  let ?m = "[(''goplus_base_url'', JStr u)]"
  have k: "lower_keys (map fst ?m)" "sorted (map fst ?m)" by (simp_all add: lower_keys_def literals less_char_def)
  show ?thesis
    unfolding kyt_of_def using w by (simp add: read_struct [OF k(2,1)] read_field [OF k(1)] read_text del: normal.simps list.map)
qed

lemma read_config: "config_writable c \<Longrightarrow> config_of fr (normal (config_doc c)) = Some c"
proof -
  assume w: "config_writable c"
  let ?keys = "JObj [(''evidence_key_file'', JStr (EvidenceKeyFile c)), (''evidence_kid'', JStr (EvidenceKID c)),
     (''policy_key_file'', JStr (PolicyKeyFile c))]"
  let ?kyt = "JObj [(''goplus_base_url'', JStr (GoPlusBaseURL c))]"
  let ?m = "[(''api_token'', JStr (APIToken c)), (''chains'', JList (map chain_doc (Chains c))),
     (''check_timeout'', dur_doc (CheckTimeout c)), (''data_dir'', JStr (DataDir c)), (''database_url'', JStr (DatabaseURL c)),
     (''decision_ttl'', dur_doc (DecisionTTL c)), (''keys'', ?keys), (''kyt'', ?kyt), (''listen'', JStr (Listen c)),
     (''mlro'', JList (map addr_doc (MLRO c))), (''nats_url'', JStr (NATSURL c)), (''officers'', JList (map officer_doc (Officers c))),
     (''processor'', processor_doc (Processor c)), (''retention_years'', JInt64 (word_of_int (RetentionYears c))),
     (''sanctions_lists'', JList (map sanctions_doc (SanctionsLists c))), (''worker_interval'', dur_doc (WorkerInterval c))]"
  have k: "lower_keys (map fst ?m)" "sorted (map fst ?m)" by (simp_all add: lower_keys_def literals less_char_def)
  have t: "set (map fst ?m) \<subseteq> set config_tags" by (simp add: config_tags_def)
  have lists: "list_of (chain_of_json fr) (normal (JList (map chain_doc (Chains c)))) = Some (Chains c)"
    "list_of officer_of (normal (JList (map officer_doc (Officers c)))) = Some (Officers c)"
    "list_of (fixed_hex 20) (normal (JList (map addr_doc (MLRO c)))) = Some (MLRO c)"
    "list_of sanctions_of (normal (JList (map sanctions_doc (SanctionsLists c)))) = Some (SanctionsLists c)"
    using w by (intro read_list; auto simp: config_writable_def list_all_iff read_chain read_officer read_addr read_sanctions)+
  have parts: "keys_of ([], [], []) (normal ?keys) = Some (PolicyKeyFile c, EvidenceKeyFile c, EvidenceKID c)"
    "kyt_of [] (normal ?kyt) = Some (GoPlusBaseURL c)"
    "processor_of (Processor zero_config) (normal (processor_doc (Processor c))) = Some (Processor c)"
    using w by (simp_all add: config_writable_def texts_ok_def read_keys read_kyt read_processor del: normal.simps)
  have durs: "dur_of fr (normal (dur_doc (CheckTimeout c))) = Some (CheckTimeout c)"
    "dur_of fr (normal (dur_doc (DecisionTTL c))) = Some (DecisionTTL c)"
    "dur_of fr (normal (dur_doc (WorkerInterval c))) = Some (WorkerInterval c)"
    "int_of (normal (JInt64 (word_of_int (RetentionYears c)))) = Some (RetentionYears c)"
    using w by (simp_all add: config_writable_def read_dur read_int del: normal.simps)
  have texts: "valid_utf8 (APIToken c)" "valid_utf8 (DataDir c)" "valid_utf8 (DatabaseURL c)" "valid_utf8 (Listen c)" "valid_utf8 (NATSURL c)"
    using w by (simp_all add: config_writable_def texts_ok_def)
  show ?thesis
    unfolding config_of_def config_doc_def
    by (simp add: read_struct [OF k(2,1) t] read_field [OF k(1)] read_text texts lists parts durs del: normal.simps list.map)
qed

lemma wf_doc: "wf_json (JStr s)" "wf_json (addr_doc a)" "wf_json (byte_doc b)" "wf_json (dur_doc d)"
  by (simp_all add: addr_doc_def byte_doc_def dur_doc_def)

lemma wf_obj: "lower_keys (map fst m) \<Longrightarrow> list_all (\<lambda>k. valid_utf8 k) (map fst m) \<Longrightarrow> list_all (\<lambda>v. wf_json v) (map snd m) \<Longrightarrow> wf_json (JObj m)"
  by (auto simp: wf_map_def lower_keys_def list_all_iff)

lemma wf_items: "(\<And>x. wf_json (doc x)) \<Longrightarrow> wf_json (JList (map doc xs))"
  by (simp add: list_all_iff)

lemma wf_token: "wf_json (token_doc t)"
  unfolding token_doc_def by (rule wf_obj) (simp_all add: wf_doc lower_keys_def literals)

lemma wf_deposit: "wf_json (deposit_doc t)"
  unfolding deposit_doc_def by (rule wf_obj) (simp_all add: wf_doc lower_keys_def literals)

lemma wf_officer: "wf_json (officer_doc t)"
  unfolding officer_doc_def by (rule wf_obj) (simp_all add: wf_doc lower_keys_def literals)

lemma wf_sanctions: "wf_json (sanctions_doc t)"
  unfolding sanctions_doc_def by (rule wf_obj) (simp_all add: wf_doc lower_keys_def literals)

lemma wf_processor: "wf_json (processor_doc t)"
  unfolding processor_doc_def by (rule wf_obj) (simp_all add: wf_doc lower_keys_def literals)

lemma wf_chain: "wf_json (chain_doc t)"
  unfolding chain_doc_def
  by (rule wf_obj) (simp_all add: wf_doc wf_items wf_token wf_deposit lower_keys_def literals del: wf_json.simps(2))

lemma wf_config: "wf_json (config_doc c)"
proof -
  have "wf_json (JObj [(''evidence_key_file'', JStr a), (''evidence_kid'', JStr b), (''policy_key_file'', JStr d)])" for a b d
    by (rule wf_obj) (simp_all add: lower_keys_def literals)
  moreover have "wf_json (JObj [(''goplus_base_url'', JStr a)])" for a
    by (rule wf_obj) (simp_all add: lower_keys_def literals)
  ultimately show ?thesis
    unfolding config_doc_def
    by (intro wf_obj) (simp_all add: wf_doc wf_items wf_chain wf_officer wf_sanctions wf_processor lower_keys_def
        literals del: wf_json.simps(2,3))
qed

lemma LoadConfig_reads:
  assumes "config_writable c" and "Validate c = []" and "defaults c = c"
  shows "\<exists>raw. canon (config_doc c) = Inr raw \<and> (\<forall>read. read path = Some raw \<longrightarrow> LoadConfig fr read path = Inr c)"
proof -
  obtain raw where "canon (config_doc c) = Inr raw" "decode raw = Some (normal (config_doc c))"
    using decode_canon [OF wf_config, of c] by blast
  then show ?thesis using assms read_config [OF assms(1), of fr] by (auto simp: LoadConfig_def Let_def)
qed

section \<open>The name of the build (rules.go)\<close>

text \<open>\<open>debug.ReadBuildInfo\<close> gives the settings of the build, or nothing; the last usable revision counts.\<close>

definition EngineVersion :: "(string \<times> string) list option \<Rightarrow> string" where
  "EngineVersion info = ''deflow-core@'' @ (case info of
     None \<Rightarrow> ''dev''
   | Some settings \<Rightarrow> fold (\<lambda>(k, v) rev. if k = ''vcs.revision'' \<and> 7 \<le> length v then take 7 v else rev) settings ''dev'')"

end
