(* ===== verification/Process.thy ===== *)
theory Process
  imports Service Loading
begin

text \<open>
  The running process: how \<open>Run\<close> of compliance-backend/internal/app/app.go puts the service together, its
  goroutines as events (consumer messages, reconciler steps, worker moves, requests, the hang-up signal) in
  any order, the loops around the steps (reconciler.go, hint.go, pipeline.go) and the command line
  (cmd/compliance-backend/main.go).

  The lemmas: what a start needs and what a failed one leaves; every interleaving of events is a run of the
  service of theory Service, so its invariants hold of the process; the moves of the worker, undisturbed,
  are exactly \<open>Tick\<close>; a request without the token changes nothing, and of the open health report only the
  cursors of the database are read; the reconciler does not wait before it has caught up; the waits of the hint worker
  double up to 30 seconds.
\<close>

section \<open>Starting (app.go)\<close>

text \<open>
  \<open>host\<close> is what the process finds outside: the file system, whether the database opens and migrates,
  the key parsers, whether a node answers and the address can be bound. The goroutines that \<open>Run\<close>
  starts before a later step fails do nothing their events do not do; the model starts them together.
\<close>

record host =
  H_Read :: "string \<Rightarrow> string option"
  H_Open :: "string \<Rightarrow> bool"
  H_Hex :: "string \<Rightarrow> key_signer option"
  H_Parsers :: key_parsers
  H_Dial :: "string \<Rightarrow> bool"
  H_Listen :: "string \<Rightarrow> bool"
  H_Crypto :: crypto
  H_Build :: "(string \<times> string) list option"
  H_ErrText :: "perr \<Rightarrow> string"

datatype start_err = StoreDown | BadKey file_err | ListsFailed check_err | DialFailed "64 word" | ListenFailed

text \<open>The worker goroutine: waiting for the ticker, or in a tick with the rows it has read and not yet done.\<close>

datatype worker = Waiting | Checking "payment_row list" | Recommending "payment_row list"

record process =
  Pr_Svc :: service
  Pr_DB :: db
  Pr_Raw :: raw_store
  Pr_Lists :: "loaded_list list"
  Pr_Worker :: worker
  Pr_Hint :: string

definition Run :: "host \<Rightarrow> time \<Rightarrow> config \<Rightarrow> db \<times> raw_store \<Rightarrow> (start_err, process) res \<times> db" where
  "Run h now c w =
     (if \<not> H_Open h (DatabaseURL c) then (Inl StoreDown, fst w)
      else case LoadFileSigner (H_Hex h) (H_Read h) (PolicyKeyFile c) of
        Inl e \<Rightarrow> (Inl (BadKey e), fst w)
      | Inr policy \<Rightarrow> (case LoadJWSSigner (H_Parsers h) (H_Read h) (EvidenceKeyFile c) (EvidenceKID c) of
          Inl e \<Rightarrow> (Inl (BadKey e), fst w)
        | Inr ev \<Rightarrow> (case Load (H_Read h) now (SanctionsLists c) [] (fst w) of
            (Some e, ls, s) \<Rightarrow> (Inl (ListsFailed e), s)
          | (None, ls, s) \<Rightarrow> (case find_first (\<lambda>ch. \<not> H_Dial h (RPC ch)) (Chains c) of
              Some ch \<Rightarrow> (Inl (DialFailed (ChainID ch)), s)
            | None \<Rightarrow>
                if \<not> H_Listen h (Listen c) then (Inl ListenFailed, s)
                else (Inr \<lparr> Pr_Svc = \<lparr> S_Cfg = c, S_Policy = policy, S_Evidence = ev, S_Crypto = H_Crypto h, S_Engine = EngineVersion (H_Build h) \<rparr>,
                        Pr_DB = s, Pr_Raw = snd w, Pr_Lists = ls, Pr_Worker = Waiting, Pr_Hint = hint_status c False \<rparr>, s)))))"

section \<open>Health (app.go)\<close>

text \<open>\<open>int64(head) - int64(last)\<close>, when the node answers and something was reconciled.\<close>

definition lag :: "bool \<Rightarrow> (64 word \<Rightarrow> eth_client) \<Rightarrow> db \<Rightarrow> chain \<Rightarrow> jval" where
  "lag db_up clients s ch =
     (let last = (if db_up then (case map_of (cursors s) (ChainID ch) of None \<Rightarrow> 0 | Some c \<Rightarrow> LastReconciled c) else 0)
      in case BlockNumber (clients (ChainID ch)) of
           Inl _ \<Rightarrow> JNull
         | Inr head \<Rightarrow> if 0 < last then JInt64 (head - last) else JNull)"

definition health :: "bool \<Rightarrow> string \<Rightarrow> (64 word \<Rightarrow> eth_client) \<Rightarrow> config \<Rightarrow> db \<Rightarrow> jval" where
  "health db_up hint clients c s = JObj [(''db'', JStr (if db_up then ''ok'' else ''down'')), (''hint'', JStr hint),
     (''reconciler_lag_blocks'', JObj (map (\<lambda>ch. (nat_dec (unat (ChainID ch)), lag db_up clients s ch)) (Chains c)))]"

text \<open>Of the database it reads the cursors of the reconcilers only.\<close>

lemma health_cursors: "cursors s' = cursors s \<Longrightarrow> health up hint clients c s' = health up hint clients c s"
  by (simp add: health_def lag_def)

section \<open>The worker (pipeline.go)\<close>

record work_env =
  WE_Now :: time
  WE_Screen :: screening_env
  WE_Checks :: "hash \<Rightarrow> nat \<Rightarrow> run_env"
  WE_Step :: "hash \<Rightarrow> step_env"

definition screening :: "config \<Rightarrow> loaded_list list \<Rightarrow> screening_env \<Rightarrow> screening_env" where
  "screening c ls e = e\<lparr>E_BaseURL := GoPlusBaseURL c, E_Lists := ls, E_Config := c\<rparr>"

definition checks_now :: "work_env \<Rightarrow> process \<Rightarrow> db \<Rightarrow> check list" where
  "checks_now e p d = service_checks (screening (S_Cfg (Pr_Svc p)) (Pr_Lists p) (WE_Screen e)) d (WE_Now e)"

text \<open>
  One move of the worker: read the rows due for checks, check one, read the rows due for a recommendation,
  make one. An error ends the tick; it is logged and the next tick starts afresh.
\<close>

definition work :: "work_env \<Rightarrow> process \<Rightarrow> process" where
  "work e p = (case Pr_Worker p of
     Waiting \<Rightarrow> p\<lparr>Pr_Worker := Checking (due checks_due (Pr_DB p))\<rparr>
   | Checking rs \<Rightarrow> (case rs of
       [] \<Rightarrow> p\<lparr>Pr_Worker := Recommending (due recommend_due (Pr_DB p))\<rparr>
     | r # rs' \<Rightarrow> (case check_payment_step (Pr_Svc p) (checks_now e p) (WE_Checks e (P_ID r)) r (Pr_DB p, Pr_Raw p) of
         (Inl _, raw) \<Rightarrow> p\<lparr>Pr_Raw := raw, Pr_Worker := Waiting\<rparr>
       | (Inr s, raw) \<Rightarrow> p\<lparr>Pr_DB := s, Pr_Raw := raw, Pr_Worker := Checking rs'\<rparr>))
   | Recommending rs \<Rightarrow> (case rs of
       [] \<Rightarrow> p\<lparr>Pr_Worker := Waiting\<rparr>
     | r # rs' \<Rightarrow> (let t = WE_Step e (P_ID r) in
         case recommend (Pr_Svc p) (T_Now t) (T_Rnd t) (T_Fresh t) r (Pr_DB p) of
           Inl _ \<Rightarrow> p\<lparr>Pr_Worker := Waiting\<rparr>
         | Inr s \<Rightarrow> p\<lparr>Pr_DB := s, Pr_Worker := Recommending rs'\<rparr>)))"

section \<open>The running process\<close>

text \<open>
  What can happen to it, in any order: a message of a consumer, a change of the hint connection, a step of
  a chain's reconciler, a move of the worker, a request, a hang-up signal.
\<close>

datatype event =
    Message "64 word" bool string
  | Connected bool
  | Reconcile "64 word" eth_client
  | Work work_env
  | Call req_env bool "64 word \<Rightarrow> eth_client" request
  | HangUp "string \<Rightarrow> string option" time

definition server_of :: "(perr \<Rightarrow> string) \<Rightarrow> (db \<Rightarrow> jval) \<Rightarrow> service \<Rightarrow> server" where
  "server_of text hl svc = \<lparr> SrvPipeline = svc, SrvToken = APIToken (S_Cfg svc), SrvHealth = hl, ErrText = text \<rparr>"

definition reload :: "(string \<Rightarrow> string option) \<Rightarrow> time \<Rightarrow> process \<Rightarrow> process" where
  "reload read now p = (case Load read now (SanctionsLists (S_Cfg (Pr_Svc p))) (Pr_Lists p) (Pr_DB p) of
     (err, ls, s) \<Rightarrow> p\<lparr>Pr_Lists := ls, Pr_DB := s\<rparr>)"

definition called :: "(perr \<Rightarrow> string) \<Rightarrow> req_env \<Rightarrow> bool \<Rightarrow> (64 word \<Rightarrow> eth_client) \<Rightarrow> request \<Rightarrow> process \<Rightarrow> response \<times> process" where
  "called text env up clients rq p =
     (let svc = Pr_Svc p; (resp, s) = Handler (server_of text (health up (Pr_Hint p) clients (S_Cfg svc)) svc) env rq (Pr_DB p)
      in (resp, p\<lparr>Pr_DB := s\<rparr>))"

definition happen :: "(string \<Rightarrow> string) \<Rightarrow> (string \<Rightarrow> string option) \<Rightarrow> (perr \<Rightarrow> string) \<Rightarrow> event \<Rightarrow> process \<Rightarrow> process" where
  "happen keccak b64 text ev p = (case ev of
     Message i up raw \<Rightarrow> (case Chain (S_Cfg (Pr_Svc p)) i of
       None \<Rightarrow> p | Some ch \<Rightarrow> p\<lparr>Pr_DB := snd (handle b64 keccak ch up raw (Pr_DB p))\<rparr>)
   | Connected consuming \<Rightarrow> p\<lparr>Pr_Hint := hint_status (S_Cfg (Pr_Svc p)) consuming\<rparr>
   | Reconcile i eth \<Rightarrow> (case Chain (S_Cfg (Pr_Svc p)) i of
       None \<Rightarrow> p | Some ch \<Rightarrow> p\<lparr>Pr_DB := snd (Step keccak eth ch (Pr_DB p))\<rparr>)
   | Work e \<Rightarrow> work e p
   | Call env up clients rq \<Rightarrow> snd (called text env up clients rq p)
   | HangUp read now \<Rightarrow> reload read now p)"

definition happens :: "(string \<Rightarrow> string) \<Rightarrow> (string \<Rightarrow> string option) \<Rightarrow> (perr \<Rightarrow> string) \<Rightarrow> event list \<Rightarrow> process \<Rightarrow> process" where
  "happens keccak b64 text evs p = fold (happen keccak b64 text) evs p"

section \<open>What a start needs\<close>

text \<open>The lists in memory: every configured list, all with the entries of one state of the file system.\<close>

definition has_lists :: "config \<Rightarrow> loaded_list list \<Rightarrow> bool" where
  "has_lists c ls \<longleftrightarrow> (\<exists>read. length ls = length (SanctionsLists c)
     \<and> (\<forall>i<length ls. \<exists>raw. read (ListPath (SanctionsLists c ! i)) = Some raw \<and> LL_Entries (ls ! i) = list_entries raw \<and> LL_Sha (ls ! i) = SHA raw
          \<and> LL_Name (ls ! i) = ListName (SanctionsLists c ! i) \<and> LL_Version (ls ! i) = ListVersion (SanctionsLists c ! i)))"

lemma Load_lists:
  assumes "Load read now (SanctionsLists c) old s = (err, ls, s')"
  shows "pstep svc keccak b64 s s'" and "err = None \<Longrightarrow> has_lists c ls" and "err \<noteq> None \<Longrightarrow> ls = old"
proof -
  obtain r where r: "load_lists read now (SanctionsLists c) s = (r, s')"
    using assms by (auto simp: Load_def split: prod.splits sum.splits)
  show "pstep svc keccak b64 s s'" using pstep.lists [of svc keccak b64 s read now "SanctionsLists c"] by (simp add: r)
  show "has_lists c ls" if n: "err = None"
  proof -
    have "load_lists read now (SanctionsLists c) s = (Inr ls, s')" using assms r n by (auto simp: Load_def split: sum.splits)
    from load_lists_ok [OF this] show ?thesis unfolding has_lists_def by (intro exI [of _ read]) simp
  qed
  show "err \<noteq> None \<Longrightarrow> ls = old" using assms r by (auto simp: Load_def split: sum.splits)
qed

lemma Run_parts:
  assumes "Run h now c (s0, raw) = (Inr p, s)"
  shows "S_Cfg (Pr_Svc p) = c" and "LoadFileSigner (H_Hex h) (H_Read h) (PolicyKeyFile c) = Inr (S_Policy (Pr_Svc p))"
    and "LoadJWSSigner (H_Parsers h) (H_Read h) (EvidenceKeyFile c) (EvidenceKID c) = Inr (S_Evidence (Pr_Svc p))"
    and "Load (H_Read h) now (SanctionsLists c) [] s0 = (None, Pr_Lists p, s)" and "Pr_DB p = s" and "Pr_Worker p = Waiting"
    and "H_Open h (DatabaseURL c)" and "ch \<in> set (Chains c) \<Longrightarrow> H_Dial h (RPC ch)" and "H_Listen h (Listen c)"
  using assms by (auto simp: Run_def find_first_None_iff split: if_splits sum.splits prod.splits option.splits)

lemma Run_failed:
  assumes "Run h now c (s0, raw) = (Inl e, s)"
  shows "s = s0 \<or> pstep svc keccak b64 s0 s"
  using assms by (auto simp: Run_def split: if_splits sum.splits prod.splits option.splits dest: Load_lists(1))

section \<open>Every interleaving is a run of the service\<close>

definition todo :: "process \<Rightarrow> payment_row list" where
  "todo p = (case Pr_Worker p of Waiting \<Rightarrow> [] | Checking rs \<Rightarrow> rs | Recommending rs \<Rightarrow> rs)"

definition proc_inv :: "(string \<Rightarrow> string) \<Rightarrow> (string \<Rightarrow> string option) \<Rightarrow> process \<Rightarrow> bool" where
  "proc_inv keccak b64 p \<longleftrightarrow> reachable (Pr_Svc p) keccak b64 (Pr_DB p) \<and> read_rows (Pr_DB p) (todo p)
     \<and> has_lists (S_Cfg (Pr_Svc p)) (Pr_Lists p)"

lemma reachable_wf: "reachable svc keccak b64 s \<Longrightarrow> wf_payments s"
proof -
  have "wf_payments empty_db" by (simp add: wf_payments_def empty_db_def)
  then show "reachable svc keccak b64 s \<Longrightarrow> wf_payments s" unfolding reachable_def using wf_run.run_good by blast
qed

lemma proc_inv_wf: "proc_inv keccak b64 p \<Longrightarrow> wf_payments (Pr_DB p)"
  unfolding proc_inv_def by (elim conjE) (rule reachable_wf)

lemma reachable_pstep: "reachable svc keccak b64 s \<Longrightarrow> pstep svc keccak b64 s s' \<Longrightarrow> reachable svc keccak b64 s'"
  unfolding reachable_def by (rule rtranclp.rtrancl_into_rtrancl)

lemma proc_inv_step:
  assumes "proc_inv keccak b64 p" and "Pr_DB p' = Pr_DB p \<or> pstep (Pr_Svc p) keccak b64 (Pr_DB p) (Pr_DB p')"
    and "Pr_Svc p' = Pr_Svc p" and "Pr_Lists p' = Pr_Lists p \<or> has_lists (S_Cfg (Pr_Svc p)) (Pr_Lists p')" and "set (todo p') \<subseteq> set (todo p)"
  shows "proc_inv keccak b64 p'"
proof -
  have "later (Pr_DB p) (Pr_DB p')" using assms(2) pstep_later by auto
  then have "read_rows (Pr_DB p') (todo p)" using assms(1) read_rows_later by (auto simp: proc_inv_def)
  then have "read_rows (Pr_DB p') (todo p')" using assms(5) by (auto simp: read_rows_def)
  then show ?thesis using assms(1-4) reachable_pstep by (auto simp: proc_inv_def)
qed

lemma work_svc [simp]: "Pr_Svc (work e p) = Pr_Svc p" "Pr_Lists (work e p) = Pr_Lists p"
  by (simp_all add: work_def Let_def split: worker.split list.split prod.split sum.split)

lemma proc_inv_work: "proc_inv keccak b64 p \<Longrightarrow> proc_inv keccak b64 (work e p)"
proof (cases "Pr_Worker p")
  case Waiting
  assume inv: "proc_inv keccak b64 p"
  then have "read_rows (Pr_DB p) (due checks_due (Pr_DB p))" by (intro due_read) (rule proc_inv_wf)
  then show ?thesis using inv by (simp add: work_def Waiting proc_inv_def todo_def)
next
  case (Checking rs)
  assume inv: "proc_inv keccak b64 p"
  have check: "check_payment_step (Pr_Svc p) (checks_now e p) env r (Pr_DB p, Pr_Raw p) = (Inr s, raw)
      \<Longrightarrow> pstep (Pr_Svc p) keccak b64 (Pr_DB p) s" for env r s raw
    unfolding checks_now_def by (rule pstep.check)
  show ?thesis
  proof (cases rs)
    case Nil
    have "read_rows (Pr_DB p) (due recommend_due (Pr_DB p))" using inv by (intro due_read) (rule proc_inv_wf)
    then show ?thesis using inv by (simp add: work_def Checking Nil proc_inv_def todo_def)
  next
    case (Cons r rs')
    show ?thesis
      by (rule proc_inv_step [OF inv])
        (auto simp: work_def Checking Cons todo_def split: prod.split sum.split dest: check)
  qed
next
  case (Recommending rs)
  assume inv: "proc_inv keccak b64 p"
  show ?thesis
  proof (cases rs)
    case Nil
    then show ?thesis using inv by (simp add: work_def Recommending proc_inv_def todo_def read_rows_def)
  next
    case (Cons r rs')
    obtain q where q: "payment_by (Pr_DB p) (P_ID r) = Some q" "same_origin r q"
      using inv by (auto simp: proc_inv_def read_rows_def todo_def Recommending Cons)
    show ?thesis
      by (rule proc_inv_step [OF inv])
        (auto simp: work_def Recommending Cons todo_def Let_def split: sum.split intro: pstep.recommendation [OF _ q])
  qed
qed

lemma happen_svc [simp]: "Pr_Svc (happen keccak b64 text ev p) = Pr_Svc p"
  by (simp add: happen_def called_def reload_def Let_def split: event.split option.split prod.split)

lemma proc_inv_happen: "proc_inv keccak b64 p \<Longrightarrow> proc_inv keccak b64 (happen keccak b64 text ev p)"
proof (cases ev)
  case (Work e)
  assume "proc_inv keccak b64 p"
  then show ?thesis by (simp add: happen_def Work proc_inv_work)
next
  case (HangUp read now)
  assume inv: "proc_inv keccak b64 p"
  show ?thesis
  proof (cases "Load read now (SanctionsLists (S_Cfg (Pr_Svc p))) (Pr_Lists p) (Pr_DB p)")
    case (fields err ls s)
    note l = Load_lists [OF fields]
    have "ls = Pr_Lists p \<or> has_lists (S_Cfg (Pr_Svc p)) ls" using l(2,3) by blast
    then show ?thesis by (intro proc_inv_step [OF inv]) (auto simp: happen_def HangUp reload_def fields todo_def l(1))
  qed
next
  case (Call env up clients rq)
  assume inv: "proc_inv keccak b64 p"
  define srv where "srv = server_of text (health up (Pr_Hint p) clients (S_Cfg (Pr_Svc p))) (Pr_Svc p)"
  obtain resp s where h: "Handler srv env rq (Pr_DB p) = (resp, s)" by (cases "Handler srv env rq (Pr_DB p)")
  have svc: "SrvPipeline srv = Pr_Svc p" by (simp add: srv_def server_of_def)
  show ?thesis
    by (rule proc_inv_step [OF inv])
      (use Handler_step [OF h, of keccak b64] in \<open>auto simp: happen_def Call called_def Let_def srv_def [symmetric] h svc todo_def\<close>)
qed (auto simp: happen_def todo_def intro: pstep.hint pstep.reconcile split: option.split elim!: proc_inv_step)

lemma proc_inv_happens: "proc_inv keccak b64 p \<Longrightarrow> proc_inv keccak b64 (happens keccak b64 text evs p)"
  unfolding happens_def by (induction evs arbitrary: p) (simp_all add: proc_inv_happen)

lemma happens_svc [simp]: "Pr_Svc (happens keccak b64 text evs p) = Pr_Svc p"
  unfolding happens_def by (induction evs arbitrary: p) simp_all

lemma proc_inv_Run:
  assumes "Run h now c (s0, raw) = (Inr p, s)" and "reachable (Pr_Svc p) keccak b64 s0"
  shows "proc_inv keccak b64 p"
proof -
  note r = Run_parts [OF assms(1)]
  note l = Load_lists [OF r(4)]
  have "reachable (Pr_Svc p) keccak b64 (Pr_DB p)" unfolding r(5) by (rule reachable_pstep [OF assms(2) l(1)])
  then show ?thesis using l(2) r(1,6) by (simp add: proc_inv_def todo_def read_rows_def)
qed

section \<open>A request without the token\<close>

lemma called_parts:
  "fst (called text env up clients rq (p\<lparr>Pr_DB := s\<rparr>)) = fst (Handler (server_of text (health up (Pr_Hint p) clients (S_Cfg (Pr_Svc p))) (Pr_Svc p)) env rq s)"
  "fst (called text env up clients rq p) = fst (Handler (server_of text (health up (Pr_Hint p) clients (S_Cfg (Pr_Svc p))) (Pr_Svc p)) env rq (Pr_DB p))"
  "snd (called text env up clients rq p) = p\<lparr>Pr_DB := snd (Handler (server_of text (health up (Pr_Hint p) clients (S_Cfg (Pr_Svc p))) (Pr_Svc p)) env rq (Pr_DB p))\<rparr>"
  by (simp_all add: called_def Let_def split_def)

lemma called_refused:
  assumes "RqAuth rq \<noteq> ''Bearer '' @ APIToken (S_Cfg (Pr_Svc p))"
  shows "snd (called text env up clients rq p) = p"
    and "RqPath rq \<noteq> [''healthz''] \<Longrightarrow> status_code (fst (called text env up clients rq p)) \<in> {401, 404, 405}"
    and "RqPath rq \<noteq> [''healthz''] \<or> cursors s' = cursors (Pr_DB p)
      \<Longrightarrow> fst (called text env up clients rq (p\<lparr>Pr_DB := s'\<rparr>)) = fst (called text env up clients rq p)"
proof -
  let ?srv = "server_of text (health up (Pr_Hint p) clients (S_Cfg (Pr_Svc p))) (Pr_Svc p)"
  have "RqAuth rq \<noteq> ''Bearer '' @ SrvToken ?srv" using assms by (simp add: server_of_def)
  note h = Handler_refused [OF this, of env "Pr_DB p"]
  have "p\<lparr>Pr_DB := Pr_DB p\<rparr> = p" by simp
  then show "snd (called text env up clients rq p) = p" unfolding called_parts using h by (simp only:)
  show "RqPath rq \<noteq> [''healthz''] \<Longrightarrow> status_code (fst (called text env up clients rq p)) \<in> {401, 404, 405}"
    unfolding called_parts using h by blast
  have "SrvHealth ?srv s' = SrvHealth ?srv (Pr_DB p)" if "cursors s' = cursors (Pr_DB p)"
    using health_cursors [OF that] by (simp add: server_of_def)
  then show "RqPath rq \<noteq> [''healthz''] \<or> cursors s' = cursors (Pr_DB p)
      \<Longrightarrow> fst (called text env up clients rq (p\<lparr>Pr_DB := s'\<rparr>)) = fst (called text env up clients rq p)"
    unfolding called_parts(1) unfolding called_parts(2) using h [of s'] by blast
qed

section \<open>The worker alone is the tick\<close>

lemma checks_now_cong: "Pr_Svc p' = Pr_Svc p \<Longrightarrow> Pr_Lists p' = Pr_Lists p \<Longrightarrow> checks_now e p' = checks_now e p"
  by (simp add: fun_eq_iff checks_now_def)

lemma work_checks:
  assumes "Pr_Worker p = Checking rs" and "run_checks_on (Pr_Svc p) (checks_now e p) (WE_Checks e) rs (Pr_DB p, Pr_Raw p) = (err, s, raw)"
  shows "\<exists>n. (work e ^^ n) p = p\<lparr>Pr_DB := s, Pr_Raw := raw, Pr_Worker := (if err = None then Checking [] else Waiting)\<rparr>"
  using assms
proof (induction rs arbitrary: p)
  case Nil
  then show ?case by (intro exI [of _ 0]) simp
next
  case (Cons r rs)
  let ?c = "check_payment_step (Pr_Svc p) (checks_now e p) (WE_Checks e (P_ID r)) r (Pr_DB p, Pr_Raw p)"
  obtain res raw1 where c: "?c = (res, raw1)" by (cases ?c)
  show ?case
  proof (cases res)
    case (Inl x)
    then show ?thesis using Cons.prems c by (intro exI [of _ 1]) (auto simp: work_def)
  next
    case (Inr s1)
    let ?p = "p\<lparr>Pr_DB := s1, Pr_Raw := raw1, Pr_Worker := Checking rs\<rparr>"
    have w: "work e p = ?p" using Cons.prems(1) c Inr by (simp add: work_def)
    have "run_checks_on (Pr_Svc ?p) (checks_now e ?p) (WE_Checks e) rs (Pr_DB ?p, Pr_Raw ?p) = (err, s, raw)"
      using Cons.prems(2) c Inr by (simp add: checks_now_cong [of ?p p])
    from Cons.IH [OF _ this] obtain n where
      "(work e ^^ n) ?p = ?p\<lparr>Pr_DB := s, Pr_Raw := raw, Pr_Worker := (if err = None then Checking [] else Waiting)\<rparr>" by auto
    then show ?thesis using w by (intro exI [of _ "Suc n"]) (simp add: funpow_swap1 funpow_Suc_right del: funpow.simps)
  qed
qed

lemma work_recommends:
  assumes "Pr_Worker p = Recommending rs" and "recommend_on (Pr_Svc p) (WE_Step e) rs (Pr_DB p) = (err, s)"
  shows "\<exists>n. (work e ^^ n) p = p\<lparr>Pr_DB := s, Pr_Worker := Waiting\<rparr>"
  using assms
proof (induction rs arbitrary: p)
  case Nil
  then show ?case by (intro exI [of _ 1]) (simp add: work_def)
next
  case (Cons r rs)
  let ?t = "WE_Step e (P_ID r)"
  show ?case
  proof (cases "recommend (Pr_Svc p) (T_Now ?t) (T_Rnd ?t) (T_Fresh ?t) r (Pr_DB p)")
    case (Inl x)
    then show ?thesis using Cons.prems by (intro exI [of _ 1]) (auto simp: work_def Let_def)
  next
    case (Inr s1)
    let ?p = "p\<lparr>Pr_DB := s1, Pr_Worker := Recommending rs\<rparr>"
    have w: "work e p = ?p" using Cons.prems(1) Inr by (simp add: work_def Let_def)
    have "recommend_on (Pr_Svc ?p) (WE_Step e) rs (Pr_DB ?p) = (err, s)" using Cons.prems(2) Inr by (simp add: Let_def)
    from Cons.IH [OF _ this] obtain n where "(work e ^^ n) ?p = ?p\<lparr>Pr_DB := s, Pr_Worker := Waiting\<rparr>" by auto
    then show ?thesis using w by (intro exI [of _ "Suc n"]) (simp add: funpow_Suc_right del: funpow.simps)
  qed
qed

lemma work_is_Tick:
  assumes "Pr_Worker p = Waiting"
    and "Tick (Pr_Svc p) (checks_now e p) (WE_Checks e) (WE_Step e) (Pr_DB p, Pr_Raw p) = (err, s, raw)"
  shows "\<exists>n. (work e ^^ n) p = p\<lparr>Pr_DB := s, Pr_Raw := raw\<rparr>"
proof -
  obtain err1 s1 raw1 where
    c: "run_checks_on (Pr_Svc p) (checks_now e p) (WE_Checks e) (due checks_due (Pr_DB p)) (Pr_DB p, Pr_Raw p) = (err1, s1, raw1)"
    by (metis surj_pair)
  define p1 where "p1 = p\<lparr>Pr_Worker := Checking (due checks_due (Pr_DB p))\<rparr>"
  have w1: "work e p = p1" using assms(1) by (simp add: work_def p1_def)
  have "run_checks_on (Pr_Svc p1) (checks_now e p1) (WE_Checks e) (due checks_due (Pr_DB p)) (Pr_DB p1, Pr_Raw p1) = (err1, s1, raw1)"
    using c by (simp add: p1_def checks_now_cong [of p1 p, unfolded p1_def])
  from work_checks [OF _ this] obtain n where
    n: "(work e ^^ n) p1 = p1\<lparr>Pr_DB := s1, Pr_Raw := raw1, Pr_Worker := (if err1 = None then Checking [] else Waiting)\<rparr>"
    by (auto simp: p1_def)
  have n': "(work e ^^ Suc n) p = p1\<lparr>Pr_DB := s1, Pr_Raw := raw1, Pr_Worker := (if err1 = None then Checking [] else Waiting)\<rparr>"
    using n w1 by (simp add: funpow_Suc_right del: funpow.simps)
  show ?thesis
  proof (cases err1)
    case (Some x)
    then have "s = s1 \<and> raw = raw1" using assms(2) c by (simp add: Tick_def runChecks_def)
    then show ?thesis using n' Some assms(1) by (intro exI [of _ "Suc n"]) (simp add: p1_def)
  next
    case None
    define p2 where "p2 = p\<lparr>Pr_DB := s1, Pr_Raw := raw1, Pr_Worker := Recommending (due recommend_due s1)\<rparr>"
    have "work e (p1\<lparr>Pr_DB := s1, Pr_Raw := raw1, Pr_Worker := Checking []\<rparr>) = p2" by (simp add: work_def p1_def p2_def)
    then have n2: "(work e ^^ Suc (Suc n)) p = p2" using n' None by simp
    have t: "recommend_on (Pr_Svc p2) (WE_Step e) (due recommend_due s1) (Pr_DB p2) = (err, s) \<and> raw = raw1"
      using assms(2) c None by (simp add: Tick_def runChecks_def recommendAll_def p2_def split: prod.splits)
    then obtain m where "(work e ^^ m) p2 = p2\<lparr>Pr_DB := s, Pr_Worker := Waiting\<rparr>"
      using work_recommends [of p2 "due recommend_due s1" e err s] by (auto simp: p2_def)
    then have "(work e ^^ (m + Suc (Suc n))) p = p2\<lparr>Pr_DB := s, Pr_Worker := Waiting\<rparr>" unfolding funpow_add using n2 by simp
    then have "(work e ^^ (m + Suc (Suc n))) p = p\<lparr>Pr_DB := s, Pr_Raw := raw\<rparr>" using t assms(1) by (simp add: p2_def del: funpow.simps)
    then show ?thesis by blast
  qed
qed

section \<open>The loops (reconciler.go, hint.go)\<close>

text \<open>
  \<open>Reconciler.Run\<close> against the states of the node that its steps meet: for every step, whether it waits
  one interval afterwards.
\<close>

definition pauses :: "(ingest_err, bool) res \<Rightarrow> bool" where
  "pauses r \<longleftrightarrow> r \<noteq> Inr True"

fun reconcile_loop :: "(string \<Rightarrow> string) \<Rightarrow> chain \<Rightarrow> eth_client list \<Rightarrow> db \<Rightarrow> bool list \<times> db" where
  "reconcile_loop keccak ch [] s = ([], s)"
| "reconcile_loop keccak ch (eth # es) s = (let (r, s1) = Step keccak eth ch s; (ws, s2) = reconcile_loop keccak ch es s1 in (pauses r # ws, s2))"

text \<open>It does not wait before it has caught up.\<close>

lemma loop_catches_up:
  "run_steps keccak eth ch n s = (Inr False, s')
     \<Longrightarrow> \<exists>m<n. reconcile_loop keccak ch (replicate (Suc m) eth) s = (replicate m False @ [True], s')"
proof (induction n arbitrary: s)
  case (Suc n)
  obtain r s1 where st: "Step keccak eth ch s = (r, s1)" by (cases "Step keccak eth ch s")
  show ?case
  proof (cases "r = Inr True")
    case True
    then have "run_steps keccak eth ch n s1 = (Inr False, s')" using Suc.prems st by simp
    then obtain m where "m < n" "reconcile_loop keccak ch (replicate (Suc m) eth) s1 = (replicate m False @ [True], s')"
      using Suc.IH by blast
    then show ?thesis using st True by (intro exI [of _ "Suc m"]) (simp add: Let_def pauses_def)
  next
    case False
    then have "r = Inr False \<and> s1 = s'" using Suc.prems st by (auto split: sum.splits bool.splits)
    then show ?thesis using st by (intro exI [of _ 0]) (simp add: Let_def pauses_def)
  qed
qed simp

text \<open>What \<open>consume\<close> meets at NATS; None is an established connection, held until it closes.\<close>

record nats =
  N_Connect :: bool
  N_JetStream :: bool
  N_Consumer :: "string \<times> string \<Rightarrow> bool"

datatype consume_err = NatsUnreachable | NoJetStream | ConsumerRefused string | NothingToConsume

definition consume :: "nats \<Rightarrow> config \<Rightarrow> consume_err option" where
  "consume n c =
     (if \<not> N_Connect n then Some NatsUnreachable
      else if \<not> N_JetStream n then Some NoJetStream
      else case find_first (\<lambda>x. \<not> N_Consumer n x) (consumers c) of
        Some x \<Rightarrow> Some (ConsumerRefused (fst x))
      | None \<Rightarrow> if consumers c = [] then Some NothingToConsume else None)"

text \<open>The waits of \<open>Hint.Run\<close> after its failures, from the first one; a connection in between does not reset them.\<close>

fun backoffs :: "nat \<Rightarrow> duration \<Rightarrow> duration list" where
  "backoffs 0 b = []"
| "backoffs (Suc n) b = b # backoffs n (min (b * 2) (30 * second))"

definition hint_waits :: "config \<Rightarrow> nat \<Rightarrow> duration list" where
  "hint_waits c n = (if NATSURL c = [] then [] else backoffs n second)"

lemma backoffs_nth: "i < n \<Longrightarrow> 0 \<le> b \<Longrightarrow> b \<le> 30 * second \<Longrightarrow> backoffs n b ! i = min (2 ^ i * b) (30 * second)"
proof (induction n arbitrary: i b)
  case (Suc n)
  show ?case
  proof (cases i)
    case 0
    then show ?thesis using Suc.prems by simp
  next
    case (Suc j)
    have "0 \<le> min (b * 2) (30 * second) \<and> min (b * 2) (30 * second) \<le> 30 * second" using Suc.prems by (simp add: second_def)
    then have "backoffs n (min (b * 2) (30 * second)) ! j = min (2 ^ j * min (b * 2) (30 * second)) (30 * second)"
      using Suc.IH Suc.prems \<open>i = Suc j\<close> by simp
    also have "\<dots> = min (2 ^ Suc j * b) (30 * second)"
    proof (cases "b * 2 \<le> 30 * second")
      case False
      have "(1 :: int) \<le> 2 ^ j" by simp
      then have "30 * second \<le> 2 ^ j * (30 * second)" and "b * 2 \<le> 2 ^ j * (b * 2)"
        using mult_right_mono [of 1 "2 ^ j :: int"] Suc.prems(2) by (simp_all add: second_def)
      then show ?thesis using False by (simp add: min_def mult.commute mult.left_commute)
    qed (simp add: min_def mult.commute mult.left_commute)
    finally show ?thesis using Suc by simp
  qed
qed simp

section \<open>The command line (main.go)\<close>

text \<open>The commands after \<open>flag\<close> has parsed their arguments.\<close>

datatype cli_err = Usage | ConfigFailed file_err | NotConfigured "64 word" | StoreFailed | NodeUnreachable string | BackfillFailed ingest_err
  | FileMissing string | RulesetRefused parse_err | ServeFailed start_err

datatype command = CmdServe "string list" | CmdBackfill "string list" | CmdRulesetHash "string list"

definition command_of :: "string list \<Rightarrow> command option" where
  "command_of args = (case args of
     prog # cmd # rest \<Rightarrow>
       if cmd = ''serve'' then Some (CmdServe rest)
       else if cmd = ''backfill'' then Some (CmdBackfill rest)
       else if cmd = ''ruleset-hash'' then Some (CmdRulesetHash rest) else None
   | _ \<Rightarrow> None)"

definition exit_code :: "(cli_err, 'a) res option \<Rightarrow> nat" where
  "exit_code r = (case r of None \<Rightarrow> 2 | Some x \<Rightarrow> (case x of Inl _ \<Rightarrow> 1 | Inr _ \<Rightarrow> 0))"

definition serve_command :: "(nat \<Rightarrow> nat \<Rightarrow> nat \<Rightarrow> nat) \<Rightarrow> host \<Rightarrow> time \<Rightarrow> string \<Rightarrow> db \<times> raw_store \<Rightarrow> (cli_err, process) res \<times> db" where
  "serve_command fr h now path w = (case LoadConfig fr (H_Read h) path of
     Inl e \<Rightarrow> (Inl (ConfigFailed e), fst w)
   | Inr c \<Rightarrow> (case Run h now c w of (r, s) \<Rightarrow> (map_err ServeFailed r, s)))"

definition backfill_command :: "(nat \<Rightarrow> nat \<Rightarrow> nat \<Rightarrow> nat) \<Rightarrow> host \<Rightarrow> (string \<Rightarrow> eth_client) \<Rightarrow> string \<Rightarrow> 64 word \<Rightarrow> 64 word \<Rightarrow> db
    \<Rightarrow> (cli_err, 64 word \<times> db) res" where
  "backfill_command fr h nodes path chainID from' s =
     and_then (map_err ConfigFailed (LoadConfig fr (H_Read h) path)) (\<lambda>c. case Chain c chainID of
       None \<Rightarrow> Inl (NotConfigured chainID)
     | Some ch \<Rightarrow>
         if \<not> H_Open h (DatabaseURL c) then Inl StoreFailed
         else if \<not> H_Dial h (RPC ch) then Inl (NodeUnreachable (RPC ch))
         else map_err BackfillFailed (Backfill (nodes (RPC ch)) ch from' s))"

definition rulesetHash :: "(string \<Rightarrow> string option) \<Rightarrow> string list \<Rightarrow> (cli_err, string \<times> string) res" where
  "rulesetHash read args = (case args of
     [f] \<Rightarrow> (case read f of
       None \<Rightarrow> Inl (FileMissing f)
     | Some raw \<Rightarrow> (case Parse raw of Inl e \<Rightarrow> Inl (RulesetRefused e) | Inr (rs, canonical, h) \<Rightarrow> Inr (RVersion rs, h)))
   | _ \<Rightarrow> Inl Usage)"

text \<open>What the operator prints is what an import of the file records.\<close>

lemma printed_hash_is_recorded:
  assumes "rulesetHash read [f] = Inr (v, h)" and "read f = Some raw"
  shows "ImportRuleset raw s = Inr (out, s') \<Longrightarrow> out = (v, h)" and "rulesets s = [] \<Longrightarrow> is_ok (ImportRuleset raw s)"
  using assms
  by (auto simp: rulesetHash_def ImportRuleset_def res_simps ruleset_by_def split: sum.splits option.splits if_splits)

lemma backfill_command_step:
  "backfill_command fr h nodes path i from' s = Inr (until, s') \<Longrightarrow> pstep svc keccak b64 s s'"
  by (auto simp: backfill_command_def res_simps split: option.splits if_splits intro: pstep.backfill)

end
