(* ===== verification/HubContract.thy ===== *)
theory HubContract
  imports Hub
begin

text \<open>
  The whole processor contract: contracts/src/processor/ProcessorHub.sol around \<open>_execute\<close> (theory Hub), with
  its administration, the executors that may deliver reports, the deposit accounts (DepositAccount.sol) and the
  factory (ProcessorHubFactory.sol). A transaction has a sender, a block time and an operation; a revert is an
  error value and leaves the state. Decoded calldata, CREATE2 addresses and OpenZeppelin's Ownable are taken at
  their documented behaviour: the owner changes only by the owner's own call.

  The lemmas, for every sequence of transactions from anyone: the decisions executed for a payment go through the
  service's transition table; every account covers its reservations, which are the payments held there,
  and a signed release of one goes through; money leaves an account, and a payment
  changes, only by a report an executor delivered with the signature of someone permitted to decide so.
\<close>

section \<open>State and operations\<close>

record contract =
  Core :: hub
  Owner :: address
  Executors :: "address \<Rightarrow> bool"
  Deployed :: "address \<Rightarrow> bool"
  Self :: address

datatype contract_err = ZeroAddress | NotOwner | NotExecutor | NotHub | BadOwner | Refused hub_err

datatype operation =
    SetSigner address "8 word"
  | SetExecutor address bool
  | SetPool address
  | TransferOwnership address
  | RenounceOwnership
  | DeployAccount address
  | OnReport address decision string
  | Release address address int bool
  | Fund address address int

record transaction =
  Sender :: address
  At :: nat
  Call :: operation

definition no_address :: address where
  "no_address = replicate 20 (char_of (0 :: nat))"

definition no_payment :: hub_payment where
  "no_payment = \<lparr> HPayer = no_address, HNonce = 0, HStatus = NoStatus, HToken = no_address, HAmount = 0, HPackHash = zero_hash, HLock = zero_hash \<rparr>"

text \<open>The constructor: Ownable refuses the zero owner, \<open>_setPool\<close> the zero pool. The balances are what the tokens say.\<close>

definition new_hub :: "address \<Rightarrow> address \<Rightarrow> address \<Rightarrow> (address \<Rightarrow> address \<Rightarrow> int) \<Rightarrow> (contract_err, contract) res" where
  "new_hub self owner pl bal =
     (if owner = no_address then Inl BadOwner
      else if pl = no_address then Inl ZeroAddress
      else Inr \<lparr> Core = \<lparr> pool = pl, signerMask = (\<lambda>_. 0), payments = (\<lambda>_. no_payment), reserved = (\<lambda>_ _. 0), balances = bal \<rparr>,
        Owner = owner, Executors = (\<lambda>_. False), Deployed = (\<lambda>_. False), Self = self \<rparr>)"

text \<open>\<open>ProcessorHubFactory.deploy\<close>: anyone may deploy a hub; the factory only remembers its address.\<close>

definition deploy_hub :: "address \<Rightarrow> address \<Rightarrow> address \<Rightarrow> (address \<Rightarrow> address \<Rightarrow> int) \<Rightarrow> (address \<Rightarrow> bool) \<Rightarrow> (contract_err, contract \<times> (address \<Rightarrow> bool)) res" where
  "deploy_hub hub owner pl bal isHub = map_res (\<lambda>c. (c, isHub(hub := True))) (new_hub hub owner pl bal)"

definition setSigner :: "address \<Rightarrow> 8 word \<Rightarrow> contract \<Rightarrow> (contract_err, contract) res" where
  "setSigner signer m c = (if signer = no_address then Inl ZeroAddress
     else Inr (c\<lparr>Core := (Core c)\<lparr>signerMask := (signerMask (Core c))(signer := m)\<rparr>\<rparr>))"

definition setExecutor :: "address \<Rightarrow> bool \<Rightarrow> contract \<Rightarrow> (contract_err, contract) res" where
  "setExecutor e allowed c = (if e = no_address then Inl ZeroAddress else Inr (c\<lparr>Executors := (Executors c)(e := allowed)\<rparr>))"

definition setPool :: "address \<Rightarrow> contract \<Rightarrow> (contract_err, contract) res" where
  "setPool pl c = (if pl = no_address then Inl ZeroAddress else Inr (c\<lparr>Core := (Core c)\<lparr>pool := pl\<rparr>\<rparr>))"

definition deployAccount :: "hub_env \<Rightarrow> address \<Rightarrow> contract \<Rightarrow> contract" where
  "deployAccount env payer c = c\<lparr>Deployed := (Deployed c)(accountOf env payer := True)\<rparr>"

definition onReport :: "hub_env \<Rightarrow> nat \<Rightarrow> address \<Rightarrow> address \<Rightarrow> decision \<Rightarrow> string \<Rightarrow> contract \<Rightarrow> (contract_err, contract) res" where
  "onReport env now sender payer d sig c =
     (if \<not> Executors c sender then Inl NotExecutor
      else case execute env now (Core c) payer d sig of
        Inl e \<Rightarrow> Inl (Refused e)
      | Inr h \<Rightarrow> Inr ((deployAccount env payer c)\<lparr>Core := h\<rparr>))"

text \<open>\<open>DepositAccount.release\<close> called from outside; the hub's own calls are part of \<open>execute\<close>.\<close>

definition release_call :: "hub_env \<Rightarrow> address \<Rightarrow> address \<Rightarrow> address \<Rightarrow> int \<Rightarrow> bool \<Rightarrow> contract \<Rightarrow> (contract_err, contract) res" where
  "release_call env sender payer tok n toPool c =
     (if sender \<noteq> Self c then Inl NotHub
      else case release (Core c) (accountOf env payer) (if toPool then pool (Core c) else payer) tok n of
        Inl e \<Rightarrow> Inl (Refused e) | Inr h \<Rightarrow> Inr (c\<lparr>Core := h\<rparr>))"

definition only_owner :: "address \<Rightarrow> (contract \<Rightarrow> (contract_err, contract) res) \<Rightarrow> contract \<Rightarrow> (contract_err, contract) res" where
  "only_owner sender f c = (if sender = Owner c then f c else Inl NotOwner)"

text \<open>\<open>Fund\<close> is a plain token transfer to any address, from a holder outside the system: the balance it is taken
  from is none the hub, its accounts or its pool depend on, and is not tracked.\<close>

definition transact :: "hub_env \<Rightarrow> transaction \<Rightarrow> contract \<Rightarrow> (contract_err, contract) res" where
  "transact env t c = (case Call t of
     SetSigner a m \<Rightarrow> only_owner (Sender t) (setSigner a m) c
   | SetExecutor a b \<Rightarrow> only_owner (Sender t) (setExecutor a b) c
   | SetPool a \<Rightarrow> only_owner (Sender t) (setPool a) c
   | TransferOwnership a \<Rightarrow> only_owner (Sender t) (\<lambda>c. if a = no_address then Inl BadOwner else Inr (c\<lparr>Owner := a\<rparr>)) c
   | RenounceOwnership \<Rightarrow> only_owner (Sender t) (\<lambda>c. Inr (c\<lparr>Owner := no_address\<rparr>)) c
   | DeployAccount payer \<Rightarrow> Inr (deployAccount env payer c)
   | OnReport payer d sig \<Rightarrow> onReport env (At t) (Sender t) payer d sig c
   | Release payer tok n toPool \<Rightarrow> release_call env (Sender t) payer tok n toPool c
   | Fund tok a n \<Rightarrow> Inr (c\<lparr>Core := (Core c)\<lparr>balances := upd2 (balances (Core c)) tok a (balances (Core c) tok a + n)\<rparr>\<rparr>))"

text \<open>What a chain guarantees of a transaction: amounts are unsigned, and the contract sends none itself.\<close>

definition sendable :: "contract \<Rightarrow> transaction \<Rightarrow> bool" where
  "sendable c t \<longleftrightarrow> Sender t \<noteq> Self c
     \<and> (case Call t of OnReport payer d sig \<Rightarrow> 0 \<le> Amount d | Fund tok a n \<Rightarrow> 0 \<le> n | _ \<Rightarrow> True)"

text \<open>A block of transactions: the ones that do not revert, with the state each met, and the final state.\<close>

fun transactions :: "hub_env \<Rightarrow> transaction list \<Rightarrow> contract \<Rightarrow> (contract \<times> transaction) list \<times> contract" where
  "transactions env [] c = ([], c)"
| "transactions env (t # ts) c = (case transact env t c of
     Inl e \<Rightarrow> transactions env ts c
   | Inr c1 \<Rightarrow> (let (done', c2) = transactions env ts c1 in ((c, t) # done', c2)))"

section \<open>What one transaction can do\<close>

definition decided :: "hub_env \<Rightarrow> contract \<Rightarrow> transaction \<Rightarrow> address \<Rightarrow> decision \<Rightarrow> bool" where
  "decided env c t payer d \<longleftrightarrow> Executors c (Sender t) \<and> At t \<le> unat (Deadline d)
     \<and> (\<exists>sig signer. Call t = OnReport payer d sig \<and> ec_recover env (decisionDigest env (accountOf env payer) d) sig = Some signer
          \<and> Permits (signerMask (Core c) signer) (DecisionKind d))"

lemma execute_signed:
  assumes "execute env now st payer d sig = Inr st'"
  shows "now \<le> unat (Deadline d) \<and> (\<exists>signer. ec_recover env (decisionDigest env (accountOf env payer) d) sig = Some signer
    \<and> Permits (signerMask st signer) (DecisionKind d))"
  using assms unfolding execute_def Let_def by (auto simp: not_less split: if_splits option.splits)

lemma execute_frame:
  "execute env now st payer d sig = Inr st' \<Longrightarrow> signerMask st' = signerMask st \<and> pool st' = pool st"
  unfolding execute_def Let_def by (auto simp: res_simps release_def Let_def split: if_splits option.splits)

lemma transact_core:
  assumes "transact env t c = Inr c'" and "Sender t \<noteq> Self c"
  obtains (report) payer d sig where "Call t = OnReport payer d sig" and "Executors c (Sender t)"
      and "execute env (At t) (Core c) payer d sig = Inr (Core c')"
    | (fund) tok a n where "Call t = Fund tok a n" and "Core c' = (Core c)\<lparr>balances := upd2 (balances (Core c)) tok a (balances (Core c) tok a + n)\<rparr>"
    | (admin) "hub.payments (Core c') = hub.payments (Core c)" and "reserved (Core c') = reserved (Core c)" and "balances (Core c') = balances (Core c)"
      and "\<forall>payer d sig. Call t \<noteq> OnReport payer d sig"
  using assms
  by (cases "Call t")
    (auto simp: transact_def only_owner_def setSigner_def setExecutor_def setPool_def deployAccount_def onReport_def release_call_def
      split: if_splits sum.splits)

lemma transact_self: "transact env t c = Inr c' \<Longrightarrow> Self c' = Self c"
  by (auto simp: transact_def only_owner_def setSigner_def setExecutor_def setPool_def deployAccount_def onReport_def release_call_def
      split: operation.splits if_splits sum.splits)

section \<open>Sequences of transactions\<close>

definition kinds_of :: "hash \<Rightarrow> contract \<times> transaction \<Rightarrow> kind list" where
  "kinds_of i x = (case Call (snd x) of OnReport payer d sig \<Rightarrow> if PaymentID d = i then [DecisionKind d] else [] | _ \<Rightarrow> [])"

lemma transact_kinds:
  assumes "\<And>h n. lockCommitment env h n \<noteq> zero_hash" and "transact env t c = Inr c'" and "Sender t \<noteq> Self c"
  shows "run next_opt (hub_state (hub.payments (Core c) i)) (kinds_of i (c, t)) = Some (hub_state (hub.payments (Core c') i))"
  using assms(2,3)
proof (cases rule: transact_core)
  case (report payer d sig)
  show ?thesis
  proof (cases "PaymentID d = i")
    case True
    then have "Next (hub_state (hub.payments (Core c) i)) (DecisionKind d) = Inr (hub_state (hub.payments (Core c') i))"
      using execute_Next [OF report(3) assms(1)] by simp
    then show ?thesis using True report(1) by (simp add: kinds_of_def next_opt_def)
  next
    case False
    then show ?thesis using report execute_other [OF report(3)] by (simp add: kinds_of_def)
  qed
qed (auto simp: kinds_of_def split: operation.splits)

lemma transactions_kinds:
  assumes "\<And>h n. lockCommitment env h n \<noteq> zero_hash" and "transactions env ts c = (done', c')" and "\<forall>t\<in>set ts. sendable c t"
  shows "run next_opt (hub_state (hub.payments (Core c) i)) (concat (map (kinds_of i) done')) = Some (hub_state (hub.payments (Core c') i))"
  using assms(2,3)
proof (induction ts arbitrary: c done')
  case (Cons t ts)
  show ?case
  proof (cases "transact env t c")
    case (Inl e)
    then show ?thesis using Cons by simp
  next
    case (Inr c1)
    obtain d1 where d1: "transactions env ts c1 = (d1, c')" "done' = (c, t) # d1"
      using Cons.prems(1) Inr by (auto simp: Let_def split: prod.splits)
    have s: "\<forall>t\<in>set ts. sendable c1 t" using Cons.prems(2) transact_self [OF Inr] by (simp add: sendable_def)
    have "Sender t \<noteq> Self c" using Cons.prems(2) by (simp add: sendable_def)
    from transact_kinds [OF assms(1) Inr this] Cons.IH [OF d1(1) s] show ?thesis by (simp add: d1(2) go.run_append)
  qed
qed simp

lemma transact_solvent:
  assumes "transact env t c = Inr c'" and "sendable c t" and "solvent (Core c)"
  shows "solvent (Core c')"
proof -
  have "Sender t \<noteq> Self c" using assms(2) by (simp add: sendable_def)
  from assms(1) this show ?thesis
  proof (cases rule: transact_core)
    case (report payer d sig)
    then show ?thesis using assms(2,3) execute_solvent by (auto simp: sendable_def)
  next
    case (fund tok a n)
    then have "0 \<le> n" using assms(2) by (simp add: sendable_def)
    then show ?thesis using assms(3) unfolding fund(2) solvent_def upd2_def by (auto simp: add_increasing2)
  qed (use assms(3) in \<open>simp add: solvent_def\<close>)
qed

lemma transactions_solvent:
  "transactions env ts c = (done', c') \<Longrightarrow> \<forall>t\<in>set ts. sendable c t \<Longrightarrow> solvent (Core c) \<Longrightarrow> solvent (Core c')"
proof (induction ts arbitrary: c done')
  case (Cons t ts)
  show ?case
  proof (cases "transact env t c")
    case (Inr c1)
    then obtain d1 where "transactions env ts c1 = (d1, c')" using Cons.prems(1) by (auto simp: Let_def split: prod.splits)
    moreover have "\<forall>t\<in>set ts. sendable c1 t" using Cons.prems(2) transact_self [OF Inr] by (simp add: sendable_def)
    moreover have "solvent (Core c1)" using transact_solvent [OF Inr] Cons.prems by simp
    ultimately show ?thesis using Cons.IH by blast
  qed (use Cons in simp)
qed simp

lemma transact_backed:
  assumes "transact env t c = Inr c'" and "sendable c t" and "backed env (Core c)"
  shows "backed env (Core c')"
proof -
  have "Sender t \<noteq> Self c" using assms(2) by (simp add: sendable_def)
  from assms(1) this show ?thesis
  proof (cases rule: transact_core)
    case (report payer d sig)
    then show ?thesis using assms(2,3) execute_backed by (auto simp: sendable_def)
  qed (use assms(3) in \<open>simp_all add: backed_def\<close>)
qed

lemma transactions_backed:
  "transactions env ts c = (done', c') \<Longrightarrow> \<forall>t\<in>set ts. sendable c t \<Longrightarrow> backed env (Core c) \<Longrightarrow> backed env (Core c')"
proof (induction ts arbitrary: c done')
  case (Cons t ts)
  show ?case
  proof (cases "transact env t c")
    case (Inr c1)
    then obtain d1 where "transactions env ts c1 = (d1, c')" using Cons.prems(1) by (auto simp: Let_def split: prod.splits)
    moreover have "\<forall>t\<in>set ts. sendable c1 t" using Cons.prems(2) transact_self [OF Inr] by (simp add: sendable_def)
    moreover have "backed env (Core c1)" using transact_backed [OF Inr] Cons.prems by simp
    ultimately show ?thesis using Cons.IH by blast
  qed (use Cons in simp)
qed simp

text \<open>The report that would release a held payment, delivered by an executor.\<close>

definition release_report :: "hub_env \<Rightarrow> contract \<Rightarrow> transaction \<Rightarrow> decision \<Rightarrow> bool" where
  "release_report env c t d \<longleftrightarrow> Executors c (Sender t) \<and> (case Call t of
     OnReport payer d' sig \<Rightarrow> d' = d \<and> payer = HPayer (hub.payments (Core c) (PaymentID d)) \<and> releasable env (At t) (Core c) d sig
   | _ \<Rightarrow> False)"

definition released :: "hub_env \<Rightarrow> contract \<Rightarrow> contract \<Rightarrow> decision \<Rightarrow> bool" where
  "released env c c' d \<longleftrightarrow> (let payer = HPayer (hub.payments (Core c) (PaymentID d)); a = accountOf env payer; tok = DToken d;
       dest = (if DecisionKind d = Credit then pool (Core c) else payer) in
     HStatus (hub.payments (Core c') (PaymentID d)) = (if DecisionKind d = Credit then Credited else Returned)
     \<and> reserved (Core c') a tok = reserved (Core c) a tok - Amount d
     \<and> (dest \<noteq> a \<longrightarrow> balances (Core c') tok a = balances (Core c) tok a - Amount d
          \<and> balances (Core c') tok dest = balances (Core c) tok dest + Amount d))"

lemma release_report_executes:
  assumes "backed env (Core c)" and "solvent (Core c)" and "release_report env c t d"
  shows "\<exists>c'. transact env t c = Inr c' \<and> released env c c' d"
proof -
  let ?payer = "HPayer (hub.payments (Core c) (PaymentID d))"
  obtain sig where t: "Executors c (Sender t)" "Call t = OnReport ?payer d sig" and r: "releasable env (At t) (Core c) d sig"
    using assms(3) by (auto simp: release_report_def split: operation.splits)
  obtain h where h: "execute env (At t) (Core c) ?payer d sig = Inr h"
    "released env c ((deployAccount env ?payer c)\<lparr>Core := h\<rparr>) d"
    using held_can_be_released [OF assms(1,2) r] r kinds_distinct by (auto simp: released_def releasable_def Let_def status_of_def)
  then show ?thesis using t by (auto simp: transact_def onReport_def)
qed

lemma new_hub_parts:
  assumes "new_hub self owner pl bal = Inr c"
  shows "hub_state (hub.payments (Core c) i) = initial" and "(\<forall>t a. 0 \<le> bal t a) \<Longrightarrow> solvent (Core c)"
    and "backed env (Core c)"
  using assms
  by (auto simp: new_hub_def no_payment_def hub_state_def initial_def solvent_def backed_def held_ids_def held_sum_def split: if_splits)

section \<open>Properties\<close>

text \<open>C10 The processor contract executes only histories the service could have decided. From the deployment of a
  hub on, whatever transactions arrive from anyone in any order (administration, reports, deposits), the
  decisions executed for a payment form a legal history: the contract's state of the payment is the one the
  service's transition table gives for them, so the money is released at most once and last, and never held
  plainly or returned after a freeze.\<close>

theorem contract_refines_service:
  assumes "\<And>h n. lockCommitment env h n \<noteq> zero_hash" and "new_hub self owner pl bal = Inr c"
    and "transactions env ts c = (executed', c')" and "\<forall>t\<in>set ts. sendable c t"
  shows "run next_opt initial (concat (map (kinds_of i) executed')) = Some (hub_state (hub.payments (Core c') i))
    \<and> legal_history False (concat (map (kinds_of i) executed'))"
proof -
  have r: "run next_opt initial (concat (map (kinds_of i) executed')) = Some (hub_state (hub.payments (Core c') i))"
    using transactions_kinds [OF assms(1,3,4)] new_hub_parts(1) [OF assms(2), of i] by metis
  from go.run_legal [OF this] have "legal_history False (concat (map (kinds_of i) executed'))" by (simp add: initial_def)
  with r show ?thesis by blast
qed

text \<open>C12 The contract stays solvent and a held payment can be released. From the deployment of a hub on, after any
  transactions: what is reserved of a token in a deposit account is exactly the sum of the payments held there
  and never more than the account's balance; and for a held payment, a report an executor delivers with a
  decision to credit it (or to return it, while it is not frozen) that names the recorded token and amount,
  with a newer nonce, in time and signed by someone permitted to decide so, is executed: the payment is
  credited or returned, its reservation goes, and its amount moves to the pool or to the payer.\<close>

theorem contract_stays_solvent:
  assumes "new_hub self owner pl bal = Inr c" and "\<forall>t a. 0 \<le> bal t a"
    and "transactions env ts c = (executed', c')" and "\<forall>t\<in>set ts. sendable c t"
  shows "solvent (Core c')
    \<and> (\<forall>a tok. reserved (Core c') a tok = held_sum env (hub.payments (Core c')) a tok)
    \<and> (\<forall>t d. release_report env c' t d \<longrightarrow> (\<exists>c''. transact env t c' = Inr c'' \<and> released env c' c'' d))"
proof -
  have s: "solvent (Core c')" by (rule transactions_solvent [OF assms(3,4) new_hub_parts(2) [OF assms(1,2)]])
  have b: "backed env (Core c')" by (rule transactions_backed [OF assms(3,4) new_hub_parts(3) [OF assms(1)]])
  then show ?thesis using s release_report_executes by (simp add: backed_def)
qed

text \<open>C11 Money leaves a deposit account only by a signed decision. When a transaction lowers any address's balance of
  any token, it is a report delivered by an executor within the deadline, carrying a decision to credit or return
  whose signature recovers to someone permitted to decide so; the address is the payer's deposit account, and exactly the
  decided amount goes to the pool (a credit) or back to the payer (a return).\<close>

theorem money_leaves_on_signature:
  assumes "transact env t c = Inr c'" and "sendable c t" and "balances (Core c') tok a < balances (Core c) tok a"
  shows "\<exists>payer d. decided env c t payer d \<and> (DecisionKind d = Credit \<or> DecisionKind d = Return)
    \<and> a = accountOf env payer \<and> tok = DToken d
    \<and> balances (Core c') tok a = balances (Core c) tok a - Amount d
    \<and> (let dest = (if DecisionKind d = Credit then pool (Core c) else payer)
       in balances (Core c') tok dest = balances (Core c) tok dest + Amount d)"
proof -
  have "Sender t \<noteq> Self c" using assms(2) by (simp add: sendable_def)
  from assms(1) this show ?thesis
  proof (cases rule: transact_core)
    case (report payer d sig)
    have amount: "0 \<le> Amount d" using assms(2) report(1) by (simp add: sendable_def)
    let ?acc = "accountOf env payer" and ?dest = "if DecisionKind d = Credit then pool (Core c) else payer"
    note m = execute_money [OF report(3)]
    have k: "\<not> (DecisionKind d = Hold \<or> DecisionKind d = Freeze)" using m(1) assms(3) by auto
    have b: "balances (Core c') tok x = balances (Core c) tok x
        - (if tok = DToken d \<and> x = ?acc then Amount d else 0) + (if tok = DToken d \<and> x = ?dest then Amount d else 0)" for x
      using m(3) [OF k] by (auto simp: Let_def upd2_def)
    have a: "tok = DToken d" "a = ?acc" "?dest \<noteq> ?acc"
      using assms(3) amount unfolding b [of a] by (auto split: if_splits)
    have "decided env c t payer d" using execute_signed [OF report(3)] report(1,2) by (auto simp: decided_def)
    then show ?thesis using b [of a] b [of ?dest] a m(2) [OF k] by (intro exI [of _ payer] exI [of _ d]) (simp add: Let_def)
  next
    case (fund tok' a' n)
    then show ?thesis using assms(2,3) by (auto simp: sendable_def upd2_def split: if_splits)
  qed (use assms(3) in simp)
qed

definition sample_contract :: contract where
  "sample_contract = \<lparr> Core = \<lparr> pool = ''pool'', signerMask = (\<lambda>_. 0), payments = (\<lambda>_. no_payment), reserved = (\<lambda>_ _. 0), balances = (\<lambda>_ _. 0) \<rparr>,
     Owner = ''owner'', Executors = (\<lambda>_. False), Deployed = (\<lambda>_. False), Self = ''hub'' \<rparr>"

definition sample_transaction :: "address \<Rightarrow> operation \<Rightarrow> transaction" where
  "sample_transaction a op = \<lparr> Sender = a, At = 5, Call = op \<rparr>"

definition sample_credit :: decision where
  "sample_credit = \<lparr> PaymentID = ''p'', DecisionKind = Credit, DToken = ''t'', Amount = 5, DPackHash = ''h'', Nonce = 1, Deadline = 9 \<rparr>"

text \<open>The owner appoints a signer and an executor, the payer funds the account, the executor delivers.\<close>

definition sample_setup :: "transaction list" where
  "sample_setup = [sample_transaction ''owner'' (SetSigner ''officer'' 15), sample_transaction ''owner'' (SetExecutor ''exec'' True),
     sample_transaction ''payer'' (Fund ''t'' ''acc'' 7)]"

definition sample_report :: transaction where
  "sample_report = sample_transaction ''exec'' (OnReport ''payer'' sample_credit ''sig'')"

definition sample_funded :: contract where
  "sample_funded = sample_contract\<lparr>Core := (Core sample_contract)\<lparr>signerMask := (\<lambda>_. 0)(''officer'' := 15),
     balances := upd2 (\<lambda>_ _. 0) ''t'' ''acc'' 7\<rparr>, Executors := (\<lambda>_. False)(''exec'' := True)\<rparr>"

lemma addresses: "''owner'' \<noteq> no_address" "''officer'' \<noteq> no_address" "''exec'' \<noteq> no_address" "''pool'' \<noteq> no_address"
  by (simp_all add: no_address_def numeral_eq_Suc)

lemma sample_new: "new_hub ''hub'' ''owner'' ''pool'' (\<lambda>_ _. 0) = Inr sample_contract"
  by (simp add: new_hub_def addresses sample_contract_def)

lemma sample_setup_runs: "\<exists>xs. transactions sample_hub_env sample_setup sample_contract = (xs, sample_funded) \<and> concat (map (kinds_of ''p'') xs) = []"
  by (simp add: sample_setup_def sample_transaction_def transact_def only_owner_def setSigner_def setExecutor_def addresses sample_contract_def
      sample_funded_def kinds_of_def)

lemma sample_sendable: "\<forall>t\<in>set (sample_setup @ [sample_report]). sendable sample_contract t" "sendable sample_funded sample_report"
  by (simp_all add: sample_setup_def sample_report_def sample_transaction_def sendable_def sample_contract_def sample_funded_def sample_credit_def)

lemma sample_delivery: "\<exists>c'. transact sample_hub_env sample_report sample_funded = Inr c'
    \<and> balances (Core c') ''t'' ''acc'' = 2 \<and> balances (Core c') ''t'' ''pool'' = 5"
proof -
  have k: "is_kind Credit" "Permits 15 Credit" by (simp add: is_kind_def) code_simp
  show ?thesis using k kinds_distinct
    by (simp add: sample_report_def sample_transaction_def transact_def onReport_def sample_funded_def sample_contract_def execute_def
        sample_hub_env_def sample_credit_def admit_def Let_def no_payment_def release_def upd2_def deployAccount_def)
qed

lemma sample_run: "\<exists>xs c'. transactions sample_hub_env (sample_setup @ [sample_report]) sample_contract = (xs, c')
    \<and> concat (map (kinds_of ''p'') xs) = [Credit]"
proof -
  obtain c' where c': "transact sample_hub_env sample_report sample_funded = Inr c'" using sample_delivery by blast
  have app: "transactions env (ts @ us) c = (let (xs, c1) = transactions env ts c; (ys, c2) = transactions env us c1 in (xs @ ys, c2))"
    for env ts us c by (induction ts arbitrary: c) (auto simp: Let_def split: sum.splits prod.splits)
  obtain xs where xs: "transactions sample_hub_env sample_setup sample_contract = (xs, sample_funded)" "concat (map (kinds_of ''p'') xs) = []"
    using sample_setup_runs by blast
  have "kinds_of ''p'' (sample_funded, sample_report) = [Credit]"
    by (simp add: kinds_of_def sample_report_def sample_transaction_def sample_credit_def)
  then show ?thesis using xs c' by (intro exI [of _ "xs @ [(sample_funded, sample_report)]"] exI [of _ c']) (simp add: app)
qed

theorem contract_refines_service_witness:
  "\<exists>xs c'. transactions sample_hub_env (sample_setup @ [sample_report]) sample_contract = (xs, c')
     \<and> run next_opt initial [Credit] = Some (hub_state (hub.payments (Core c') ''p''))"
proof -
  obtain xs c' where x: "transactions sample_hub_env (sample_setup @ [sample_report]) sample_contract = (xs, c')"
      "concat (map (kinds_of ''p'') xs) = [Credit]"
    using sample_run by blast
  have "lockCommitment sample_hub_env h n \<noteq> zero_hash" for h n by (simp add: sample_hub_env_def zero_hash_def numeral_eq_Suc)
  from contract_refines_service [OF this sample_new x(1) sample_sendable(1), of "''p''"] x show ?thesis by auto
qed

definition sample_hold :: transaction where
  "sample_hold = sample_transaction ''exec'' (OnReport ''payer'' (sample_credit\<lparr>DecisionKind := Hold\<rparr>) ''sig'')"

definition sample_later :: decision where
  "sample_later = sample_credit\<lparr>Nonce := 2\<rparr>"

lemma sample_held:
  "\<exists>xs c'. transactions sample_hub_env (sample_setup @ [sample_hold]) sample_contract = (xs, c')
     \<and> release_report sample_hub_env c' (sample_transaction ''exec'' (OnReport ''payer'' sample_later ''sig'')) sample_later
     \<and> reserved (Core c') ''acc'' ''t'' = 5"
proof -
  have k: "is_kind Hold" "Permits 15 Hold" "Permits 15 Credit" by (simp add: is_kind_def) code_simp+
  show ?thesis using k kinds_distinct
    by (simp add: sample_setup_def sample_hold_def sample_later_def sample_transaction_def transact_def only_owner_def setSigner_def
        setExecutor_def addresses sample_contract_def onReport_def execute_def sample_hub_env_def sample_credit_def admit_def Let_def
        no_payment_def upd2_def deployAccount_def release_report_def releasable_def)
qed

theorem contract_stays_solvent_witness:
  "\<exists>xs c' c''. transactions sample_hub_env (sample_setup @ [sample_hold]) sample_contract = (xs, c')
     \<and> held_sum sample_hub_env (hub.payments (Core c')) ''acc'' ''t'' = 5
     \<and> transact sample_hub_env (sample_transaction ''exec'' (OnReport ''payer'' sample_later ''sig'')) c' = Inr c''
     \<and> released sample_hub_env c' c'' sample_later"
proof -
  obtain xs c' where x: "transactions sample_hub_env (sample_setup @ [sample_hold]) sample_contract = (xs, c')"
    and r: "release_report sample_hub_env c' (sample_transaction ''exec'' (OnReport ''payer'' sample_later ''sig'')) sample_later"
      "reserved (Core c') ''acc'' ''t'' = 5"
    using sample_held by blast
  have z: "\<forall>t a. (0 :: int) \<le> 0" by simp
  have "\<forall>t\<in>set (sample_setup @ [sample_hold]). sendable sample_contract t"
    by (simp add: sample_setup_def sample_hold_def sample_transaction_def sendable_def sample_contract_def sample_credit_def)
  from contract_stays_solvent [OF sample_new z x this] show ?thesis using x r by metis
qed

theorem money_leaves_on_signature_witness:
  "\<exists>payer d. decided sample_hub_env sample_funded sample_report payer d \<and> accountOf sample_hub_env payer = ''acc'' \<and> DToken d = ''t''"
proof -
  obtain c' where c': "transact sample_hub_env sample_report sample_funded = Inr c'" "balances (Core c') ''t'' ''acc'' = 2"
    using sample_delivery by blast
  have "balances (Core c') ''t'' ''acc'' < balances (Core sample_funded) ''t'' ''acc''"
    using c'(2) by (simp add: sample_funded_def upd2_def sample_contract_def)
  from money_leaves_on_signature [OF c'(1) sample_sendable(2) this] show ?thesis by metis
qed

end
