(* ===== verification/Tee.thy ===== *)
theory Tee
  imports Decide
begin

text \<open>
  What the attestor workflow talks to from its enclave (attestor-workflow/internal: creteehttp, sessionid,
  nullifier, sumsubapi, queue, domain). A request of \<open>net/http\<close> is a record of its method, URL, body
  and headers; the capability that sends it is a parameter and its failure an error text. Go's
  \<open>crypto/hmac\<close> is defined over the SHA-256 of this development, and \<open>json.Marshal\<close> of a
  struct of strings writes its bytes. The checksummed hex form of an address, keccak and the URL check of
  \<open>net/url\<close> are fields of \<open>enclave\<close>.

  The session id does not depend on the case of its arguments (\<open>SessionUserID_lower\<close>); what the
  workflow makes of the answers is in theory Attestor.
\<close>

section \<open>HMAC (crypto/hmac with SHA-256)\<close>

definition xor_pad :: "nat \<Rightarrow> string \<Rightarrow> string" where
  "xor_pad b k = map (\<lambda>c. char_of (xor (of_char c) b)) k"

definition hmac :: "string \<Rightarrow> string \<Rightarrow> string" where
  "hmac key m = (let k0 = (if 64 < length key then sha256 key else key); k = k0 @ replicate (64 - length k0) (char_of (0 :: nat))
     in sha256 (xor_pad 92 k @ sha256 (xor_pad 54 k @ m)))"

section \<open>The enclave and its HTTP client (creteehttp)\<close>

record enclave =
  En_Keccak :: "string \<Rightarrow> string"
  En_Hex :: "address \<Rightarrow> string"
  En_ValidURL :: "string \<Rightarrow> bool"

record http_request =
  HQ_Method :: string
  HQ_URL :: string
  HQ_Body :: string
  HQ_Headers :: "(string, string) gomap"

record tee_request =
  TQ_Url :: string
  TQ_Method :: string
  TQ_Body :: string
  TQ_MultiHeaders :: "(string, string list) gomap"

record tee_response =
  TS_StatusCode :: "32 word"
  TS_MultiHeaders :: "(string, string list) gomap"
  TS_Body :: string

record http_response =
  HS_StatusCode :: nat
  HS_Header :: "(string, string list) gomap"
  HS_Body :: string

type_synonym send = "tee_request \<Rightarrow> (string, tee_response) res"

datatype tee_err = BadURL string | SendFailed string | UnexpectedStatus nat | BadJSON

definition NewRequest :: "enclave \<Rightarrow> string \<Rightarrow> string \<Rightarrow> string \<Rightarrow> (string, string) gomap \<Rightarrow> (tee_err, http_request) res" where
  "NewRequest en mth url body hs = (if En_ValidURL en url
     then Inr \<lparr> HQ_Method = mth, HQ_URL = url, HQ_Body = body, HQ_Headers = hs \<rparr> else Inl (BadURL url))"

definition tee_request_of :: "http_request \<Rightarrow> tee_request" where
  "tee_request_of q = \<lparr> TQ_Url = HQ_URL q, TQ_Method = HQ_Method q, TQ_Body = HQ_Body q,
     TQ_MultiHeaders = map (\<lambda>(k, v). (k, [v])) (HQ_Headers q) \<rparr>"

definition http_response_of :: "tee_response \<Rightarrow> http_response" where
  "http_response_of r = \<lparr> HS_StatusCode = unat (TS_StatusCode r), HS_Header = TS_MultiHeaders r, HS_Body = TS_Body r \<rparr>"

definition Doer_Do :: "send \<Rightarrow> http_request \<Rightarrow> (tee_err, http_response) res" where
  "Doer_Do snd' q = map_res http_response_of (map_err SendFailed (snd' (tee_request_of q)))"

section \<open>Session ids and nullifiers\<close>

definition SessionUserID :: "string \<Rightarrow> string \<Rightarrow> string \<Rightarrow> string" where
  "SessionUserID secret gate wallet = ''cg-'' @ hex_encode (hmac secret (to_lower gate @ to_lower wallet))"

definition Derive :: "enclave \<Rightarrow> string \<Rightarrow> address \<Rightarrow> hash" where
  "Derive en docID gate = En_Keccak en (docID @ gate)"

definition DeriveFromDoc :: "enclave \<Rightarrow> string \<Rightarrow> string \<Rightarrow> string \<Rightarrow> address \<Rightarrow> hash" where
  "DeriveFromDoc en secret docNumber docCountry gate = hmac secret (docNumber @ docCountry @ to_lower (En_Hex en gate))"

text \<open>The relay's \<open>sessionUserId\<close> (relay/src/lib/sessionUserId.ts), for ASCII arguments, where
  JavaScript's strings are their bytes.\<close>

definition sessionUserId :: "string \<Rightarrow> string \<Rightarrow> string \<Rightarrow> string" where
  "sessionUserId secret gate wallet =
     (let message = to_lower gate @ to_lower wallet; digest = hex_encode (hmac secret message) in ''cg-'' @ digest)"

lemma SessionUserID_lower [simp]: "SessionUserID secret (to_lower g) (to_lower w) = SessionUserID secret g w"
  by (simp add: SessionUserID_def)

section \<open>The Sumsub client (sumsubapi)\<close>

record sumsub_client =
  SC_BaseURL :: string
  SC_AppToken :: string
  SC_SecretKey :: string

definition sumsub_headers :: "sumsub_client \<Rightarrow> time \<Rightarrow> string \<Rightarrow> string \<Rightarrow> string \<Rightarrow> (string, string) gomap" where
  "sumsub_headers c now mth path body = (let ts = int_dec (unix_sec now);
       sig = hex_encode (hmac (SC_SecretKey c) (ts @ mth @ path @ body))
     in [(''X-App-Token'', SC_AppToken c), (''X-App-Access-Sig'', sig), (''X-App-Access-Ts'', ts)]
        @ (if 0 < length body then [(''Content-Type'', ''application/json'')] else []))"

definition Client_Do :: "enclave \<Rightarrow> send \<Rightarrow> time \<Rightarrow> sumsub_client \<Rightarrow> string \<Rightarrow> string \<Rightarrow> string \<Rightarrow> (tee_err, http_response) res" where
  "Client_Do en snd' now c mth path body =
     and_then (NewRequest en mth (SC_BaseURL c @ path) body (sumsub_headers c now mth path body)) (Doer_Do snd')"

definition DoJSONOK :: "enclave \<Rightarrow> send \<Rightarrow> time \<Rightarrow> sumsub_client \<Rightarrow> string \<Rightarrow> string \<Rightarrow> string \<Rightarrow> (tee_err, http_response) res" where
  "DoJSONOK en snd' now c mth path body = and_then (Client_Do en snd' now c mth path body) (\<lambda>resp.
     if HS_StatusCode resp \<noteq> 200 then Inl (UnexpectedStatus (HS_StatusCode resp)) else Inr resp)"

section \<open>Decoding structs\<close>

text \<open>A struct decodes from an object, and \<open>null\<close> leaves it zero. A nested struct takes the members of
  every object its key names; a pointer is reset by \<open>null\<close>.\<close>

definition struct_of :: "((string \<times> jval) list \<Rightarrow> 'a option) \<Rightarrow> jval \<Rightarrow> 'a option" where
  "struct_of dec v = (case v of JObj m \<Rightarrow> dec m | JNull \<Rightarrow> dec [] | _ \<Rightarrow> None)"

definition sub_members :: "string \<Rightarrow> (string \<times> jval) list \<Rightarrow> (string \<times> jval) list option" where
  "sub_members name m = map_option concat (those (map (struct_of Some) (members_for name m)))"

definition pointer_step :: "(string \<times> jval) list option option \<Rightarrow> jval \<Rightarrow> (string \<times> jval) list option option" where
  "pointer_step acc v = Option.bind acc (\<lambda>p. case v of
     JNull \<Rightarrow> Some None
   | JObj m \<Rightarrow> Some (Some ((case p of None \<Rightarrow> [] | Some m0 \<Rightarrow> m0) @ m))
   | _ \<Rightarrow> None)"

definition pointer_members :: "string \<Rightarrow> (string \<times> jval) list \<Rightarrow> (string \<times> jval) list option option" where
  "pointer_members name m = foldl pointer_step (Some None) (members_for name m)"

text \<open>Of several slices the last counts; \<open>null\<close> makes it nil.\<close>

definition slice_field :: "(jval \<Rightarrow> 'a option) \<Rightarrow> string \<Rightarrow> (string \<times> jval) list \<Rightarrow> 'a list option" where
  "slice_field dec name m = strict_field (\<lambda>v. case v of JNull \<Rightarrow> Some [] | _ \<Rightarrow> list_of dec v) [] name m"

definition uint8_of :: "jval \<Rightarrow> 8 word option" where
  "uint8_of v = (case v of
     JNumber s \<Rightarrow> (if s \<noteq> [] \<and> list_all is_digit s \<and> dec_nat s < 2 ^ 8 then Some (word_of_nat (dec_nat s)) else None)
   | _ \<Rightarrow> None)"

section \<open>Verification requests (domain, queue)\<close>

datatype entry_kind = Attest | Revoke | Unrevoke

record attestation =
  ANullifier :: hash
  ALevel :: "8 word"
  AExpiry :: "64 word"

definition zero_attestation :: attestation where
  "zero_attestation = \<lparr> ANullifier = zero_bytes 32, ALevel = 0, AExpiry = 0 \<rparr>"

record entry =
  EKind :: entry_kind
  EGate :: address
  EWallet :: address
  EAtt :: attestation
  ENullifier :: hash

record worldid_proof =
  MerkleRoot :: string
  NullifierHash :: string
  Proof :: string
  VerificationLevel :: string
  Action :: string

record verification_request =
  VGate :: address
  VWallet :: address
  VLevel :: "8 word"
  VWorldID :: "worldid_proof option"

text \<open>\<open>common.HexToAddress\<close>: as \<open>HexToHash\<close>, over 20 bytes.\<close>

definition HexToAddress :: "string \<Rightarrow> address" where
  "HexToAddress s = (let t = (if prefix ''0x'' s \<or> prefix ''0X'' s then drop 2 s else s);
       b = hex_prefix (if odd (length t) then CHR ''0'' # t else t)
     in left_pad 20 (drop (length b - 20) b))"

definition worldid_of :: "(string \<times> jval) list \<Rightarrow> worldid_proof option" where
  "worldid_of m =
     Option.bind (field_of str_of [] ''merkleroot'' m) (\<lambda>r.
     Option.bind (field_of str_of [] ''nullifierhash'' m) (\<lambda>n.
     Option.bind (field_of str_of [] ''proof'' m) (\<lambda>p.
     Option.bind (field_of str_of [] ''verificationlevel'' m) (\<lambda>l.
     map_option (\<lambda>a. \<lparr> MerkleRoot = r, NullifierHash = n, Proof = p, VerificationLevel = l, Action = a \<rparr>)
       (field_of str_of [] ''action'' m)))))"

record wire_request =
  WGate :: string
  WWallet :: string
  WLevel :: "8 word"
  WWorldID :: "worldid_proof option"

definition wire_request_of :: "(string \<times> jval) list \<Rightarrow> wire_request option" where
  "wire_request_of m =
     Option.bind (field_of str_of [] ''gate'' m) (\<lambda>g.
     Option.bind (field_of str_of [] ''wallet'' m) (\<lambda>w.
     Option.bind (field_of uint8_of 0 ''level'' m) (\<lambda>l.
     Option.bind (pointer_members ''worldid'' m) (\<lambda>pm.
     map_option (\<lambda>p. \<lparr> WGate = g, WWallet = w, WLevel = l, WWorldID = p \<rparr>)
       (case pm of None \<Rightarrow> Some None | Some m' \<Rightarrow> map_option Some (worldid_of m'))))))"

definition wire_response_of :: "(string \<times> jval) list \<Rightarrow> (int \<times> wire_request list) option" where
  "wire_response_of m =
     Option.bind (field_of go_int_of 0 ''minute'' m) (\<lambda>minute.
     map_option (Pair minute) (slice_field (struct_of wire_request_of) ''items'' m))"

definition request_of :: "wire_request \<Rightarrow> verification_request" where
  "request_of w = \<lparr> VGate = HexToAddress (WGate w), VWallet = HexToAddress (WWallet w), VLevel = WLevel w, VWorldID = WWorldID w \<rparr>"

text \<open>\<open>json.NewDecoder\<close> reads one value of the body.\<close>

definition Pending :: "enclave \<Rightarrow> send \<Rightarrow> string \<Rightarrow> string \<Rightarrow> int \<Rightarrow> (tee_err, verification_request list) res" where
  "Pending en snd' baseURL token minute =
     and_then (NewRequest en ''GET'' (baseURL @ ''/api/relay/queue?minute='' @ int_dec minute) [] [(''Authorization'', ''Bearer '' @ token)]) (\<lambda>req.
     and_then (Doer_Do snd' req) (\<lambda>resp.
     if HS_StatusCode resp \<noteq> 200 then Inl (UnexpectedStatus (HS_StatusCode resp))
     else (case Option.bind (decode (HS_Body resp)) (struct_of wire_response_of) of
       None \<Rightarrow> Inl BadJSON
     | Some (_, items) \<Rightarrow> Inr (map request_of items))))"

section \<open>Marshalling a struct of strings (encoding/json)\<close>

text \<open>\<open>json.Marshal\<close> escapes what HTML could read, and writes an invalid byte as an escape, too.\<close>

definition unicode_escape :: "nat \<Rightarrow> string" where
  "unicode_escape r = [backslash, CHR ''u'', hex_digit (r div 4096 mod 16), hex_digit (r div 256 mod 16), hex_digit (r div 16 mod 16), hex_digit (r mod 16)]"

definition marshal_rune :: "nat \<times> nat \<Rightarrow> string" where
  "marshal_rune rw = (let r = fst rw in
     if r = rune_error \<and> snd rw = 1 then unicode_escape r
     else if r \<in> {60, 62, 38, 8232, 8233} then unicode_escape r
     else escape_rune r)"

function marshal_body :: "string \<Rightarrow> string" where
  "marshal_body [] = []"
| "marshal_body (c # cs) = marshal_rune (decode_rune (c # cs)) @ marshal_body (drop (snd (decode_rune (c # cs))) (c # cs))"
  by pat_completeness auto
termination
proof (relation "measure length")
  fix c cs
  have "0 < snd (decode_rune (c # cs))" by (rule decode_rune_width_pos) simp
  then show "(drop (snd (decode_rune (c # cs))) (c # cs), c # cs) \<in> measure length"
    by simp
qed simp

definition marshal_string :: "string \<Rightarrow> string" where
  "marshal_string s = quote # marshal_body s @ [quote]"

definition Marshal :: "(string \<times> string) list \<Rightarrow> string" where
  "Marshal kvs = ''{'' @ intercalate '','' (map (\<lambda>(k, v). marshal_string k @ '':'' @ marshal_string v) kvs) @ ''}''"

end
