(* ===== verification/Attestor.thy ===== *)
theory Attestor
  imports Tee "HOL-Library.Product_Lexorder"
begin

text \<open>
  The attestor workflow: the providers of verifier/ (World ID, Sumsub), the GoPlus screener of
  provenance/, the report writer of chain/ and the three handlers of workflow/workflow.go. A handler
  returns its result and what it handed to the chain. The CRE runtime (secrets, consensus reports, chain
  reads and writes) and the ABI encoding of go-ethereum are fields of \<open>don\<close>; each clock reading of
  the code is an argument of its own. The generated bindings only forward to the runtime, and building one
  does not fail.

  The lemmas: what a provider that says yes has seen, that the document a person is known by does not
  depend on the order Sumsub lists them, the score as a maximum, and what each handler reports.
\<close>

section \<open>Providers (verifier)\<close>

datatype verify_err = MissingProof | ProviderFailed tee_err | VerifyFailed string string | NotApproved string | NoIDDocs string

definition WorldIDLevel :: "8 word" where "WorldIDLevel = 1"
definition SumsubLevel :: "8 word" where "SumsubLevel = 2"

text \<open>What one item of the queue meets: the network, the chain, and the clock at its readings.\<close>

record item_env =
  I_Send :: send
  I_Registry :: "address \<Rightarrow> address \<Rightarrow> (string, attestation) res"
  I_Runtime :: time
  I_Request :: time
  I_Issue :: time

record worldid_provider =
  WP_BaseURL :: string
  WP_AppID :: string
  WP_TTL :: duration

definition worldid_payload :: "enclave \<Rightarrow> address \<Rightarrow> worldid_proof \<Rightarrow> string" where
  "worldid_payload en wallet p = Marshal [(''merkle_root'', MerkleRoot p), (''nullifier_hash'', NullifierHash p), (''proof'', Proof p),
     (''verification_level'', VerificationLevel p), (''action'', Action p), (''signal'', En_Hex en wallet)]"

definition worldid_result :: "(string \<times> jval) list \<Rightarrow> (bool \<times> string \<times> string) option" where
  "worldid_result m =
     Option.bind (field_of bool_of False ''success'' m) (\<lambda>s.
     Option.bind (field_of str_of [] ''code'' m) (\<lambda>c.
     map_option (\<lambda>d. (s, c, d)) (field_of str_of [] ''detail'' m)))"

definition expiry_of :: "time \<Rightarrow> duration \<Rightarrow> 64 word" where
  "expiry_of now ttl = word_of_int (unix_sec (now + ttl))"

definition WorldID_Verify :: "enclave \<Rightarrow> worldid_provider \<Rightarrow> item_env \<Rightarrow> verification_request \<Rightarrow> (verify_err, attestation) res" where
  "WorldID_Verify en p env rq = (case VWorldID rq of
     None \<Rightarrow> Inl MissingProof
   | Some w \<Rightarrow>
       and_then (map_err ProviderFailed (and_then
         (NewRequest en ''POST'' (WP_BaseURL p @ ''/api/v2/verify/'' @ WP_AppID p) (worldid_payload en (VWallet rq) w)
            [(''Content-Type'', ''application/json'')])
         (Doer_Do (I_Send env)))) (\<lambda>resp.
       case Option.bind (unmarshal (HS_Body resp)) (struct_of worldid_result) of
         None \<Rightarrow> Inl (ProviderFailed BadJSON)
       | Some (ok, code, detail) \<Rightarrow>
           if HS_StatusCode resp \<noteq> 200 \<or> \<not> ok then Inl (VerifyFailed code detail)
           else Inr \<lparr> ANullifier = Derive en (NullifierHash w) (VGate rq), ALevel = WorldIDLevel,
             AExpiry = expiry_of (I_Issue env) (WP_TTL p) \<rparr>))"

record id_doc =
  Country :: string
  IDDocType :: string
  Number :: string

record applicant =
  ApplicantID :: string
  ReviewStatus :: string
  ReviewAnswer :: string
  IDDocs :: "id_doc list"

definition id_doc_of :: "(string \<times> jval) list \<Rightarrow> id_doc option" where
  "id_doc_of m =
     Option.bind (field_of str_of [] ''country'' m) (\<lambda>c.
     Option.bind (field_of str_of [] ''iddoctype'' m) (\<lambda>t.
     map_option (\<lambda>n. \<lparr> Country = c, IDDocType = t, Number = n \<rparr>) (field_of str_of [] ''number'' m)))"

definition applicant_of :: "(string \<times> jval) list \<Rightarrow> applicant option" where
  "applicant_of m =
     Option.bind (field_of str_of [] ''id'' m) (\<lambda>i.
     Option.bind (sub_members ''review'' m) (\<lambda>review.
     Option.bind (field_of str_of [] ''reviewstatus'' review) (\<lambda>status.
     Option.bind (sub_members ''reviewresult'' review) (\<lambda>res.
     Option.bind (field_of str_of [] ''reviewanswer'' res) (\<lambda>answer.
     Option.bind (sub_members ''info'' m) (\<lambda>info.
     map_option (\<lambda>ds. \<lparr> ApplicantID = i, ReviewStatus = status, ReviewAnswer = answer, IDDocs = ds \<rparr>)
       (slice_field (struct_of id_doc_of) ''iddocs'' info)))))))"

definition doc_key :: "id_doc \<Rightarrow> string \<times> string \<times> string" where
  "doc_key d = (Country d, IDDocType d, Number d)"

definition firstDoc :: "id_doc list \<Rightarrow> id_doc option" where
  "firstDoc docs = (case sort_key doc_key docs of [] \<Rightarrow> None | d # _ \<Rightarrow> Some d)"

record sumsub_provider =
  SP_Client :: sumsub_client
  SP_TTL :: duration
  SessionSecret :: string
  EnclaveSecret :: string

definition applicant_path :: "enclave \<Rightarrow> sumsub_provider \<Rightarrow> verification_request \<Rightarrow> string" where
  "applicant_path en p rq = ''/resources/applicants/-;externalUserId=''
     @ SessionUserID (SessionSecret p) (to_lower (En_Hex en (VGate rq))) (to_lower (En_Hex en (VWallet rq))) @ ''/one''"

definition Sumsub_Verify :: "enclave \<Rightarrow> sumsub_provider \<Rightarrow> item_env \<Rightarrow> verification_request \<Rightarrow> (verify_err, attestation) res" where
  "Sumsub_Verify en p env rq =
     and_then (map_err ProviderFailed (DoJSONOK en (I_Send env) (I_Request env) (SP_Client p) ''GET'' (applicant_path en p rq) [])) (\<lambda>resp.
     case Option.bind (unmarshal (HS_Body resp)) (struct_of applicant_of) of
       None \<Rightarrow> Inl (ProviderFailed BadJSON)
     | Some a \<Rightarrow>
         if ReviewStatus a \<noteq> ''completed'' \<or> ReviewAnswer a \<noteq> ''GREEN'' then Inl (NotApproved (ApplicantID a))
         else (case firstDoc (IDDocs a) of
           None \<Rightarrow> Inl (NoIDDocs (ApplicantID a))
         | Some doc \<Rightarrow> Inr \<lparr> ANullifier = DeriveFromDoc en (EnclaveSecret p) (Number doc) (Country doc) (VGate rq),
             ALevel = SumsubLevel, AExpiry = expiry_of (I_Issue env) (SP_TTL p) \<rparr>))"

section \<open>Screening (provenance)\<close>

definition goPlusScores :: "(string, 8 word) gomap" where
  "goPlusScores = [(''sanctioned'', 100), (''money_laundering'', 90), (''stealing_attack'', 90), (''mixer'', 80),
     (''darkweb_transactions'', 80), (''cybercrime'', 70), (''financial_crime'', 70), (''blackmail_activities'', 70),
     (''phishing_activities'', 60), (''blacklist_doubt'', 50), (''fake_kyc'', 40), (''honeypot_related_address'', 30)]"

definition GoPlusBaseURL :: string where
  "GoPlusBaseURL = ''https://api.gopluslabs.io''"

definition score_flag :: "(string, string) gomap \<Rightarrow> 8 word \<Rightarrow> string \<times> 8 word \<Rightarrow> 8 word" where
  "score_flag reported score fw = (if map_of reported (fst fw) = Some ''1'' \<and> score < snd fw then snd fw else score)"

text \<open>The score and the error; only a URL that does not parse is an error.\<close>

definition Score :: "enclave \<Rightarrow> send \<Rightarrow> string \<Rightarrow> address \<Rightarrow> 8 word \<times> tee_err option" where
  "Score en snd' baseURL wallet =
     (case NewRequest en ''GET'' (baseURL @ ''/api/v1/address_security/'' @ En_Hex en wallet @ ''?chain_id=1'') [] [] of
        Inl e \<Rightarrow> (100, Some e)
      | Inr q \<Rightarrow> (case Doer_Do snd' q of
          Inl _ \<Rightarrow> (100, None)
        | Inr resp \<Rightarrow> (case goplus_response (HS_Body resp) of
            None \<Rightarrow> (100, None)
          | Some (code, reported) \<Rightarrow> if code \<noteq> 1 then (100, None) else (foldl (score_flag reported) 0 goPlusScores, None))))"

section \<open>Reports (chain/writer.go)\<close>

datatype abi_type = AbiType string string "abi_type list"

datatype abi_value = VUint nat | VBool bool | VBytes string | VAddress address | VTuple "abi_value list" | VList "abi_value list"

definition attestationComponents :: "abi_type list" where
  "attestationComponents = [AbiType ''nullifier'' ''bytes32'' [], AbiType ''level'' ''uint8'' [], AbiType ''expiry'' ''uint64'' []]"

definition entryComponents :: "abi_type list" where
  "entryComponents = [AbiType ''kind'' ''uint8'' [], AbiType ''gate'' ''address'' [], AbiType ''wallet'' ''address'' [],
     AbiType ''att'' ''tuple'' attestationComponents, AbiType ''nullifier'' ''bytes32'' []]"

definition attestationReportArgs :: "abi_type list" where
  "attestationReportArgs = [AbiType [] ''uint64'' [], AbiType [] ''tuple[]'' entryComponents]"

definition settlementReportArgs :: "abi_type list" where
  "settlementReportArgs = [AbiType [] ''bytes32'' [], AbiType [] ''bool'' []]"

definition kind_code :: "entry_kind \<Rightarrow> nat" where
  "kind_code k = (case k of Attest \<Rightarrow> 0 | Revoke \<Rightarrow> 1 | Unrevoke \<Rightarrow> 2)"

definition attestation_value :: "attestation \<Rightarrow> abi_value" where
  "attestation_value a = VTuple [VBytes (ANullifier a), VUint (unat (ALevel a)), VUint (unat (AExpiry a))]"

definition entry_value :: "entry \<Rightarrow> abi_value" where
  "entry_value e = VTuple [VUint (kind_code (EKind e)), VAddress (EGate e), VAddress (EWallet e), attestation_value (EAtt e), VBytes (ENullifier e)]"

record report_request =
  EncodedPayload :: string
  EncoderName :: string
  SigningAlgo :: string
  HashingAlgo :: string

record submission =
  Receiver :: address
  Report :: string
  GasLimitOf :: "64 word"

record payment_info =
  PI_Payer :: address
  PI_OpenedAt :: "64 word"
  PI_MaxRisk :: "8 word"
  PI_Status :: "8 word"
  PI_Amount :: int

record don =
  DN_Pack :: "abi_type list \<Rightarrow> abi_value list \<Rightarrow> (string, string) res"
  DN_Generate :: "report_request \<Rightarrow> (string, string) res"
  DN_Write :: "submission \<Rightarrow> (string, unit) res"
  DN_Payments :: "address \<Rightarrow> hash \<Rightarrow> int \<Rightarrow> (string, payment_info) res"

text \<open>The reply of the write, and what was written when it came to that.\<close>

definition generateAndWrite :: "don \<Rightarrow> address \<Rightarrow> 64 word \<Rightarrow> string \<Rightarrow> (string, unit) res \<times> submission option" where
  "generateAndWrite dn receiver gas encoded =
     (case DN_Generate dn \<lparr> EncodedPayload = encoded, EncoderName = ''evm'', SigningAlgo = ''ecdsa'', HashingAlgo = ''keccak256'' \<rparr> of
        Inl e \<Rightarrow> (Inl e, None)
      | Inr report \<Rightarrow> let w = \<lparr> Receiver = receiver, Report = report, GasLimitOf = gas \<rparr> in (DN_Write dn w, Some w))"

definition ReportAttestations :: "don \<Rightarrow> address \<Rightarrow> 64 word \<Rightarrow> 64 word \<Rightarrow> entry list \<Rightarrow> (string, unit) res \<times> submission option" where
  "ReportAttestations dn registry gas heartbeat batch =
     (case DN_Pack dn attestationReportArgs [VUint (unat heartbeat), VList (map entry_value batch)] of
        Inl e \<Rightarrow> (Inl e, None)
      | Inr encoded \<Rightarrow> generateAndWrite dn registry gas encoded)"

definition ReportSettlement :: "don \<Rightarrow> address \<Rightarrow> 64 word \<Rightarrow> hash \<Rightarrow> bool \<Rightarrow> (string, unit) res \<times> submission option" where
  "ReportSettlement dn gateway gas i ok =
     (case DN_Pack dn settlementReportArgs [VBytes i, VBool ok] of
        Inl e \<Rightarrow> (Inl e, None)
      | Inr encoded \<Rightarrow> generateAndWrite dn gateway gas encoded)"

section \<open>The workflow (workflow.go)\<close>

record wconfig =
  ChainName :: string
  RegistryAddress :: string
  FactoryAddress :: string
  GasLimit :: "64 word"
  Schedule :: string
  QueueBaseURL :: string
  SumsubBaseURL :: string
  SumsubAppTokenID :: string
  SumsubSecretID :: string
  SessionIdSecretID :: string
  RelayFetchTokenID :: string
  EnclaveNullifierSecretID :: string
  WorldIDBaseURL :: string
  WorldIDAppID :: string
  AttestationTTL :: "64 word"
  RevocationSignerKey :: string

text \<open>\<open>time.Duration(ttl) * time.Second\<close> wraps at 64 bits.\<close>

definition attestationTTL :: "wconfig \<Rightarrow> duration" where
  "attestationTTL cfg = sint (AttestationTTL cfg * word_of_int second)"

datatype trigger = OnPaymentOpened "64 word" address | OnCron string | OnHTTP string

record handler =
  HTrigger :: trigger
  HInTee :: bool

definition InitWorkflow :: "(string \<Rightarrow> 64 word option) \<Rightarrow> wconfig \<Rightarrow> (string, handler list) res" where
  "InitWorkflow selector cfg = (case selector (ChainName cfg) of
     None \<Rightarrow> Inl ''evm client''
   | Some sel \<Rightarrow> Inr [
       \<lparr> HTrigger = OnPaymentOpened sel (HexToAddress (FactoryAddress cfg)), HInTee = True \<rparr>,
       \<lparr> HTrigger = OnCron (Schedule cfg), HInTee = True \<rparr>,
       \<lparr> HTrigger = OnHTTP (RevocationSignerKey cfg), HInTee = False \<rparr>])"

datatype workflow_err = SecretErr string string | QueueErr tee_err | ReportErr string string | ReadPayment string | ScoreErr tee_err
  | DecodeErr

type_synonym outcome = "(workflow_err, string) res \<times> submission option"

definition secret :: "(string \<Rightarrow> (string, string) res) \<Rightarrow> string \<Rightarrow> string \<Rightarrow> (workflow_err, string) res" where
  "secret getter label i = map_err (SecretErr label) (getter i)"

definition newSumsubClient :: "(string \<Rightarrow> (string, string) res) \<Rightarrow> wconfig \<Rightarrow> (workflow_err, sumsub_client) res" where
  "newSumsubClient getter cfg =
     and_then (secret getter ''sumsub app token secret'' (SumsubAppTokenID cfg)) (\<lambda>token.
     map_res (\<lambda>key. \<lparr> SC_BaseURL = SumsubBaseURL cfg, SC_AppToken = token, SC_SecretKey = key \<rparr>)
       (secret getter ''sumsub secret key'' (SumsubSecretID cfg)))"

definition provide :: "enclave \<Rightarrow> worldid_provider \<Rightarrow> sumsub_provider \<Rightarrow> item_env \<Rightarrow> verification_request
    \<Rightarrow> (verify_err, attestation) res option" where
  "provide en wp sp env rq =
     (if VLevel rq = WorldIDLevel then Some (WorldID_Verify en wp env rq)
      else if VLevel rq = SumsubLevel then Some (Sumsub_Verify en sp env rq)
      else None)"

text \<open>A wallet whose attestation is still running is left alone, whatever level it asks for.\<close>

definition attested :: "item_env \<Rightarrow> verification_request \<Rightarrow> bool" where
  "attested env rq = (case I_Registry env (VGate rq) (VWallet rq) of
     Inl _ \<Rightarrow> False
   | Inr a \<Rightarrow> ALevel a \<noteq> 0 \<and> word_of_int (unix_sec (I_Runtime env)) < AExpiry a)"

definition entry_for :: "enclave \<Rightarrow> worldid_provider \<Rightarrow> sumsub_provider \<Rightarrow> item_env \<Rightarrow> verification_request \<Rightarrow> entry option" where
  "entry_for en wp sp env rq = (case provide en wp sp env rq of
     None \<Rightarrow> None
   | Some verdict \<Rightarrow>
       if attested env rq then None
       else (case verdict of
         Inl _ \<Rightarrow> None
       | Inr a \<Rightarrow> Some \<lparr> EKind = Attest, EGate = VGate rq, EWallet = VWallet rq, EAtt = a, ENullifier = ANullifier a \<rparr>))"

fun batch_from :: "enclave \<Rightarrow> worldid_provider \<Rightarrow> sumsub_provider \<Rightarrow> (nat \<Rightarrow> item_env) \<Rightarrow> nat \<Rightarrow> verification_request list \<Rightarrow> entry list" where
  "batch_from en wp sp env i [] = []"
| "batch_from en wp sp env i (rq # rqs) = (case entry_for en wp sp (env i) rq of
     None \<Rightarrow> batch_from en wp sp env (Suc i) rqs
   | Some e \<Rightarrow> e # batch_from en wp sp env (Suc i) rqs)"

record cron_env =
  C_Secret :: "string \<Rightarrow> (string, string) res"
  C_Send :: send
  C_Minute :: time
  C_Items :: "nat \<Rightarrow> item_env"
  C_Heartbeat :: time

definition providers :: "wconfig \<Rightarrow> sumsub_client \<Rightarrow> string \<Rightarrow> string \<Rightarrow> worldid_provider \<times> sumsub_provider" where
  "providers cfg client session nsecret =
     (\<lparr> WP_BaseURL = WorldIDBaseURL cfg, WP_AppID = WorldIDAppID cfg, WP_TTL = attestationTTL cfg \<rparr>,
      \<lparr> SP_Client = client, SP_TTL = attestationTTL cfg, SessionSecret = session, EnclaveSecret = nsecret \<rparr>)"

text \<open>What the cron handler attests: the secrets, the queue of the minute, and the verdicts.\<close>

definition cron_batch :: "enclave \<Rightarrow> wconfig \<Rightarrow> cron_env \<Rightarrow> (workflow_err, entry list) res" where
  "cron_batch en cfg env =
     and_then (secret (C_Secret env) ''relay fetch token secret'' (RelayFetchTokenID cfg)) (\<lambda>token.
     and_then (secret (C_Secret env) ''session id secret'' (SessionIdSecretID cfg)) (\<lambda>session.
     and_then (secret (C_Secret env) ''enclave nullifier secret'' (EnclaveNullifierSecretID cfg)) (\<lambda>nsecret.
     and_then (map_err QueueErr (Pending en (C_Send env) (QueueBaseURL cfg) token (unix_sec (C_Minute env) div 60))) (\<lambda>pending.
     map_res (\<lambda>client. case providers cfg client session nsecret of (wp, sp) \<Rightarrow> batch_from en wp sp (C_Items env) 0 pending)
       (newSumsubClient (C_Secret env) cfg)))))"

definition onVerificationCron :: "enclave \<Rightarrow> don \<Rightarrow> wconfig \<Rightarrow> cron_env \<Rightarrow> outcome" where
  "onVerificationCron en dn cfg env = (case cron_batch en cfg env of
     Inl e \<Rightarrow> (Inl e, None)
   | Inr batch \<Rightarrow>
       let heartbeat = word_of_int (unix_sec (C_Heartbeat env));
           (reply, w) = ReportAttestations dn (HexToAddress (RegistryAddress cfg)) (GasLimit cfg) heartbeat batch
       in (map_res (\<lambda>_. ''attested '' @ nat_dec (length batch) @ '', heartbeat '' @ nat_dec (unat heartbeat))
             (map_err (ReportErr ''report attestations'') reply), w))"

record payment_opened =
  PO_Gate :: address
  PO_ID :: hash
  PO_Payer :: address
  PO_Block :: int

definition bool_text :: "bool \<Rightarrow> string" where
  "bool_text b = (if b then ''true'' else ''false'')"

definition onPaymentOpened :: "enclave \<Rightarrow> don \<Rightarrow> send \<Rightarrow> wconfig \<Rightarrow> payment_opened \<Rightarrow> outcome" where
  "onPaymentOpened en dn snd' cfg p = (case DN_Payments dn (PO_Gate p) (PO_ID p) (PO_Block p) of
     Inl e \<Rightarrow> (Inl (ReadPayment e), None)
   | Inr payment \<Rightarrow> (case Score en snd' GoPlusBaseURL (PO_Payer p) of
       (_, Some e) \<Rightarrow> (Inl (ScoreErr e), None)
     | (score, None) \<Rightarrow>
         let ok = score \<le> PI_MaxRisk payment; (reply, w) = ReportSettlement dn (PO_Gate p) (GasLimit cfg) (PO_ID p) ok
         in (map_res (\<lambda>_. ''settled '' @ hex_encode (PO_ID p) @ '' ok='' @ bool_text ok @ '' score='' @ nat_dec (unat score)
               @ '' maxRisk='' @ nat_dec (unat (PI_MaxRisk payment))) (map_err (ReportErr ''report settlement'') reply), w)))"

definition revocation_of :: "(string \<times> jval) list \<Rightarrow> string option" where
  "revocation_of m = field_of str_of [] ''nullifier'' m"

definition onRevocationWebhook :: "don \<Rightarrow> wconfig \<Rightarrow> time \<Rightarrow> string \<Rightarrow> outcome" where
  "onRevocationWebhook dn cfg now input = (case Option.bind (unmarshal input) (struct_of revocation_of) of
     None \<Rightarrow> (Inl DecodeErr, None)
   | Some n \<Rightarrow>
       let batch = [\<lparr> EKind = Revoke, EGate = zero_bytes 20, EWallet = zero_bytes 20, EAtt = zero_attestation, ENullifier = HexToHash n \<rparr>];
           (reply, w) = ReportAttestations dn (HexToAddress (RegistryAddress cfg)) (GasLimit cfg) (word_of_int (unix_sec now)) batch
       in (map_res (\<lambda>_. ''revoked '' @ n) (map_err (ReportErr ''report revocation'') reply), w))"

section \<open>What an attestation rests on\<close>

text \<open>World ID confirmed the proof of the request for its own wallet.\<close>

definition worldid_approved :: "enclave \<Rightarrow> wconfig \<Rightarrow> item_env \<Rightarrow> verification_request \<Rightarrow> attestation \<Rightarrow> bool" where
  "worldid_approved en cfg ie rq a \<longleftrightarrow> VLevel rq = WorldIDLevel
     \<and> (\<exists>w q resp code detail. VWorldID rq = Some w \<and> Doer_Do (I_Send ie) q = Inr resp
          \<and> HQ_URL q = WorldIDBaseURL cfg @ ''/api/v2/verify/'' @ WorldIDAppID cfg \<and> HQ_Body q = worldid_payload en (VWallet rq) w
          \<and> HS_StatusCode resp = 200 \<and> Option.bind (unmarshal (HS_Body resp)) (struct_of worldid_result) = Some (True, code, detail)
          \<and> a = \<lparr> ANullifier = En_Keccak en (NullifierHash w @ VGate rq), ALevel = WorldIDLevel,
                  AExpiry = expiry_of (I_Issue ie) (attestationTTL cfg) \<rparr>)"

text \<open>Sumsub completed the review of the applicant of this gate and wallet, answered GREEN and has a document.\<close>

definition sumsub_approved :: "enclave \<Rightarrow> wconfig \<Rightarrow> string \<Rightarrow> string \<Rightarrow> item_env \<Rightarrow> verification_request \<Rightarrow> attestation \<Rightarrow> bool" where
  "sumsub_approved en cfg session nsecret ie rq a \<longleftrightarrow> VLevel rq = SumsubLevel
     \<and> (\<exists>q resp ap doc. Doer_Do (I_Send ie) q = Inr resp
          \<and> HQ_URL q = SumsubBaseURL cfg @ ''/resources/applicants/-;externalUserId=''
              @ SessionUserID session (En_Hex en (VGate rq)) (En_Hex en (VWallet rq)) @ ''/one''
          \<and> HS_StatusCode resp = 200 \<and> Option.bind (unmarshal (HS_Body resp)) (struct_of applicant_of) = Some ap
          \<and> ReviewStatus ap = ''completed'' \<and> ReviewAnswer ap = ''GREEN'' \<and> firstDoc (IDDocs ap) = Some doc
          \<and> a = \<lparr> ANullifier = hmac nsecret (Number doc @ Country doc @ to_lower (En_Hex en (VGate rq))), ALevel = SumsubLevel,
                  AExpiry = expiry_of (I_Issue ie) (attestationTTL cfg) \<rparr>)"

lemma NewRequest_ok: "NewRequest en m url body hs = Inr q \<longleftrightarrow> En_ValidURL en url
    \<and> q = \<lparr> HQ_Method = m, HQ_URL = url, HQ_Body = body, HQ_Headers = hs \<rparr>"
  by (auto simp: NewRequest_def)

lemma WorldID_approved:
  assumes "WorldID_Verify en (fst (providers cfg client session nsecret)) ie rq = Inr a" and "VLevel rq = WorldIDLevel"
  shows "worldid_approved en cfg ie rq a"
proof -
  let ?wp = "fst (providers cfg client session nsecret)"
  obtain w q resp where w: "VWorldID rq = Some w"
    and q: "NewRequest en ''POST'' (WP_BaseURL ?wp @ ''/api/v2/verify/'' @ WP_AppID ?wp) (worldid_payload en (VWallet rq) w)
            [(''Content-Type'', ''application/json'')] = Inr q" "Doer_Do (I_Send ie) q = Inr resp"
    and v: "(case Option.bind (unmarshal (HS_Body resp)) (struct_of worldid_result) of
         None \<Rightarrow> Inl (ProviderFailed BadJSON)
       | Some (ok, code, detail) \<Rightarrow>
           if HS_StatusCode resp \<noteq> 200 \<or> \<not> ok then Inl (VerifyFailed code detail)
           else Inr \<lparr> ANullifier = Derive en (NullifierHash w) (VGate rq), ALevel = WorldIDLevel,
             AExpiry = expiry_of (I_Issue ie) (WP_TTL ?wp) \<rparr>) = Inr a"
    using assms(1) unfolding WorldID_Verify_def by (auto simp: res_simps split: option.splits)
  obtain code detail where "Option.bind (unmarshal (HS_Body resp)) (struct_of worldid_result) = Some (True, code, detail)"
    "HS_StatusCode resp = 200" "a = \<lparr> ANullifier = Derive en (NullifierHash w) (VGate rq), ALevel = WorldIDLevel,
       AExpiry = expiry_of (I_Issue ie) (WP_TTL ?wp) \<rparr>"
    using v by (auto split: option.splits if_splits)
  moreover have "HQ_URL q = WorldIDBaseURL cfg @ ''/api/v2/verify/'' @ WorldIDAppID cfg" "HQ_Body q = worldid_payload en (VWallet rq) w"
    using q(1) by (auto simp: NewRequest_ok providers_def)
  ultimately show ?thesis
    unfolding worldid_approved_def using w q(2) assms(2)
    by (intro conjI exI [of _ w] exI [of _ q] exI [of _ resp] exI [of _ code] exI [of _ detail]) (simp_all add: providers_def Derive_def)
qed

lemma Sumsub_parts:
  assumes "Sumsub_Verify en p ie rq = Inr a"
  obtains q resp ap doc where "Doer_Do (I_Send ie) q = Inr resp" and "HQ_URL q = SC_BaseURL (SP_Client p) @ applicant_path en p rq"
    and "HS_StatusCode resp = 200" and "Option.bind (unmarshal (HS_Body resp)) (struct_of applicant_of) = Some ap"
    and "ReviewStatus ap = ''completed''" and "ReviewAnswer ap = ''GREEN''" and "firstDoc (IDDocs ap) = Some doc"
    and "a = \<lparr> ANullifier = DeriveFromDoc en (EnclaveSecret p) (Number doc) (Country doc) (VGate rq), ALevel = SumsubLevel,
            AExpiry = expiry_of (I_Issue ie) (SP_TTL p) \<rparr>"
proof -
  obtain resp where d: "DoJSONOK en (I_Send ie) (I_Request ie) (SP_Client p) ''GET'' (applicant_path en p rq) [] = Inr resp"
    and v: "(case Option.bind (unmarshal (HS_Body resp)) (struct_of applicant_of) of
       None \<Rightarrow> Inl (ProviderFailed BadJSON)
     | Some a \<Rightarrow>
         if ReviewStatus a \<noteq> ''completed'' \<or> ReviewAnswer a \<noteq> ''GREEN'' then Inl (NotApproved (ApplicantID a))
         else (case firstDoc (IDDocs a) of
           None \<Rightarrow> Inl (NoIDDocs (ApplicantID a))
         | Some doc \<Rightarrow> Inr \<lparr> ANullifier = DeriveFromDoc en (EnclaveSecret p) (Number doc) (Country doc) (VGate rq),
             ALevel = SumsubLevel, AExpiry = expiry_of (I_Issue ie) (SP_TTL p) \<rparr>)) = Inr a"
    using assms unfolding Sumsub_Verify_def by (auto simp: res_simps)
  obtain q where "Doer_Do (I_Send ie) q = Inr resp" "HQ_URL q = SC_BaseURL (SP_Client p) @ applicant_path en p rq"
    "HS_StatusCode resp = 200"
    using d by (auto simp: DoJSONOK_def Client_Do_def NewRequest_ok res_simps split: if_splits)
  then show ?thesis using that v by (auto split: option.splits if_splits)
qed

lemma Sumsub_approved:
  assumes "Sumsub_Verify en (snd (providers cfg client session nsecret)) ie rq = Inr a" and "VLevel rq = SumsubLevel"
    and "SC_BaseURL client = SumsubBaseURL cfg"
  shows "sumsub_approved en cfg session nsecret ie rq a"
  using assms(1)
  by (rule Sumsub_parts) (unfold sumsub_approved_def, use assms(2,3) in \<open>auto simp: providers_def applicant_path_def DeriveFromDoc_def\<close>)

lemma entry_for_parts:
  assumes "entry_for en wp sp ie rq = Some e"
  obtains a where "provide en wp sp ie rq = Some (Inr a)" and "\<not> attested ie rq"
    and "e = \<lparr> EKind = Attest, EGate = VGate rq, EWallet = VWallet rq, EAtt = a, ENullifier = ANullifier a \<rparr>"
  using assms unfolding entry_for_def by (auto split: option.splits sum.splits if_splits)

lemma batch_from_parts:
  "e \<in> set (batch_from en wp sp env i rqs) \<Longrightarrow> \<exists>j<length rqs. entry_for en wp sp (env (i + j)) (rqs ! j) = Some e"
proof (induction rqs arbitrary: i)
  case (Cons rq rqs)
  consider "entry_for en wp sp (env i) rq = Some e" | "e \<in> set (batch_from en wp sp env (Suc i) rqs)"
    using Cons.prems by (auto split: option.splits)
  then show ?case
  proof cases
    case 1
    then show ?thesis by (intro exI [of _ 0]) simp
  next
    case 2
    then obtain j where "j < length rqs" "entry_for en wp sp (env (Suc i + j)) (rqs ! j) = Some e" using Cons.IH by blast
    then show ?thesis by (intro exI [of _ "Suc j"]) simp
  qed
qed simp

lemma cron_batch_parts:
  assumes "cron_batch en cfg env = Inr batch"
  obtains token session nsecret pending client where
    "Pending en (C_Send env) (QueueBaseURL cfg) token (unix_sec (C_Minute env) div 60) = Inr pending"
    and "C_Secret env (SessionIdSecretID cfg) = Inr session" and "C_Secret env (EnclaveNullifierSecretID cfg) = Inr nsecret"
    and "SC_BaseURL client = SumsubBaseURL cfg"
    and "batch = batch_from en (fst (providers cfg client session nsecret)) (snd (providers cfg client session nsecret))
           (C_Items env) 0 pending"
proof -
  obtain token session nsecret pending client where
    p: "Pending en (C_Send env) (QueueBaseURL cfg) token (unix_sec (C_Minute env) div 60) = Inr pending"
      "C_Secret env (SessionIdSecretID cfg) = Inr session" "C_Secret env (EnclaveNullifierSecretID cfg) = Inr nsecret"
    and c: "newSumsubClient (C_Secret env) cfg = Inr client"
    and b: "batch = (case providers cfg client session nsecret of (wp, sp) \<Rightarrow> batch_from en wp sp (C_Items env) 0 pending)"
    using assms unfolding cron_batch_def secret_def by (auto simp: res_simps)
  have "SC_BaseURL client = SumsubBaseURL cfg" using c by (auto simp: newSumsubClient_def secret_def res_simps)
  then show ?thesis by (rule that [OF p]) (simp add: b case_prod_beta)
qed

text \<open>C34 The cron handler attests nobody the providers did not approve: every entry of its batch is for a
  request the relay queued for the minute, without a running attestation, whose proof World ID confirmed for
  the wallet of the request or whose applicant Sumsub completed with GREEN; level, nullifier and expiry are
  the ones of that verdict.\<close>

theorem cron_attests_only_verified:
  assumes "cron_batch en cfg env = Inr batch" and "e \<in> set batch"
  shows "\<exists>token session nsecret pending i. C_Secret env (SessionIdSecretID cfg) = Inr session
    \<and> C_Secret env (EnclaveNullifierSecretID cfg) = Inr nsecret
    \<and> Pending en (C_Send env) (QueueBaseURL cfg) token (unix_sec (C_Minute env) div 60) = Inr pending \<and> i < length pending
    \<and> EKind e = Attest \<and> EGate e = VGate (pending ! i) \<and> EWallet e = VWallet (pending ! i) \<and> ENullifier e = ANullifier (EAtt e)
    \<and> \<not> attested (C_Items env i) (pending ! i)
    \<and> (worldid_approved en cfg (C_Items env i) (pending ! i) (EAtt e)
       \<or> sumsub_approved en cfg session nsecret (C_Items env i) (pending ! i) (EAtt e))"
  using assms(1)
proof (rule cron_batch_parts)
  fix token session nsecret pending client
  let ?wp = "fst (providers cfg client session nsecret)" and ?sp = "snd (providers cfg client session nsecret)"
  assume p: "Pending en (C_Send env) (QueueBaseURL cfg) token (unix_sec (C_Minute env) div 60) = Inr pending"
    "C_Secret env (SessionIdSecretID cfg) = Inr session" "C_Secret env (EnclaveNullifierSecretID cfg) = Inr nsecret"
    and base: "SC_BaseURL client = SumsubBaseURL cfg" and b: "batch = batch_from en ?wp ?sp (C_Items env) 0 pending"
  obtain i where i: "i < length pending" "entry_for en ?wp ?sp (C_Items env i) (pending ! i) = Some e"
    using assms(2) b batch_from_parts [of e en ?wp ?sp "C_Items env" 0 pending] by auto
  from i(2) obtain a where a: "provide en ?wp ?sp (C_Items env i) (pending ! i) = Some (Inr a)" "\<not> attested (C_Items env i) (pending ! i)"
    "e = \<lparr> EKind = Attest, EGate = VGate (pending ! i), EWallet = VWallet (pending ! i), EAtt = a, ENullifier = ANullifier a \<rparr>"
    by (rule entry_for_parts)
  have "worldid_approved en cfg (C_Items env i) (pending ! i) a \<or> sumsub_approved en cfg session nsecret (C_Items env i) (pending ! i) a"
    using a(1) base WorldID_approved Sumsub_approved by (auto simp: provide_def split: if_splits)
  then show ?thesis using p i(1) a(2,3) by auto
qed

section \<open>One person, one nullifier\<close>

lemma doc_key_inj: "inj doc_key"
  by (rule injI) (simp add: doc_key_def)

lemma firstDoc_perm: "mset ds = mset ds' \<Longrightarrow> firstDoc ds = firstDoc ds'"
proof -
  assume "mset ds = mset ds'"
  then have "sort_key doc_key ds = sort_key doc_key ds'"
    by (intro sort_key_inj_key_eq inj_on_subset [OF doc_key_inj]) simp_all
  then show ?thesis by (simp add: firstDoc_def)
qed

text \<open>C39 One person has one nullifier per gate: when Sumsub shows the same identity documents for two
  requests at a gate, in whatever order and for whatever wallets, sessions and times, both attestations
  carry the same nullifier; so a revocation and the spending limit reach the person, not the wallet.\<close>

theorem same_documents_same_nullifier:
  assumes "Sumsub_Verify en p ie rq = Inr a" and "Sumsub_Verify en p' ie' rq' = Inr a'"
    and "VGate rq = VGate rq'" and "EnclaveSecret p = EnclaveSecret p'"
    and "\<And>q q' resp resp' ap ap'. Doer_Do (I_Send ie) q = Inr resp \<Longrightarrow> Doer_Do (I_Send ie') q' = Inr resp'
      \<Longrightarrow> Option.bind (unmarshal (HS_Body resp)) (struct_of applicant_of) = Some ap
      \<Longrightarrow> Option.bind (unmarshal (HS_Body resp')) (struct_of applicant_of) = Some ap' \<Longrightarrow> mset (IDDocs ap) = mset (IDDocs ap')"
  shows "ANullifier a = ANullifier a'"
proof -
  obtain q resp ap doc where 1: "Doer_Do (I_Send ie) q = Inr resp" "Option.bind (unmarshal (HS_Body resp)) (struct_of applicant_of) = Some ap"
    "firstDoc (IDDocs ap) = Some doc" "ANullifier a = DeriveFromDoc en (EnclaveSecret p) (Number doc) (Country doc) (VGate rq)"
    using assms(1) by (rule Sumsub_parts) simp
  obtain q' resp' ap' doc' where 2: "Doer_Do (I_Send ie') q' = Inr resp'"
    "Option.bind (unmarshal (HS_Body resp')) (struct_of applicant_of) = Some ap'"
    "firstDoc (IDDocs ap') = Some doc'" "ANullifier a' = DeriveFromDoc en (EnclaveSecret p') (Number doc') (Country doc') (VGate rq')"
    using assms(2) by (rule Sumsub_parts) simp
  have "firstDoc (IDDocs ap) = firstDoc (IDDocs ap')" by (rule firstDoc_perm, rule assms(5) [OF 1(1) 2(1) 1(2) 2(2)])
  then show ?thesis using 1(3,4) 2(3,4) assms(3,4) by simp
qed

section \<open>The score\<close>

lemma score_flag_ge: "score \<le> score_flag r score fw"
  by (auto simp: score_flag_def)

lemma score_bound:
  "foldl (score_flag r) s ws \<le> m \<longleftrightarrow> s \<le> m \<and> (\<forall>(f, w)\<in>set ws. map_of r f = Some ''1'' \<longrightarrow> w \<le> m)"
  by (induction ws arbitrary: s) (auto simp: score_flag_def)

lemma Score_err: "Score en snd' base wallet = (sc, Some e) \<Longrightarrow> \<not> En_ValidURL en (base @ ''/api/v1/address_security/'' @ En_Hex en wallet @ ''?chain_id=1'')"
  by (auto simp: Score_def NewRequest_def split: sum.splits option.splits if_splits)

text \<open>A usable answer of GoPlus: it came, it parses, and its code is 1.\<close>

definition goplus_answer :: "enclave \<Rightarrow> send \<Rightarrow> string \<Rightarrow> address \<Rightarrow> (string, string) gomap option" where
  "goplus_answer en snd' base wallet =
     (case Doer_Do snd' \<lparr> HQ_Method = ''GET'', HQ_URL = base @ ''/api/v1/address_security/'' @ En_Hex en wallet @ ''?chain_id=1'',
        HQ_Body = [], HQ_Headers = [] \<rparr> of
        Inr resp \<Rightarrow> (case goplus_response (HS_Body resp) of Some (code, reported) \<Rightarrow> if code = 1 then Some reported else None | None \<Rightarrow> None)
      | Inl _ \<Rightarrow> None)"

lemma Score_bound:
  assumes "Score en snd' base wallet = (sc, None)"
  shows "sc \<le> m \<longleftrightarrow> (case goplus_answer en snd' base wallet of None \<Rightarrow> 100 \<le> m
     | Some reported \<Rightarrow> \<forall>(f, w)\<in>set goPlusScores. map_of reported f = Some ''1'' \<longrightarrow> w \<le> m)"
proof -
  have sc: "sc = (case goplus_answer en snd' base wallet of None \<Rightarrow> 100 | Some reported \<Rightarrow> foldl (score_flag reported) 0 goPlusScores)"
    using assms by (auto simp: Score_def goplus_answer_def NewRequest_def split: sum.splits option.splits if_splits)
  show ?thesis unfolding sc by (cases "goplus_answer en snd' base wallet") (simp_all add: score_bound)
qed

text \<open>C38 A payment settles exactly when its payer's reputation is within the gate's limit: whenever the
  handler reports, it reports the payment of the event to the gate that opened it, as acceptable iff every
  flag GoPlus raised weighs at most the maximum risk stored with the payment; without a usable answer it is
  acceptable only under a limit of 100 or more, which no gate's policy allows (its cap is 80).\<close>

theorem settlement_by_reputation:
  assumes "onPaymentOpened en dn snd' cfg p = (res, Some w)"
  shows "\<exists>payment ok encoded. DN_Payments dn (PO_Gate p) (PO_ID p) (PO_Block p) = Inr payment
    \<and> DN_Pack dn settlementReportArgs [VBytes (PO_ID p), VBool ok] = Inr encoded
    \<and> DN_Generate dn \<lparr> EncodedPayload = encoded, EncoderName = ''evm'', SigningAlgo = ''ecdsa'', HashingAlgo = ''keccak256'' \<rparr> = Inr (Report w)
    \<and> Receiver w = PO_Gate p
    \<and> ok = (case goplus_answer en snd' GoPlusBaseURL (PO_Payer p) of
         None \<Rightarrow> 100 \<le> PI_MaxRisk payment
       | Some reported \<Rightarrow> \<forall>(f, v)\<in>set goPlusScores. map_of reported f = Some ''1'' \<longrightarrow> v \<le> PI_MaxRisk payment)"
proof -
  obtain payment where p: "DN_Payments dn (PO_Gate p) (PO_ID p) (PO_Block p) = Inr payment"
    using assms by (auto simp: onPaymentOpened_def split: sum.splits)
  obtain sc where sc: "Score en snd' GoPlusBaseURL (PO_Payer p) = (sc, None)"
    using assms by (auto simp: onPaymentOpened_def p split: prod.splits option.splits)
  have "snd (ReportSettlement dn (PO_Gate p) (GasLimit cfg) (PO_ID p) (sc \<le> PI_MaxRisk payment)) = Some w"
    using assms by (simp add: onPaymentOpened_def p sc Let_def case_prod_beta)
  then obtain encoded where "DN_Pack dn settlementReportArgs [VBytes (PO_ID p), VBool (sc \<le> PI_MaxRisk payment)] = Inr encoded"
    "DN_Generate dn \<lparr> EncodedPayload = encoded, EncoderName = ''evm'', SigningAlgo = ''ecdsa'', HashingAlgo = ''keccak256'' \<rparr> = Inr (Report w)"
    "Receiver w = PO_Gate p"
    by (auto simp: ReportSettlement_def generateAndWrite_def Let_def split: sum.splits)
  then show ?thesis using p Score_bound [OF sc] by blast
qed

section \<open>A sample run\<close>

text \<open>Texts with a quote where they have a hash sign, and a service that always answers with one.\<close>

definition json_text :: "string \<Rightarrow> string" where
  "json_text s = map (\<lambda>c. if c = CHR ''#'' then quote else c) s"

definition always :: "string \<Rightarrow> send" where
  "always body = (\<lambda>_. Inr \<lparr> TS_StatusCode = 200, TS_MultiHeaders = [], TS_Body = json_text body \<rparr>)"

definition sample_enclave :: enclave where
  "sample_enclave = \<lparr> En_Keccak = (\<lambda>b. take 32 (sha256 b)), En_Hex = (\<lambda>a. ''0x'' @ hex_encode a), En_ValidURL = (\<lambda>u. u \<noteq> []) \<rparr>"

definition sample_wconfig :: wconfig where
  "sample_wconfig = \<lparr> ChainName = ''base'', RegistryAddress = ''0x01'', FactoryAddress = ''0x02'', GasLimit = 1000000, Schedule = ''0 * * * * *'',
     QueueBaseURL = ''https://relay'', SumsubBaseURL = ''https://sumsub'', SumsubAppTokenID = ''t'', SumsubSecretID = ''k'',
     SessionIdSecretID = ''s'', RelayFetchTokenID = ''r'', EnclaveNullifierSecretID = ''n'', WorldIDBaseURL = ''https://world'',
     WorldIDAppID = ''app'', AttestationTTL = 3600, RevocationSignerKey = ''0x03'' \<rparr>"

definition sample_item :: "string \<Rightarrow> item_env" where
  "sample_item body = \<lparr> I_Send = always body, I_Registry = (\<lambda>_ _. Inl ''no reply''), I_Runtime = 0, I_Request = 0, I_Issue = 0 \<rparr>"

definition sample_cron :: cron_env where
  "sample_cron = \<lparr> C_Secret = Inr, C_Send = always ''{#items#:[{#level#:1,#worldId#:{}}]}'', C_Minute = 0,
     C_Items = (\<lambda>_. sample_item ''{#success#:true}''), C_Heartbeat = 0 \<rparr>"

definition sample_proof :: worldid_proof where
  "sample_proof = \<lparr> MerkleRoot = [], NullifierHash = [], Proof = [], VerificationLevel = [], Action = [] \<rparr>"

lemma sample_queue: "Option.bind (decode (json_text ''{#items#:[{#level#:1,#worldId#:{}}]}'')) (struct_of wire_response_of)
    = Some (0, [\<lparr> WGate = [], WWallet = [], WLevel = 1, WWorldID = Some sample_proof \<rparr>])"
  by code_simp

lemma sample_success: "Option.bind (unmarshal (json_text ''{#success#:true}'')) (struct_of worldid_result) = Some (True, [], [])"
  by code_simp

lemma sample_pending: "Pending sample_enclave (C_Send sample_cron) (QueueBaseURL sample_wconfig) token minute
    = Inr [\<lparr> VGate = HexToAddress [], VWallet = HexToAddress [], VLevel = 1, VWorldID = Some sample_proof \<rparr>]"
  using sample_queue
  by (simp add: Pending_def NewRequest_def Doer_Do_def sample_enclave_def sample_cron_def sample_wconfig_def always_def http_response_of_def
      request_of_def)

lemma sample_batch: "cron_batch sample_enclave sample_wconfig sample_cron = Inr [\<lparr> EKind = Attest, EGate = HexToAddress [],
    EWallet = HexToAddress [], EAtt = \<lparr> ANullifier = Derive sample_enclave [] (HexToAddress []), ALevel = WorldIDLevel,
    AExpiry = expiry_of 0 (attestationTTL sample_wconfig) \<rparr>, ENullifier = Derive sample_enclave [] (HexToAddress []) \<rparr>]"
proof -
  have w: "WorldID_Verify sample_enclave (fst (providers sample_wconfig c s n)) (C_Items sample_cron 0)
      \<lparr> VGate = HexToAddress [], VWallet = HexToAddress [], VLevel = 1, VWorldID = Some sample_proof \<rparr>
    = Inr \<lparr> ANullifier = Derive sample_enclave [] (HexToAddress []), ALevel = WorldIDLevel,
        AExpiry = expiry_of 0 (attestationTTL sample_wconfig) \<rparr>" for c s n
    using sample_success
    by (simp add: WorldID_Verify_def NewRequest_def Doer_Do_def providers_def sample_enclave_def sample_cron_def sample_item_def
        sample_wconfig_def always_def http_response_of_def sample_proof_def)
  have r: "\<not> attested (C_Items sample_cron 0) rq" for rq
    by (simp add: attested_def sample_cron_def sample_item_def)
  have s: "C_Secret sample_cron i = Inr i" for i by (simp add: sample_cron_def)
  show ?thesis
    by (simp add: cron_batch_def secret_def newSumsubClient_def sample_pending s case_prod_beta entry_for_def provide_def WorldIDLevel_def
        w [unfolded WorldIDLevel_def] r)
qed

theorem cron_attests_only_verified_witness:
  "\<exists>batch e session nsecret rq. cron_batch sample_enclave sample_wconfig sample_cron = Inr batch \<and> e \<in> set batch
     \<and> (worldid_approved sample_enclave sample_wconfig (C_Items sample_cron 0) rq (EAtt e)
        \<or> sumsub_approved sample_enclave sample_wconfig session nsecret (C_Items sample_cron 0) rq (EAtt e))"
  using cron_attests_only_verified [OF sample_batch list.set_intros(1)] sample_batch list.set_intros(1)
  unfolding sample_cron_def by fastforce

definition sample_applicant :: "string \<Rightarrow> string" where
  "sample_applicant docs = ''{#review#:{#reviewStatus#:#completed#,#reviewResult#:{#reviewAnswer#:#GREEN#}},#info#:{#idDocs#:['' @ docs @ '']}}''"

definition numbered_doc :: "string \<Rightarrow> id_doc" where
  "numbered_doc n = \<lparr> Country = [], IDDocType = [], Number = n \<rparr>"

definition sample_reviewed :: "string list \<Rightarrow> applicant" where
  "sample_reviewed ns = \<lparr> ApplicantID = [], ReviewStatus = ''completed'', ReviewAnswer = ''GREEN'', IDDocs = map numbered_doc ns \<rparr>"

lemma sample_applicant_12:
  "Option.bind (unmarshal (json_text (sample_applicant ''{#number#:#1#},{#number#:#2#}''))) (struct_of applicant_of) = Some (sample_reviewed [''1'', ''2''])"
  by code_simp

lemma sample_applicant_21:
  "Option.bind (unmarshal (json_text (sample_applicant ''{#number#:#2#},{#number#:#1#}''))) (struct_of applicant_of) = Some (sample_reviewed [''2'', ''1''])"
  by code_simp

lemmas sample_applicants = sample_applicant_12 sample_applicant_21

definition sample_sumsub :: sumsub_provider where
  "sample_sumsub = \<lparr> SP_Client = \<lparr> SC_BaseURL = ''https://sumsub'', SC_AppToken = ''t'', SC_SecretKey = ''k'' \<rparr>, SP_TTL = 0,
     SessionSecret = ''s'', EnclaveSecret = ''n'' \<rparr>"

definition sample_request :: "string \<Rightarrow> verification_request" where
  "sample_request wallet = \<lparr> VGate = [], VWallet = wallet, VLevel = 2, VWorldID = None \<rparr>"

lemma sample_Sumsub:
  assumes "Option.bind (unmarshal (json_text body)) (struct_of applicant_of) = Some (sample_reviewed ns)" and "ns \<noteq> []"
  shows "\<exists>a. Sumsub_Verify sample_enclave sample_sumsub (sample_item body) (sample_request wallet) = Inr a"
proof -
  have "firstDoc (map numbered_doc ns) \<noteq> None" using assms(2) by (auto simp: firstDoc_def split: list.split dest: arg_cong [of _ _ length])
  then show ?thesis using assms(1)
    by (auto simp: Sumsub_Verify_def DoJSONOK_def Client_Do_def NewRequest_def Doer_Do_def sample_enclave_def sample_sumsub_def sample_item_def
        always_def http_response_of_def sample_reviewed_def)
qed

theorem same_documents_same_nullifier_witness:
  "\<exists>a a'. Sumsub_Verify sample_enclave sample_sumsub (sample_item (sample_applicant ''{#number#:#1#},{#number#:#2#}'')) (sample_request ''x'') = Inr a
     \<and> Sumsub_Verify sample_enclave sample_sumsub (sample_item (sample_applicant ''{#number#:#2#},{#number#:#1#}'')) (sample_request ''y'') = Inr a'
     \<and> ANullifier a = ANullifier a'"
proof -
  let ?e = "sample_item (sample_applicant ''{#number#:#1#},{#number#:#2#}'')" and ?e' = "sample_item (sample_applicant ''{#number#:#2#},{#number#:#1#}'')"
  obtain a a' where a: "Sumsub_Verify sample_enclave sample_sumsub ?e (sample_request ''x'') = Inr a"
    "Sumsub_Verify sample_enclave sample_sumsub ?e' (sample_request ''y'') = Inr a'"
    using sample_Sumsub [OF sample_applicants(1)] sample_Sumsub [OF sample_applicants(2)] by blast
  have "ANullifier a = ANullifier a'"
  proof (rule same_documents_same_nullifier [OF a])
    fix q q' resp resp' ap ap'
    assume "Doer_Do (I_Send ?e) q = Inr resp" "Doer_Do (I_Send ?e') q' = Inr resp'"
    then have "HS_Body resp = json_text (sample_applicant ''{#number#:#1#},{#number#:#2#}'')"
      "HS_Body resp' = json_text (sample_applicant ''{#number#:#2#},{#number#:#1#}'')"
      by (auto simp: Doer_Do_def sample_item_def always_def http_response_of_def)
    moreover assume "Option.bind (unmarshal (HS_Body resp)) (struct_of applicant_of) = Some ap"
      "Option.bind (unmarshal (HS_Body resp')) (struct_of applicant_of) = Some ap'"
    ultimately show "mset (IDDocs ap) = mset (IDDocs ap')" using sample_applicants by (auto simp: sample_reviewed_def)
  qed (simp_all add: sample_request_def)
  then show ?thesis using a by blast
qed

definition sample_don :: don where
  "sample_don = \<lparr> DN_Pack = (\<lambda>ts vs. Inr (case vs of [VBytes i, VBool ok] \<Rightarrow> i @ bool_text ok | _ \<Rightarrow> [])), DN_Generate = (\<lambda>r. Inr (EncodedPayload r)), DN_Write = (\<lambda>w. Inr ()),
     DN_Payments = (\<lambda>gate i block. Inr \<lparr> PI_Payer = [], PI_OpenedAt = 0, PI_MaxRisk = 80, PI_Status = 1, PI_Amount = 1 \<rparr>) \<rparr>"

theorem settlement_by_reputation_witness:
  "\<exists>res w. onPaymentOpened sample_enclave sample_don (\<lambda>_. Inl ''down'') sample_wconfig \<lparr> PO_Gate = ''g'', PO_ID = ''i'', PO_Payer = ''p'', PO_Block = 1 \<rparr>
      = (res, Some w) \<and> Receiver w = ''g'' \<and> Report w = ''ifalse''"
proof -
  let ?p = "\<lparr> PO_Gate = ''g'', PO_ID = ''i'', PO_Payer = ''p'', PO_Block = 1 \<rparr>"
  obtain res w where r: "onPaymentOpened sample_enclave sample_don (\<lambda>_. Inl ''down'') sample_wconfig ?p = (res, Some w)"
    by (auto simp: onPaymentOpened_def sample_don_def Score_def NewRequest_def Doer_Do_def sample_enclave_def ReportSettlement_def
        generateAndWrite_def GoPlusBaseURL_def Let_def)
  have n: "goplus_answer sample_enclave (\<lambda>_. Inl ''down'') b p = None" for b p by (simp add: goplus_answer_def Doer_Do_def)
  show ?thesis
    using settlement_by_reputation [OF r] r unfolding n by (auto simp: sample_don_def bool_text_def)
qed

end
