(* ===== verification/Gate.thy ===== *)
theory Gate
  imports Attestor
begin

text \<open>
  The contracts the attestor workflow reports to: contracts/src/AttestationRegistry.sol, MerchantGateway.sol and
  GatewayFactory.sol, with the report guard of chainlink/ReceiverTemplate.sol and the structs of libs/. One gate
  with its registry, its factory and its ERC-20 token; calldata and reports are taken decoded. A transaction has
  a sender, a block time and number and an operation; a revert is an error value. The token is a plain ERC-20
  (a transfer moves exactly the amount or reverts, without calling back).

  The lemmas, for every sequence of transactions: the gate holds what its pending payments need; a payment
  leaves the pending state at most once and keeps its terms; and a revocation, as the workflow's webhook
  reports it, stops the person at once on every wallet.
\<close>

section \<open>Reports (ReceiverTemplate.sol)\<close>

record receiver =
  RT_Owner :: address
  RT_Forwarder :: address
  RT_Author :: address
  RT_Name :: string
  RT_ID :: hash

datatype gate_err =
    InvalidForwarderAddress | InvalidSender address address | InvalidAuthor address address | InvalidWorkflowName string string
  | InvalidWorkflowId hash hash | WorkflowNameRequiresAuthorValidation | NotTheOwner | NotVerified | CumulativeThreshold
  | PaymentNotPending | ReclaimTooEarly | Required string | SolPanic | TokenRefused | NotAGate

definition address0 :: address where "address0 = zero_bytes 20"
definition name0 :: string where "name0 = zero_bytes 10"
definition id0 :: hash where "id0 = zero_bytes 32"

definition new_receiver :: "address \<Rightarrow> address \<Rightarrow> (gate_err, receiver) res" where
  "new_receiver owner forwarder = (if owner = address0 then Inl (Required ''owner'')
     else if forwarder = address0 then Inl InvalidForwarderAddress
     else Inr \<lparr> RT_Owner = owner, RT_Forwarder = forwarder, RT_Author = address0, RT_Name = name0, RT_ID = id0 \<rparr>)"

text \<open>The packed metadata as the forwarder sends it: 32 bytes of workflow id, ten of its name, twenty of its owner.\<close>

definition decodeMetadata :: "string \<Rightarrow> hash \<times> string \<times> address" where
  "decodeMetadata m = (take 32 m, take 10 (drop 32 m), take 20 (drop 42 m))"

definition check_report :: "receiver \<Rightarrow> address \<Rightarrow> string \<Rightarrow> gate_err option" where
  "check_report r sender metadata =
     (if RT_Forwarder r \<noteq> address0 \<and> sender \<noteq> RT_Forwarder r then Some (InvalidSender sender (RT_Forwarder r))
      else if RT_ID r \<noteq> id0 \<or> RT_Author r \<noteq> address0 \<or> RT_Name r \<noteq> name0
      then (case decodeMetadata metadata of (i, name, owner) \<Rightarrow>
        if RT_ID r \<noteq> id0 \<and> i \<noteq> RT_ID r then Some (InvalidWorkflowId i (RT_ID r))
        else if RT_Author r \<noteq> address0 \<and> owner \<noteq> RT_Author r then Some (InvalidAuthor owner (RT_Author r))
        else if RT_Name r \<noteq> name0
        then (if RT_Author r = address0 then Some WorkflowNameRequiresAuthorValidation
              else if name \<noteq> RT_Name r then Some (InvalidWorkflowName name (RT_Name r)) else None)
        else None)
      else None)"

text \<open>The name as stored: the first ten characters of the hex SHA-256 of the text.\<close>

definition workflow_name :: "string \<Rightarrow> string" where
  "workflow_name s = (if s = [] then name0 else take 10 (hex_encode (sha256 s)))"

datatype setting = SetForwarder address | SetAuthor address | SetName string | SetWorkflowId hash | NewOwner address | RenounceOwner

definition configure :: "setting \<Rightarrow> address \<Rightarrow> receiver \<Rightarrow> (gate_err, receiver) res" where
  "configure x sender r =
     (if sender \<noteq> RT_Owner r then Inl NotTheOwner
      else case x of
        SetForwarder a \<Rightarrow> Inr (r\<lparr>RT_Forwarder := a\<rparr>)
      | SetAuthor a \<Rightarrow> Inr (r\<lparr>RT_Author := a\<rparr>)
      | SetName s \<Rightarrow> Inr (r\<lparr>RT_Name := workflow_name s\<rparr>)
      | SetWorkflowId i \<Rightarrow> Inr (r\<lparr>RT_ID := i\<rparr>)
      | NewOwner a \<Rightarrow> if a = address0 then Inl (Required ''owner'') else Inr (r\<lparr>RT_Owner := a\<rparr>)
      | RenounceOwner \<Rightarrow> Inr (r\<lparr>RT_Owner := address0\<rparr>))"

section \<open>The registry (AttestationRegistry.sol)\<close>

record registry =
  RG_Receiver :: receiver
  LastHeartbeat :: nat
  Attestations :: "hash \<Rightarrow> attestation"
  Revoked :: "hash \<Rightarrow> bool"

definition MAX_STALE :: nat where "MAX_STALE = 48 * 3600"

definition new_registry :: "address \<Rightarrow> address \<Rightarrow> (gate_err, registry) res" where
  "new_registry deployer forwarder = map_res (\<lambda>r. \<lparr> RG_Receiver = r, LastHeartbeat = 0, Attestations = (\<lambda>_. zero_attestation), Revoked = (\<lambda>_. False) \<rparr>)
     (new_receiver deployer forwarder)"

definition att_key :: "(string \<Rightarrow> string) \<Rightarrow> address \<Rightarrow> address \<Rightarrow> hash" where
  "att_key keccak gate wallet = keccak (left_pad 32 gate @ left_pad 32 wallet)"

definition apply_entry :: "(string \<Rightarrow> string) \<Rightarrow> entry \<Rightarrow> registry \<Rightarrow> registry" where
  "apply_entry keccak e rg =
     (if EKind e = Attest then rg\<lparr>Attestations := (Attestations rg)(att_key keccak (EGate e) (EWallet e) := EAtt e)\<rparr>
      else rg\<lparr>Revoked := (Revoked rg)(ENullifier e := (EKind e = Revoke))\<rparr>)"

definition report_batch :: "(string \<Rightarrow> string) \<Rightarrow> nat \<Rightarrow> nat \<Rightarrow> entry list \<Rightarrow> registry \<Rightarrow> registry" where
  "report_batch keccak now heartbeat batch rg =
     fold (apply_entry keccak) batch
       (if LastHeartbeat rg < heartbeat \<and> heartbeat \<le> now then rg\<lparr>LastHeartbeat := heartbeat\<rparr> else rg)"

definition nullifierOf :: "(string \<Rightarrow> string) \<Rightarrow> registry \<Rightarrow> address \<Rightarrow> address \<Rightarrow> hash" where
  "nullifierOf keccak rg gate wallet = ANullifier (Attestations rg (att_key keccak gate wallet))"

text \<open>The checked subtraction reverts on a heartbeat after the block, when the conditions before it hold.\<close>

definition isValid :: "(string \<Rightarrow> string) \<Rightarrow> nat \<Rightarrow> registry \<Rightarrow> address \<Rightarrow> address \<Rightarrow> 8 word \<Rightarrow> (gate_err, bool) res" where
  "isValid keccak now rg gate wallet minLevel =
     (let a = Attestations rg (att_key keccak gate wallet) in
      if minLevel \<le> ALevel a \<and> 0 < ALevel a \<and> \<not> Revoked rg (ANullifier a) \<and> now < unat (AExpiry a)
      then (if now < LastHeartbeat rg then Inl SolPanic else Inr (now - LastHeartbeat rg < MAX_STALE))
      else Inr False)"

section \<open>The gate (MerchantGateway.sol)\<close>

record policy =
  LevelBelow :: "8 word"
  LevelAbove :: "8 word"
  Threshold :: nat
  MaxRisk :: "8 word"

datatype pay_status = NonePay | Pending | Settled | Refunded

record escrow =
  E_Payer :: address
  E_OpenedAt :: nat
  E_MaxRisk :: "8 word"
  E_Status :: pay_status
  E_Amount :: nat

record spend =
  WindowStart :: nat
  SpentAmount :: nat

record gate =
  G_Receiver :: receiver
  G_Self :: address
  PayoutTo :: address
  PolicyOf :: policy
  Escrows :: "hash \<Rightarrow> escrow"
  Spent :: "hash \<Rightarrow> spend"
  GNonce :: nat

definition TIMEOUT :: nat where "TIMEOUT = 15 * 60"
definition SPEND_WINDOW :: nat where "SPEND_WINDOW = 24 * 3600"
definition MAX_THRESHOLD :: nat where "MAX_THRESHOLD = 10000 * 10 ^ 6"
definition MAX_RISK :: "8 word" where "MAX_RISK = 80"

definition validatePolicy :: "policy \<Rightarrow> gate_err option" where
  "validatePolicy p =
     (if \<not> (LevelBelow p \<le> 2 \<and> LevelAbove p \<le> 2) then Some (Required ''bad level'')
      else if \<not> (LevelAbove p = 0 \<or> 1 \<le> LevelBelow p) then Some (Required ''threshold without identity'')
      else if \<not> Threshold p \<le> MAX_THRESHOLD then Some (Required ''threshold too high'')
      else if \<not> MaxRisk p \<le> MAX_RISK then Some (Required ''risk cap too high'')
      else None)"

definition no_escrow :: escrow where
  "no_escrow = \<lparr> E_Payer = address0, E_OpenedAt = 0, E_MaxRisk = 0, E_Status = NonePay, E_Amount = 0 \<rparr>"

definition new_gate :: "address \<Rightarrow> address \<Rightarrow> address \<Rightarrow> address \<Rightarrow> policy \<Rightarrow> (gate_err, gate) res" where
  "new_gate self forwarder merchant payout p =
     and_then (new_receiver merchant forwarder) (\<lambda>r.
       if payout = address0 then Inl (Required ''payoutTo'')
       else case validatePolicy p of Some e \<Rightarrow> Inl e
         | None \<Rightarrow> Inr \<lparr> G_Receiver = r, G_Self = self, PayoutTo = payout, PolicyOf = p, Escrows = (\<lambda>_. no_escrow),
             Spent = (\<lambda>_. \<lparr> WindowStart = 0, SpentAmount = 0 \<rparr>), GNonce = 0 \<rparr>)"

section \<open>The chain around one gate\<close>

record opened =
  OP_Gate :: address
  OP_ID :: hash
  OP_Payer :: address
  OP_Amount :: nat

record world =
  W_Gate :: gate
  W_Registry :: registry
  W_IsGate :: "address \<Rightarrow> bool"
  W_Opened :: "opened list"
  W_Tokens :: "address \<Rightarrow> nat"

definition transfer :: "address \<Rightarrow> address \<Rightarrow> nat \<Rightarrow> world \<Rightarrow> (gate_err, world) res" where
  "transfer from to n w =
     (if W_Tokens w from < n then Inl TokenRefused
      else let t = (W_Tokens w)(from := W_Tokens w from - n) in Inr (w\<lparr>W_Tokens := t(to := t to + n)\<rparr>))"

text \<open>\<open>GatewayFactory.deploy\<close> and its event, which only its gates may emit.\<close>

definition deploy :: "address \<Rightarrow> address \<Rightarrow> registry \<Rightarrow> address \<Rightarrow> address \<Rightarrow> policy \<Rightarrow> (address \<Rightarrow> nat) \<Rightarrow> (gate_err, world) res" where
  "deploy self forwarder rg merchant payout p tokens =
     map_res (\<lambda>g. \<lparr> W_Gate = g, W_Registry = rg, W_IsGate = (\<lambda>_. False)(self := True), W_Opened = [], W_Tokens = tokens \<rparr>)
       (new_gate self forwarder merchant payout p)"

definition emitPaymentOpened :: "address \<Rightarrow> hash \<Rightarrow> address \<Rightarrow> nat \<Rightarrow> world \<Rightarrow> (gate_err, world) res" where
  "emitPaymentOpened sender i payer amount w =
     (if W_IsGate w sender then Inr (w\<lparr>W_Opened := W_Opened w @ [\<lparr> OP_Gate = sender, OP_ID = i, OP_Payer = payer, OP_Amount = amount \<rparr>]\<rparr>)
      else Inl NotAGate)"

text \<open>The identity part of \<open>pay\<close>: the spend records afterwards.\<close>

definition identify :: "(string \<Rightarrow> string) \<Rightarrow> nat \<Rightarrow> address \<Rightarrow> nat \<Rightarrow> world \<Rightarrow> (gate_err, hash \<Rightarrow> spend) res" where
  "identify keccak now payer amount w =
     (let g = W_Gate w; p = PolicyOf g; level = (if Threshold p \<le> amount then LevelAbove p else LevelBelow p) in
      if level = 0 then Inr (Spent g)
      else and_then (isValid keccak now (W_Registry w) (G_Self g) payer level) (\<lambda>valid.
        if \<not> valid then Inl NotVerified
        else let n = nullifierOf keccak (W_Registry w) (G_Self g) payer; s0 = Spent g n in
          if now < WindowStart s0 then Inl SolPanic
          else let s1 = (if SPEND_WINDOW \<le> now - WindowStart s0 then \<lparr> WindowStart = now mod 2 ^ 64, SpentAmount = 0 \<rparr> else s0);
                   s2 = s1\<lparr>SpentAmount := SpentAmount s1 + amount\<rparr>; after = (Spent g)(n := s2) in
            if 2 ^ 256 \<le> SpentAmount s2 then Inl SolPanic
            else if SpentAmount s2 < Threshold p then Inr after
            else and_then (isValid keccak now (W_Registry w) (G_Self g) payer (LevelAbove p)) (\<lambda>above.
              if above then Inr after else Inl CumulativeThreshold)))"

definition escrow_preimage :: "address \<Rightarrow> nat \<Rightarrow> nat \<Rightarrow> nat \<Rightarrow> string" where
  "escrow_preimage payer amount block nonce = left_pad 32 payer @ be_bytes 32 amount @ be_bytes 32 block @ be_bytes 32 nonce"

definition escrow_id :: "(string \<Rightarrow> string) \<Rightarrow> address \<Rightarrow> nat \<Rightarrow> nat \<Rightarrow> nat \<Rightarrow> hash" where
  "escrow_id keccak payer amount block nonce = keccak (escrow_preimage payer amount block nonce)"

definition pay :: "(string \<Rightarrow> string) \<Rightarrow> nat \<Rightarrow> nat \<Rightarrow> address \<Rightarrow> bool \<Rightarrow> nat \<Rightarrow> world \<Rightarrow> (gate_err, world) res" where
  "pay keccak now block payer approved amount w =
     (if amount = 0 then Inl (Required ''amount'')
      else and_then (identify keccak now payer amount w) (\<lambda>spent.
        let g = W_Gate w; i = escrow_id keccak payer amount block (GNonce g);
            g1 = g\<lparr>Spent := spent, GNonce := GNonce g + 1, Escrows := (Escrows g)(i := \<lparr> E_Payer = payer, E_OpenedAt = now mod 2 ^ 64,
                     E_MaxRisk = MaxRisk (PolicyOf g), E_Status = Pending, E_Amount = amount \<rparr>)\<rparr> in
        if 2 ^ 256 \<le> GNonce g + 1 then Inl SolPanic
        else if \<not> approved then Inl TokenRefused
        else and_then (transfer payer (G_Self g) amount (w\<lparr>W_Gate := g1\<rparr>)) (emitPaymentOpened (G_Self g) i payer amount)))"

definition close :: "hash \<Rightarrow> pay_status \<Rightarrow> address \<Rightarrow> world \<Rightarrow> (gate_err, world) res" where
  "close i st to w =
     (let g = W_Gate w; e = Escrows g i in
      transfer (G_Self g) to (E_Amount e) (w\<lparr>W_Gate := g\<lparr>Escrows := (Escrows g)(i := e\<lparr>E_Status := st\<rparr>)\<rparr>\<rparr>))"

definition settle :: "hash \<Rightarrow> bool \<Rightarrow> world \<Rightarrow> (gate_err, world) res" where
  "settle i ok w = (let e = Escrows (W_Gate w) i in
     if E_Status e \<noteq> Pending then Inl PaymentNotPending
     else close i (if ok then Settled else Refunded) (if ok then PayoutTo (W_Gate w) else E_Payer e) w)"

definition reclaim :: "nat \<Rightarrow> hash \<Rightarrow> world \<Rightarrow> (gate_err, world) res" where
  "reclaim now i w = (let e = Escrows (W_Gate w) i in
     if E_Status e \<noteq> Pending then Inl PaymentNotPending
     else if 2 ^ 64 \<le> E_OpenedAt e + TIMEOUT then Inl SolPanic
     else if now < E_OpenedAt e + TIMEOUT then Inl ReclaimTooEarly
     else close i Refunded (E_Payer e) w)"

datatype gate_op =
    Pay nat bool nat
  | SettleReport string hash bool
  | Reclaim hash
  | SetPolicy policy
  | GateSetting setting
  | RegistryReport string nat "entry list"
  | RegistrySetting setting
  | TokenTransfer address nat

record gate_tx =
  TxSender :: address
  TxTime :: nat
  TxOp :: gate_op

definition on_gate :: "(gate \<Rightarrow> gate) \<Rightarrow> world \<Rightarrow> world" where
  "on_gate f w = w\<lparr>W_Gate := f (W_Gate w)\<rparr>"

definition gate_step :: "(string \<Rightarrow> string) \<Rightarrow> gate_tx \<Rightarrow> world \<Rightarrow> (gate_err, world) res" where
  "gate_step keccak t w = (case TxOp t of
     Pay block approved amount \<Rightarrow> pay keccak (TxTime t) block (TxSender t) approved amount w
   | SettleReport md i ok \<Rightarrow> (case check_report (G_Receiver (W_Gate w)) (TxSender t) md of Some e \<Rightarrow> Inl e | None \<Rightarrow> settle i ok w)
   | Reclaim i \<Rightarrow> reclaim (TxTime t) i w
   | SetPolicy p \<Rightarrow> if TxSender t \<noteq> RT_Owner (G_Receiver (W_Gate w)) then Inl NotTheOwner
       else (case validatePolicy p of Some e \<Rightarrow> Inl e | None \<Rightarrow> Inr (on_gate (\<lambda>g. g\<lparr>PolicyOf := p\<rparr>) w))
   | GateSetting x \<Rightarrow> map_res (\<lambda>r. on_gate (\<lambda>g. g\<lparr>G_Receiver := r\<rparr>) w) (configure x (TxSender t) (G_Receiver (W_Gate w)))
   | RegistryReport md heartbeat batch \<Rightarrow> (case check_report (RG_Receiver (W_Registry w)) (TxSender t) md of
       Some e \<Rightarrow> Inl e
     | None \<Rightarrow> Inr (w\<lparr>W_Registry := report_batch keccak (TxTime t) heartbeat batch (W_Registry w)\<rparr>))
   | RegistrySetting x \<Rightarrow> map_res (\<lambda>r. w\<lparr>W_Registry := (W_Registry w)\<lparr>RG_Receiver := r\<rparr>\<rparr>) (configure x (TxSender t) (RG_Receiver (W_Registry w)))
   | TokenTransfer to n \<Rightarrow> transfer (TxSender t) to n w)"

section \<open>Runs\<close>

text \<open>Transactions that do not revert, from anyone but the gate itself, which sends none; the payments they open hash
  texts of \<open>U\<close>. That keccak256 has no collision among the texts a run hashes is what the code relies on.\<close>

definition hashed :: "gate_tx \<Rightarrow> world \<Rightarrow> string set" where
  "hashed t w = (case TxOp t of Pay block approved amount \<Rightarrow> {escrow_preimage (TxSender t) amount block (GNonce (W_Gate w))} | _ \<Rightarrow> {})"

inductive gate_runs :: "(string \<Rightarrow> string) \<Rightarrow> string set \<Rightarrow> world \<Rightarrow> world \<Rightarrow> bool" for keccak U w where
  start: "gate_runs keccak U w w"
| tx: "gate_runs keccak U w w1 \<Longrightarrow> TxSender t \<noteq> G_Self (W_Gate w1) \<Longrightarrow> hashed t w1 \<subseteq> U \<Longrightarrow> gate_step keccak t w1 = Inr w2
    \<Longrightarrow> gate_runs keccak U w w2"

section \<open>Money owed\<close>

definition pending :: "(hash \<Rightarrow> escrow) \<Rightarrow> hash set" where
  "pending f = {i. E_Status (f i) = Pending}"

definition owed :: "(hash \<Rightarrow> escrow) \<Rightarrow> nat" where
  "owed f = (\<Sum>i\<in>pending f. E_Amount (f i))"

lemma pending_update: "pending (f(i := e)) = (if E_Status e = Pending then insert i (pending f) else pending f - {i})"
  by (auto simp: pending_def)

lemma owed_remove: "finite (pending f) \<Longrightarrow> i \<in> pending f \<Longrightarrow> owed f = E_Amount (f i) + (\<Sum>j\<in>pending f - {i}. E_Amount (f j))"
  by (simp add: owed_def sum.remove)

lemma owed_open:
  "finite (pending f) \<Longrightarrow> i \<notin> pending f \<Longrightarrow> E_Status e = Pending \<Longrightarrow> owed (f(i := e)) = owed f + E_Amount e"
proof -
  assume a: "finite (pending f)" "i \<notin> pending f" "E_Status e = Pending"
  have "(\<Sum>j\<in>pending f. E_Amount ((f(i := e)) j)) = owed f" unfolding owed_def using a(2) by (intro sum.cong) auto
  then show ?thesis using a by (simp add: owed_def pending_update)
qed

lemma owed_close:
  "finite (pending f) \<Longrightarrow> i \<in> pending f \<Longrightarrow> E_Status e \<noteq> Pending \<Longrightarrow> owed (f(i := e)) + E_Amount (f i) = owed f"
proof -
  assume a: "finite (pending f)" "i \<in> pending f" "E_Status e \<noteq> Pending"
  have "owed (f(i := e)) = (\<Sum>j\<in>pending f - {i}. E_Amount (f j))" unfolding owed_def pending_update using a(3) by (auto intro!: sum.cong)
  then show ?thesis using owed_remove [OF a(1,2)] by simp
qed

text \<open>A plain transfer.\<close>

lemma transfer_ok:
  assumes "transfer from to n w = Inr w'"
  shows "W_Gate w' = W_Gate w" and "n \<le> W_Tokens w from"
    and "W_Tokens w' x = W_Tokens w x - (if x = from then n else 0) + (if x = to then n else 0)"
  using assms by (auto simp: transfer_def Let_def split: if_splits)

section \<open>The invariant\<close>

text \<open>Every payment ever opened has an id made with a nonce already used, so the next id is new.\<close>

definition numbered_ids :: "(string \<Rightarrow> string) \<Rightarrow> string set \<Rightarrow> gate \<Rightarrow> bool" where
  "numbered_ids keccak U g \<longleftrightarrow> (\<forall>i. E_Status (Escrows g i) \<noteq> NonePay
     \<longrightarrow> (\<exists>payer amount block n. n < GNonce g \<and> n < 2 ^ 256 \<and> escrow_preimage payer amount block n \<in> U \<and> i = escrow_id keccak payer amount block n))"

definition gate_inv :: "(string \<Rightarrow> string) \<Rightarrow> string set \<Rightarrow> world \<Rightarrow> bool" where
  "gate_inv keccak U w \<longleftrightarrow> (let g = W_Gate w in
     finite (pending (Escrows g)) \<and> owed (Escrows g) \<le> W_Tokens w (G_Self g) \<and> numbered_ids keccak U g)"

lemma preimage_nonce:
  assumes "escrow_preimage p a b n = escrow_preimage p' a' b' n'" and "n < 2 ^ 256" and "n' < 2 ^ 256"
  shows "n = n'"
proof -
  have "(left_pad 32 p @ be_bytes 32 a @ be_bytes 32 b) @ be_bytes 32 n = (left_pad 32 p' @ be_bytes 32 a' @ be_bytes 32 b') @ be_bytes 32 n'"
    using assms(1) by (simp only: append_assoc escrow_preimage_def)
  then have "be_bytes 32 n = be_bytes 32 n'" by (metis append_eq_append_conv length_be_bytes)
  moreover have "n < 256 ^ 32" "n' < 256 ^ 32" using assms(2,3) by simp_all
  ultimately show ?thesis by (metis be_nat_be_bytes)
qed

lemma fresh_id:
  assumes "inj_on keccak U" and "numbered_ids keccak U g" and "GNonce g + 1 < 2 ^ 256" and "escrow_preimage p a b (GNonce g) \<in> U"
  shows "E_Status (Escrows g (escrow_id keccak p a b (GNonce g))) = NonePay"
proof (rule ccontr)
  assume "E_Status (Escrows g (escrow_id keccak p a b (GNonce g))) \<noteq> NonePay"
  then obtain p' a' b' n where n: "n < GNonce g" "n < 2 ^ 256" "escrow_preimage p' a' b' n \<in> U"
    "escrow_id keccak p a b (GNonce g) = escrow_id keccak p' a' b' n"
    using assms(2) unfolding numbered_ids_def by blast
  have e: "escrow_preimage p a b (GNonce g) = escrow_preimage p' a' b' n"
    using inj_onD [OF assms(1) n(4) [unfolded escrow_id_def] assms(4) n(3)] .
  have "GNonce g < 2 ^ 256" using assms(3) by linarith
  from preimage_nonce [OF e this n(2)] n(1) show False by simp
qed

text \<open>What each operation does to the payments and the gate's tokens.\<close>

lemma pay_effect:
  assumes "pay keccak now block payer approved amount w = Inr w'"
  obtains spent where "identify keccak now payer amount w = Inr spent" and "GNonce (W_Gate w) + 1 < 2 ^ 256"
    and "W_Gate w' = (W_Gate w)\<lparr>Spent := spent, GNonce := GNonce (W_Gate w) + 1, Escrows := (Escrows (W_Gate w))
       (escrow_id keccak payer amount block (GNonce (W_Gate w)) := \<lparr> E_Payer = payer, E_OpenedAt = now mod 2 ^ 64,
          E_MaxRisk = MaxRisk (PolicyOf (W_Gate w)), E_Status = Pending, E_Amount = amount \<rparr>)\<rparr>"
    and "payer \<noteq> G_Self (W_Gate w) \<Longrightarrow> W_Tokens w' (G_Self (W_Gate w)) = W_Tokens w (G_Self (W_Gate w)) + amount"
proof -
  let ?g = "W_Gate w"
  let ?i = "escrow_id keccak payer amount block (GNonce ?g)"
  obtain spent where sp: "identify keccak now payer amount w = Inr spent"
    using assms by (auto simp: pay_def res_simps split: if_splits)
  let ?g1 = "?g\<lparr>Spent := spent, GNonce := GNonce ?g + 1, Escrows := (Escrows ?g)(?i := \<lparr> E_Payer = payer, E_OpenedAt = now mod 2 ^ 64,
     E_MaxRisk = MaxRisk (PolicyOf ?g), E_Status = Pending, E_Amount = amount \<rparr>)\<rparr>"
  obtain w1 where w1: "GNonce ?g + 1 < 2 ^ 256" "transfer payer (G_Self ?g) amount (w\<lparr>W_Gate := ?g1\<rparr>) = Inr w1"
    "emitPaymentOpened (G_Self ?g) ?i payer amount w1 = Inr w'"
    using assms sp by (auto simp: pay_def res_simps Let_def not_le split: if_splits)
  have e: "W_Gate w' = W_Gate w1" "W_Tokens w' = W_Tokens w1" using w1(3) by (auto simp: emitPaymentOpened_def split: if_splits)
  have g: "W_Gate w1 = ?g1" using transfer_ok(1) [OF w1(2)] by simp
  show ?thesis using that [OF sp w1(1)] transfer_ok(3) [OF w1(2), of "G_Self ?g"] by (simp add: e g)
qed

lemma close_effect:
  assumes "close i st to w = Inr w'"
  shows "W_Gate w' = (W_Gate w)\<lparr>Escrows := (Escrows (W_Gate w))(i := (Escrows (W_Gate w) i)\<lparr>E_Status := st\<rparr>)\<rparr>"
    and "E_Amount (Escrows (W_Gate w) i) \<le> W_Tokens w (G_Self (W_Gate w))"
    and "W_Tokens w (G_Self (W_Gate w)) \<le> W_Tokens w' (G_Self (W_Gate w)) + E_Amount (Escrows (W_Gate w) i)"
  using assms by (auto simp: close_def transfer_def Let_def split: if_splits)

text \<open>The other operations leave the payments alone, and only the sender's tokens can go down.\<close>

lemma step_cases:
  assumes "gate_step keccak t w = Inr w'"
  obtains (pay) block approved amount where "TxOp t = Pay block approved amount" and "pay keccak (TxTime t) block (TxSender t) approved amount w = Inr w'"
    | (close) i st to where "E_Status (Escrows (W_Gate w) i) = Pending" and "st = Settled \<or> st = Refunded" and "close i st to w = Inr w'"
        and "to = E_Payer (Escrows (W_Gate w) i) \<or> st = Settled \<and> to = PayoutTo (W_Gate w)"
    | (other) "Escrows (W_Gate w') = Escrows (W_Gate w)" and "GNonce (W_Gate w') = GNonce (W_Gate w)" and "G_Self (W_Gate w') = G_Self (W_Gate w)"
        and "TxSender t \<noteq> G_Self (W_Gate w) \<Longrightarrow> W_Tokens w (G_Self (W_Gate w)) \<le> W_Tokens w' (G_Self (W_Gate w))"
proof (cases "TxOp t")
  case (SettleReport md i ok)
  then have s: "settle i ok w = Inr w'" using assms by (simp add: gate_step_def split: option.splits)
  then have "E_Status (Escrows (W_Gate w) i) = Pending" by (auto simp: settle_def Let_def split: if_splits)
  then show ?thesis
    using s by (intro close [of i "if ok then Settled else Refunded" "if ok then PayoutTo (W_Gate w) else E_Payer (Escrows (W_Gate w) i)"])
      (auto simp: settle_def Let_def)
next
  case (Reclaim i)
  then have r: "reclaim (TxTime t) i w = Inr w'" using assms by (simp add: gate_step_def)
  then have "E_Status (Escrows (W_Gate w) i) = Pending" "close i Refunded (E_Payer (Escrows (W_Gate w) i)) w = Inr w'"
    by (auto simp: reclaim_def Let_def split: if_splits)
  then show ?thesis using close [of i Refunded "E_Payer (Escrows (W_Gate w) i)"] by blast
next
  case (TokenTransfer to n)
  then have tr: "transfer (TxSender t) to n w = Inr w'" using assms by (simp add: gate_step_def)
  show ?thesis by (rule other) (use transfer_ok [OF tr] in auto)
next
  case (Pay block approved amount)
  then show ?thesis using assms pay by (simp add: gate_step_def)
qed (use assms other in \<open>auto simp: gate_step_def on_gate_def res_simps split: if_splits option.splits\<close>)

lemma step_self: "gate_step keccak t w = Inr w' \<Longrightarrow> G_Self (W_Gate w') = G_Self (W_Gate w)"
  by (erule step_cases) (auto elim!: pay_effect simp: close_effect(1))

lemma step_inv:
  assumes "inj_on keccak U" and "gate_step keccak t w = Inr w'" and "TxSender t \<noteq> G_Self (W_Gate w)" and "gate_inv keccak U w"
    and "hashed t w \<subseteq> U"
  shows "gate_inv keccak U w'"
proof -
  let ?g = "W_Gate w"
  have inv: "finite (pending (Escrows ?g))" "owed (Escrows ?g) \<le> W_Tokens w (G_Self ?g)" "numbered_ids keccak U ?g"
    using assms(4) by (simp_all add: gate_inv_def Let_def)
  show ?thesis
    using assms(2)
  proof (cases rule: step_cases)
    case (pay block approved amount)
    let ?i = "escrow_id keccak (TxSender t) amount block (GNonce ?g)"
    have u: "escrow_preimage (TxSender t) amount block (GNonce ?g) \<in> U" using assms(5) pay(1) by (simp add: hashed_def)
    from pay(2) show ?thesis
    proof (rule pay_effect)
      fix spent
      let ?e = "\<lparr> E_Payer = TxSender t, E_OpenedAt = TxTime t mod 2 ^ 64, E_MaxRisk = MaxRisk (PolicyOf ?g), E_Status = Pending, E_Amount = amount \<rparr>"
      assume n: "GNonce ?g + 1 < 2 ^ 256"
        and g': "W_Gate w' = ?g\<lparr>Spent := spent, GNonce := GNonce ?g + 1, Escrows := (Escrows ?g)(?i := ?e)\<rparr>"
        and tok: "TxSender t \<noteq> G_Self ?g \<Longrightarrow> W_Tokens w' (G_Self ?g) = W_Tokens w (G_Self ?g) + amount"
      have new: "?i \<notin> pending (Escrows ?g)" using fresh_id [OF assms(1) inv(3) n u] by (simp add: pending_def)
      have "owed ((Escrows ?g)(?i := ?e)) = owed (Escrows ?g) + amount" using owed_open [OF inv(1) new, of ?e] by simp
      then have o': "owed (Escrows (W_Gate w')) \<le> W_Tokens w' (G_Self (W_Gate w'))" using inv(2) tok [OF assms(3)] by (simp add: g')
      have f': "finite (pending (Escrows (W_Gate w')))" using inv(1) by (simp add: g' pending_update)
      have "GNonce ?g < 2 ^ 256" using n by linarith
      then have "numbered_ids keccak U (W_Gate w')"
        using inv(3) u unfolding numbered_ids_def g' by (auto simp del: power_numeral) (metis less_SucI)
      then show ?thesis using o' f' by (simp only: gate_inv_def Let_def)
    qed
  next
    case (close i st to)
    let ?f = "Escrows ?g"
    let ?f' = "?f(i := (?f i)\<lparr>E_Status := st\<rparr>)"
    note e = close_effect [OF close(3)]
    have i: "i \<in> pending ?f" using close(1) by (simp add: pending_def)
    have st: "st \<noteq> Pending" "st \<noteq> NonePay" using close(2) by auto
    have "owed ?f' + E_Amount (?f i) = owed ?f" using owed_close [OF inv(1) i, of "(?f i)\<lparr>E_Status := st\<rparr>"] st(1) by simp
    then have "owed ?f' \<le> W_Tokens w' (G_Self ?g)" using inv(2) e(2,3) by linarith
    moreover have "finite (pending ?f')" using inv(1) by (simp add: pending_update)
    moreover have "numbered_ids keccak U (W_Gate w')" using inv(3) close(1) unfolding numbered_ids_def e(1) by auto
    ultimately show ?thesis by (simp add: gate_inv_def Let_def e(1))
  next
    case other
    then show ?thesis using inv assms(3) by (simp add: gate_inv_def Let_def numbered_ids_def)
  qed
qed

text \<open>The terms of a payment, once opened, and its outcome, once closed.\<close>

definition keeps_payment :: "escrow \<Rightarrow> escrow \<Rightarrow> bool" where
  "keeps_payment e e' \<longleftrightarrow> E_Status e \<noteq> NonePay \<longrightarrow>
     E_Status e' \<noteq> NonePay \<and> E_Payer e' = E_Payer e \<and> E_Amount e' = E_Amount e \<and> E_MaxRisk e' = E_MaxRisk e \<and> E_OpenedAt e' = E_OpenedAt e
     \<and> (E_Status e \<noteq> Pending \<longrightarrow> E_Status e' = E_Status e)"

lemma keeps_trans: "keeps_payment a b \<Longrightarrow> keeps_payment b c \<Longrightarrow> keeps_payment a c"
  by (auto simp: keeps_payment_def)

lemma step_keeps:
  assumes "inj_on keccak U" and "gate_step keccak t w = Inr w'" and "gate_inv keccak U w" and "hashed t w \<subseteq> U"
  shows "keeps_payment (Escrows (W_Gate w) i) (Escrows (W_Gate w') i)"
  using assms(2)
proof (cases rule: step_cases)
  case (pay block approved amount)
  from pay(2) show ?thesis
  proof (rule pay_effect)
    fix spent
    assume n: "GNonce (W_Gate w) + 1 < 2 ^ 256"
    assume g': "W_Gate w' = (W_Gate w)\<lparr>Spent := spent, GNonce := GNonce (W_Gate w) + 1, Escrows := (Escrows (W_Gate w))
       (escrow_id keccak (TxSender t) amount block (GNonce (W_Gate w)) := \<lparr> E_Payer = TxSender t, E_OpenedAt = TxTime t mod 2 ^ 64,
          E_MaxRisk = MaxRisk (PolicyOf (W_Gate w)), E_Status = Pending, E_Amount = amount \<rparr>)\<rparr>"
    have "numbered_ids keccak U (W_Gate w)" using assms(3) by (simp add: gate_inv_def Let_def)
    moreover have "escrow_preimage (TxSender t) amount block (GNonce (W_Gate w)) \<in> U" using assms(4) pay(1) by (simp add: hashed_def)
    ultimately have "E_Status (Escrows (W_Gate w) (escrow_id keccak (TxSender t) amount block (GNonce (W_Gate w)))) = NonePay"
      by (rule fresh_id [OF assms(1) _ n])
    then show ?thesis by (auto simp: g' keeps_payment_def)
  qed
next
  case (close j st to)
  then show ?thesis using close_effect(1) [OF close(3)] by (auto simp: keeps_payment_def)
qed (simp add: keeps_payment_def)

lemma runs_inv:
  assumes "gate_runs keccak U w w'" and "inj_on keccak U" and "gate_inv keccak U w"
  shows "gate_inv keccak U w' \<and> G_Self (W_Gate w') = G_Self (W_Gate w) \<and> keeps_payment (Escrows (W_Gate w) i) (Escrows (W_Gate w') i)"
  using assms(1)
proof induction
  case start
  then show ?case using assms(3) by (simp add: keeps_payment_def)
next
  case (tx w1 t w2)
  then show ?case using step_inv [OF assms(2) tx.hyps(4,2)] step_self [OF tx.hyps(4)] step_keeps [OF assms(2) tx.hyps(4), of i] tx.hyps(3) keeps_trans by metis
qed

lemma deployed_inv: "deploy self forwarder rg merchant payout p tokens = Inr w \<Longrightarrow> gate_inv keccak U w \<and> G_Self (W_Gate w) = self"
  by (auto simp: deploy_def new_gate_def res_simps gate_inv_def pending_def owed_def no_escrow_def numbered_ids_def split: if_splits option.splits)

section \<open>Identity\<close>

definition level_for :: "policy \<Rightarrow> nat \<Rightarrow> 8 word" where
  "level_for p amount = (if Threshold p \<le> amount then LevelAbove p else LevelBelow p)"

lemma isValid_True:
  "isValid keccak now rg gate wallet l = Inr True \<longleftrightarrow> (let a = Attestations rg (att_key keccak gate wallet) in
     l \<le> ALevel a \<and> 0 < ALevel a \<and> \<not> Revoked rg (ANullifier a) \<and> now < unat (AExpiry a)
     \<and> LastHeartbeat rg \<le> now \<and> now - LastHeartbeat rg < MAX_STALE)"
  by (auto simp: isValid_def Let_def not_less)

lemma isValid_revoked: "Revoked rg (nullifierOf keccak rg gate wallet) \<Longrightarrow> isValid keccak now rg gate wallet l = Inr False"
  by (simp add: isValid_def nullifierOf_def Let_def)

lemma identify_ok:
  assumes "identify keccak now payer amount w = Inr spent" and "0 < level_for (PolicyOf (W_Gate w)) amount"
  shows "isValid keccak now (W_Registry w) (G_Self (W_Gate w)) payer (level_for (PolicyOf (W_Gate w)) amount) = Inr True"
    and "SpentAmount (spent (nullifierOf keccak (W_Registry w) (G_Self (W_Gate w)) payer)) < Threshold (PolicyOf (W_Gate w))
      \<or> isValid keccak now (W_Registry w) (G_Self (W_Gate w)) payer (LevelAbove (PolicyOf (W_Gate w))) = Inr True"
    and "amount \<le> SpentAmount (spent (nullifierOf keccak (W_Registry w) (G_Self (W_Gate w)) payer))"
    and "now - WindowStart (Spent (W_Gate w) (nullifierOf keccak (W_Registry w) (G_Self (W_Gate w)) payer)) < SPEND_WINDOW
      \<Longrightarrow> SpentAmount (spent (nullifierOf keccak (W_Registry w) (G_Self (W_Gate w)) payer))
        = SpentAmount (Spent (W_Gate w) (nullifierOf keccak (W_Registry w) (G_Self (W_Gate w)) payer)) + amount"
  using assms
  by (auto simp: identify_def level_for_def [symmetric] Let_def res_simps word_gt_0 split: if_splits)

lemma pay_refused:
  assumes "Revoked (W_Registry w) (nullifierOf keccak (W_Registry w) (G_Self (W_Gate w)) payer)"
    and "0 < level_for (PolicyOf (W_Gate w)) amount" and "0 < amount"
  shows "pay keccak now block payer approved amount w = Inl NotVerified"
  using assms isValid_revoked [OF assms(1)]
  by (simp add: pay_def identify_def level_for_def [symmetric] Let_def word_gt_0)

section \<open>The webhook's report\<close>

definition revocation :: "string \<Rightarrow> entry list" where
  "revocation s = [\<lparr> EKind = Revoke, EGate = zero_bytes 20, EWallet = zero_bytes 20, EAtt = zero_attestation, ENullifier = HexToHash s \<rparr>]"

lemma webhook_report:
  assumes "onRevocationWebhook dn cfg now input = (res, Some sub)"
  obtains s encoded where "Option.bind (unmarshal input) (struct_of revocation_of) = Some s"
    and "DN_Pack dn attestationReportArgs [VUint (unat (word_of_int (unix_sec now) :: 64 word)), VList (map entry_value (revocation s))] = Inr encoded"
    and "DN_Generate dn \<lparr> EncodedPayload = encoded, EncoderName = ''evm'', SigningAlgo = ''ecdsa'', HashingAlgo = ''keccak256'' \<rparr> = Inr (Report sub)"
    and "Receiver sub = HexToAddress (RegistryAddress cfg)"
  using assms
  by (auto simp: onRevocationWebhook_def ReportAttestations_def generateAndWrite_def revocation_def Let_def
      split: option.splits sum.splits)

lemma report_revokes:
  assumes "gate_step keccak t w = Inr w'" and "TxOp t = RegistryReport md heartbeat (revocation s)"
  shows "Revoked (W_Registry w') (HexToHash s)" and "W_Gate w' = W_Gate w"
  using assms by (auto simp: gate_step_def report_batch_def revocation_def apply_entry_def split: option.splits)

section \<open>Properties\<close>

text \<open>C14 The gate pays every payment once and always can. From its deployment on, whatever transactions arrive from
  anyone, the gate holds at least the sum of its pending payments; and a payment once opened keeps its payer,
  amount, opening time and risk limit, and once settled or refunded stays so, so that no report and no reclaim can pay it
  again. The payment ids are unlike one another as long as keccak has no collision among the texts the run hashes: each has a
  nonce of its own.\<close>

theorem gate_pays_once_and_can:
  assumes "inj_on keccak U" and "deploy self forwarder rg merchant payout p tokens = Inr w0"
    and "gate_runs keccak U w0 w" and "gate_runs keccak U w w'"
  shows "owed (Escrows (W_Gate w)) \<le> W_Tokens w self \<and> keeps_payment (Escrows (W_Gate w) i) (Escrows (W_Gate w') i)"
proof -
  have "gate_inv keccak U w \<and> G_Self (W_Gate w) = self" using runs_inv [OF assms(3,1)] deployed_inv [OF assms(2)] by auto
  moreover from this have "keeps_payment (Escrows (W_Gate w) i) (Escrows (W_Gate w') i)" using runs_inv [OF assms(4,1), of i] by blast
  ultimately show ?thesis by (auto simp: gate_inv_def Let_def)
qed

text \<open>C18 A payment that needs identity is admitted only with a live one: the payer's attestation for this gate has the level the
  policy asks for the amount, is neither expired nor revoked, and the registry heard from its monitors within
  48 hours; and the person's spending over the running day, this payment included, stays below the threshold unless the attestation
  has the level above it.\<close>

theorem admitted_payer_is_identified:
  assumes "pay keccak now block payer approved amount w = Inr w'" and "0 < level_for (PolicyOf (W_Gate w)) amount"
  shows "let g = W_Gate w; rg = W_Registry w; a = Attestations rg (att_key keccak (G_Self g) payer); p = PolicyOf g;
      before = Spent g (ANullifier a); after = Spent (W_Gate w') (ANullifier a) in
    level_for p amount \<le> ALevel a \<and> \<not> Revoked rg (ANullifier a) \<and> now < unat (AExpiry a) \<and> now < LastHeartbeat rg + MAX_STALE
    \<and> SpentAmount after = (if now - WindowStart before < SPEND_WINDOW then SpentAmount before else 0) + amount
    \<and> (SpentAmount after < Threshold p \<or> LevelAbove p \<le> ALevel a)"
proof -
  obtain spent where sp: "identify keccak now payer amount w = Inr spent" and g': "Spent (W_Gate w') = spent"
    by (rule pay_effect [OF assms(1)]) simp
  note i = identify_ok [OF sp assms(2)]
  have n: "nullifierOf keccak (W_Registry w) (G_Self (W_Gate w)) payer
      = ANullifier (Attestations (W_Registry w) (att_key keccak (G_Self (W_Gate w)) payer))" by (simp add: nullifierOf_def)
  have fresh: "SpentAmount (spent (ANullifier (Attestations (W_Registry w) (att_key keccak (G_Self (W_Gate w)) payer)))) = amount"
    if "\<not> now - WindowStart (Spent (W_Gate w) (ANullifier (Attestations (W_Registry w) (att_key keccak (G_Self (W_Gate w)) payer)))) < SPEND_WINDOW"
    using sp assms(2) that n by (auto simp: identify_def level_for_def [symmetric] Let_def res_simps word_gt_0 split: if_splits)
  show ?thesis using i(1,2) i(4) fresh unfolding isValid_True n g' Let_def by (auto simp: less_diff_conv2)
qed

text \<open>C17 A revocation stops the person, not the wallet. What the revocation webhook writes to the registry is a report
  that revokes the nullifier of its request; and right after any transaction in which the registry accepts this
  report, no wallet attested under that nullifier can open a payment that needs identity, at any time and for any
  amount.\<close>

theorem revoked_person_cannot_pay:
  assumes "onRevocationWebhook dn cfg now input = (res, Some sub)"
  shows "\<exists>s encoded. let heartbeat = unat (word_of_int (unix_sec now) :: 64 word) in
    DN_Pack dn attestationReportArgs [VUint heartbeat, VList (map entry_value (revocation s))] = Inr encoded
    \<and> DN_Generate dn \<lparr> EncodedPayload = encoded, EncoderName = ''evm'', SigningAlgo = ''ecdsa'', HashingAlgo = ''keccak256'' \<rparr> = Inr (Report sub)
    \<and> Option.bind (unmarshal input) (struct_of revocation_of) = Some s
    \<and> (\<forall>keccak t md w w' now' block wallet approved amount.
        TxOp t = RegistryReport md heartbeat (revocation s) \<longrightarrow> gate_step keccak t w = Inr w'
        \<longrightarrow> nullifierOf keccak (W_Registry w') (G_Self (W_Gate w')) wallet = HexToHash s
        \<longrightarrow> 0 < amount \<longrightarrow> 0 < level_for (PolicyOf (W_Gate w')) amount
        \<longrightarrow> pay keccak now' block wallet approved amount w' = Inl NotVerified)"
proof -
  obtain s encoded where s: "Option.bind (unmarshal input) (struct_of revocation_of) = Some s"
    "DN_Pack dn attestationReportArgs [VUint (unat (word_of_int (unix_sec now) :: 64 word)), VList (map entry_value (revocation s))] = Inr encoded"
    "DN_Generate dn \<lparr> EncodedPayload = encoded, EncoderName = ''evm'', SigningAlgo = ''ecdsa'', HashingAlgo = ''keccak256'' \<rparr> = Inr (Report sub)"
    by (rule webhook_report [OF assms])
  have "pay keccak now' block wallet approved amount w' = Inl NotVerified"
    if "TxOp t = RegistryReport md heartbeat (revocation s)" "gate_step keccak t w = Inr w'"
      "nullifierOf keccak (W_Registry w') (G_Self (W_Gate w')) wallet = HexToHash s" "0 < amount" "0 < level_for (PolicyOf (W_Gate w')) amount"
    for keccak t md heartbeat w w' now' block wallet approved amount
    using pay_refused [of w' keccak wallet amount] report_revokes(1) [OF that(2,1)] that(3-5) by simp
  then show ?thesis using s unfolding Let_def by blast
qed

section \<open>A sample gate\<close>

definition sample_policy :: policy where
  "sample_policy = \<lparr> LevelBelow = 1, LevelAbove = 2, Threshold = 100, MaxRisk = 50 \<rparr>"

definition sample_att :: attestation where
  "sample_att = \<lparr> ANullifier = HexToHash ''ab'', ALevel = 1, AExpiry = 1000 \<rparr>"

definition sample_receiver :: receiver where
  "sample_receiver = \<lparr> RT_Owner = ''merchant'', RT_Forwarder = ''forwarder'', RT_Author = address0, RT_Name = name0, RT_ID = id0 \<rparr>"

definition sample_registry :: registry where
  "sample_registry = \<lparr> RG_Receiver = sample_receiver, LastHeartbeat = 100, Attestations = (\<lambda>_. sample_att), Revoked = (\<lambda>_. False) \<rparr>"

definition sample_gate :: gate where
  "sample_gate = \<lparr> G_Receiver = sample_receiver, G_Self = ''gate'', PayoutTo = ''payout'', PolicyOf = sample_policy, Escrows = (\<lambda>_. no_escrow),
     Spent = (\<lambda>_. \<lparr> WindowStart = 0, SpentAmount = 0 \<rparr>), GNonce = 0 \<rparr>"

definition sample_world :: world where
  "sample_world = \<lparr> W_Gate = sample_gate, W_Registry = sample_registry, W_IsGate = (\<lambda>_. False)(''gate'' := True), W_Opened = [],
     W_Tokens = (\<lambda>_. 0)(''payer'' := 50) \<rparr>"

lemma sample_deploy: "deploy ''gate'' ''forwarder'' sample_registry ''merchant'' ''payout'' sample_policy ((\<lambda>_. 0)(''payer'' := 50)) = Inr sample_world"
proof -
  have "address0 \<noteq> ''merchant''" "address0 \<noteq> ''forwarder''" "address0 \<noteq> ''payout''" by (simp_all add: address0_def zero_bytes_def numeral_eq_Suc)
  then have a: "''merchant'' \<noteq> address0" "''forwarder'' \<noteq> address0" "''payout'' \<noteq> address0" by (simp_all only: not_sym) 
  have "validatePolicy sample_policy = None" by (simp add: validatePolicy_def sample_policy_def MAX_THRESHOLD_def MAX_RISK_def)
  then show ?thesis by (simp add: deploy_def new_gate_def new_receiver_def a sample_world_def sample_gate_def sample_receiver_def)
qed

lemma sample_pay: "\<exists>w. pay id 200 1 ''payer'' True 40 sample_world = Inr w \<and> W_Tokens w ''gate'' = 40
    \<and> Escrows (W_Gate w) (escrow_id id ''payer'' 40 1 0) = \<lparr> E_Payer = ''payer'', E_OpenedAt = 200, E_MaxRisk = 50, E_Status = Pending, E_Amount = 40 \<rparr>"
  by (simp add: pay_def identify_def isValid_def Let_def sample_world_def sample_gate_def sample_policy_def sample_registry_def sample_att_def
      nullifierOf_def transfer_def emitPaymentOpened_def SPEND_WINDOW_def MAX_STALE_def)

theorem gate_pays_once_and_can_witness:
  "\<forall>i. \<exists>w. gate_runs id UNIV sample_world w \<and> owed (Escrows (W_Gate w)) \<le> W_Tokens w ''gate'' \<and> W_Tokens w ''gate'' = 40
     \<and> keeps_payment (Escrows (W_Gate sample_world) i) (Escrows (W_Gate w) i)"
proof
  fix i
  obtain w where w: "pay id 200 1 ''payer'' True 40 sample_world = Inr w" "W_Tokens w ''gate'' = 40" using sample_pay by blast
  let ?t = "\<lparr> TxSender = ''payer'', TxTime = 200, TxOp = Pay 1 True 40 \<rparr>"
  have "gate_step id ?t sample_world = Inr w" using w(1) by (simp add: gate_step_def)
  moreover have "TxSender ?t \<noteq> G_Self (W_Gate sample_world)" by (simp add: sample_world_def sample_gate_def)
  ultimately have run: "gate_runs id UNIV sample_world w" by (intro gate_runs.tx [OF gate_runs.start, of ?t]) simp_all
  from gate_pays_once_and_can [OF _ sample_deploy run gate_runs.start] gate_pays_once_and_can [OF _ sample_deploy gate_runs.start run, of i] run w(2)
  show "\<exists>w. gate_runs id UNIV sample_world w \<and> owed (Escrows (W_Gate w)) \<le> W_Tokens w ''gate'' \<and> W_Tokens w ''gate'' = 40
     \<and> keeps_payment (Escrows (W_Gate sample_world) i) (Escrows (W_Gate w) i)" by auto
qed

theorem admitted_payer_is_identified_witness:
  "\<exists>w. pay id 200 1 ''payer'' True 40 sample_world = Inr w \<and> SpentAmount (Spent (W_Gate w) (ANullifier sample_att)) = 40 \<and> 1 \<le> ALevel sample_att"
proof -
  obtain w where w: "pay id 200 1 ''payer'' True 40 sample_world = Inr w" using sample_pay by blast
  have l: "level_for (PolicyOf (W_Gate sample_world)) 40 = 1" by (simp add: level_for_def sample_world_def sample_gate_def sample_policy_def)
  then have "0 < level_for (PolicyOf (W_Gate sample_world)) 40" by simp
  from admitted_payer_is_identified [OF w this] w l show ?thesis
    by (simp add: Let_def sample_world_def sample_registry_def sample_gate_def)
qed

definition sample_webhook :: string where
  "sample_webhook = ''{'' @ [quote] @ ''nullifier'' @ [quote] @ '':'' @ [quote] @ ''ab'' @ [quote] @ ''}''"

theorem revoked_person_cannot_pay_witness:
  "\<exists>w'. gate_step id \<lparr> TxSender = ''forwarder'', TxTime = 150, TxOp = RegistryReport [] 120 (revocation ''ab'') \<rparr> sample_world = Inr w'
     \<and> pay id 200 1 ''payer'' True 40 w' = Inl NotVerified"
proof -
  let ?t = "\<lparr> TxSender = ''forwarder'', TxTime = 150, TxOp = RegistryReport [] 120 (revocation ''ab'') \<rparr>"
  have m: "Option.bind (unmarshal sample_webhook) (struct_of revocation_of) = Some ''ab''" by code_simp
  define now :: time where "now = from_unix 120"
  have h: "unat (word_of_int (unix_sec now) :: 64 word) = 120" by (simp add: now_def unix_sec_def from_unix_def)
  obtain res sub where r: "onRevocationWebhook sample_don sample_wconfig now sample_webhook = (res, Some sub)"
    using m by (auto simp: onRevocationWebhook_def sample_don_def ReportAttestations_def generateAndWrite_def Let_def)
  have all: "\<forall>keccak t md w w' now' block wallet approved amount. TxOp t = RegistryReport md 120 (revocation ''ab'') \<longrightarrow> gate_step keccak t w = Inr w'
      \<longrightarrow> nullifierOf keccak (W_Registry w') (G_Self (W_Gate w')) wallet = HexToHash ''ab'' \<longrightarrow> 0 < amount
      \<longrightarrow> 0 < level_for (PolicyOf (W_Gate w')) amount \<longrightarrow> pay keccak now' block wallet approved amount w' = Inl NotVerified"
    using revoked_person_cannot_pay [OF r] unfolding m h Let_def by (elim exE conjE) (simp only: option.inject)
  let ?w = "sample_world\<lparr>W_Registry := report_batch id 150 120 (revocation ''ab'') sample_registry\<rparr>"
  have st: "gate_step id ?t sample_world = Inr ?w"
    by (simp add: gate_step_def sample_world_def check_report_def) (simp add: sample_registry_def sample_receiver_def)
  have n: "nullifierOf id (W_Registry ?w) (G_Self (W_Gate ?w)) ''payer'' = HexToHash ''ab''"
    by (simp add: nullifierOf_def report_batch_def revocation_def apply_entry_def sample_registry_def) (simp add: sample_att_def)
  have l: "0 < level_for (PolicyOf (W_Gate ?w)) 40" by (simp add: level_for_def sample_world_def sample_gate_def sample_policy_def)
  have "pay id 200 1 ''payer'' True 40 ?w = Inl NotVerified"
    by (rule all [rule_format, OF _ st n _ l]) simp_all
  with st show ?thesis by blast
qed

end
