(* ===== verification/Relay.thy ===== *)
theory Relay
  imports Attestor "HOL-Library.Sublist"
begin

text \<open>
  The relay between the payer's browser and the enclave: relay/src (lib/queue.ts, lib/rateLimit.ts, lib/sumsub.ts and
  the two routes), and what the workflow of theory Attestor gets from it. Its state is two maps in memory; a
  request gives a response and the maps afterwards. A value of \<open>JSON.parse\<close> is a \<open>jval\<close> whose numbers carry
  the text \<open>JSON.stringify\<close> prints, and a string its UTF-8 bytes. Parameters: \<open>JSON.parse\<close> and \<open>Number\<close> (record
  \<open>js\<close>), viem's \<open>isAddress\<close> (documented: 0x and 40 hex digits), \<open>fetch\<close>, and the clock at each reading.
  Numbers of minutes are integers; a gate or wallet that is not a string is refused (viem would look at its text).

  The lemmas: what \<open>JSON.stringify\<close> writes, the workflow's decoder reads back; the queue holds one item per gate and
  wallet, in lower case; what a stretch of events leaves in it is the last accepted request of each pair (\<open>latest\<close>); so a drain
  hands those still alive over in their order, without any proof of World ID, and one
  item with a level that is no byte makes every drain fail while it lives.
\<close>

section \<open>JSON.stringify\<close>

fun stringify :: "jval \<Rightarrow> string" where
  "stringify (JBool b) = (if b then ''true'' else ''false'')"
| "stringify (JNumber s) = s"
| "stringify (JStr s) = write_string s"
| "stringify (JList xs) = write_list (map stringify xs)"
| "stringify (JObj kvs) = write_object (map (\<lambda>(k, v). (k, stringify v)) kvs)"
| "stringify _ = ''null''"

text \<open>The values of \<open>JSON.parse\<close>.\<close>

fun js_value :: "jval \<Rightarrow> bool" where
  "js_value JNull = True"
| "js_value (JBool b) = True"
| "js_value (JNumber s) = (parse_number s = Some (s, []))"
| "js_value (JStr s) = valid_utf8 s"
| "js_value (JList xs) = list_all js_value xs"
| "js_value (JObj kvs) = (distinct (keys kvs) \<and> list_all (\<lambda>(k, v). valid_utf8 k \<and> js_value v) kvs)"
| "js_value _ = False"

record js =
  JS_Parse :: "string \<Rightarrow> jval option"
  JS_Number :: "string \<Rightarrow> int option"

section \<open>The queue (lib/queue.ts)\<close>

definition TTL_SECONDS :: int where "TTL_SECONDS = 90"

record queue_item =
  QI_Kind :: jval
  QI_Gate :: string
  QI_Wallet :: string
  QI_Level :: jval
  EnqueuedAt :: int

definition keyOf :: "string \<Rightarrow> string \<Rightarrow> string" where
  "keyOf gate wallet = to_lower gate @ '':'' @ to_lower wallet"

definition enqueue :: "int \<Rightarrow> jval \<Rightarrow> string \<Rightarrow> string \<Rightarrow> jval \<Rightarrow> (string, queue_item) gomap \<Rightarrow> (string, queue_item) gomap" where
  "enqueue now k g w level q = (let gate = to_lower g; wallet = to_lower w in
     AList.update (keyOf gate wallet)
       \<lparr> QI_Kind = k, QI_Gate = gate, QI_Wallet = wallet, QI_Level = level, EnqueuedAt = now \<rparr> q)"

text \<open>Sorted by gate and wallet: \<open>localeCompare\<close> on lower-case hex is the order of the bytes.\<close>

definition pair_of :: "queue_item \<Rightarrow> string \<times> string" where
  "pair_of i = (QI_Gate i, QI_Wallet i)"

definition snapshot_items :: "int \<Rightarrow> int \<Rightarrow> (string, queue_item) gomap \<Rightarrow> queue_item list \<times> (string, queue_item) gomap" where
  "snapshot_items minute now q =
     (let cutoff = minute * 60; live = filter (\<lambda>(k, i). \<not> TTL_SECONDS < now - EnqueuedAt i) q
      in (sort_key pair_of (filter (\<lambda>i. EnqueuedAt i < cutoff) (map snd live)), live))"

section \<open>The queue's endpoint (api/relay/queue/route.ts)\<close>

record reply =
  R_Status :: nat
  R_Body :: string

definition js_reply :: "nat \<Rightarrow> (string \<times> jval) list \<Rightarrow> reply" where
  "js_reply st m = \<lparr> R_Status = st, R_Body = stringify (JObj m) \<rparr>"

definition thrown :: reply where
  "thrown = \<lparr> R_Status = 500, R_Body = [] \<rparr>"

definition falsy :: "jval \<Rightarrow> bool" where
  "falsy v \<longleftrightarrow> v = JNull \<or> v = JBool False \<or> v = JNumber ''0'' \<or> v = JStr []"

definition present :: "string \<Rightarrow> (string \<times> jval) list \<Rightarrow> bool" where
  "present f m \<longleftrightarrow> (case map_of m f of None \<Rightarrow> False | Some v \<Rightarrow> \<not> falsy v)"

definition js_address :: "(string \<Rightarrow> bool) \<Rightarrow> string \<Rightarrow> (string \<times> jval) list \<Rightarrow> string option" where
  "js_address isAddress f m = (case map_of m f of Some (JStr s) \<Rightarrow> if isAddress s then Some s else None | _ \<Rightarrow> None)"

text \<open>A body that is no object has no members; reading one of \<open>null\<close> throws, as does a body that does not parse.\<close>

definition members_of :: "jval \<Rightarrow> (string \<times> jval) list" where
  "members_of v = (case v of JObj m \<Rightarrow> m | _ \<Rightarrow> [])"

definition queue_POST :: "js \<Rightarrow> (string \<Rightarrow> bool) \<Rightarrow> int \<Rightarrow> string \<Rightarrow> (string, queue_item) gomap \<Rightarrow> reply \<times> (string, queue_item) gomap" where
  "queue_POST j isAddress now body q = (case JS_Parse j body of
     None \<Rightarrow> (thrown, q)
   | Some JNull \<Rightarrow> (thrown, q)
   | Some v \<Rightarrow> let m = members_of v in
       if \<not> present ''kind'' m \<or> \<not> present ''gate'' m \<or> \<not> present ''wallet'' m \<or> map_of m ''level'' = None
       then (js_reply 400 [(''error'', JStr ''kind, gate, wallet and level are required'')], q)
       else (case (js_address isAddress ''gate'' m, js_address isAddress ''wallet'' m) of
         (Some gate, Some wallet) \<Rightarrow>
           (js_reply 202 [], enqueue now (the (map_of m ''kind'')) gate wallet (the (map_of m ''level'')) q)
       | _ \<Rightarrow> (js_reply 400 [(''error'', JStr ''gate and wallet must be addresses'')], q)))"

definition item_json :: "queue_item \<Rightarrow> jval" where
  "item_json i = JObj [(''kind'', QI_Kind i), (''gate'', JStr (QI_Gate i)), (''wallet'', JStr (QI_Wallet i)), (''level'', QI_Level i),
     (''enqueuedAt'', JNumber (int_dec (EnqueuedAt i)))]"

definition queue_GET :: "js \<Rightarrow> string \<Rightarrow> int \<Rightarrow> string option \<Rightarrow> string option \<Rightarrow> (string, queue_item) gomap
    \<Rightarrow> reply \<times> (string, queue_item) gomap" where
  "queue_GET j fetchToken now auth minuteParam q =
     (if auth \<noteq> Some (''Bearer '' @ fetchToken) then (js_reply 401 [], q)
      else let bad = (js_reply 400 [(''error'', JStr ''minute is required'')], q) in
        case minuteParam of None \<Rightarrow> bad | Some p \<Rightarrow>
        if p = [] then bad
        else (case JS_Number j p of
          None \<Rightarrow> bad
        | Some minute \<Rightarrow> let (items, q') = snapshot_items minute now q in
            (js_reply 200 [(''minute'', JNumber (int_dec minute)), (''items'', JList (map item_json items))], q')))"

section \<open>Session tokens (lib/rateLimit.ts, lib/sumsub.ts, api/relay/token/route.ts)\<close>

definition WINDOW_MS :: int where "WINDOW_MS = 60 * 60 * 1000"
definition MAX_PER_WINDOW :: nat where "MAX_PER_WINDOW = 5"

definition allow :: "string \<Rightarrow> int \<Rightarrow> (string \<Rightarrow> int list) \<Rightarrow> bool \<times> (string \<Rightarrow> int list)" where
  "allow ip now hits = (let recent = filter (\<lambda>t. now - t < WINDOW_MS) (hits ip) in
     if MAX_PER_WINDOW \<le> length recent then (False, hits(ip := recent)) else (True, hits(ip := recent @ [now])))"

record relay_env =
  RL_SessionSecret :: string
  RL_BaseURL :: string
  RL_AppToken :: string
  RL_SecretKey :: string
  RL_LevelName :: string

type_synonym js_fetch = "http_request \<Rightarrow> reply option"

definition sign :: "relay_env \<Rightarrow> string \<Rightarrow> string \<Rightarrow> string \<Rightarrow> string \<Rightarrow> string" where
  "sign env ts mth path body = hex_encode (hmac (RL_SecretKey env) (ts @ mth @ path @ body))"

definition sumsubRequest :: "relay_env \<Rightarrow> js_fetch \<Rightarrow> int \<Rightarrow> string \<Rightarrow> string \<Rightarrow> string \<Rightarrow> reply option" where
  "sumsubRequest env net now mth path payload = (let ts = int_dec now in
     net \<lparr> HQ_Method = mth, HQ_URL = RL_BaseURL env @ path, HQ_Body = payload,
       HQ_Headers = [(''X-App-Token'', RL_AppToken env), (''X-App-Access-Sig'', sign env ts mth path payload), (''X-App-Access-Ts'', ts)]
         @ (if payload \<noteq> [] then [(''Content-Type'', ''application/json'')] else []) \<rparr>)"

definition uri_plain :: "char \<Rightarrow> bool" where
  "uri_plain c \<longleftrightarrow> (let n = of_char c :: nat in 48 \<le> n \<and> n \<le> 57 \<or> 65 \<le> n \<and> n \<le> 90 \<or> 97 \<le> n \<and> n \<le> 122) \<or> c \<in> set ''-_.!~*()'' \<or> c = CHR 0x27"

definition uri_hex :: "nat \<Rightarrow> char" where
  "uri_hex d = char_of (if d < 10 then 48 + d else 55 + d)"

definition encodeURIComponent :: "string \<Rightarrow> string" where
  "encodeURIComponent s = concat (map (\<lambda>c. if uri_plain c then [c] else [CHR ''%'', uri_hex (of_char c div 16), uri_hex (of_char c mod 16)]) s)"

text \<open>False where the code throws.\<close>

definition createApplicant :: "relay_env \<Rightarrow> js_fetch \<Rightarrow> int \<Rightarrow> string \<Rightarrow> bool" where
  "createApplicant env net now uid =
     (case sumsubRequest env net now ''POST'' (''/resources/applicants?levelName='' @ encodeURIComponent (RL_LevelName env))
         (stringify (JObj [(''externalUserId'', JStr uid)])) of
        None \<Rightarrow> False
      | Some resp \<Rightarrow> R_Status resp = 201 \<or> R_Status resp = 409
          \<or> 400 \<le> R_Status resp \<and> R_Status resp < 500 \<and> sublist ''already exists'' (R_Body resp))"

text \<open>The token as the response carries it: a missing one is left out by \<open>JSON.stringify\<close>.\<close>

definition mintAccessToken :: "js \<Rightarrow> relay_env \<Rightarrow> js_fetch \<Rightarrow> int \<Rightarrow> string \<Rightarrow> (string \<times> jval) list option" where
  "mintAccessToken j env net now uid =
     (case sumsubRequest env net now ''POST'' (''/resources/accessTokens?userId='' @ encodeURIComponent uid @ ''&levelName=''
          @ encodeURIComponent (RL_LevelName env) @ ''&ttlInSecs=600'') [] of
        None \<Rightarrow> None
      | Some resp \<Rightarrow> if \<not> (200 \<le> R_Status resp \<and> R_Status resp < 300) then None
          else (case JS_Parse j (R_Body resp) of
            None \<Rightarrow> None
          | Some JNull \<Rightarrow> None
          | Some v \<Rightarrow> Some (case map_of (members_of v) ''token'' of None \<Rightarrow> [] | Some t \<Rightarrow> [(''token'', t)])))"

text \<open>The first hop of the header; a header line has only blanks and tabs around its values.\<close>

definition trim_blanks :: "string \<Rightarrow> string" where
  "trim_blanks s = (let strip = dropWhile (\<lambda>c. c = CHR '' '' \<or> c = CHR 0x09) in rev (strip (rev (strip s))))"

definition client_ip :: "string option \<Rightarrow> string" where
  "client_ip forwarded = (case forwarded of None \<Rightarrow> ''unknown'' | Some h \<Rightarrow> trim_blanks (takeWhile (\<lambda>c. c \<noteq> CHR '','') h))"

record token_env =
  T_NowMs :: int
  T_Create :: int
  T_Mint :: int
  T_Forwarded :: "string option"

definition token_POST :: "js \<Rightarrow> (string \<Rightarrow> bool) \<Rightarrow> relay_env \<Rightarrow> js_fetch \<Rightarrow> token_env \<Rightarrow> string \<Rightarrow> (string \<Rightarrow> int list)
    \<Rightarrow> reply \<times> (string \<Rightarrow> int list)" where
  "token_POST j isAddress env net te body hits =
     (let (allowed, hits') = allow (client_ip (T_Forwarded te)) (T_NowMs te) hits in
      if \<not> allowed then (js_reply 429 [], hits')
      else (case JS_Parse j body of
        None \<Rightarrow> (thrown, hits')
      | Some JNull \<Rightarrow> (thrown, hits')
      | Some v \<Rightarrow> (case (js_address isAddress ''gate'' (members_of v), js_address isAddress ''wallet'' (members_of v)) of
          (Some gate, Some wallet) \<Rightarrow>
            let uid = sessionUserId (RL_SessionSecret env) gate wallet;
                down = js_reply 502 [(''error'', JStr ''Verification provider is unavailable.'')]
            in (if \<not> createApplicant env net (T_Create te) uid then down
                else case mintAccessToken j env net (T_Mint te) uid of None \<Rightarrow> down | Some m \<Rightarrow> js_reply 200 m, hits')
        | _ \<Rightarrow> (js_reply 400 [(''error'', JStr ''gate and wallet must be addresses'')], hits'))))"

section \<open>What is written reads back\<close>

lemma stringify_start: "js_value v \<Longrightarrow> value_start (stringify v)"
  by (cases v) (auto intro: value_starts)

lemma stringify_parses: "js_value v \<Longrightarrow> parses (stringify v) v"
proof (induction v rule: stringify.induct)
  case (3 s)
  then show ?case using parses_string [of s] by (simp add: valid_utf8_def)
next
  case (4 xs)
  then have "list_all2 parses (map stringify xs) xs" by (simp add: list_all2_conv_all_nth list_all_length)
  moreover have "\<forall>s\<in>set (map stringify xs). value_start s" using 4(2) by (auto simp: list_all_iff intro: stringify_start)
  ultimately show ?case by (simp add: parses_list)
next
  case (5 kvs)
  have "list_all2 member_parses (map (\<lambda>(k, v). (k, stringify v)) kvs) kvs"
    unfolding list_all2_conv_all_nth
  proof (intro conjI allI impI)
    fix i assume "i < length (map (\<lambda>(k, v). (k, stringify v)) kvs)"
    then have i: "i < length kvs" by simp
    obtain k v where kv: "kvs ! i = (k, v)" by (cases "kvs ! i")
    then have mem: "(k, v) \<in> set kvs" using i nth_mem by metis
    have "valid_utf8 k" "js_value v" using 5(2) mem by (auto simp: list_all_iff)
    then show "member_parses (map (\<lambda>(k, v). (k, stringify v)) kvs ! i) (kvs ! i)"
      using 5(1) [OF mem] i kv by (simp add: member_parses_def valid_utf8_def)
  qed simp
  then show ?case using 5(2) parses_object by simp
qed (auto simp: parses_literals intro: parses_number)

lemma decode_stringify: "js_value v \<Longrightarrow> decode (stringify v) = Some v"
  using parsesD [OF stringify_parses, of v "length (stringify v)" "[]"] by (simp add: decode_def delim_def del: parse_value.simps)

section \<open>The queue over time\<close>

datatype relay_event = Post int string | Drain int "string option" "string option"

definition relay_step :: "js \<Rightarrow> (string \<Rightarrow> bool) \<Rightarrow> string \<Rightarrow> relay_event \<Rightarrow> (string, queue_item) gomap \<Rightarrow> (string, queue_item) gomap" where
  "relay_step j isAddress fetchToken ev q = (case ev of
     Post now body \<Rightarrow> snd (queue_POST j isAddress now body q)
   | Drain now auth p \<Rightarrow> snd (queue_GET j fetchToken now auth p q))"

definition relay_queue :: "js \<Rightarrow> (string \<Rightarrow> bool) \<Rightarrow> string \<Rightarrow> relay_event list \<Rightarrow> (string, queue_item) gomap" where
  "relay_queue j isAddress fetchToken evs = fold (relay_step j isAddress fetchToken) evs []"

text \<open>What is documented of \<open>JSON.parse\<close> and \<open>isAddress\<close>.\<close>

definition parses_json :: "js \<Rightarrow> bool" where
  "parses_json j \<longleftrightarrow> (\<forall>b v. JS_Parse j b = Some v \<longrightarrow> js_value v)"

definition hex_address :: "string \<Rightarrow> bool" where
  "hex_address s \<longleftrightarrow> prefix ''0x'' s \<and> length s = 42 \<and> list_all (\<lambda>c. hex_val c \<noteq> None) (drop 2 s)"

definition checks_addresses :: "(string \<Rightarrow> bool) \<Rightarrow> bool" where
  "checks_addresses isAddress \<longleftrightarrow> (\<forall>s. isAddress s \<longrightarrow> hex_address s)"

definition item_ok :: "(string \<Rightarrow> bool) \<Rightarrow> queue_item \<Rightarrow> bool" where
  "item_ok isAddress i \<longleftrightarrow> js_value (QI_Kind i) \<and> js_value (QI_Level i)
     \<and> (\<exists>g w. isAddress g \<and> isAddress w \<and> QI_Gate i = to_lower g \<and> QI_Wallet i = to_lower w)"

definition queue_ok :: "(string \<Rightarrow> bool) \<Rightarrow> (string, queue_item) gomap \<Rightarrow> bool" where
  "queue_ok isAddress q \<longleftrightarrow> distinct (keys q) \<and> (\<forall>(k, i)\<in>set q. k = keyOf (QI_Gate i) (QI_Wallet i) \<and> item_ok isAddress i)"

lemma js_member: "js_value v \<Longrightarrow> map_of (members_of v) f = Some x \<Longrightarrow> js_value x"
  by (cases v) (auto simp: members_of_def list_all_iff dest: map_of_SomeD)

lemma update_elem: "(k, x) \<in> set (AList.update k' y q) \<Longrightarrow> (k, x) = (k', y) \<or> (k, x) \<in> set q"
  by (induction q) (auto split: if_splits)

text \<open>A request is answered without a change, or it puts one item.\<close>

lemma queue_POST_cases:
  obtains (same) r where "queue_POST j isAddress now body q = (r, q)"
    | (put) v g w k l where "JS_Parse j body = Some v" and "js_address isAddress ''gate'' (members_of v) = Some g"
      and "js_address isAddress ''wallet'' (members_of v) = Some w" and "map_of (members_of v) ''kind'' = Some k"
      and "map_of (members_of v) ''level'' = Some l" and "queue_POST j isAddress now body q = (js_reply 202 [], enqueue now k g w l q)"
proof (cases "JS_Parse j body")
  case None
  then show ?thesis using same by (simp add: queue_POST_def)
next
  case (Some v)
  show ?thesis
  proof (cases "v = JNull")
    case True
    then show ?thesis using same Some by (simp add: queue_POST_def)
  next
    case False
    have "(\<exists>r. queue_POST j isAddress now body q = (r, q))
      \<or> (\<exists>g w k l. js_address isAddress ''gate'' (members_of v) = Some g \<and> js_address isAddress ''wallet'' (members_of v) = Some w
          \<and> map_of (members_of v) ''kind'' = Some k \<and> map_of (members_of v) ''level'' = Some l
          \<and> queue_POST j isAddress now body q = (js_reply 202 [], enqueue now k g w l q))"
      using Some False unfolding queue_POST_def Let_def present_def
      by (cases v) (auto split: option.splits)
    then show ?thesis using same put [OF Some] by blast
  qed
qed

lemma js_address_ok: "js_address isAddress f m = Some s \<Longrightarrow> isAddress s"
  by (auto simp: js_address_def split: option.splits jval.splits if_splits)

lemma queue_ok_step:
  assumes "parses_json j" and "queue_ok isAddress q"
  shows "queue_ok isAddress (relay_step j isAddress fetchToken ev q)"
proof (cases ev)
  case (Post now body)
  have "queue_ok isAddress (snd (queue_POST j isAddress now body q))"
  proof (cases rule: queue_POST_cases [of j isAddress now body q])
    case (same r)
    then show ?thesis using assms(2) by simp
  next
    case (put v g w k l)
    have v: "js_value v" using assms(1) put(1) by (auto simp: parses_json_def)
    have ok: "item_ok isAddress \<lparr> QI_Kind = k, QI_Gate = to_lower g, QI_Wallet = to_lower w, QI_Level = l, EnqueuedAt = now \<rparr>"
      using js_member [OF v put(4)] js_member [OF v put(5)] js_address_ok [OF put(2)] js_address_ok [OF put(3)] by (auto simp: item_ok_def)
    show ?thesis
      using assms(2) ok unfolding put(6) queue_ok_def enqueue_def Let_def
      by (auto simp: distinct_update dest!: update_elem)
  qed
  then show ?thesis using Post by (simp add: relay_step_def)
next
  case (Drain now auth p)
  have "queue_ok isAddress (filter P q)" for P
    using assms(2) by (auto simp: queue_ok_def distinct_map_filter)
  then show ?thesis using Drain assms(2)
    by (auto simp: relay_step_def queue_GET_def snapshot_items_def Let_def split: option.split)
qed

lemma queue_ok_relay: "parses_json j \<Longrightarrow> queue_ok isAddress (relay_queue j isAddress fetchToken evs)"
proof -
  assume j: "parses_json j"
  have "queue_ok isAddress q \<Longrightarrow> queue_ok isAddress (fold (relay_step j isAddress fetchToken) evs q)" for q
    by (induction evs arbitrary: q) (simp_all add: queue_ok_step [OF j])
  from this [of "[]"] show ?thesis by (simp add: relay_queue_def queue_ok_def [of _ "[]"])
qed

section \<open>Which posts are in the queue\<close>

text \<open>An accepted request, read off its members: what it asks for, the addresses in lower case, the time.\<close>

definition posted :: "js \<Rightarrow> (string \<Rightarrow> bool) \<Rightarrow> relay_event \<Rightarrow> queue_item option" where
  "posted j isAddress ev = (case ev of
     Drain _ _ _ \<Rightarrow> None
   | Post t body \<Rightarrow> Option.bind (JS_Parse j body) (\<lambda>v. let m = members_of v in
       case (map_of m ''kind'', js_address isAddress ''gate'' m, js_address isAddress ''wallet'' m, map_of m ''level'') of
         (Some k, Some g, Some w, Some l) \<Rightarrow>
           if falsy k then None
           else Some \<lparr> QI_Kind = k, QI_Gate = to_lower g, QI_Wallet = to_lower w, QI_Level = l, EnqueuedAt = t \<rparr>
       | _ \<Rightarrow> None))"

text \<open>The last accepted request for its gate and wallet.\<close>

definition latest :: "js \<Rightarrow> (string \<Rightarrow> bool) \<Rightarrow> relay_event list \<Rightarrow> queue_item \<Rightarrow> bool" where
  "latest j isAddress evs i \<longleftrightarrow> (\<exists>before ev after. evs = before @ ev # after \<and> posted j isAddress ev = Some i
     \<and> (\<forall>ev'\<in>set after. \<forall>i'. posted j isAddress ev' = Some i' \<longrightarrow> pair_of i' \<noteq> pair_of i))"

definition drained_by :: "int \<Rightarrow> relay_event list \<Rightarrow> bool" where
  "drained_by now evs \<longleftrightarrow> (\<forall>ev\<in>set evs. case ev of Drain d _ _ \<Rightarrow> d \<le> now | Post _ _ \<Rightarrow> True)"

lemma latest_snoc:
  "latest j isAddress (evs @ [ev]) i \<longleftrightarrow> posted j isAddress ev = Some i
     \<or> latest j isAddress evs i \<and> (\<forall>i'. posted j isAddress ev = Some i' \<longrightarrow> pair_of i' \<noteq> pair_of i)" (is "?l \<longleftrightarrow> ?r")
proof
  assume ?l
  then obtain before e after where s: "evs @ [ev] = before @ e # after" "posted j isAddress e = Some i"
    "\<forall>ev'\<in>set after. \<forall>i'. posted j isAddress ev' = Some i' \<longrightarrow> pair_of i' \<noteq> pair_of i"
    unfolding latest_def by blast
  show ?r
  proof (cases after rule: rev_cases)
    case Nil
    then show ?thesis using s(1,2) by simp
  next
    case (snoc xs x)
    then have "evs = before @ e # xs" "ev = x" using s(1) by simp_all
    then show ?thesis using s(2,3) snoc unfolding latest_def by (intro disjI2) auto
  qed
next
  assume ?r
  then show ?l
  proof
    assume "posted j isAddress ev = Some i"
    then show ?l unfolding latest_def by (intro exI [of _ evs] exI [of _ ev] exI [of _ "[]"]) simp
  next
    assume r: "latest j isAddress evs i \<and> (\<forall>i'. posted j isAddress ev = Some i' \<longrightarrow> pair_of i' \<noteq> pair_of i)"
    then obtain before e after where "evs = before @ e # after" "posted j isAddress e = Some i"
      "\<forall>ev'\<in>set after. \<forall>i'. posted j isAddress ev' = Some i' \<longrightarrow> pair_of i' \<noteq> pair_of i"
      unfolding latest_def by blast
    then show ?l using r unfolding latest_def by (intro exI [of _ before] exI [of _ e] exI [of _ "after @ [ev]"]) auto
  qed
qed

lemma latest_nil: "\<not> latest j isAddress [] i"
  by (simp add: latest_def)

lemma latest_unique:
  "latest j isAddress evs i \<Longrightarrow> latest j isAddress evs i' \<Longrightarrow> pair_of i = pair_of i' \<Longrightarrow> i = i'"
proof (induction evs rule: rev_induct)
  case (snoc ev evs)
  then show ?case unfolding latest_snoc by (cases "posted j isAddress ev") auto
qed (simp add: latest_nil)

lemma posted_parts:
  assumes "posted j isAddress ev = Some i"
  obtains g w where "isAddress g" and "isAddress w" and "QI_Gate i = to_lower g" and "QI_Wallet i = to_lower w"
  using assms unfolding posted_def Let_def
  by (auto split: relay_event.splits option.splits if_splits bind_splits dest!: js_address_ok)

lemma latest_address:
  assumes "checks_addresses isAddress" and "latest j isAddress evs i"
  shows "\<exists>g w. hex_address g \<and> hex_address w \<and> QI_Gate i = to_lower g \<and> QI_Wallet i = to_lower w"
proof -
  obtain ev where "posted j isAddress ev = Some i" using assms(2) by (auto simp: latest_def)
  then show ?thesis using assms(1) by (auto simp: checks_addresses_def elim!: posted_parts)
qed

lemma pair_key:
  assumes "checks_addresses isAddress" and "item_ok isAddress i" and "item_ok isAddress i'"
  shows "keyOf (QI_Gate i) (QI_Wallet i) = keyOf (QI_Gate i') (QI_Wallet i') \<longleftrightarrow> pair_of i = pair_of i'"
proof -
  have len: "length (to_lower s) = length s" for s by (simp add: to_lower_def)
  have a: "length (QI_Gate x) = 42 \<and> to_lower (QI_Gate x) = QI_Gate x \<and> to_lower (QI_Wallet x) = QI_Wallet x" if "item_ok isAddress x" for x
    using that assms(1) by (auto simp: item_ok_def checks_addresses_def hex_address_def len)
  show ?thesis using a [OF assms(2)] a [OF assms(3)] by (auto simp: keyOf_def pair_of_def)
qed

lemma queue_POST_posted:
  assumes "checks_addresses isAddress"
  shows "snd (queue_POST j isAddress t body q) = (case posted j isAddress (Post t body) of
      None \<Rightarrow> q | Some i \<Rightarrow> AList.update (keyOf (QI_Gate i) (QI_Wallet i)) i q)"
proof -
  have full: "present f m" if "js_address isAddress f m = Some x" for f m x
  proof -
    have "x \<noteq> []" using js_address_ok [OF that] assms by (auto simp: checks_addresses_def hex_address_def)
    then show ?thesis using that by (auto simp: present_def js_address_def falsy_def split: option.splits jval.splits if_splits)
  qed
  show ?thesis
  proof (cases "JS_Parse j body")
    case (Some v)
    let ?m = "members_of v"
    show ?thesis
    proof (cases "v = JNull")
      case True
      then show ?thesis by (simp add: queue_POST_def posted_def Some members_of_def js_address_def)
    next
      case False
      then have q: "snd (queue_POST j isAddress t body q) = (if \<not> present ''kind'' ?m \<or> \<not> present ''gate'' ?m \<or> \<not> present ''wallet'' ?m \<or> map_of ?m ''level'' = None
          then q else case (js_address isAddress ''gate'' ?m, js_address isAddress ''wallet'' ?m) of
            (Some gate, Some wallet) \<Rightarrow> enqueue t (the (map_of ?m ''kind'')) gate wallet (the (map_of ?m ''level'')) q | _ \<Rightarrow> q)"
        by (cases v) (simp_all add: queue_POST_def Some Let_def split: option.split)
      show ?thesis
        using full [of "''gate''" ?m] full [of "''wallet''" ?m] unfolding q
        by (cases "map_of ?m ''kind''"; cases "js_address isAddress ''gate'' ?m"; cases "js_address isAddress ''wallet'' ?m"; cases "map_of ?m ''level''")
          (auto simp: posted_def Some Let_def present_def [of "''kind''"] enqueue_def keyOf_def)
    qed
  qed (simp add: queue_POST_def posted_def)
qed

lemma queue_GET_queue:
  "snd (queue_GET j token d auth p q) = q \<or> snd (queue_GET j token d auth p q) = filter (\<lambda>(k, i). \<not> TTL_SECONDS < d - EnqueuedAt i) q"
  unfolding queue_GET_def snapshot_items_def Let_def by (simp split: option.split prod.split)

lemma queue_entry: "queue_ok isAddress q \<Longrightarrow> (\<exists>k. map_of q k = Some i) \<longleftrightarrow> map_of q (keyOf (QI_Gate i) (QI_Wallet i)) = Some i"
  by (auto simp: queue_ok_def dest: map_of_SomeD)

lemma queue_entry_ok: "queue_ok isAddress q \<Longrightarrow> map_of q k = Some i \<Longrightarrow> item_ok isAddress i"
  by (auto simp: queue_ok_def dest: map_of_SomeD)

text \<open>An item that is not expired is in the queue exactly if it is the last accepted one for its pair.\<close>

lemma relay_latest:
  assumes "parses_json j" and "checks_addresses isAddress"
  shows "drained_by now evs \<Longrightarrow> now - EnqueuedAt i \<le> 90
    \<Longrightarrow> (\<exists>k. map_of (relay_queue j isAddress token evs) k = Some i) \<longleftrightarrow> latest j isAddress evs i"
proof (induction evs rule: rev_induct)
  case Nil
  then show ?case by (simp add: relay_queue_def latest_nil)
next
  case (snoc ev evs)
  let ?q = "relay_queue j isAddress token evs"
  have ok: "queue_ok isAddress ?q" by (rule queue_ok_relay [OF assms(1)])
  have step: "relay_queue j isAddress token (evs @ [ev]) = relay_step j isAddress token ev ?q" by (simp add: relay_queue_def)
  have IH: "(\<exists>k. map_of ?q k = Some i) \<longleftrightarrow> latest j isAddress evs i" using snoc by (simp add: drained_by_def)
  show ?case
  proof (cases ev)
    case (Post t body)
    show ?thesis
    proof (cases "posted j isAddress ev")
      case None
      then show ?thesis using IH queue_POST_posted [OF assms(2), of j t body ?q] unfolding step latest_snoc by (simp add: Post relay_step_def)
    next
      case (Some i0)
      let ?k = "keyOf (QI_Gate i0) (QI_Wallet i0)"
      have q': "relay_queue j isAddress token (evs @ [ev]) = AList.update ?k i0 ?q"
        using queue_POST_posted [OF assms(2), of j t body ?q] Some unfolding step by (simp add: Post relay_step_def)
      have ok': "queue_ok isAddress (AList.update ?k i0 ?q)" using queue_ok_relay [OF assms(1), of isAddress token "evs @ [ev]"] by (simp only: q')
      have i0: "item_ok isAddress i0" using queue_entry_ok [OF ok', of ?k i0] by (simp add: update_conv)
      have "(\<exists>k. map_of (AList.update ?k i0 ?q) k = Some i) \<longleftrightarrow> i = i0 \<or> (\<exists>k. map_of ?q k = Some i) \<and> keyOf (QI_Gate i) (QI_Wallet i) \<noteq> ?k"
        unfolding queue_entry [OF ok'] queue_entry [OF ok] by (auto simp: update_conv)
      also have "\<dots> \<longleftrightarrow> i = i0 \<or> (\<exists>k. map_of ?q k = Some i) \<and> pair_of i0 \<noteq> pair_of i"
        using pair_key [OF assms(2) _ i0, of i] queue_entry_ok [OF ok] by metis
      finally show ?thesis unfolding q' latest_snoc IH by (auto simp: Some)
    qed
  next
    case (Drain d auth p)
    have n: "posted j isAddress ev = None" by (simp add: Drain posted_def)
    have d: "d \<le> now" using snoc.prems(1) by (simp add: drained_by_def Drain)
    consider "relay_step j isAddress token ev ?q = ?q"
      | "relay_step j isAddress token ev ?q = filter (\<lambda>(k, i). \<not> TTL_SECONDS < d - EnqueuedAt i) ?q"
      using queue_GET_queue [of j token d auth p ?q] by (auto simp: Drain relay_step_def)
    then show ?thesis
    proof cases
      case 1
      then show ?thesis using IH n unfolding step latest_snoc by simp
    next
      case 2
      have ok': "queue_ok isAddress (filter (\<lambda>(k, i). \<not> TTL_SECONDS < d - EnqueuedAt i) ?q)"
        using ok by (auto simp: queue_ok_def distinct_map_filter)
      have mem: "map_of xs k = Some i \<longleftrightarrow> (k, i) \<in> set xs" if "queue_ok isAddress xs" for xs k
        using that by (simp add: queue_ok_def)
      have "(\<exists>k. map_of (filter (\<lambda>(k, i). \<not> TTL_SECONDS < d - EnqueuedAt i) ?q) k = Some i) \<longleftrightarrow> (\<exists>k. map_of ?q k = Some i)"
        unfolding mem [OF ok'] mem [OF ok] using d snoc.prems(2) by (auto simp: TTL_SECONDS_def)
      then show ?thesis using IH n 2 unfolding step latest_snoc by simp
    qed
  qed
qed

section \<open>What a drain delivers\<close>

definition relay_response :: "reply \<Rightarrow> tee_response" where
  "relay_response r = \<lparr> TS_StatusCode = word_of_nat (R_Status r), TS_MultiHeaders = [], TS_Body = R_Body r \<rparr>"

definition drain_request :: "string \<Rightarrow> string \<Rightarrow> int \<Rightarrow> tee_request" where
  "drain_request base token minute = tee_request_of \<lparr> HQ_Method = ''GET'', HQ_URL = base @ ''/api/relay/queue?minute='' @ int_dec minute,
     HQ_Body = [], HQ_Headers = [(''Authorization'', ''Bearer '' @ token)] \<rparr>"

text \<open>The enclave's request for the minute reaches the relay, whose clock reads \<open>now\<close>; \<open>Number\<close> reads the minute it printed.\<close>

definition reaches_relay :: "enclave \<Rightarrow> js \<Rightarrow> int \<Rightarrow> (string, queue_item) gomap \<Rightarrow> send \<Rightarrow> string \<Rightarrow> string \<Rightarrow> int \<Rightarrow> bool" where
  "reaches_relay en j now q snd' base token minute \<longleftrightarrow>
     En_ValidURL en (base @ ''/api/relay/queue?minute='' @ int_dec minute) \<and> 0 \<le> minute \<and> minute < 2 ^ 53 \<and> JS_Number j (int_dec minute) = Some minute
     \<and> snd' (drain_request base token minute)
         = Inr (relay_response (fst (queue_GET j token now (Some (''Bearer '' @ token)) (Some (int_dec minute)) q)))"

definition level_of :: "jval \<Rightarrow> 8 word option" where
  "level_of v = (if v = JNull then Some 0 else uint8_of v)"

definition request_for :: "queue_item \<Rightarrow> verification_request" where
  "request_for i = \<lparr> VGate = HexToAddress (QI_Gate i), VWallet = HexToAddress (QI_Wallet i), VLevel = the (level_of (QI_Level i)), VWorldID = None \<rparr>"

lemma wire_keys:
  "to_lower ''kind'' = ''kind''" "to_lower ''gate'' = ''gate''" "to_lower ''wallet'' = ''wallet''" "to_lower ''level'' = ''level''"
  "to_lower ''minute'' = ''minute''" "to_lower ''items'' = ''items''"
  by (simp_all add: literals)

lemma wire_stamp: "to_lower ''enqueuedAt'' = ''enqueuedat''"
  by code_simp

lemma wire_item:
  "struct_of wire_request_of (item_json i)
     = map_option (\<lambda>l. \<lparr> WGate = QI_Gate i, WWallet = QI_Wallet i, WLevel = l, WWorldID = None \<rparr>) (level_of (QI_Level i))"
  by (simp add: item_json_def struct_of_def wire_request_of_def field_of_def members_for_def wire_keys wire_stamp str_of_def level_of_def
      pointer_members_def option.map_comp comp_def split: option.split)

lemma those_all: "those (map f xs) = (if \<forall>x\<in>set xs. f x \<noteq> None then Some (map (the \<circ> f) xs) else None)"
  by (induction xs) (auto split: option.split)

lemma nat_dec_start: "\<exists>c cs. nat_dec n = c # cs \<and> is_digit c"
  using nat_dec_digits [of _ n] parse_number_nat_dec [of n] by (cases "nat_dec n") (auto simp: parse_number_def)

lemma go_int_dec: "0 \<le> i \<Longrightarrow> i < 2 ^ 63 \<Longrightarrow> go_int_of (JNumber (int_dec i)) = Some i"
proof -
  assume i: "0 \<le> i" "i < 2 ^ 63"
  obtain c cs where c: "nat_dec (nat i) = c # cs" "is_digit c" using nat_dec_start by blast
  have "scan_sign (nat_dec (nat i)) = Some (False, nat_dec (nat i))" using c by (auto simp: scan_sign_def is_digit_def)
  then have "int_set (int_dec i) = Some i"
    using i c(1) nat_dec_digits [of _ "nat i"] dec_nat_nat_dec [of "nat i"] by (simp add: int_set_def int_dec_def list_all_iff)
  then show ?thesis using i by (simp add: go_int_of_def)
qed

lemma wire_reply:
  assumes "0 \<le> minute" and "minute < 2 ^ 53"
  shows "struct_of wire_response_of (JObj [(''minute'', JNumber (int_dec minute)), (''items'', JList (map item_json items))])
     = (if \<forall>i\<in>set items. level_of (QI_Level i) \<noteq> None
        then Some (minute, map (\<lambda>i. \<lparr> WGate = QI_Gate i, WWallet = QI_Wallet i, WLevel = the (level_of (QI_Level i)), WWorldID = None \<rparr>) items) else None)"
proof -
  have m: "go_int_of (JNumber (int_dec minute)) = Some minute" using assms by (intro go_int_dec) simp_all
  have l: "list_of (struct_of wire_request_of) (JList (map item_json items))
      = (if \<forall>i\<in>set items. level_of (QI_Level i) \<noteq> None
         then Some (map (\<lambda>i. \<lparr> WGate = QI_Gate i, WWallet = QI_Wallet i, WLevel = the (level_of (QI_Level i)), WWorldID = None \<rparr>) items) else None)"
    by (auto simp: list_of_def comp_def wire_item those_all option.map_sel)
  show ?thesis
    using m l by (simp add: struct_of_def wire_response_of_def field_of_def slice_field_def strict_field_def members_for_def wire_keys)
qed

lemma wire_text: "valid_utf8 ''kind''" "valid_utf8 ''gate''" "valid_utf8 ''wallet''" "valid_utf8 ''level''" "valid_utf8 ''enqueuedAt''"
  "valid_utf8 ''minute''" "valid_utf8 ''items''"
  by (simp_all add: literals)

lemma hex_val_ascii: "hex_val c \<noteq> None \<Longrightarrow> (of_char (to_lower_char c) :: nat) < 128"
  by (auto simp: hex_val_def to_lower_char_def Let_def of_char_of split: if_splits)

lemma address_text: "hex_address s \<Longrightarrow> valid_utf8 (to_lower s)"
proof -
  assume "hex_address s"
  then obtain t where "s = ''0x'' @ t" "list_all (\<lambda>c. hex_val c \<noteq> None) t" by (auto simp: hex_address_def prefix_def)
  then have "ascii (to_lower s)" using hex_val_ascii by (auto simp: ascii_def to_lower_def list_all_iff to_lower_char_def)
  then show ?thesis by (rule ascii_valid)
qed

lemma item_json_value: "checks_addresses isAddress \<Longrightarrow> item_ok isAddress i \<Longrightarrow> js_value (item_json i)"
  by (auto simp: item_json_def item_ok_def wire_text checks_addresses_def address_text parse_number_int_dec)

lemma Pending_relay:
  assumes "parses_json j" and "checks_addresses isAddress" and "q = relay_queue j isAddress token evs"
    and "reaches_relay en j now q snd' base token minute"
  shows "Pending en snd' base token minute
    = (let items = fst (snapshot_items minute now q) in
       if \<forall>i\<in>set items. level_of (QI_Level i) \<noteq> None then Inr (map request_for items) else Inl BadJSON)"
proof -
  let ?items = "fst (snapshot_items minute now q)"
  have ok: "queue_ok isAddress q" using queue_ok_relay [OF assms(1)] assms(3) by simp
  then have "\<forall>i\<in>set ?items. item_ok isAddress i" by (auto simp: snapshot_items_def queue_ok_def Let_def)
  then have "js_value (JObj [(''minute'', JNumber (int_dec minute)), (''items'', JList (map item_json ?items))])"
    using item_json_value [OF assms(2)] by (simp add: wire_text parse_number_int_dec list_all_iff)
  from decode_stringify [OF this]
  have d: "decode (stringify (JObj [(''minute'', JNumber (int_dec minute)), (''items'', JList (map item_json ?items))]))
      = Some (JObj [(''minute'', JNumber (int_dec minute)), (''items'', JList (map item_json ?items))])" .
  have m: "0 \<le> minute" "minute < 2 ^ 53" "int_dec minute \<noteq> []"
    using assms(4) parse_number_int_dec [of minute] by (auto simp: reaches_relay_def parse_number_def)
  have r: "fst (queue_GET j token now (Some (''Bearer '' @ token)) (Some (int_dec minute)) q)
      = js_reply 200 [(''minute'', JNumber (int_dec minute)), (''items'', JList (map item_json ?items))]"
    using assms(4) m(3) by (simp add: queue_GET_def reaches_relay_def split: prod.split)
  have s: "Doer_Do snd' \<lparr> HQ_Method = ''GET'', HQ_URL = base @ ''/api/relay/queue?minute='' @ int_dec minute, HQ_Body = [],
      HQ_Headers = [(''Authorization'', ''Bearer '' @ token)] \<rparr>
    = Inr \<lparr> HS_StatusCode = 200, HS_Header = [], HS_Body = stringify (JObj [(''minute'', JNumber (int_dec minute)), (''items'', JList (map item_json ?items))]) \<rparr>"
    using assms(4) unfolding reaches_relay_def r
    by (simp add: Doer_Do_def drain_request_def relay_response_def js_reply_def http_response_of_def)
  have u: "En_ValidURL en (base @ ''/api/relay/queue?minute='' @ int_dec minute)" using assms(4) by (simp add: reaches_relay_def)
  show ?thesis
    unfolding Pending_def using s u d wire_reply [OF m(1,2), of ?items]
    by (simp add: NewRequest_def Let_def request_of_def request_for_def)
qed

lemma distinct_pairs: "queue_ok isAddress q \<Longrightarrow> distinct (map pair_of (map snd q))"
proof -
  assume q: "queue_ok isAddress q"
  have "map fst q = map (\<lambda>p. keyOf (fst p) (snd p)) (map pair_of (map snd q))"
    using q by (auto simp: queue_ok_def pair_of_def)
  then have "distinct (map (\<lambda>p. keyOf (fst p) (snd p)) (map pair_of (map snd q)))" using q by (metis queue_ok_def)
  then show ?thesis by (simp only: distinct_map)
qed

lemma snapshot_sorted:
  assumes "queue_ok isAddress q"
  shows "sorted_wrt (<) (map pair_of (fst (snapshot_items minute now q)))"
proof -
  have "distinct (map pair_of (filter P (map snd (filter P' q))))" for P P'
    using distinct_pairs [OF assms] by (auto simp: distinct_map_filter comp_def distinct_map inj_on_def)
  then have "distinct (map pair_of (fst (snapshot_items minute now q)))"
    by (simp add: snapshot_items_def Let_def distinct_map del: filter_filter)
  moreover have "sorted (map pair_of (fst (snapshot_items minute now q)))" by (simp add: snapshot_items_def Let_def)
  ultimately show ?thesis by (simp only: strict_sorted_iff)
qed

lemma snapshot_members:
  assumes "queue_ok isAddress q"
  shows "i \<in> set (fst (snapshot_items minute now q))
    \<longleftrightarrow> (\<exists>k. map_of q k = Some i) \<and> now - EnqueuedAt i \<le> 90 \<and> EnqueuedAt i < minute * 60"
proof -
  have "(\<exists>k. map_of q k = Some i) \<longleftrightarrow> i \<in> snd ` set q"
    using assms by (force simp: queue_ok_def dest: map_of_SomeD)
  then show ?thesis by (auto simp: snapshot_items_def Let_def TTL_SECONDS_def)
qed

lemma cron_queue:
  assumes "C_Secret env (RelayFetchTokenID cfg) = Inr token" and "cron_batch en cfg env = Inr batch"
  shows "\<exists>wp sp pending. batch = batch_from en wp sp (C_Items env) 0 pending
    \<and> Pending en (C_Send env) (QueueBaseURL cfg) token (unix_sec (C_Minute env) div 60) = Inr pending"
  using assms unfolding cron_batch_def secret_def by (auto simp: res_simps case_prod_beta)

lemma cron_queue_fails:
  assumes "C_Secret env (RelayFetchTokenID cfg) = Inr token"
    and "Pending en (C_Send env) (QueueBaseURL cfg) token (unix_sec (C_Minute env) div 60) = Inl e"
  shows "\<exists>e'. cron_batch en cfg env = Inl e'"
  using cron_queue [OF assms(1)] assms(2) by (cases "cron_batch en cfg env") fastforce+

lemma cron_refused: "cron_batch en cfg env = Inl e \<Longrightarrow> onVerificationCron en dn cfg env = (Inl e, None)"
  by (simp add: onVerificationCron_def)

text \<open>Hex digits read and written.\<close>

lemma lower_hex: "hex_val c = Some x \<Longrightarrow> to_lower_char c = hex_digit x"
proof -
  assume h: "hex_val c = Some x"
  obtain n :: nat where n: "of_char c = n" "c = char_of n" by (metis char_of_char)
  show ?thesis using h unfolding hex_val_def to_lower_char_def hex_digit_def Let_def n(1) by (auto simp: n(2) split: if_splits)
qed

lemma encode_hex_prefix:
  "even (length t) \<Longrightarrow> list_all (\<lambda>c. hex_val c \<noteq> None) t \<Longrightarrow> hex_encode (hex_prefix t) = to_lower t"
proof (induction t rule: hex_prefix.induct)
  case (1 a b cs)
  then obtain x y where xy: "hex_val a = Some x" "hex_val b = Some y" by auto
  have "x < 16" "y < 16" using xy by (auto simp: hex_val_def Let_def split: if_splits)
  then show ?case using 1 xy lower_hex [OF xy(1)] lower_hex [OF xy(2)]
    by (simp add: hex_byte_def to_lower_def of_char_of)
qed (auto simp: to_lower_def)

lemma address_lower: "hex_address g \<Longrightarrow> hex_address (to_lower g)"
proof -
  assume g: "hex_address g"
  have h: "hex_val (to_lower_char c) \<noteq> None" if "hex_val c \<noteq> None" for c
    using that lower_hex by (force simp: hex_val_def Let_def hex_digit_def of_char_of split: if_splits)
  from g obtain t where "g = ''0x'' @ t" by (auto simp: hex_address_def prefix_def)
  then show ?thesis using g h by (auto simp: hex_address_def to_lower_def list_all_iff to_lower_char_def)
qed

lemma HexToAddress_text:
  assumes "hex_address g"
  shows "length (HexToAddress g) = 20 \<and> ''0x'' @ hex_encode (HexToAddress g) = to_lower g"
proof -
  obtain t where t: "g = ''0x'' @ t" "length t = 40" "list_all (\<lambda>c. hex_val c \<noteq> None) t"
    using assms by (auto simp: hex_address_def prefix_def)
  have e: "hex_encode (hex_prefix t) = to_lower t" using encode_hex_prefix [of t] t(2,3) by simp
  have "2 * length (hex_prefix t) = 40" using e t(2) by (metis length_hex_encode length_map to_lower_def)
  then have "HexToAddress g = hex_prefix t" using t(1,2) by (simp add: HexToAddress_def Let_def left_pad_def)
  then show ?thesis using e t(1) \<open>2 * length (hex_prefix t) = 40\<close> by (simp add: to_lower_def) (simp add: to_lower_char_def)
qed

text \<open>Different items have different addresses; and what the workflow attests of an item.\<close>

lemma same_addresses:
  assumes "checks_addresses isAddress" and "latest j isAddress evs i" and "latest j isAddress evs i'"
    and "HexToAddress (QI_Gate i) = HexToAddress (QI_Gate i')" and "HexToAddress (QI_Wallet i) = HexToAddress (QI_Wallet i')"
  shows "pair_of i = pair_of i'"
proof -
  have t: "x = y" if "hex_address x'" "x = to_lower x'" "hex_address y'" "y = to_lower y'" "HexToAddress x = HexToAddress y" for x x' y y'
  proof -
    have "to_lower x = to_lower y"
      using HexToAddress_text [of x] HexToAddress_text [of y] address_lower [OF that(1)] address_lower [OF that(3)] that(2,4,5) by metis
    then show ?thesis using that(2,4) by simp
  qed
  obtain g w g' w' where "hex_address g" "hex_address w" "QI_Gate i = to_lower g" "QI_Wallet i = to_lower w"
    and "hex_address g'" "hex_address w'" "QI_Gate i' = to_lower g'" "QI_Wallet i' = to_lower w'"
    using latest_address [OF assms(1,2)] latest_address [OF assms(1,3)] by blast
  then show ?thesis using t assms(4,5) unfolding pair_of_def by blast
qed

lemma relayed_entry:
  assumes "entry_for en wp sp ie (request_for i) = Some e"
  shows "VLevel (request_for i) = SumsubLevel \<and> ALevel (EAtt e) = SumsubLevel
    \<and> EGate e = HexToAddress (QI_Gate i) \<and> EWallet e = HexToAddress (QI_Wallet i)"
proof -
  obtain a where a: "provide en wp sp ie (request_for i) = Some (Inr a)"
    and e: "e = \<lparr> EKind = Attest, EGate = VGate (request_for i), EWallet = VWallet (request_for i), EAtt = a, ENullifier = ANullifier a \<rparr>"
    using assms by (rule entry_for_parts)
  have "VWorldID (request_for i) = None" by (simp add: request_for_def)
  then have s: "VLevel (request_for i) = SumsubLevel" "Sumsub_Verify en sp ie (request_for i) = Inr a"
    using a by (auto simp: provide_def WorldID_Verify_def split: if_splits)
  have "ALevel a = SumsubLevel" by (rule Sumsub_parts [OF s(2)]) simp
  then show ?thesis using s(1) by (simp add: e request_for_def)
qed

lemma asked_under_minted_id:
  assumes "hex_address g" and "hex_address w" and "\<And>a. length a = 20 \<Longrightarrow> to_lower (En_Hex en a) = ''0x'' @ hex_encode a"
    and "pair_of i = (to_lower g, to_lower w)"
  shows "applicant_path en p (request_for i)
    = ''/resources/applicants/-;externalUserId='' @ sessionUserId (SessionSecret p) g w @ ''/one''"
proof -
  have "to_lower (En_Hex en (HexToAddress (to_lower x))) = to_lower x" if "hex_address x" for x
    using HexToAddress_text [OF address_lower [OF that]] assms(3) [of "HexToAddress (to_lower x)"] by simp
  from this [OF assms(1)] this [OF assms(2)] assms(4) show ?thesis
    by (simp add: applicant_path_def request_for_def pair_of_def SessionUserID_def sessionUserId_def Let_def)
qed

lemma token_POST_ok:
  assumes "token_POST j isAddress env net te body hits = (r, hits')" and "R_Status r = 200"
  obtains v g w where "JS_Parse j body = Some v" and "js_address isAddress ''gate'' (members_of v) = Some g"
    and "js_address isAddress ''wallet'' (members_of v) = Some w"
    and "createApplicant env net (T_Create te) (sessionUserId (RL_SessionSecret env) g w)"
    and "mintAccessToken j env net (T_Mint te) (sessionUserId (RL_SessionSecret env) g w) \<noteq> None"
proof -
  have "\<exists>v g w. JS_Parse j body = Some v \<and> js_address isAddress ''gate'' (members_of v) = Some g
      \<and> js_address isAddress ''wallet'' (members_of v) = Some w
      \<and> createApplicant env net (T_Create te) (sessionUserId (RL_SessionSecret env) g w)
      \<and> mintAccessToken j env net (T_Mint te) (sessionUserId (RL_SessionSecret env) g w) \<noteq> None"
    using assms unfolding token_POST_def Let_def
    by (auto simp: js_reply_def thrown_def split: prod.splits if_splits option.splits jval.splits)
  then show ?thesis using that by blast
qed

lemma posted_item:
  assumes "JS_Parse j body = Some (JObj m)" and "present ''kind'' m" and "js_address isAddress ''gate'' m = Some g"
    and "js_address isAddress ''wallet'' m = Some w" and "g \<noteq> []" and "w \<noteq> []" and "map_of m ''level'' = Some l"
  shows "\<exists>k. queue_POST j isAddress t body q = (js_reply 202 [], enqueue t k g w l q)"
proof -
  have "present ''gate'' m" "present ''wallet'' m"
    using assms(3-6) by (auto simp: present_def js_address_def falsy_def split: option.splits jval.splits if_splits)
  then show ?thesis using assms by (intro exI [of _ "the (map_of m ''kind'')"]) (simp add: queue_POST_def members_of_def)
qed

section \<open>Properties\<close>

text \<open>C35 The relay hands its queue over. Whatever requests a relay answered before, with its clock never ahead of now, a drain
  of the enclave delivers exactly the accepted requests that are the last ones for their gate and wallet, are at
  most 90 seconds old and were posted before the minute: one each, in the order of gate and wallet, with the posted
  level and without a World ID proof; when the level of one of them is no byte, the drain fails as a whole.\<close>

theorem relay_hands_over_queue:
  assumes "parses_json j" and "checks_addresses isAddress" and "drained_by now evs"
    and "reaches_relay en j now (relay_queue j isAddress token evs) snd' base token minute"
  shows "\<exists>items. Pending en snd' base token minute
      = (if \<forall>i\<in>set items. level_of (QI_Level i) \<noteq> None
         then Inr (map (\<lambda>i. \<lparr> VGate = HexToAddress (QI_Gate i), VWallet = HexToAddress (QI_Wallet i),
           VLevel = the (level_of (QI_Level i)), VWorldID = None \<rparr>) items) else Inl BadJSON)
    \<and> sorted_wrt (<) (map (\<lambda>i. (QI_Gate i, QI_Wallet i)) items)
    \<and> (\<forall>i. i \<in> set items \<longleftrightarrow> latest j isAddress evs i \<and> now - EnqueuedAt i \<le> 90 \<and> EnqueuedAt i < minute * 60)"
proof -
  let ?q = "relay_queue j isAddress token evs"
  have q: "queue_ok isAddress ?q" by (rule queue_ok_relay [OF assms(1)])
  have "pair_of = (\<lambda>i. (QI_Gate i, QI_Wallet i))" "request_for = (\<lambda>i. \<lparr> VGate = HexToAddress (QI_Gate i), VWallet = HexToAddress (QI_Wallet i),
           VLevel = the (level_of (QI_Level i)), VWorldID = None \<rparr>)" by (simp_all add: fun_eq_iff pair_of_def request_for_def)
  moreover have "i \<in> set (fst (snapshot_items minute now ?q)) \<longleftrightarrow> latest j isAddress evs i \<and> now - EnqueuedAt i \<le> 90 \<and> EnqueuedAt i < minute * 60" for i
    using snapshot_members [OF q, of i minute now] relay_latest [OF assms(1,2,3), of i token] by blast
  ultimately show ?thesis
    using Pending_relay [OF assms(1,2) refl assms(4)] snapshot_sorted [OF q, of minute now]
    by (intro exI [of _ "fst (snapshot_items minute now ?q)"]) (simp add: Let_def)
qed

text \<open>C19 One anonymous request stops the attestor. Anyone may post a request for a gate and a wallet with a level that is no byte;
  the relay accepts it, and whatever requests it answers afterwards (drains of earlier runs among them, other
  than a new one for the same gate and wallet), every cron run of the workflow that drains it from the next
  minute until 90 seconds have passed ends with an error: no attestation is reported and no heartbeat.\<close>

theorem bad_level_stops_cron:
  assumes "parses_json j" and "checks_addresses isAddress"
    and "JS_Parse j body = Some (JObj m)" and "present ''kind'' m" and "js_address isAddress ''gate'' m = Some g"
    and "js_address isAddress ''wallet'' m = Some w" and "map_of m ''level'' = Some l" and "level_of l = None"
    and "\<forall>ev\<in>set after. \<forall>i. posted j isAddress ev = Some i \<longrightarrow> pair_of i \<noteq> (to_lower g, to_lower w)"
    and "drained_by (t + 90) (before @ after)" and "minute = unix_sec (C_Minute env) div 60" and "t < 60 * minute" and "now \<le> t + 90"
    and "C_Secret env (RelayFetchTokenID cfg) = Inr token"
    and "reaches_relay en j now (relay_queue j isAddress token (before @ Post t body # after)) (C_Send env) (QueueBaseURL cfg) token minute"
  shows "R_Status (fst (queue_POST j isAddress t body (relay_queue j isAddress token before))) = 202
    \<and> (\<exists>e. onVerificationCron en dn cfg env = (Inl e, None))"
proof -
  let ?evs = "before @ Post t body # after"
  have a: "hex_address g" "hex_address w" using js_address_ok [OF assms(5)] js_address_ok [OF assms(6)] assms(2) by (auto simp: checks_addresses_def)
  then have ne: "g \<noteq> []" "w \<noteq> []" by (auto simp: hex_address_def)
  obtain k where k: "map_of m ''kind'' = Some k" "\<not> falsy k" using assms(4) by (auto simp: present_def split: option.splits)
  let ?i = "\<lparr> QI_Kind = k, QI_Gate = to_lower g, QI_Wallet = to_lower w, QI_Level = l, EnqueuedAt = t \<rparr>"
  have "posted j isAddress (Post t body) = Some ?i" using assms(3,5-7) k by (simp add: posted_def members_of_def)
  then have "latest j isAddress ?evs ?i" using assms(9) unfolding latest_def by (intro exI [of _ before] exI [of _ "Post t body"] exI [of _ after]) (auto simp: pair_of_def)
  moreover have "drained_by (t + 90) ?evs" using assms(10) by (auto simp: drained_by_def)
  ultimately obtain key where "map_of (relay_queue j isAddress token ?evs) key = Some ?i"
    using relay_latest [OF assms(1,2), of "t + 90" ?evs ?i token] by auto
  then have mem: "?i \<in> set (fst (snapshot_items minute now (relay_queue j isAddress token ?evs)))"
    unfolding snapshot_members [OF queue_ok_relay [OF assms(1)]] using assms(12,13) by auto
  have "Pending en (C_Send env) (QueueBaseURL cfg) token minute = Inl BadJSON"
    unfolding Pending_relay [OF assms(1,2) refl assms(15)] Let_def using bexI [OF _ mem] assms(8) by auto
  then obtain e where "cron_batch en cfg env = Inl e" using cron_queue_fails [OF assms(14)] assms(11) by blast
  moreover obtain k' where "queue_POST j isAddress t body (relay_queue j isAddress token before)
      = (js_reply 202 [], enqueue t k' g w l (relay_queue j isAddress token before))"
    using posted_item [OF assms(3-6) ne assms(7)] by blast
  ultimately show ?thesis using cron_refused by (auto simp: js_reply_def)
qed

text \<open>C36 No World ID verification comes through the relay: its queue carries no proof, so whatever was posted, every entry that
  a cron run attests after draining the relay is an approval of Sumsub, for a gate and a wallet whose last accepted
  request was drained and asks for level 2; a gate and a wallet whose last request asks for level 1, or any
  other level, are never attested.\<close>

theorem relay_attests_only_sumsub:
  assumes "parses_json j" and "checks_addresses isAddress" and "drained_by now evs"
    and "C_Secret env (RelayFetchTokenID cfg) = Inr token" and "minute = unix_sec (C_Minute env) div 60"
    and "reaches_relay en j now (relay_queue j isAddress token evs) (C_Send env) (QueueBaseURL cfg) token minute"
    and "cron_batch en cfg env = Inr batch" and "e \<in> set batch"
  shows "ALevel (EAtt e) = SumsubLevel
    \<and> (\<exists>i. latest j isAddress evs i \<and> now - EnqueuedAt i \<le> 90 \<and> EnqueuedAt i < minute * 60 \<and> level_of (QI_Level i) = Some 2
         \<and> EGate e = HexToAddress (QI_Gate i) \<and> EWallet e = HexToAddress (QI_Wallet i))
    \<and> (\<forall>i. latest j isAddress evs i \<and> level_of (QI_Level i) \<noteq> Some 2
         \<longrightarrow> (EGate e, EWallet e) \<noteq> (HexToAddress (QI_Gate i), HexToAddress (QI_Wallet i)))"
proof -
  let ?q = "relay_queue j isAddress token evs"
  have q: "queue_ok isAddress ?q" by (rule queue_ok_relay [OF assms(1)])
  obtain wp sp pending where b: "batch = batch_from en wp sp (C_Items env) 0 pending"
    "Pending en (C_Send env) (QueueBaseURL cfg) token minute = Inr pending"
    using cron_queue [OF assms(4,7)] assms(5) by blast
  let ?items = "fst (snapshot_items minute now ?q)"
  have pend: "pending = map request_for ?items" "\<forall>i\<in>set ?items. level_of (QI_Level i) \<noteq> None"
    using Pending_relay [OF assms(1,2) refl assms(6)] b(2) by (auto simp: Let_def split: if_splits)
  obtain n where n: "n < length pending" "entry_for en wp sp (C_Items env n) (pending ! n) = Some e"
    using batch_from_parts [of e en wp sp "C_Items env" 0 pending] assms(8) b(1) by auto
  then obtain i where i: "i \<in> set ?items" "entry_for en wp sp (C_Items env n) (request_for i) = Some e"
    unfolding pend(1) using that [of "?items ! n"] by simp
  have live: "latest j isAddress evs i \<and> now - EnqueuedAt i \<le> 90 \<and> EnqueuedAt i < minute * 60"
    using snapshot_members [OF q, of i minute now] relay_latest [OF assms(1,2,3), of i token] i(1) by blast
  have e: "VLevel (request_for i) = SumsubLevel \<and> ALevel (EAtt e) = SumsubLevel \<and> EGate e = HexToAddress (QI_Gate i) \<and> EWallet e = HexToAddress (QI_Wallet i)"
    by (rule relayed_entry [OF i(2)])
  then have lev: "level_of (QI_Level i) = Some 2" using pend(2) i(1) by (auto simp: request_for_def SumsubLevel_def)
  have "i' = i" if "latest j isAddress evs i'" "EGate e = HexToAddress (QI_Gate i')" "EWallet e = HexToAddress (QI_Wallet i')" for i'
    using latest_unique [OF that(1)] live same_addresses [OF assms(2) that(1), of i] e that(2,3) by auto
  then show ?thesis using e lev live by (intro conjI) (auto simp del: prod.inject)
qed

text \<open>C37 The enclave asks Sumsub for the person whose session the relay opened. When the relay answers a request for a
  token, it created an applicant and minted a token for one external user id; and that id is the one the enclave asks for
  when it verifies the queue's request for the same gate and wallet, with the same session secret.\<close>

theorem enclave_asks_for_minted_applicant:
  assumes "checks_addresses isAddress" and "\<And>a. length a = 20 \<Longrightarrow> to_lower (En_Hex en a) = ''0x'' @ hex_encode a"
    and "SessionSecret p = RL_SessionSecret env" and "token_POST j isAddress env net te body hits = (r, hits')" and "R_Status r = 200"
  shows "\<exists>v g w uid. JS_Parse j body = Some v \<and> js_address isAddress ''gate'' (members_of v) = Some g
    \<and> js_address isAddress ''wallet'' (members_of v) = Some w
    \<and> createApplicant env net (T_Create te) uid \<and> mintAccessToken j env net (T_Mint te) uid \<noteq> None
    \<and> (\<forall>i. pair_of i = (to_lower g, to_lower w)
        \<longrightarrow> applicant_path en p (request_for i) = ''/resources/applicants/-;externalUserId='' @ uid @ ''/one'')"
  using assms(4,5)
proof (rule token_POST_ok)
  fix v g w
  assume v: "JS_Parse j body = Some v" "js_address isAddress ''gate'' (members_of v) = Some g"
    "js_address isAddress ''wallet'' (members_of v) = Some w"
    "createApplicant env net (T_Create te) (sessionUserId (RL_SessionSecret env) g w)"
    "mintAccessToken j env net (T_Mint te) (sessionUserId (RL_SessionSecret env) g w) \<noteq> None"
  have "hex_address g" "hex_address w" using js_address_ok [OF v(2)] js_address_ok [OF v(3)] assms(1) by (auto simp: checks_addresses_def)
  from asked_under_minted_id [OF this assms(2)] v assms(3) show ?thesis by metis
qed

section \<open>A sample relay\<close>

definition sample_js :: js where
  "sample_js = \<lparr> JS_Parse = (\<lambda>b. case decode b of None \<Rightarrow> None | Some v \<Rightarrow> if js_value v then Some v else None), JS_Number = int_set \<rparr>"

definition sample_gate_text :: string where "sample_gate_text = ''0x'' @ replicate 40 (CHR ''1'')"
definition sample_wallet_text :: string where "sample_wallet_text = ''0x'' @ replicate 40 (CHR ''b'')"

definition sample_members :: "string \<Rightarrow> (string \<times> jval) list" where
  "sample_members level = [(''kind'', JStr ''verify''), (''gate'', JStr sample_gate_text), (''wallet'', JStr sample_wallet_text), (''level'', JNumber level)]"

definition sample_post :: "string \<Rightarrow> string" where
  "sample_post level = stringify (JObj (sample_members level))"

lemma sample_js_parses: "js_value v \<Longrightarrow> JS_Parse sample_js (stringify v) = Some v"
  by (simp add: sample_js_def decode_stringify)

lemma sample_parse:
  "JS_Parse sample_js (sample_post ''2'') = Some (JObj (sample_members ''2''))"
  "JS_Parse sample_js (sample_post ''256'') = Some (JObj (sample_members ''256''))"
proof -
  have "js_value (JObj (sample_members ''2''))" "js_value (JObj (sample_members ''256''))" 
    by (simp_all add: sample_members_def sample_gate_text_def sample_wallet_text_def literals parse_number_def parse_unsigned_def parse_int_part_def digits1_def
      parse_frac_def parse_exp_def is_digit_def)
  then show "JS_Parse sample_js (sample_post ''2'') = Some (JObj (sample_members ''2''))"
    "JS_Parse sample_js (sample_post ''256'') = Some (JObj (sample_members ''256''))"
    unfolding sample_post_def using sample_js_parses by blast+
qed

lemma sample_addresses: "hex_address sample_gate_text" "hex_address sample_wallet_text" "to_lower sample_gate_text = sample_gate_text"
  "to_lower sample_wallet_text = sample_wallet_text" "sample_gate_text \<noteq> []" "sample_wallet_text \<noteq> []"
  by (simp_all add: sample_gate_text_def sample_wallet_text_def hex_address_def hex_val_def list_all_iff literals)

lemma sample_levels: "level_of (JNumber ''2'') = Some 2" "level_of (JNumber ''256'') = None"
  by (simp_all add: level_of_def uint8_of_def is_digit_def dec_nat_def digit_val_def)

lemma sample_js_ok: "parses_json sample_js" "checks_addresses hex_address"
  by (auto simp: parses_json_def sample_js_def checks_addresses_def split: option.splits if_splits)

lemma sample_fields: "present ''kind'' (sample_members l)" "js_address hex_address ''gate'' (sample_members l) = Some sample_gate_text"
  "js_address hex_address ''wallet'' (sample_members l) = Some sample_wallet_text" "map_of (sample_members l) ''level'' = Some (JNumber l)"
  using sample_addresses by (simp_all add: sample_members_def present_def falsy_def js_address_def)

definition sample_relay :: "relay_event list \<Rightarrow> (string, queue_item) gomap" where
  "sample_relay evs = relay_queue sample_js hex_address ''r'' evs"

text \<open>The enclave's network: the relay for the queue, Sumsub for the rest.\<close>

definition sample_network :: "(string, queue_item) gomap \<Rightarrow> send" where
  "sample_network q rq = (if rq = drain_request ''https://relay'' ''r'' 1
     then Inr (relay_response (fst (queue_GET sample_js ''r'' 70 (Some (''Bearer '' @ ''r'')) (Some (int_dec 1)) q)))
     else always (sample_applicant ''{#number#:#1#},{#number#:#2#}'') rq)"

definition relay_cron :: "(string, queue_item) gomap \<Rightarrow> cron_env" where
  "relay_cron q = \<lparr> C_Secret = Inr, C_Send = sample_network q, C_Minute = from_unix 60,
     C_Items = (\<lambda>_. sample_item (sample_applicant ''{#number#:#1#},{#number#:#2#}'')), C_Heartbeat = from_unix 60 \<rparr>"

lemma sample_reaches: "reaches_relay sample_enclave sample_js 70 q (sample_network q) ''https://relay'' ''r'' 1"
proof -
  have "int_set (int_dec 1) = Some 1" by code_simp
  then show ?thesis by (simp add: reaches_relay_def sample_enclave_def sample_network_def sample_js_def)
qed

lemma sample_cron_relay: "C_Secret (relay_cron q) (RelayFetchTokenID sample_wconfig) = Inr ''r''" "unix_sec (C_Minute (relay_cron q)) div 60 = 1"
  "reaches_relay sample_enclave sample_js 70 q (C_Send (relay_cron q)) (QueueBaseURL sample_wconfig) ''r'' 1"
  using sample_reaches [of q] by (simp_all add: relay_cron_def sample_wconfig_def unix_sec_def from_unix_def)

lemma sample_posted: "\<exists>k. sample_relay [Post 30 (sample_post ''2'')] = enqueue 30 k sample_gate_text sample_wallet_text (JNumber ''2'') []"
proof -
  obtain k where "queue_POST sample_js hex_address 30 (sample_post ''2'') [] = (js_reply 202 [], enqueue 30 k sample_gate_text sample_wallet_text (JNumber ''2'') [])"
    using posted_item [OF sample_parse(1) sample_fields(1-3) sample_addresses(5,6) sample_fields(4), of 30 "[]"] by blast
  then show ?thesis by (auto simp: sample_relay_def relay_queue_def relay_step_def)
qed

lemma distinct_singleton: "set xs = {x} \<Longrightarrow> distinct xs \<Longrightarrow> xs = [x]"
  by (cases xs; cases "tl xs") auto

text \<open>A request, an earlier drain, and the drain of the run.\<close>

definition sample_events :: "string \<Rightarrow> relay_event list" where
  "sample_events l = [Post 30 (sample_post l), Drain 65 (Some ''Bearer r'') (Some ''1'')]"

definition sample_posted_item :: "string \<Rightarrow> queue_item" where
  "sample_posted_item l = \<lparr> QI_Kind = JStr ''verify'', QI_Gate = sample_gate_text, QI_Wallet = sample_wallet_text, QI_Level = JNumber l, EnqueuedAt = 30 \<rparr>"

lemma sample_accepted: "posted sample_js hex_address (Post 30 (sample_post ''2'')) = Some (sample_posted_item ''2'')"
  using sample_fields [of "''2''"] sample_addresses
  by (simp add: posted_def sample_parse members_of_def sample_posted_item_def) (simp add: sample_members_def falsy_def)

lemma sample_drained: "drained_by 70 (sample_events l)"
  by (simp add: drained_by_def sample_events_def)

lemma sample_latest: "latest sample_js hex_address (sample_events ''2'') i \<longleftrightarrow> i = sample_posted_item ''2''"
proof -
  have e: "sample_events ''2'' = ([] @ [Post 30 (sample_post ''2'')]) @ [Drain 65 (Some ''Bearer r'') (Some ''1'')]" by (simp add: sample_events_def)
  have d: "posted sample_js hex_address (Drain x y z) = None" for x y z by (simp add: posted_def)
  show ?thesis unfolding e latest_snoc d sample_accepted by (auto simp: latest_nil)
qed

theorem relay_hands_over_queue_witness:
  "Pending sample_enclave (sample_network (sample_relay (sample_events ''2''))) ''https://relay'' ''r'' 1
     = Inr [\<lparr> VGate = HexToAddress sample_gate_text, VWallet = HexToAddress sample_wallet_text, VLevel = 2, VWorldID = None \<rparr>]"
proof -
  let ?q = "relay_queue sample_js hex_address ''r'' (sample_events ''2'')"
  have r: "reaches_relay sample_enclave sample_js 70 ?q (sample_network ?q) ''https://relay'' ''r'' 1" by (rule sample_reaches)
  obtain items where items: "Pending sample_enclave (sample_network ?q) ''https://relay'' ''r'' 1
      = (if \<forall>i\<in>set items. level_of (QI_Level i) \<noteq> None
         then Inr (map (\<lambda>i. \<lparr> VGate = HexToAddress (QI_Gate i), VWallet = HexToAddress (QI_Wallet i),
           VLevel = the (level_of (QI_Level i)), VWorldID = None \<rparr>) items) else Inl BadJSON)"
    "sorted_wrt (<) (map (\<lambda>i. (QI_Gate i, QI_Wallet i)) items)"
    "\<forall>i. i \<in> set items \<longleftrightarrow> latest sample_js hex_address (sample_events ''2'') i \<and> 70 - EnqueuedAt i \<le> 90 \<and> EnqueuedAt i < 1 * 60"
    using relay_hands_over_queue [OF sample_js_ok sample_drained r] by (elim exE conjE) (rule that)
  have "i \<in> set items \<longleftrightarrow> i = sample_posted_item ''2''" for i
    unfolding items(3) [rule_format] sample_latest by (auto simp: sample_posted_item_def)
  then have "set items = {sample_posted_item ''2''}" by blast
  moreover have "distinct items"
    using items(2) by (simp add: strict_sorted_iff distinct_map)
  ultimately have "items = [sample_posted_item ''2'']" by (rule distinct_singleton)
  then show ?thesis using items(1) by (simp add: sample_posted_item_def sample_levels sample_relay_def)
qed

theorem bad_level_stops_cron_witness:
  "R_Status (fst (queue_POST sample_js hex_address 30 (sample_post ''256'') (sample_relay []))) = 202
   \<and> (\<exists>e. onVerificationCron sample_enclave sample_don sample_wconfig (relay_cron (sample_relay (sample_events ''256''))) = (Inl e, None))"
proof -
  let ?after = "[Drain 65 (Some ''Bearer r'') (Some ''1'')]"
  have e: "sample_events ''256'' = [] @ Post 30 (sample_post ''256'') # ?after" by (simp add: sample_events_def)
  have p: "\<forall>ev\<in>set ?after. \<forall>i. posted sample_js hex_address ev = Some i \<longrightarrow> pair_of i \<noteq> (to_lower sample_gate_text, to_lower sample_wallet_text)"
    by (simp add: posted_def)
  have t: "drained_by (30 + 90) ([] @ ?after)" "(30 :: int) < 60 * 1" "(70 :: int) \<le> 30 + 90" by (simp_all add: drained_by_def)
  let ?q = "relay_queue sample_js hex_address ''r'' ([] @ Post 30 (sample_post ''256'') # ?after)"
  have q: "sample_relay (sample_events ''256'') = ?q" "sample_relay [] = relay_queue sample_js hex_address ''r'' []"
    by (simp_all add: sample_relay_def e)
  note stopped = bad_level_stops_cron [where before = "[]" and after = ?after and t = 30 and now = 70 and minute = 1 and token = "''r''",
      OF sample_js_ok sample_parse(2) sample_fields sample_levels(2) p t(1) _ t(2,3)]
  show ?thesis unfolding q using stopped [OF sample_cron_relay(2) [of ?q, symmetric] sample_cron_relay(1,3) [of ?q]] by blast
qed

lemma sample_green:
  assumes "SC_BaseURL (SP_Client p) = ''https://sumsub''"
  shows "\<exists>a. Sumsub_Verify sample_enclave p (sample_item (sample_applicant ''{#number#:#1#},{#number#:#2#}'')) rq = Inr a"
proof -
  have "firstDoc (map numbered_doc [''1'', ''2'']) \<noteq> None" by (auto simp: firstDoc_def split: list.split dest: arg_cong [of _ _ length])
  then show ?thesis using sample_applicants(1) assms
    by (auto simp: Sumsub_Verify_def DoJSONOK_def Client_Do_def NewRequest_def Doer_Do_def sample_enclave_def sample_item_def
        always_def http_response_of_def sample_reviewed_def)
qed

lemma sample_snapshot: "fst (snapshot_items 1 70 (sample_relay (sample_events ''2''))) = [sample_posted_item ''2'']"
proof -
  let ?items = "fst (snapshot_items 1 70 (sample_relay (sample_events ''2'')))"
  have q: "queue_ok hex_address (sample_relay (sample_events ''2''))" unfolding sample_relay_def by (rule queue_ok_relay [OF sample_js_ok(1)])
  have "i \<in> set ?items \<longleftrightarrow> i = sample_posted_item ''2''" for i
  proof -
    have "i \<in> set ?items \<longleftrightarrow> latest sample_js hex_address (sample_events ''2'') i \<and> 70 - EnqueuedAt i \<le> 90 \<and> EnqueuedAt i < 1 * 60"
      unfolding snapshot_members [OF q] using relay_latest [OF sample_js_ok sample_drained, of i "''r''" "''2''"] unfolding sample_relay_def by blast
    then show ?thesis by (auto simp: sample_latest sample_posted_item_def)
  qed
  then have "set ?items = {sample_posted_item ''2''}" by blast
  moreover have "distinct ?items" using snapshot_sorted [OF q, of 1 70] by (simp add: strict_sorted_iff distinct_map)
  ultimately show ?thesis by (rule distinct_singleton)
qed

theorem relay_attests_only_sumsub_witness:
  "\<exists>batch e. cron_batch sample_enclave sample_wconfig (relay_cron (sample_relay (sample_events ''2''))) = Inr batch \<and> e \<in> set batch
     \<and> ALevel (EAtt e) = SumsubLevel \<and> EWallet e = HexToAddress sample_wallet_text"
proof -
  let ?q = "sample_relay (sample_events ''2'')" and ?i = "sample_posted_item ''2''"
  note l = sample_levels(1)
  have "fst (snapshot_items 1 70 ?q) = [?i]" by (rule sample_snapshot)
  then have p: "Pending sample_enclave (C_Send (relay_cron ?q)) (QueueBaseURL sample_wconfig) ''r'' 1 = Inr [request_for ?i]"
    using Pending_relay [OF sample_js_ok sample_relay_def sample_cron_relay(3)] l by (simp add: sample_posted_item_def)
  have v: "VLevel (request_for ?i) = SumsubLevel" by (simp add: request_for_def l SumsubLevel_def sample_posted_item_def)
  obtain a where a: "Sumsub_Verify sample_enclave (snd (providers sample_wconfig \<lparr> SC_BaseURL = ''https://sumsub'', SC_AppToken = ''t'', SC_SecretKey = ''k'' \<rparr> ''s'' ''n''))
      (C_Items (relay_cron ?q) 0) (request_for ?i) = Inr a"
    using sample_green [of "snd (providers sample_wconfig \<lparr> SC_BaseURL = ''https://sumsub'', SC_AppToken = ''t'', SC_SecretKey = ''k'' \<rparr> ''s'' ''n'')" "request_for ?i"]
    by (auto simp: relay_cron_def providers_def)
  have at: "\<not> attested (C_Items (relay_cron ?q) 0) (request_for ?i)" by (simp add: attested_def relay_cron_def sample_item_def)
  have c: "C_Secret (relay_cron ?q) x = Inr x" for x by (simp add: relay_cron_def)
  have u: "RelayFetchTokenID sample_wconfig = ''r''" "SessionIdSecretID sample_wconfig = ''s''" "EnclaveNullifierSecretID sample_wconfig = ''n''"
    "SumsubBaseURL sample_wconfig = ''https://sumsub''" "SumsubAppTokenID sample_wconfig = ''t''" "SumsubSecretID sample_wconfig = ''k''"
    by (simp_all add: sample_wconfig_def)
  have lv: "VLevel (request_for ?i) \<noteq> WorldIDLevel" using v by (simp add: SumsubLevel_def WorldIDLevel_def)
  have "cron_batch sample_enclave sample_wconfig (relay_cron ?q)
      = Inr [\<lparr> EKind = Attest, EGate = VGate (request_for ?i), EWallet = VWallet (request_for ?i), EAtt = a, ENullifier = ANullifier a \<rparr>]"
    unfolding cron_batch_def secret_def newSumsubClient_def c u sample_cron_relay(2)
    using p at a v lv by (simp add: case_prod_beta entry_for_def provide_def)
  then obtain e batch where b: "cron_batch sample_enclave sample_wconfig (relay_cron ?q) = Inr batch" "e \<in> set batch" by auto
  have m: "(1 :: int) = unix_sec (C_Minute (relay_cron ?q)) div 60" by (simp only: sample_cron_relay(2))
  have r: "reaches_relay sample_enclave sample_js 70 (relay_queue sample_js hex_address ''r'' (sample_events ''2'')) (C_Send (relay_cron ?q))
      (QueueBaseURL sample_wconfig) ''r'' 1"
    using sample_cron_relay(3) [of ?q] by (simp only: sample_relay_def)
  from relay_attests_only_sumsub [OF sample_js_ok sample_drained sample_cron_relay(1) [of ?q] m r b]
  have "ALevel (EAtt e) = SumsubLevel" "\<exists>i. i = ?i \<and> EWallet e = HexToAddress (QI_Wallet i)" by (auto simp: sample_latest)
  then show ?thesis using b by (auto simp: sample_posted_item_def)
qed

lemma hex_encode_lower: "to_lower (''0x'' @ hex_encode a) = ''0x'' @ hex_encode a"
proof -
  have "to_lower_char (hex_digit d) = hex_digit d" if "d < 16" for d
    using lower_hex [of "hex_digit d" d] that by simp
  then have "map to_lower_char (hex_encode a) = hex_encode a"
    by (induction a) (simp_all add: hex_byte_def less_mult_imp_div_less)
  then show ?thesis by (simp add: to_lower_def) (simp add: to_lower_char_def)
qed

definition sample_sumsub_net :: js_fetch where
  "sample_sumsub_net rq = (if HQ_Body rq = [] then Some \<lparr> R_Status = 200, R_Body = stringify (JObj [(''token'', JStr ''t'')]) \<rparr> else Some \<lparr> R_Status = 201, R_Body = [] \<rparr>)"

definition sample_relay_env :: relay_env where
  "sample_relay_env = \<lparr> RL_SessionSecret = ''s'', RL_BaseURL = ''https://sumsub'', RL_AppToken = ''t'', RL_SecretKey = ''k'', RL_LevelName = ''id-only'' \<rparr>"

theorem enclave_asks_for_minted_applicant_witness:
  "\<exists>r hits'. token_POST sample_js hex_address sample_relay_env sample_sumsub_net \<lparr> T_NowMs = 0, T_Create = 0, T_Mint = 0, T_Forwarded = None \<rparr>
       (sample_post ''2'') (\<lambda>_. []) = (r, hits') \<and> R_Status r = 200
     \<and> (\<exists>uid. \<forall>i. pair_of i = (sample_gate_text, sample_wallet_text)
          \<longrightarrow> applicant_path sample_enclave sample_sumsub (request_for i) = ''/resources/applicants/-;externalUserId='' @ uid @ ''/one'')"
proof -
  let ?te = "\<lparr> T_NowMs = 0, T_Create = 0, T_Mint = 0, T_Forwarded = None \<rparr>"
  have ne: "stringify (JObj [(''externalUserId'', JStr u)]) \<noteq> []" for u by (simp add: write_object_def)
  have tok: "JS_Parse sample_js (stringify (JObj [(''token'', JStr ''t'')])) = Some (JObj [(''token'', JStr ''t'')])"
    by (rule sample_js_parses) (simp add: literals)
  have mint: "mintAccessToken sample_js sample_relay_env sample_sumsub_net 0 u = Some [(''token'', JStr ''t'')]" for u
    by (simp add: mintAccessToken_def sumsubRequest_def sample_sumsub_net_def tok members_of_def Let_def del: stringify.simps)
  have create: "createApplicant sample_relay_env sample_sumsub_net 0 u" for u
    using ne [of u] by (simp add: createApplicant_def sumsubRequest_def sample_sumsub_net_def Let_def del: stringify.simps)
  obtain hits' where r: "token_POST sample_js hex_address sample_relay_env sample_sumsub_net ?te (sample_post ''2'') (\<lambda>_. [])
      = (js_reply 200 [(''token'', JStr ''t'')], hits')"
    using sample_fields(2,3) by (simp add: token_POST_def sample_parse allow_def client_ip_def MAX_PER_WINDOW_def members_of_def create mint Let_def)
  have hx: "to_lower (En_Hex sample_enclave a) = ''0x'' @ hex_encode a" for a using hex_encode_lower by (simp add: sample_enclave_def)
  have sec: "SessionSecret sample_sumsub = RL_SessionSecret sample_relay_env" by (simp add: sample_sumsub_def sample_relay_env_def)
  have st: "R_Status (js_reply 200 [(''token'', JStr ''t'')]) = 200" by (simp add: js_reply_def)
  obtain v g w uid where "JS_Parse sample_js (sample_post ''2'') = Some v" "js_address hex_address ''gate'' (members_of v) = Some g"
    "js_address hex_address ''wallet'' (members_of v) = Some w"
    and u: "\<forall>i. pair_of i = (to_lower g, to_lower w)
      \<longrightarrow> applicant_path sample_enclave sample_sumsub (request_for i) = ''/resources/applicants/-;externalUserId='' @ uid @ ''/one''"
    using enclave_asks_for_minted_applicant [OF sample_js_ok(2) hx sec r st] by blast
  then have "g = sample_gate_text" "w = sample_wallet_text" using sample_parse(1) sample_fields(2,3) by (auto simp: members_of_def)
  then show ?thesis using u r st sample_addresses(3,4) by (intro exI [of _ "js_reply 200 [(''token'', JStr ''t'')]"] exI [of _ hits']) auto
qed

end
