(* ===== verification/Spec2Isabelle.thy ===== *)
theory Spec2Isabelle
  imports Sample Process HubContract Gate Relay
begin

text \<open>
  Verification library of the compliance gateway: the service that screens stablecoin deposits, has them decided
  and issues evidence packs (compliance-backend), the confidential workflow that attests payers and settles
  payments (attestor-workflow), the relay that queues verification requests for it (relay), and the contracts
  both act on (contracts).

  The parts and how they interact. Deposits enter the service by hint messages and by the reconciler
  (\<open>internal/ingest\<close>), which confirms them from the chain. The worker (\<open>internal/pipeline\<close>) runs four checks
  on a confirmed payment (\<open>internal/checks\<close>), evaluates the ruleset the MLRO approved (\<open>internal/rules\<close>) and
  either signs the decision itself (a credit or a hold under the policy key) or leaves the case to an officer, who
  signs typed data over the HTTP interface (\<open>internal/api\<close>). Every decision issues a pack: the collected evidence
  under a salted hash tree (\<open>internal/evidence\<close>), signed and chained in a journal, of which recipients get
  copies with subtrees withheld and check them with \<open>docs/evidence-pack/verify_pack.py\<close>. A decision executed on chain goes
  through \<open>ProcessorHub\<close>, which knows the signers and moves the money of the payer's deposit account. On the other side a
  merchant's \<open>MerchantGateway\<close> escrows a payment of an attested payer, the workflow scores the payer and reports the
  settlement, and \<open>AttestationRegistry\<close> holds what the workflow reported of persons.

  Theories and sources.
  Foundations: Prelude (results, maps, fact collections), GoStd, GoRat, GoTime, Rfc3339, Utf8 (what the code uses of Go's standard
  library), Sha256, Json (the decoder of \<open>encoding/json\<close>).
  Evidence: Canon and Sha256 (\<open>canon.go\<close>), EvidenceTree (\<open>tree.go\<close>), Jws (\<open>jws.go\<close>), Builder (\<open>builder.go\<close>), Projection
  (\<open>projection.go\<close>, \<open>profiles.go\<close>, \<open>verify_pack.py\<close>).
  Service: Config (\<open>config.go\<close> after decoding), Loading (the files read at start), Store (the tables of \<open>001_init.sql\<close> as lists of
  rows with their constraints), Decision (\<open>internal/decision\<close>), Rules, Checks, Ingest, Decide (\<open>snapshot.go\<close>, \<open>decide.go\<close>), Pipeline
  (\<open>pipeline.go\<close>), Officer (\<open>officer.go\<close>, \<open>rulesets.go\<close>), Queries (\<open>queries.go\<close>), Api (\<open>api.go\<close>), Process (\<open>app.go\<close>, \<open>main.go\<close>
  and the loops). Functions keep their Go names; a handler takes the database \<open>db\<close> and returns it changed, or an error, on which the
  transaction is rolled back; pointers and slices are options and lists, machine integers are words where the code can
  wrap, amounts are integers, times nanoseconds since the epoch.
  Service-wide: Ledger and Evidence (what each operation does to the tables), Service (the step relation of the service and its invariant),
  Progress (what is never stuck), Sample (a full run used by the witnesses).
  Attestor: Tee (\<open>internal/creteehttp\<close>, \<open>sessionid\<close>, \<open>nullifier\<close>, \<open>sumsubapi\<close>, \<open>queue\<close>, \<open>domain\<close>), Attestor (\<open>verifier\<close>, \<open>provenance\<close>,
  \<open>chain\<close>, \<open>workflow.go\<close>), Relay (\<open>relay/src\<close>).
  Contracts: Hub (\<open>ProcessorHub._execute\<close>, \<open>DepositAccount\<close>), HubContract (the rest of the hub), Gate (\<open>MerchantGateway\<close>,
  \<open>AttestationRegistry\<close>, \<open>GatewayFactory\<close>, \<open>ReceiverTemplate\<close>).

  What the lemmas show. Locales state the contracts between components: \<open>decision_machine\<close> (the laws of the transition table, of which
  the service's \<open>Next\<close> is the instance and the contract a refinement) and \<open>check_contract\<close> (what the pipeline relies on
  in every check). Over all runs of the service, however its goroutines interleave (theory Process maps their events to steps):
  every recorded decision carries a signature permitted to make it, histories are legal, packs form a chain, decided evidence does
  not change, the record only grows, a tick leaves nothing waiting, an officer's request completes. About
  evidence: copies verify, disclose exactly what the profile leaves, and are logged. About the contracts, for every sequence of
  transactions from anyone: they execute only histories the service could have decided, stay solvent with every held payment releasable, pay once, and money
  leaves only on a permitted signature; a gate admits only identified payers, and a revoked person no more. About the
  workflow and the relay: only verified requests are attested, a drain hands over the last accepted requests, the enclave asks for the
  applicant the relay created. The properties are in the theory of their component, those that span components here.

  Bounds and fuel. \<open>parse_value\<close> of Json recurses on fuel, the length of the text and one, which is enough for every
  rendering (\<open>decode_canon\<close>, \<open>decode_stringify\<close>). The other loops end by a measure or are folds. Constants are the code's:
  a tick takes 50 payments per step, an officer's request lives 15 minutes, an HTTP body has at most 1 MiB; the gate's timeout is 15
  minutes, its spending window 24 hours, the registry's staleness limit 48 hours, a queued item's life 90 seconds.

  Parameters. Code outside the repository is an argument, with what is documented of it as hypotheses: go-ethereum's keccak, secp256k1, ABI and
  EIP-712 encodings, ECDSA and the key parsers of Go's \<open>crypto\<close>, the HTTP transports, the file system, the chain clients, the CRE runtime,
  the random source, the clock at each reading, OpenZeppelin's \<open>Ownable\<close> and \<open>Create2\<close>, viem's \<open>isAddress\<close>, \<open>JSON.parse\<close>,
  Python's rendering of floats. Where a
  property rests on keccak having no collision among the texts a run hashes, its hypothesis says so.

  Assumptions. A transaction of the database is atomic and its failure leaves it unchanged; one step reads one state (the row locks of the code);
  a lost connection is a failed transaction. Amounts fit the numeric columns and text has no NUL byte, as Postgres demands. A check run has one
  clock reading per check. The last of repeated slices of a JSON document replaces the earlier ones. The float64 product in
  \<open>time.ParseDuration\<close> is a parameter. ERC-20 tokens are plain: a transfer moves the amount or reverts and calls nobody
  back (the code says that hooked tokens need a guard). Calldata and reports reach the contracts decoded; events are
  left out except the factory's \<open>PaymentOpened\<close>, which the workflow reads.

  Not modelled. The contract bindings under \<open>attestor-workflow/contracts\<close> are generated: they pack and unpack the ABI and forward to the runtime. The
  packages testchain, pipelinetest and storetest drive anvil and Postgres for the tests. The spikes under
  \<open>openspec/changes/archive\<close> are discarded experiments. Flag parsing, logging, graceful shutdown, the NATS and pgx
  clients, the tickers and \<open>net/http\<close> itself are input and output around the modelled handlers. The frontend is
  presentation over the relay and the contracts.
\<close>

section \<open>From collected sections to a verified copy\<close>

lemma sample_signer_total: "signer_total \<lparr> KID = ''k1'', ecdsa_sign = (\<lambda>d. Some (1, 1)) \<rparr>"
  by (simp add: signer_total_def)

definition sample_sections :: "(string \<times> jval) list" where
  "sample_sections = map (\<lambda>k. (k, JStr ''x'')) EvidenceKeys"

lemma sample_sections_ok: "evidence_sections sample_sections \<and> tree_ok (JObj sample_sections)"
proof -
  have k: "keys sample_sections = EvidenceKeys" by (simp add: sample_sections_def comp_def)
  have "section_ok sample_sections"
  proof (rule section_okI)
    show "distinct (keys sample_sections)" "list_all plain_key (keys sample_sections)" unfolding k by (simp_all add: EvidenceKeys_def literals)
    show "length sample_sections \<noteq> 1" unfolding sample_sections_def EvidenceKeys_def by simp
    show "list_all (\<lambda>(k, v). wf_json v \<and> tree_ok v) sample_sections"
      unfolding sample_sections_def by (simp add: list_all_iff)
  qed
  then show ?thesis using section_ok_obj [of sample_sections] by (simp only: evidence_sections_def k simp_thms)
qed

definition sample_rest :: "(string \<times> jval) list" where
  "sample_rest = [(''created_at'', JStr ''x''), (''decision'', JStr ''HOLD'')]"

lemma sample_rest_ok: "wf_json (JObj sample_rest)" "tree_ok (JObj sample_rest)" "plain_keys sample_rest"
proof -
  have "list_all plain_key [''created_at'', ''decision'']" by (simp_all add: literals)
  then have p: "list_all plain_key (keys sample_rest)" by (simp add: sample_rest_def)
  then have "section_ok sample_rest" by (intro section_okI) (simp_all add: sample_rest_def)
  then show "wf_json (JObj sample_rest)" "tree_ok (JObj sample_rest)" using section_ok_obj by blast+
  show "plain_keys sample_rest" using p by (auto simp: plain_keys_def list_all_iff plain_key_def sample_rest_def)
qed

text \<open>C5 Every copy issued verifies. From the ten evidence sections a snapshot is always made, from a
  snapshot and the sections outside it a pack is always built, with the snapshot's evidence root, and
  for every profile a copy of that pack is always made; the independent verifier of the documentation
  (verify_pack.py) accepts the copy, however Python prints floats: the projection hash, the master root and the
  evidence root it recomputes from the copy are the stated ones.\<close>

theorem issued_copy_verifies:
  assumes "evidence_sections sections" and "tree_ok (JObj sections)"
    and "wf_json (JObj rest)" and "tree_ok (JObj rest)" and "plain_keys rest"
    and "salts_hex prev" and "digest_hex prevHash" and "signer_total signer"
    and "map_of Profiles (Profile r) \<noteq> None" and "\<not> blank (PreparedFor r)" and "\<not> blank (Purpose r)"
  shows "\<exists>snap p copy. NewSnapshot fresh sections = Inr snap
    \<and> BuildPack fresh snap version rest prev prevHash signer = Inr p \<and> PEvidenceRoot p = snap_root snap
    \<and> Project p r now = Inr copy \<and> (\<forall>fl. check_copy fl copy = Some (True, True, True))"
proof -
  obtain snap where snap: "NewSnapshot fresh sections = Inr snap" "snapshot_ok snap"
    using NewSnapshot_ok [OF assms(1)] by blast
  have wf: "wf_json (JObj sections)" using assms(1) by (simp only: evidence_sections_def)
  have st: "tree_ok (JObj (snap_data snap))"
    by (rule normalize_tree_ok [OF wf assms(2) NewSnapshot_data [OF snap(1)]])
  obtain p where p: "BuildPack fresh snap version rest prev prevHash signer = Inr p" "PEvidenceRoot p = snap_root snap"
    using pack_built [OF snap(2) assms(3,5,6,7,8)] by blast
  have sound: "pack_sound p" by (rule built_pack_sound [OF snap(2) st assms(3,4,5) p(1)])
  obtain copy where "Project p r now = Inr copy" using Project_total [OF sound assms(9,10,11)] by blast
  then show ?thesis using snap(1) p copy_verifies [OF sound] by blast
qed

theorem issued_copy_verifies_witness:
  "\<exists>snap p copy. NewSnapshot (\<lambda>p. p) sample_sections = Inr snap
    \<and> BuildPack (\<lambda>p. p) snap 1 sample_rest [] ZeroHash \<lparr> KID = ''k1'', ecdsa_sign = (\<lambda>d. Some (1, 1)) \<rparr> = Inr p
    \<and> PEvidenceRoot p = snap_root snap
    \<and> Project p \<lparr> Profile = ''BANK'', PreparedFor = ''Bank'', Purpose = ''audit'' \<rparr> ''now'' = Inr copy
    \<and> (\<forall>fl. check_copy fl copy = Some (True, True, True))"
proof (rule issued_copy_verifies)
  show "evidence_sections sample_sections" "tree_ok (JObj sample_sections)" using sample_sections_ok by blast+
  show "map_of Profiles (Profile \<lparr> Profile = ''BANK'', PreparedFor = ''Bank'', Purpose = ''audit'' \<rparr>) \<noteq> None"
    "\<not> blank (PreparedFor \<lparr> Profile = ''BANK'', PreparedFor = ''Bank'', Purpose = ''audit'' \<rparr>)"
    "\<not> blank (Purpose \<lparr> Profile = ''BANK'', PreparedFor = ''Bank'', Purpose = ''audit'' \<rparr>)"
    by (simp_all add: Profiles_def not_blank_letter ascii_def)
qed (use sample_rest_ok sample_signer_total in \<open>simp_all add: salts_hex_def\<close>)

section \<open>Decisions on record\<close>

text \<open>C1 Every decision on record is authorised, in every database the service can reach: the signature
  stored with it recovers, over the typed document of exactly this payment, kind, amount, evidence root,
  nonce and deadline, to the stored signer; and the signer is either a configured officer whose mask
  permits the kind, with a rationale, or the policy key, for the first decision of the payment, a credit
  or a hold that the recommendation of an approved ruleset made automatic.\<close>

theorem every_decision_authorised:
  assumes "reachable svc keccak b64 s" and "signs_for (S_Crypto svc) (S_Policy svc)" and "d \<in> set (decisions s)"
  shows "authorised svc s d"
  using reachable_inv [OF assms(1,2)] assms(3) by (simp add: service_inv_def ledger_inv_def)

theorem every_decision_authorised_witness:
  "\<exists>s d. decisions s = [d] \<and> D_Kind d = Credit \<and> authorised sample_service s d"
proof -
  obtain s d where s: "reachable sample_service id Some s" "decisions s = [d]" "D_Kind d = Credit" using sample_decided by blast
  then have "authorised sample_service s d" by (intro every_decision_authorised [OF s(1) sample_signs]) simp
  then show ?thesis using s by blast
qed

text \<open>C2 No reachable database has an illegal decision history: for every payment the recorded decisions are
  of known kinds, release the money at most once and last, never hold or return after a freeze, and carry
  the nonces 1, 2, ... in order, so that the contract, which counts nonces the same way, can execute them.\<close>

theorem histories_stay_legal:
  assumes "reachable svc keccak b64 s" and "signs_for (S_Crypto svc) (S_Policy svc)"
  shows "legal_history False (history s i)
    \<and> map (\<lambda>d. unat (D_Nonce d)) (decisions_of s i) = [1..<Suc (length (decisions_of s i))]"
  using reachable_inv [OF assms] by (simp add: service_inv_def ledger_inv_def lawful_def numbered_def Replay_ok_iff)

theorem histories_stay_legal_witness:
  "\<exists>s. history s (P_ID in_review) = [Credit] \<and> legal_history False (history s (P_ID in_review))"
proof -
  obtain s d where s: "reachable sample_service id Some s" "decisions s = [d]" "D_Kind d = Credit" "D_Payment d = P_ID in_review"
    using sample_decided by blast
  have "legal_history False (history s (P_ID in_review))" using histories_stay_legal [OF s(1) sample_signs] by blast
  moreover have "history s (P_ID in_review) = [Credit]" by (simp add: history_def decisions_of_def s)
  ultimately show ?thesis by blast
qed

section \<open>The journal of packs\<close>

text \<open>C3 The journal is one unbroken hash chain over all decisions: in every reachable database there is one
  pack per decision, in the same order and for the same payment, with sequence numbers without a gap; each
  pack links to the hash of the one before; the head is the chain hash of all master roots from the zero
  hash; and the versions of each payment's pack count from one.\<close>

theorem journal_is_a_chain:
  assumes "reachable svc keccak b64 s" and "signs_for (S_Crypto svc) (S_Policy svc)"
  shows "map K_Payment (packs s) = map D_Payment (decisions s)
    \<and> map K_Seq (packs s) = [1..<Suc (length (packs s))]
    \<and> map (\<lambda>k. PrevPackHash (K_Pack k)) (packs s) @ [journal_head s] = ZeroHash # map (\<lambda>k. PPackHash (K_Pack k)) (packs s)
    \<and> chain_hash ZeroHash (map (\<lambda>k. PMasterRoot (K_Pack k)) (packs s)) = Inr (journal_head s)
    \<and> map Version (packs_of s i) = map int [1..<Suc (length (packs_of s i))]"
proof -
  have "journal_ok s" "versioned s" using reachable_inv [OF assms] by (simp_all add: service_inv_def ledger_inv_def)
  then show ?thesis unfolding journal_ok_def versioned_def by (intro conjI) simp_all
qed

theorem journal_is_a_chain_witness:
  "\<exists>(s :: db) k. packs s = [k] \<and> K_Payment k = P_ID in_review \<and> PrevPackHash (K_Pack k) = ZeroHash \<and> journal_head s = PPackHash (K_Pack k)"
proof -
  obtain s d where s: "reachable sample_service id Some s" "decisions s = [d]" "D_Payment d = P_ID in_review" using sample_decided by blast
  note j = journal_is_a_chain [OF s(1) sample_signs]
  then obtain k where "packs s = [k]" using s by (metis (no_types) list.map_disc_iff list.simps(9) map_eq_Cons_conv)
  then show ?thesis using j s by (intro exI [of _ s] exI [of _ k]) simp
qed

text \<open>C4 The evidence a decision was taken on is final. Once a payment is decided its evidence snapshot never
  changes in any later database; the decision is bound to the snapshot's evidence root, which is the root
  recomputed from the stored sections and salts; and every pack version ever issued for the payment has
  that same evidence root.\<close>

theorem decided_evidence_is_final:
  assumes "reachable svc keccak b64 s" and "signs_for (S_Crypto svc) (S_Policy svc)" and "(pstep svc keccak b64)\<^sup>*\<^sup>* s s'"
    and "d \<in> set (decisions s)"
  shows "\<exists>sn. snapshot_of s (D_Payment d) = Some sn \<and> snapshot_of s' (D_Payment d) = Some sn
    \<and> D_PackHash d = snap_root (S_Snap sn) \<and> EvidenceRoot (snap_data (S_Snap sn)) (snap_salts (S_Snap sn)) = Inr (snap_root (S_Snap sn))
    \<and> (\<forall>k\<in>set (packs s'). K_Payment k = D_Payment d \<longrightarrow> PEvidenceRoot (K_Pack k) = D_PackHash d)"
proof -
  have r': "reachable svc keccak b64 s'" using assms(1,3) by (auto simp: reachable_def)
  have b: "bound s" "bound s'" using reachable_inv assms(1,2) r' by (auto simp: service_inv_def ledger_inv_def)
  obtain sn where sn: "snapshot_of s (D_Payment d) = Some sn" "D_PackHash d = snap_root (S_Snap sn)"
    using b(1) assms(4) by (auto simp: bound_def)
  have "later s s'" by (rule service_run.run_before [OF assms(3)])
  then have sn': "snapshot_of s' (D_Payment d) = Some sn"
    using sn(1) by (rule later_snapshot)
  moreover have "EvidenceRoot (snap_data (S_Snap sn)) (snap_salts (S_Snap sn)) = Inr (snap_root (S_Snap sn))"
    using snapshot_stored [OF reachable_evidence [OF assms(1)] sn(1)] by (simp add: snap_stored_def snapshot_ok_def)
  moreover have "PEvidenceRoot (K_Pack k) = D_PackHash d" if "k \<in> set (packs s')" "K_Payment k = D_Payment d" for k
    using b(2) that sn' sn(2) by (auto simp: bound_def)
  ultimately show ?thesis using sn by blast
qed

theorem decided_evidence_is_final_witness:
  "\<exists>s d sn. decisions s = [d] \<and> snapshot_of s (D_Payment d) = Some sn \<and> D_PackHash d = snap_root (S_Snap sn)"
proof -
  obtain s d where s: "reachable sample_service id Some s" "decisions s = [d]" using sample_decided by blast
  have "d \<in> set (decisions s)" by (simp add: s)
  from decided_evidence_is_final [OF s(1) sample_signs rtranclp.rtrancl_refl this] show ?thesis using s(2) by blast
qed

text \<open>C15 What is on record stays on record. Along every run the checks, recommendations, snapshots, decisions,
  packs and disclosures only grow at the end, an approved ruleset is never changed or removed, and no
  payment disappears or changes what identifies it (chain, log, token, payer, deposit address, amount).\<close>

theorem record_only_grows:
  assumes "(pstep svc keccak b64)\<^sup>*\<^sup>* s s'"
  shows "append_only s s' \<and> (\<forall>r\<in>set (rulesets s). R_Approval r \<noteq> None \<longrightarrow> r \<in> set (rulesets s'))
    \<and> (\<forall>i p. payment_by s i = Some p \<longrightarrow> (\<exists>q. payment_by s' i = Some q \<and> same_origin p q))"
  using service_run.run_before [OF assms] by (simp add: later_def)

theorem record_only_grows_witness:
  "\<exists>s s'. payments s = [in_review] \<and> decisions s = [] \<and> decisions s' \<noteq> [] \<and> append_only s s'"
proof -
  obtain s s' where s: "(pstep sample_service id Some)\<^sup>*\<^sup>* s s'" "payments s = [in_review]" "decisions s = []" "decisions s' \<noteq> []"
    using sample_decided by (metis list.discI)
  from record_only_grows [OF s(1)] show ?thesis using s by blast
qed

section \<open>Nothing waits, nothing is refused\<close>

text \<open>C6 A tick of the worker leaves no confirmed payment waiting. From any reachable database with a backlog
  of at most 50 payments (the batch of a tick; payments in review, decided or orphaned do not count, however
  many there are), if the chains and tokens of the backlog are configured with readable rates, the rulesets in force still parse, the signing keys work, and the random bytes give new
  pack ids, then the tick succeeds whatever the checks meet (failed providers included), and afterwards
  every confirmed payment is in review or decided.\<close>

theorem tick_leaves_nothing_waiting:
  assumes "reachable svc keccak b64 s" and "signs_for (S_Crypto svc) (S_Policy svc)" and "equipped svc" and "tick_ok svc env s"
    and "length (backlog s) \<le> 50"
  shows "\<exists>s' raw'. Tick svc (\<lambda>d. service_checks e d now) cenv env (s, raw) = (None, s', raw')
    \<and> (\<forall>p\<in>set (payments s'). P_Ingest p = Confirmed \<longrightarrow> P_Stage p = InReview \<or> P_Stage p = Decided)"
  by (rule tick_settles [OF reachable_inv [OF assms(1,2)] reachable_evidence [OF assms(1)] assms(2-5)])

theorem tick_leaves_nothing_waiting_witness:
  "\<forall>e cenv now raw. \<exists>s' raw'. Tick sample_service (\<lambda>d. service_checks e d now) cenv
      (\<lambda>i. \<lparr> T_Now = sample_time, T_Rnd = replicate 16 CHR ''a'', T_Fresh = id \<rparr>) (after_arrival, raw) = (None, s', raw')
    \<and> (\<forall>p\<in>set (payments s'). P_Ingest p = Confirmed \<longrightarrow> P_Stage p = InReview \<or> P_Stage p = Decided)"
proof (intro allI, rule tick_leaves_nothing_waiting)
  show "reachable sample_service id Some after_arrival" using arrived_reachable by (simp add: reachable_def)
  have "rulesetAt after_arrival t = Inr None" for t by (simp add: rulesetAt_def ruleset_row_at_def after_arrival_is empty_db_def Let_def)
  then show "tick_ok sample_service (\<lambda>i. \<lparr> T_Now = sample_time, T_Rnd = replicate 16 CHR ''a'', T_Fresh = id \<rparr>) after_arrival"
    using arrived_eur sample_ttl by (simp add: tick_ok_def backlog_def after_arrival_is empty_db_def is_ok_iff)
  show "length (backlog after_arrival) \<le> 50" by (simp add: backlog_def after_arrival_is)
qed (rule sample_signs sample_equipped)+

text \<open>C8 An officer who may decide can. If the next decision is legal for a payment with a recommendation, the
  request for the document succeeds, and a signature over exactly that document by an officer whose mask
  permits the kind, sent with a rationale within the 15 minutes the request lives, is recorded: the history
  gains this one decision with the officer's id and signature.\<close>

theorem officer_request_completes:
  assumes "reachable svc keccak b64 s" and "signs_for (S_Crypto svc) (S_Policy svc)" and "decidable svc r k s" and "ttl_fits svc now"
    and "now' \<le> now + officerRequestTTL" and "\<not> blank rationale"
    and "td = TypedData (S_Crypto svc) (P_Chain r) (P_Deposit r) (offer svc now r k s)"
    and "VerifyOfficer (S_Crypto svc) td sig k (Officers (S_Cfg svc)) = Inr o'"
  shows "\<exists>s1 out s2 row. OfficerTypedData svc now (P_ID r) k s = Inr (JSON td, s1)
    \<and> OfficerDecide svc now' fresh (P_ID r) k sig rationale s1 = Inr (out, s2)
    \<and> decisions s2 = decisions s @ [row] \<and> D_Payment row = P_ID r \<and> D_Kind row = k
    \<and> D_Officer row = Some (OfficerID o') \<and> D_Sig row = sig"
  by (rule officer_completes [OF reachable_inv [OF assms(1,2)] reachable_evidence [OF assms(1)] assms(3-8)])

theorem officer_request_completes_witness:
  "\<exists>s s1 doc out s2 row. OfficerTypedData sample_service sample_time (P_ID in_review) Credit s = Inr (doc, s1)
    \<and> OfficerDecide sample_service sample_time id (P_ID in_review) Credit officer_sig ''ok'' s1 = Inr (out, s2)
    \<and> decisions s2 = decisions s @ [row] \<and> D_Officer row = Some ''o''"
proof -
  obtain s where s: "(pstep sample_service id Some)\<^sup>*\<^sup>* empty_db s" "payment_by s (P_ID in_review) = Some in_review" "decisions s = []"
    "recommended s (P_ID in_review)"
    using sample_reviewed by blast
  have t: "sample_time \<le> sample_time + officerRequestTTL" by (simp add: officerRequestTTL_def second_def)
  from officer_request_completes [OF _ sample_signs sample_decidable [OF s(2-4)] sample_ttl t sample_rationale refl officer_sig_accepted]
  show ?thesis using s(1) by (auto simp: reachable_def) blast
qed

text \<open>The worklist is complete and holds nothing else: a confirmed payment is among the officers' cases
  exactly when it is in review, in every reachable database; in particular no payment in review is lost for
  want of a recommendation.\<close>

theorem worklist_is_complete:
  assumes "reachable svc keccak b64 s" and "signs_for (S_Crypto svc) (S_Policy svc)" and "p \<in> set (payments s)" and "P_Ingest p = Confirmed"
  shows "(\<exists>c\<in>set (Cases svc s). CasePaymentRef c = hash_hex (P_ID p)) \<longleftrightarrow> P_Stage p = InReview"
proof -
  have inv: "service_inv svc s" by (rule reachable_inv [OF assms(1,2)])
  have wf: "wf_payments s" using inv by (simp add: service_inv_def ledger_inv_def)
  have in_set: "c \<in> set (Cases svc s) \<longleftrightarrow> (\<exists>q\<in>set (payments s). in_worklist q \<and> case_of (S_Crypto svc) s q = Some c)" for c
    by (auto simp: Cases_def map_filter_def intro: rev_image_eqI)
  have same: "q = p" if "q \<in> set (payments s)" "hash_hex (P_ID q) = hash_hex (P_ID p)" for q
  proof -
    have "P_ID q = P_ID p" using that(2) by (metis hash_hex_def hex_decode_encode option.inject same_append_eq)
    then show ?thesis using that(1) assms(3) wf member_by by (metis option.inject)
  qed
  show ?thesis
  proof
    assume "\<exists>c\<in>set (Cases svc s). CasePaymentRef c = hash_hex (P_ID p)"
    then obtain c q where "q \<in> set (payments s)" "in_worklist q" "case_of (S_Crypto svc) s q = Some c" "CasePaymentRef c = hash_hex (P_ID p)"
      using in_set by blast
    then have "q \<in> set (payments s)" "hash_hex (P_ID q) = hash_hex (P_ID p)" "in_worklist q" by (auto simp: case_of_def)
    then show "P_Stage p = InReview" using same by (auto simp: in_worklist_def)
  next
    assume r: "P_Stage p = InReview"
    have "payment_by s (P_ID p) = Some p" using assms(3) wf by (simp add: member_by)
    moreover have "staged_at s (P_ID p)" using inv by (simp add: service_inv_def)
    ultimately obtain rc where "recommendation_of s (P_ID p) = Some rc" using r by (auto simp: staged_at_def stage_ok_def recommended_def)
    then obtain c where c: "case_of (S_Crypto svc) s p = Some c" "CasePaymentRef c = hash_hex (P_ID p)" by (auto simp: case_of_def)
    have "in_worklist p" using r assms(4) by (simp add: in_worklist_def)
    then show "\<exists>c\<in>set (Cases svc s). CasePaymentRef c = hash_hex (P_ID p)" using c in_set assms(3) by blast
  qed
qed

theorem worklist_is_complete_witness:
  "\<exists>s c. c \<in> set (Cases sample_service s) \<and> CasePaymentRef c = hash_hex (P_ID in_review)"
proof -
  obtain s where s: "reachable sample_service id Some s" "payments s = [in_review]" using sample_decided by blast
  have "P_Stage in_review = InReview" "P_Ingest in_review = Confirmed" by (simp_all add: in_review_def arrived_sel)
  then show ?thesis using worklist_is_complete [OF s(1) sample_signs, of in_review] s(2) by auto
qed

section \<open>Disclosure\<close>

lemma stored_sound: "reachable svc keccak b64 s \<Longrightarrow> k \<in> set (packs s) \<Longrightarrow> pack_stored (K_Pack k)"
  using reachable_evidence by (auto simp: evidence_inv_def)

lemma pack_versions_unique:
  assumes "service_inv svc s" and "k \<in> set (packs s)" and "k' \<in> set (packs s)" and "PackID (K_Pack k') = PackID (K_Pack k)"
    and "Version (K_Pack k') = Version (K_Pack k)"
  shows "K_Pack k' = K_Pack k"
proof -
  have b: "bound s" and v: "versioned s" using assms(1) by (simp_all add: service_inv_def ledger_inv_def)
  obtain sn where sn: "snapshot_of s (K_Payment k) = Some sn" "PackID (K_Pack k) = S_PackID sn" using b assms(2) by (auto simp: bound_def)
  have e: "filter (\<lambda>p. PackID p = S_PackID sn) (map K_Pack (packs s)) = packs_of s (K_Payment k)" by (rule bound_packs [OF b sn(1)])
  have "K_Pack k \<in> set (packs_of s (K_Payment k))" "K_Pack k' \<in> set (packs_of s (K_Payment k))"
    unfolding e [symmetric] using assms(2-4) sn(2) by simp_all
  moreover have "map Version (packs_of s (K_Payment k)) = map int [1..<Suc (length (packs_of s (K_Payment k)))]"
    using v by (simp only: versioned_def)
  then have "distinct (map Version (packs_of s (K_Payment k)))" by (simp add: distinct_map del: upt_Suc)
  ultimately show ?thesis using assms(5) by (simp add: distinct_map inj_on_def)
qed

lemma LoadPack_total: "k \<in> set (packs s) \<Longrightarrow> PackID (K_Pack k) = packID \<Longrightarrow> uuidRE packID \<Longrightarrow> is_ok (LoadPack svc s packID 0)"
proof -
  assume k: "k \<in> set (packs s)" "PackID (K_Pack k) = packID" "uuidRE packID"
  then have "K_Pack k \<in> set (sort_key Version (filter (\<lambda>p. PackID p = packID) (map K_Pack (packs s))))" by simp
  then have "sort_key Version (filter (\<lambda>p. PackID p = packID) (map K_Pack (packs s))) \<noteq> []" by (metis empty_iff list.set(1))
  then show ?thesis using k(3) by (auto simp: LoadPack_def is_ok_iff split: list.split)
qed

text \<open>C7 Every stored pack can be disclosed, and every disclosure verifies and is logged. In a reachable
  database, a request for a known profile that the latest version of a pack does not refuse, naming a
  recipient and a purpose, always gets a copy; the independent verifier accepts it; the log gains exactly
  one row, with the latest version and the hash the recipient recomputes from the copy; and nothing else
  changes.\<close>

theorem disclosure_verifies_and_is_logged:
  assumes "reachable svc keccak b64 s" and "signs_for (S_Crypto svc) (S_Policy svc)" and "k \<in> set (packs s)" and "PackID (K_Pack k) = packID" and "uuidRE packID"
    and "\<And>k'. k' \<in> set (packs s) \<Longrightarrow> PackID (K_Pack k') = packID \<Longrightarrow> Version (K_Pack k') \<le> Version (K_Pack k)"
    and "map_of (RefusedProfiles (K_Pack k)) (Profile r) = None" and "map_of Profiles (Profile r) \<noteq> None" and "\<not> blank (PreparedFor r)" and "\<not> blank (Purpose r)"
  shows "\<exists>copy b. ProjectPack svc now packID r s = Inr (copy, s\<lparr>projections := projections s @ [\<lparr> J_PackID = packID,
        J_Version = Version (K_Pack k), J_Profile = Profile r, J_For = PreparedFor r, J_Purpose = Purpose r, J_Hash = SHA b \<rparr>]\<rparr>)
    \<and> (\<forall>fl. check_copy fl copy = Some (True, True, True)) \<and> canon (JObj (filter (\<lambda>(f, _). f \<noteq> ''integrity'') copy)) = Inr b"
proof -
  have "is_ok (LoadPack svc s packID 0)" by (rule LoadPack_total [OF assms(3-5)])
  then obtain pk where l: "LoadPack svc s packID 0 = Inr pk" by (auto simp: is_ok_iff)
  then obtain k' where k': "k' \<in> set (packs s)" "PackID (K_Pack k') = packID" "pk = (K_Pack k')\<lparr>PackKID := KID (S_Evidence svc)\<rparr>"
    and last: "\<And>x. x \<in> set (packs s) \<Longrightarrow> PackID (K_Pack x) = packID \<Longrightarrow> Version (K_Pack x) \<le> Version (K_Pack k')"
    by (rule LoadPack_latest) blast
  have "Version (K_Pack k') = Version (K_Pack k)" using last [OF assms(3,4)] assms(6) [OF k'(1,2)] by simp
  then have "K_Pack k' = K_Pack k"
    using pack_versions_unique [OF reachable_inv [OF assms(1,2)] assms(3) k'(1)] k'(2) assms(4) by simp
  then have pk: "pk = (K_Pack k)\<lparr>PackKID := KID (S_Evidence svc)\<rparr>" using k'(3) by simp
  have sound: "pack_sound pk" using stored_sound [OF assms(1,3)] by (simp add: pk pack_stored_def pack_sound_def)
  obtain copy where copy: "Project pk r (rfc3339 now) = Inr copy" using Project_total [OF sound assms(8-10)] by blast
  then obtain b where b: "canon (JObj (filter (\<lambda>(f, _). f \<noteq> ''integrity'') copy)) = Inr b" "stated_hash copy = SHA b"
    by (rule Project_stated_hash)
  obtain paths where "map_of Profiles (Profile r) = Some paths" using assms(8) by blast
  moreover have "map_of (RefusedProfiles pk) (Profile r) = None" "Version pk = Version (K_Pack k)" using assms(7) by (simp_all add: pk)
  ultimately have "ProjectPack svc now packID r s = Inr (copy, s\<lparr>projections := projections s @ [\<lparr> J_PackID = packID,
        J_Version = Version (K_Pack k), J_Profile = Profile r, J_For = PreparedFor r, J_Purpose = Purpose r, J_Hash = SHA b \<rparr>]\<rparr>)"
    by (simp add: ProjectPack_def l copy b(2))
  then show ?thesis using b(1) copy_verifies [OF sound copy] by blast
qed


theorem disclosure_verifies_and_is_logged_witness:
  "\<exists>s packID copy s'. ProjectPack sample_service sample_time packID \<lparr> Profile = ''AUDITOR'', PreparedFor = ''Auditor'', Purpose = ''audit'' \<rparr> s
      = Inr (copy, s') \<and> length (projections s') = Suc (length (projections s)) \<and> (\<forall>fl. check_copy fl copy = Some (True, True, True))"
proof -
  let ?r = "\<lparr> Profile = ''AUDITOR'', PreparedFor = ''Auditor'', Purpose = ''audit'' \<rparr>"
  obtain s k where s: "reachable sample_service id Some s" "packs s = [k]" "PackID (K_Pack k) = sample_pack_id"
    using sample_pack by blast
  have u: "uuidRE sample_pack_id" by code_simp
  have r: "map_of (RefusedProfiles (K_Pack k)) (Profile ?r) = None" by (simp add: RefusedProfiles_def)
  have p: "map_of Profiles (Profile ?r) \<noteq> None" "\<not> blank (PreparedFor ?r)" "\<not> blank (Purpose ?r)" 
    by (simp_all add: Profiles_def not_blank_letter ascii_def)
  have k: "k \<in> set (packs s)" "\<And>k'. k' \<in> set (packs s) \<Longrightarrow> PackID (K_Pack k') = sample_pack_id
      \<Longrightarrow> Version (K_Pack k') \<le> Version (K_Pack k)" by (simp_all add: s)
  obtain copy b where "ProjectPack sample_service sample_time (sample_pack_id) ?r s = Inr (copy, s\<lparr>projections := projections s
      @ [\<lparr> J_PackID = sample_pack_id, J_Version = Version (K_Pack k), J_Profile = Profile ?r, J_For = PreparedFor ?r,
          J_Purpose = Purpose ?r, J_Hash = SHA b \<rparr>]\<rparr>)"
    and "(\<forall>fl. check_copy fl copy = Some (True, True, True))"
    using disclosure_verifies_and_is_logged [OF s(1) sample_signs k(1) s(3) u k(2) r p] by blast
  then show ?thesis by (intro exI conjI) (assumption, simp_all)
qed

section \<open>The interface\<close>

definition sample_server :: server where
  "sample_server = \<lparr> SrvPipeline = sample_service, SrvToken = ''t'', SrvHealth = (\<lambda>_. JNull), ErrText = (\<lambda>e. ''failed'') \<rparr>"

definition sample_request :: "string \<Rightarrow> request" where
  "sample_request token = \<lparr> RqMethod = ''GET'', RqPath = [''v1'', ''cases''], RqAuth = ''Bearer '' @ token, RqQuery = [], RqBody = [] \<rparr>"

definition sample_env :: req_env where
  "sample_env = \<lparr> E_Now = sample_time, E_Fresh = id \<rparr>"

section \<open>The process\<close>

definition sample_host :: host where
  "sample_host = \<lparr> H_Read = (\<lambda>path. Some ''file''), H_Open = (\<lambda>url. True), H_Hex = (\<lambda>t. Some (S_Policy sample_service)),
     H_Parsers = \<lparr> pem_block = Some, parse_pkcs8 = (\<lambda>b. Some (ECDSAKey \<lparr> OnP256 = True, ec_sign = ecdsa_sign (S_Evidence sample_service) \<rparr>)),
        parse_sec1 = (\<lambda>b. None) \<rparr>,
     H_Dial = (\<lambda>url. True), H_Listen = (\<lambda>addr. True), H_Crypto = sample_crypto, H_Build = None, H_ErrText = (\<lambda>e. ''failed'') \<rparr>"

definition sample_process :: "raw_store \<Rightarrow> process" where
  "sample_process raw = \<lparr> Pr_Svc = sample_service, Pr_DB = empty_db, Pr_Raw = raw, Pr_Lists = [], Pr_Worker = Waiting, Pr_Hint = HintDisabled \<rparr>"

lemma sample_Run: "Run sample_host now sample_config (empty_db, raw) = (Inr (sample_process raw), empty_db)"
proof -
  have "LoadFileSigner (H_Hex sample_host) (H_Read sample_host) path = Inr (S_Policy sample_service)" for path
    by (simp add: LoadFileSigner_def sample_host_def Let_def)
  moreover have "LoadJWSSigner (H_Parsers sample_host) (H_Read sample_host) path ''k'' = Inr (S_Evidence sample_service)" for path
    by (simp add: LoadJWSSigner_def sample_host_def sample_service_def Let_def)
  moreover have "SanctionsLists sample_config = []" "EvidenceKID sample_config = ''k''" "NATSURL sample_config = []"
    by (simp_all add: sample_config_def)
  moreover have "find_first (\<lambda>ch. \<not> H_Dial sample_host (RPC ch)) cs = None" for cs :: "chain list"
    by (simp add: sample_host_def find_first_None_iff)
  moreover have "H_Open sample_host url" "H_Listen sample_host url" "H_Crypto sample_host = sample_crypto" "EngineVersion (H_Build sample_host) = ''deflow-core@dev''" for url
    by (simp_all add: sample_host_def EngineVersion_def)
  moreover have "\<lparr> S_Cfg = sample_config, S_Policy = S_Policy sample_service, S_Evidence = S_Evidence sample_service,
      S_Crypto = sample_crypto, S_Engine = ''deflow-core@dev'' \<rparr> = sample_service"
    by (simp add: sample_service_def)
  ultimately show ?thesis by (simp add: Run_def Load_def hint_status_def sample_process_def)
qed

text \<open>C13 The running process is the service. Whatever process a start gives, and however its goroutines then
  interleave (consumer messages, reconciler steps, the worker's moves with rows it read earlier, requests,
  reloads of the lists), its database is one the service reaches by its own steps, so everything that holds
  of reachable databases holds of it; and screening always has every configured list in memory, all read
  from one state of the files, a failed reload included.\<close>

theorem process_is_the_service:
  assumes "Run h now c (s0, raw) = (Inr p, s)" and "reachable (Pr_Svc p) keccak b64 s0"
  shows "reachable (Pr_Svc p) keccak b64 (Pr_DB (happens keccak b64 errs evs p))
    \<and> has_lists c (Pr_Lists (happens keccak b64 errs evs p))"
  using proc_inv_happens [OF proc_inv_Run [OF assms], of errs evs] Run_parts(1) [OF assms(1)] by (simp add: proc_inv_def)

theorem process_is_the_service_witness:
  "reachable sample_service id Some (Pr_DB (happens id Some (\<lambda>e. ''failed'') [Reconcile 1 (sample_eth 10), Reconcile 1 (sample_eth 20)]
     (sample_process [])))
   \<and> has_lists sample_config (Pr_Lists (happens id Some (\<lambda>e. ''failed'') [Reconcile 1 (sample_eth 10), Reconcile 1 (sample_eth 20)]
     (sample_process [])))"
proof -
  have "reachable (Pr_Svc (sample_process [])) id Some empty_db" by (simp add: reachable_def)
  from process_is_the_service [OF sample_Run [of sample_time] this] show ?thesis by (simp add: sample_process_def)
qed

text \<open>The running process settles its backlog by the moves of its worker: undisturbed, they come back to
  waiting with every confirmed payment in review or decided.\<close>

theorem worker_settles_backlog:
  assumes "proc_inv keccak b64 p" and "Pr_Worker p = Waiting" and "signs_for (S_Crypto (Pr_Svc p)) (S_Policy (Pr_Svc p))"
    and "equipped (Pr_Svc p)" and "tick_ok (Pr_Svc p) (WE_Step e) (Pr_DB p)" and "length (backlog (Pr_DB p)) \<le> 50"
  shows "\<exists>n s raw. happens keccak b64 text (replicate n (Work e)) p = p\<lparr>Pr_DB := s, Pr_Raw := raw\<rparr>
    \<and> (\<forall>q\<in>set (payments s). P_Ingest q = Confirmed \<longrightarrow> P_Stage q = InReview \<or> P_Stage q = Decided)"
proof -
  have r: "reachable (Pr_Svc p) keccak b64 (Pr_DB p)" using assms(1) by (simp add: proc_inv_def)
  obtain s raw where t: "Tick (Pr_Svc p) (checks_now e p) (WE_Checks e) (WE_Step e) (Pr_DB p, Pr_Raw p) = (None, s, raw)"
    and q: "\<forall>q\<in>set (payments s). P_Ingest q = Confirmed \<longrightarrow> P_Stage q = InReview \<or> P_Stage q = Decided"
    using tick_settles [OF reachable_inv [OF r assms(3)] reachable_evidence [OF r] assms(3-6)] unfolding checks_now_def by blast
  obtain n where n: "(work e ^^ n) p = p\<lparr>Pr_DB := s, Pr_Raw := raw\<rparr>" using work_is_Tick [OF assms(2) t] by blast
  have "happens keccak b64 text (replicate n (Work e)) p = (work e ^^ n) p" for n
    unfolding happens_def by (induction n arbitrary: p) (simp_all add: happen_def funpow_Suc_right del: funpow.simps)
  from this [of n] n q show ?thesis by (intro exI [of _ n] exI [of _ s] exI [of _ raw]) simp
qed

text \<open>C33 The service only runs on a configuration that is ready: whatever file loads, the result has passed every
  validation (an API token, an MLRO, distinct non-zero chain ids, tokens with a readable positive rate,
  deposit addresses with a merchant, officers with an id and a mask of the four decisions), every default is in place,
  and no interval or block range is zero (a negative interval is not refused).\<close>

theorem loaded_config_ready: "LoadConfig fr read path = Inr c \<Longrightarrow> config_ready c"
  by (rule LoadConfig_ready)

lemma sample_writable: "config_writable sample_config" "Validate sample_config = []" "defaults sample_config = sample_config"
proof -
  have "valid_utf8 ''db''" "valid_utf8 '':1''" "valid_utf8 ''t''" "valid_utf8 ''d''" "valid_utf8 ''P''" "valid_utf8 ''c''" "valid_utf8 ''r''"
    "valid_utf8 ''EURC''" "valid_utf8 ''1.00''" "valid_utf8 ''f''" "valid_utf8 ''m''" "valid_utf8 ''p''" "valid_utf8 ''e''" "valid_utf8 ''k''"
    "valid_utf8 ''o''" "valid_utf8 ''g''" "valid_utf8 []"
    by (intro ascii_valid, simp add: ascii_def)+
  then show "config_writable sample_config"
    by (simp add: config_writable_def sample_config_def dur_ok_def texts_ok_def chain_writable_def token_writable_def deposit_writable_def
        officer_writable_def second_def)
  show "Validate sample_config = []" by (rule sample_config_valid)
  show "defaults sample_config = sample_config"
    by (simp add: sample_config_def defaults_def str_default_def dur_default_def chain_defaults_def second_def)
qed

theorem loaded_config_ready_witness: "\<forall>fr. \<exists>read. LoadConfig fr read ''c'' = Inr sample_config \<and> config_ready sample_config"
proof
  fix fr
  obtain raw where "\<forall>read. read ''c'' = Some raw \<longrightarrow> LoadConfig fr read ''c'' = Inr sample_config"
    using LoadConfig_reads [OF sample_writable, of "''c''" fr] by blast
  then have l: "LoadConfig fr (\<lambda>path. Some raw) ''c'' = Inr sample_config" by (elim allE [of _ "\<lambda>path. Some raw"]) simp
  then show "\<exists>read. LoadConfig fr read ''c'' = Inr sample_config \<and> config_ready sample_config" using loaded_config_ready [OF l] by blast
qed

text \<open>C32 A configuration reads back as written: for every valid configuration with its defaults in place, text in
  UTF-8 and durations that are not negative, the canonical JSON document of its fields is a file that \<open>Load\<close>
  turns into exactly this configuration.\<close>

theorem config_file_round_trip:
  assumes "config_writable c" and "Validate c = []" and "defaults c = c"
  shows "\<exists>raw. canon (config_doc c) = Inr raw \<and> LoadConfig fr (\<lambda>p. if p = path then Some raw else None) path = Inr c"
proof -
  obtain raw where "canon (config_doc c) = Inr raw" "\<forall>read. read path = Some raw \<longrightarrow> LoadConfig fr read path = Inr c"
    using LoadConfig_reads [OF assms] by blast
  then show ?thesis by (intro exI [of _ raw]) simp
qed

theorem config_file_round_trip_witness:
  "\<forall>fr. \<exists>raw. canon (config_doc sample_config) = Inr raw
     \<and> LoadConfig fr (\<lambda>p. if p = ''config.json'' then Some raw else None) ''config.json'' = Inr sample_config"
  using config_file_round_trip [OF sample_writable] by blast

section \<open>Requests\<close>

text \<open>C16 Without the API token nothing changes and only the health report is answered: a request to the running
  process with any other Authorization header leaves the process as it was; off /healthz it gets 401, 404 or
  405, the same answer whatever the database holds; and of the database the open health report shows nothing
  but how far the reconcilers have come, so with the same cursors the answer on /healthz is the same too.\<close>

theorem token_required:
  assumes "RqAuth rq \<noteq> ''Bearer '' @ APIToken (S_Cfg (Pr_Svc p))"
  shows "snd (called text env up clients rq p) = p
    \<and> (RqPath rq \<noteq> [''healthz''] \<longrightarrow> status_code (fst (called text env up clients rq p)) \<in> {401, 404, 405})
    \<and> (RqPath rq \<noteq> [''healthz''] \<or> cursors s' = cursors (Pr_DB p)
        \<longrightarrow> fst (called text env up clients rq (p\<lparr>Pr_DB := s'\<rparr>)) = fst (called text env up clients rq p))"
  using called_refused [OF assms] by blast

theorem token_required_witness:
  "fst (called (\<lambda>e. ''failed'') sample_env True (\<lambda>c. sample_eth 10) (sample_request ''guess'') ((sample_process [])\<lparr>Pr_DB := after_arrival\<rparr>))
     = fst (called (\<lambda>e. ''failed'') sample_env True (\<lambda>c. sample_eth 10) (sample_request ''guess'') (sample_process []))
   \<and> status_code (fst (called (\<lambda>e. ''failed'') sample_env True (\<lambda>c. sample_eth 10) (sample_request ''guess'') (sample_process []))) \<in> {401, 404, 405}"
proof -
  have "RqAuth (sample_request ''guess'') \<noteq> ''Bearer '' @ APIToken (S_Cfg (Pr_Svc (sample_process [])))" "RqPath (sample_request ''guess'') \<noteq> [''healthz'']"
    by (simp_all add: sample_request_def sample_process_def sample_service_def sample_config_def)
  with token_required [OF this(1), of "\<lambda>e. ''failed''" sample_env True "\<lambda>c. sample_eth 10" after_arrival] show ?thesis by simp
qed

text \<open>C20 A failed request changes nothing: whatever the request, an error status means the database is as
  it was (so no decision, approval or disclosure is recorded that the caller was not told of), and an
  internal error's response is the same fixed text.\<close>

theorem failed_request_changes_nothing:
  "(400 \<le> status_code (fst (Handler srv env rq s)) \<longrightarrow> snd (Handler srv env rq s) = s)
   \<and> (500 \<le> status_code (fst (Handler srv env rq s)) \<longrightarrow> fst (Handler srv env rq s) = fail 500 ''internal'' ''internal error'')"
  using Handler_clean [of s srv env rq] by (simp add: clean_failure_def)

theorem failed_request_changes_nothing_witness:
  "status_code (fst (Handler sample_server sample_env (sample_request ''guess'') after_arrival)) = 401
   \<and> snd (Handler sample_server sample_env (sample_request ''guess'') after_arrival) = after_arrival"
proof -
  have "status_code (fst (Handler sample_server sample_env (sample_request ''guess'') after_arrival)) = 401"
    by (simp add: Handler_def route_def auth_refused sample_request_def sample_server_def fail_def write_json_def)
  then show ?thesis using failed_request_changes_nothing [of sample_server sample_env "sample_request ''guess''" after_arrival] by simp
qed

end
